(* ===== verification/Prelude.thy ===== *)
theory Prelude
  imports Main "HOL-Library.Word"
begin

text \<open>
  Shared vocabulary of the development: the machine integers of the Go sources, byte strings and
  their little- and big-endian readings (package \<open>encoding/binary\<close>), Go slices, and the parts of
  \<open>strconv\<close>, \<open>strings\<close> and \<open>encoding/hex\<close> that the device configuration code uses. Go strings are
  byte strings, so they are modelled by \<open>string\<close>, whose characters are bytes.
\<close>

unbundle bit_operations_syntax

section \<open>Machine integers and byte strings\<close>

type_synonym byte = "8 word"
type_synonym u16 = "16 word"
type_synonym u32 = "32 word"
type_synonym u64 = "64 word"
type_synonym bytes = "byte list"

named_theorems codec \<open>round trips and lengths of the byte codecs\<close>
named_theorems strconv \<open>round trips of the textual number formats\<close>

primrec le_nat :: "bytes \<Rightarrow> nat" where
  "le_nat [] = 0"
| "le_nat (b # bs) = unat b + 256 * le_nat bs"

primrec nat_le :: "nat \<Rightarrow> nat \<Rightarrow> bytes" where
  "nat_le 0 v = []"
| "nat_le (Suc n) v = word_of_nat v # nat_le n (v div 256)"

definition be_nat :: "bytes \<Rightarrow> nat" where
  "be_nat bs = le_nat (rev bs)"

definition nat_be :: "nat \<Rightarrow> nat \<Rightarrow> bytes" where
  "nat_be n v = rev (nat_le n v)"

lemma length_nat_le [simp, codec]: "length (nat_le n v) = n"
  by (induction n arbitrary: v) auto

lemma length_nat_be [simp, codec]: "length (nat_be n v) = n"
  by (simp add: nat_be_def)

lemma le_nat_nat_le [simp, codec]: "le_nat (nat_le n v) = v mod 256 ^ n"
proof (induction n arbitrary: v)
  case 0
  then show ?case by simp
next
  case (Suc n)
  have "v mod 256 + 256 * (v div 256 mod 256 ^ n) = v mod (256 * 256 ^ n)"
    by (simp add: mod_mult2_eq)
  with Suc show ?case by (simp add: unat_of_nat)
qed

lemma be_nat_nat_be [simp, codec]: "be_nat (nat_be n v) = v mod 256 ^ n"
  by (simp add: be_nat_def nat_be_def)

lemma unat_byte_less [simp]: "unat (b :: byte) < 256"
  using unsigned_less [of b, where ?'a = nat] by simp

lemma le_nat_less: "le_nat bs < 256 ^ length bs"
proof (induction bs)
  case Nil
  then show ?case by simp
next
  case (Cons b bs)
  have "unat b < 256" by simp
  with Cons have "unat b + 256 * le_nat bs < 256 + 256 * (256 ^ length bs - 1)"
    by (intro add_less_le_mono mult_le_mono) auto
  then show ?case by (simp add: right_diff_distrib')
qed

lemma be_nat_less: "be_nat bs < 256 ^ length bs"
  using le_nat_less [of "rev bs"] by (simp add: be_nat_def)

lemma nat_le_le_nat [simp, codec]: "nat_le (length bs) (le_nat bs) = bs"
proof (induction bs)
  case Nil
  then show ?case by simp
next
  case (Cons b bs)
  have "(unat b + 256 * le_nat bs) div 256 = le_nat bs"
    by (simp add: div_add1_eq)
  moreover have "word_of_nat (unat b + 256 * le_nat bs) = b"
  proof -
    have z: "(256 :: byte) = 0" by simp
    show ?thesis by (simp only: of_nat_add of_nat_mult of_nat_numeral z) simp
  qed
  ultimately show ?case using Cons by simp
qed

lemma le_nat_inject: "length xs = length ys \<Longrightarrow> le_nat xs = le_nat ys \<longleftrightarrow> xs = ys"
  by (metis nat_le_le_nat)

lemma be_nat_inject: "length xs = length ys \<Longrightarrow> be_nat xs = be_nat ys \<longleftrightarrow> xs = ys"
  by (simp add: be_nat_def le_nat_inject)

lemma le_nat_append: "le_nat (xs @ ys) = le_nat xs + 256 ^ length xs * le_nat ys"
  by (induction xs) (auto simp: algebra_simps)

lemma be_nat_append: "be_nat (xs @ ys) = be_nat xs * 256 ^ length ys + be_nat ys"
  by (simp add: be_nat_def le_nat_append algebra_simps)

lemma be_nat_Nil [simp]: "be_nat [] = 0"
  by (simp add: be_nat_def)

lemma be_nat_Cons [simp]: "be_nat (b # bs) = unat b * 256 ^ length bs + be_nat bs"
  by (simp add: be_nat_def le_nat_append)

text \<open>\<open>binary.LittleEndian\<close> and \<open>binary.BigEndian\<close> on the widths the code uses. The readers look
  at the first 2, 4 or 8 bytes of their slice; callers hold the slice's length.\<close>

definition put_u32_le :: "u32 \<Rightarrow> bytes" where "put_u32_le w = nat_le 4 (unat w)"
definition put_u64_le :: "u64 \<Rightarrow> bytes" where "put_u64_le w = nat_le 8 (unat w)"
definition get_u32_le :: "bytes \<Rightarrow> u32" where "get_u32_le bs = word_of_nat (le_nat (take 4 bs))"
definition get_u64_le :: "bytes \<Rightarrow> u64" where "get_u64_le bs = word_of_nat (le_nat (take 8 bs))"
definition put_u16_be :: "u16 \<Rightarrow> bytes" where "put_u16_be w = nat_be 2 (unat w)"
definition put_u32_be :: "u32 \<Rightarrow> bytes" where "put_u32_be w = nat_be 4 (unat w)"
definition put_u64_be :: "u64 \<Rightarrow> bytes" where "put_u64_be w = nat_be 8 (unat w)"
definition get_u16_be :: "bytes \<Rightarrow> u16" where "get_u16_be bs = word_of_nat (be_nat (take 2 bs))"
definition get_u32_be :: "bytes \<Rightarrow> u32" where "get_u32_be bs = word_of_nat (be_nat (take 4 bs))"
definition get_u64_be :: "bytes \<Rightarrow> u64" where "get_u64_be bs = word_of_nat (be_nat (take 8 bs))"

lemma length_put [simp, codec]:
  "length (put_u32_le a) = 4" "length (put_u64_le b) = 8" "length (put_u16_be c) = 2"
  "length (put_u32_be a) = 4" "length (put_u64_be b) = 8"
  by (simp_all add: put_u32_le_def put_u64_le_def put_u16_be_def put_u32_be_def put_u64_be_def)

lemma unat_u16_less: "unat (w :: u16) < 65536"
  using unsigned_less [of w, where ?'a = nat] by simp

lemma unat_u32_less: "unat (w :: u32) < 4294967296"
  using unsigned_less [of w, where ?'a = nat] by simp

lemma unat_u64_less: "unat (w :: u64) < 18446744073709551616"
  using unsigned_less [of w, where ?'a = nat] by simp

lemma get_put_u32_le [simp, codec]: "get_u32_le (put_u32_le w @ bs) = w"
  using unat_u32_less [of w] by (simp add: get_u32_le_def put_u32_le_def)

lemma get_put_u64_le [simp, codec]: "get_u64_le (put_u64_le w @ bs) = w"
  using unat_u64_less [of w] by (simp add: get_u64_le_def put_u64_le_def)

lemma get_put_u16_be [simp, codec]: "get_u16_be (put_u16_be w @ bs) = w"
  using unat_u16_less [of w] by (simp add: get_u16_be_def put_u16_be_def)

lemma get_put_u32_be [simp, codec]: "get_u32_be (put_u32_be w @ bs) = w"
  using unat_u32_less [of w] by (simp add: get_u32_be_def put_u32_be_def)

lemma get_put_u64_be [simp, codec]: "get_u64_be (put_u64_be w @ bs) = w"
  using unat_u64_less [of w] by (simp add: get_u64_be_def put_u64_be_def)

text \<open>The slice \<open>s[i:j]\<close> of a byte string, for \<open>i \<le> j \<le> len(s)\<close>.\<close>

definition go_slice :: "nat \<Rightarrow> nat \<Rightarrow> 'a list \<Rightarrow> 'a list" where
  "go_slice i j s = take (j - i) (drop i s)"

lemma length_go_slice [simp]: "length (go_slice i j s) = min (length s) j - i"
  by (auto simp: go_slice_def)

text \<open>\<open>copy(dst, src)\<close> overwrites the first \<open>min (len dst) (len src)\<close> elements of \<open>dst\<close>.\<close>

definition copy_into :: "'a list \<Rightarrow> 'a list \<Rightarrow> 'a list" where
  "copy_into dst src = take (length dst) src @ drop (length src) dst"

lemma length_copy_into [simp]: "length (copy_into dst src) = length dst"
  by (auto simp: copy_into_def)

text \<open>Go's integer division truncates towards zero; the sign of \<open>%\<close> is that of the dividend.\<close>

definition go_div :: "int \<Rightarrow> int \<Rightarrow> int" where
  "go_div a b = sgn a * sgn b * (\<bar>a\<bar> div \<bar>b\<bar>)"

definition go_mod :: "int \<Rightarrow> int \<Rightarrow> int" where
  "go_mod a b = a - b * go_div a b"

lemma go_div_nonneg [simp]: "0 \<le> a \<Longrightarrow> 0 < b \<Longrightarrow> go_div a b = a div b"
  by (cases "a = 0") (auto simp: go_div_def)

lemma go_mod_nonneg [simp]: "0 \<le> a \<Longrightarrow> 0 < b \<Longrightarrow> go_mod a b = a mod b"
  by (simp add: go_mod_def minus_mult_div_eq_mod)

text \<open>The bytes \<open>crypto/rand\<close> will deliver, and reading \<open>n\<close> of them.\<close>

type_synonym rng = "nat \<Rightarrow> byte"

definition rand_read :: "nat \<Rightarrow> rng \<Rightarrow> bytes \<times> rng" where
  "rand_read n r = (map r [0..<n], \<lambda>i. r (n + i))"

lemma length_rand_read [simp]: "length (fst (rand_read n r)) = n"
  by (simp add: rand_read_def)

section \<open>Base 64\<close>

text \<open>\<open>base64.RawStdEncoding\<close>: the standard alphabet without padding. Decoding skips line breaks and
  stops at the first incomplete or invalid quantum; what it has decoded until then is kept.\<close>

definition b64_char :: "nat \<Rightarrow> byte" where
  "b64_char v = word_of_nat (if v < 26 then 65 + v else if v < 52 then 71 + v
     else if v < 62 then v - 4 else if v = 62 then 43 else 47)"

definition b64_val :: "byte \<Rightarrow> nat option" where
  "b64_val b = (let n = unat b in
     if 65 \<le> n \<and> n \<le> 90 then Some (n - 65)
     else if 97 \<le> n \<and> n \<le> 122 then Some (n - 71)
     else if 48 \<le> n \<and> n \<le> 57 then Some (n + 4)
     else if n = 43 then Some 62 else if n = 47 then Some 63 else None)"

fun b64_encode :: "bytes \<Rightarrow> bytes" where
  "b64_encode [] = []"
| "b64_encode [a] = [b64_char (unat a div 4), b64_char (unat a mod 4 * 16)]"
| "b64_encode [a, b] =
     [b64_char (unat a div 4), b64_char (unat a mod 4 * 16 + unat b div 16), b64_char (unat b mod 16 * 4)]"
| "b64_encode (a # b # c # bs) =
     [b64_char (unat a div 4), b64_char (unat a mod 4 * 16 + unat b div 16),
      b64_char (unat b mod 16 * 4 + unat c div 64), b64_char (unat c mod 64)] @ b64_encode bs"

fun b64_quanta :: "bytes \<Rightarrow> bytes" where
  "b64_quanta (w # x # y # z # r) =
     (case (b64_val w, b64_val x, b64_val y, b64_val z) of
        (Some p, Some q, Some s, Some t) \<Rightarrow>
          [word_of_nat (p * 4 + q div 16), word_of_nat (q mod 16 * 16 + s div 4), word_of_nat (s mod 4 * 64 + t)]
            @ b64_quanta r
      | _ \<Rightarrow> [])"
| "b64_quanta [w, x, y] =
     (case (b64_val w, b64_val x, b64_val y) of
        (Some p, Some q, Some s) \<Rightarrow> [word_of_nat (p * 4 + q div 16), word_of_nat (q mod 16 * 16 + s div 4)]
      | _ \<Rightarrow> [])"
| "b64_quanta [w, x] =
     (case (b64_val w, b64_val x) of (Some p, Some q) \<Rightarrow> [word_of_nat (p * 4 + q div 16)] | _ \<Rightarrow> [])"
| "b64_quanta _ = []"

definition b64_decode :: "bytes \<Rightarrow> bytes" where
  "b64_decode bs = b64_quanta (filter (\<lambda>b. b \<noteq> 10 \<and> b \<noteq> 13) bs)"

definition EncodedLen :: "int \<Rightarrow> int" where
  "EncodedLen n = go_div n 3 * 4 + go_div (go_mod n 3 * 8 + 5) 6"

definition DecodedLen :: "int \<Rightarrow> int" where
  "DecodedLen n = go_div n 4 * 3 + go_div (go_mod n 4 * 6) 8"

lemma b64_val_char [simp]: "v < 64 \<Longrightarrow> b64_val (b64_char v) = Some v"
  by (auto simp: b64_val_def b64_char_def unat_of_nat Let_def)

lemma b64_char_no_break: "v < 64 \<Longrightarrow> b64_char v \<noteq> 10 \<and> b64_char v \<noteq> 13"
  using b64_val_char [of v] by (auto simp: b64_val_def)

lemma byte_div_mod_less [simp]:
  "unat (a :: byte) div 4 < 64" "unat (a :: byte) div 16 < 16" "unat (a :: byte) div 64 < 4"
  by (simp_all add: less_mult_imp_div_less)

lemma b64_sextets [simp]:
  "unat (a :: byte) mod 4 * 16 + unat (b :: byte) div 16 < 64"
  "unat (b :: byte) mod 16 * 4 + unat (c :: byte) div 64 < 64"
  "unat (a :: byte) mod 4 * 16 < 64" "unat (b :: byte) mod 16 * 4 < 64"
proof -
  have "unat a mod 4 < 4" "unat b mod 16 < 16" by simp_all
  then show "unat a mod 4 * 16 + unat b div 16 < 64" "unat b mod 16 * 4 + unat c div 64 < 64"
    "unat a mod 4 * 16 < 64" "unat b mod 16 * 4 < 64"
    using byte_div_mod_less [of b] byte_div_mod_less [of c] by linarith+
qed

lemma b64_encode_no_break: "filter (\<lambda>b. b \<noteq> 10 \<and> b \<noteq> 13) (b64_encode bs) = b64_encode bs"
  by (induction bs rule: b64_encode.induct) (simp_all add: b64_char_no_break)

lemma b64_joins [simp]:
  "unat (a :: byte) div 4 * 4 + (unat a mod 4 * 16 + unat (b :: byte) div 16) div 16 = unat a"
  "(unat (a :: byte) mod 4 * 16 + unat (b :: byte) div 16) mod 16 * 16
     + (unat b mod 16 * 4 + unat (c :: byte) div 64) div 4 = unat b"
  "(unat (b :: byte) mod 16 * 4 + unat (c :: byte) div 64) mod 4 * 64 + unat c mod 64 = unat c"
  using byte_div_mod_less [of b] byte_div_mod_less [of c] by simp_all

lemma b64_quanta_encode: "b64_quanta (b64_encode bs) = bs"
  by (induction bs rule: b64_encode.induct) simp_all

lemma b64_decode_encode [simp, codec]: "b64_decode (b64_encode bs) = bs"
  by (simp add: b64_decode_def b64_encode_no_break b64_quanta_encode)

lemma length_b64_encode: "int (length (b64_encode bs)) = EncodedLen (int (length bs))"
proof (induction bs rule: b64_encode.induct)
  case (4 a b c bs)
  have "(3 + int (length bs)) div 3 = 1 + int (length bs) div 3" "(3 + int (length bs)) mod 3 = int (length bs) mod 3"
    by simp_all
  with 4 show ?case by (simp add: EncodedLen_def add.commute)
qed (auto simp: EncodedLen_def)

lemma DecodedLen_EncodedLen: "0 \<le> n \<Longrightarrow> DecodedLen (EncodedLen n) = n"
proof -
  assume n: "0 \<le> n"
  define q r where "q = n div 3" and "r = n mod 3"
  have "n = 3 * q + r" "0 \<le> q" "r = 0 \<or> r = 1 \<or> r = 2"
    using n by (auto simp: q_def r_def pos_imp_zdiv_nonneg_iff)
  then show ?thesis by (auto simp: EncodedLen_def DecodedLen_def)
qed

end
