(* ===== verification/Ip_Bits.thy ===== *)
theory Ip_Bits
  imports Prelude
begin

text \<open>
  Addresses as byte strings and the bit operations of \<open>device/allowedips.go\<close> on them: the number of
  common leading bits of two addresses, the bit a trie node branches on, and masking. Each operation is
  related to the address's bits, most significant first.
\<close>

section \<open>Operations\<close>

text \<open>\<open>bits.LeadingZeros32\<close> and \<open>bits.LeadingZeros64\<close>: leading zeros of an \<open>n\<close>-bit number.\<close>

fun LeadingZeros :: "nat \<Rightarrow> nat \<Rightarrow> nat" where
  "LeadingZeros 0 x = 0"
| "LeadingZeros (Suc n) x = (if bit x n then 0 else Suc (LeadingZeros n x))"

text \<open>\<open>commonBits\<close>; \<open>None\<close> is its panic on a wrong size.\<close>

definition commonBits :: "bytes \<Rightarrow> bytes \<Rightarrow> nat option" where
  "commonBits ip1 ip2 =
     (if length ip1 = 4 then
        (let a = get_u32_be ip1; b = get_u32_be ip2; x = a XOR b
         in Some (LeadingZeros 32 (unat x)))
      else if length ip1 = 16 then
        (let a = get_u64_be ip1; b = get_u64_be ip2; x = a XOR b in
         if x \<noteq> 0 then Some (LeadingZeros 64 (unat x))
         else
           let a = get_u64_be (drop 8 ip1); b = get_u64_be (drop 8 ip2); x = a XOR b
           in Some (64 + LeadingZeros 64 (unat x)))
      else None)"

text \<open>The trie only holds addresses of 4 or 16 bytes, so the panic is out of reach there.\<close>

definition common_bits :: "bytes \<Rightarrow> bytes \<Rightarrow> nat" where
  "common_bits ip1 ip2 = (case commonBits ip1 ip2 of Some n \<Rightarrow> n | None \<Rightarrow> 0)"

text \<open>The branch of a node for an address: \<open>(ip[bitAtByte] >> bitAtShift) & 1\<close>.\<close>

definition bitAtByte :: "nat \<Rightarrow> nat" where "bitAtByte cidr = cidr div 8"
definition bitAtShift :: "nat \<Rightarrow> nat" where "bitAtShift cidr = 7 - cidr mod 8"

definition choose_bit :: "nat \<Rightarrow> bytes \<Rightarrow> bool" where
  "choose_bit cidr ip = (drop_bit (bitAtShift cidr) (ip ! bitAtByte cidr) AND 1 = 1)"

text \<open>\<open>net.CIDRMask(ones, 8 * n)\<close> and \<open>maskSelf\<close>.\<close>

fun CIDRMask :: "nat \<Rightarrow> nat \<Rightarrow> bytes" where
  "CIDRMask ones 0 = []"
| "CIDRMask ones (Suc n) =
     (if 8 \<le> ones then 255 # CIDRMask (ones - 8) n
      else NOT (drop_bit ones 255) # CIDRMask 0 n)"

definition mask_bits :: "nat \<Rightarrow> bytes \<Rightarrow> bytes" where
  "mask_bits cidr ip = map2 (AND) ip (CIDRMask cidr (length ip))"

section \<open>Bits of an address\<close>

definition byte_bits :: "byte \<Rightarrow> bool list" where
  "byte_bits b = map (\<lambda>i. bit b (7 - i)) [0..<8]"

definition bits_of :: "bytes \<Rightarrow> bool list" where
  "bits_of bs = concat (map byte_bits bs)"

fun lcp :: "'a list \<Rightarrow> 'a list \<Rightarrow> nat" where
  "lcp (x # xs) (y # ys) = (if x = y then Suc (lcp xs ys) else 0)"
| "lcp _ _ = 0"

lemma length_byte_bits [simp]: "length (byte_bits b) = 8"
  by (simp add: byte_bits_def)

lemma bits_of_Nil [simp]: "bits_of [] = []"
  by (simp add: bits_of_def)

lemma bits_of_Cons [simp]: "bits_of (b # bs) = byte_bits b @ bits_of bs"
  by (simp add: bits_of_def)

lemma bits_of_append [simp]: "bits_of (xs @ ys) = bits_of xs @ bits_of ys"
  by (simp add: bits_of_def)

lemma length_bits_of [simp]: "length (bits_of bs) = 8 * length bs"
  by (induction bs) auto

lemma nth_byte_bits [simp]: "i < 8 \<Longrightarrow> byte_bits b ! i = bit b (7 - i)"
  by (simp add: byte_bits_def)

lemma nth_bits_of: "i < 8 * length bs \<Longrightarrow> bits_of bs ! i = bit (bs ! (i div 8)) (7 - i mod 8)"
proof (induction bs arbitrary: i)
  case Nil
  then show ?case by simp
next
  case (Cons b bs)
  show ?case
  proof (cases "i < 8")
    case True
    then show ?thesis by (simp add: nth_append)
  next
    case False
    with Cons have "bits_of bs ! (i - 8) = bit (bs ! ((i - 8) div 8)) (7 - (i - 8) mod 8)" by simp
    moreover have "i div 8 = Suc ((i - 8) div 8)" "(i - 8) mod 8 = i mod 8"
      using False by (simp_all add: le_div_geq le_mod_geq)
    ultimately show ?thesis using False by (simp add: nth_append)
  qed
qed

lemma byte_bits_inject: "byte_bits a = byte_bits b \<Longrightarrow> a = b"
proof (rule bit_word_eqI)
  fix n assume eq: "byte_bits a = byte_bits b" and n: "n < LENGTH(8)"
  then have "byte_bits a ! (7 - n) = byte_bits b ! (7 - n)" by simp
  with n show "bit a n = bit b n" by simp
qed

lemma bits_of_inject: "length xs = length ys \<Longrightarrow> bits_of xs = bits_of ys \<Longrightarrow> xs = ys"
  by (induction xs ys rule: list_induct2) (auto dest: byte_bits_inject)

lemma lcp_le: "lcp xs ys \<le> length xs" "lcp xs ys \<le> length ys"
  by (induction xs ys rule: lcp.induct) auto

lemma lcp_ge_iff: "n \<le> length xs \<Longrightarrow> n \<le> length ys \<Longrightarrow> n \<le> lcp xs ys \<longleftrightarrow> take n xs = take n ys"
proof (induction xs ys arbitrary: n rule: lcp.induct)
  case (1 x xs y ys)
  then show ?case by (cases n) auto
qed auto

lemma lcp_differ:
  "lcp xs ys < length xs \<Longrightarrow> lcp xs ys < length ys \<Longrightarrow> xs ! lcp xs ys \<noteq> ys ! lcp xs ys"
  by (induction xs ys rule: lcp.induct) auto

lemma lcp_append:
  "length xs = length xs' \<Longrightarrow>
    lcp (xs @ ys) (xs' @ ys') = (if xs = xs' then length xs + lcp ys ys' else lcp xs xs')"
  by (induction xs xs' rule: list_induct2) auto

section \<open>The operations on bits\<close>

lemma bit_be_nat: "i < 8 * length bs \<Longrightarrow> bit (be_nat bs) (8 * length bs - 1 - i) = bits_of bs ! i"
proof (induction bs arbitrary: i)
  case Nil
  then show ?case by simp
next
  case (Cons b bs)
  let ?n = "8 * length bs"
  have p: "(256 :: nat) ^ length bs = 2 ^ ?n" by (simp add: power_mult)
  have dj: "be_nat (b # bs) = push_bit ?n (unat b) + be_nat bs"
    by (simp add: p push_bit_eq_mult)
  have lt: "be_nat bs < 2 ^ ?n" using be_nat_less [of bs] p by simp
  have hi: "bit (be_nat (b # bs)) (?n + k) = bit b k" for k
  proof -
    have "drop_bit ?n (be_nat (b # bs)) = unat b"
      using lt by (simp add: dj push_bit_eq_mult drop_bit_eq_div del: be_nat_Cons)
    then have "bit (be_nat (b # bs)) (?n + k) = bit (unat b) k"
      using fun_cong [OF bit_drop_bit_eq [of ?n "be_nat (b # bs)"], of k] by simp
    also have "\<dots> = bit b k"
      by (auto simp add: bit_unsigned_iff dest: bit_imp_le_length)
    finally show ?thesis .
  qed
  have lo: "bit (be_nat (b # bs)) k = bit (be_nat bs) k" if "k < ?n" for k
  proof -
    have "take_bit ?n (be_nat (b # bs)) = be_nat bs"
      using lt by (simp add: dj push_bit_eq_mult take_bit_eq_mod del: be_nat_Cons)
    then show ?thesis using that by (metis bit_take_bit_iff)
  qed
  show ?case
  proof (cases "i < 8")
    case True
    then have "8 * length (b # bs) - 1 - i = ?n + (7 - i)" by simp
    with True hi [of "7 - i"] show ?thesis by (simp add: nth_append)
  next
    case False
    then have e: "8 * length (b # bs) - 1 - i = ?n - 1 - (i - 8)" "?n - 1 - (i - 8) < ?n" "i - 8 < ?n"
      using Cons.prems by auto
    have "bit (be_nat (b # bs)) (8 * length (b # bs) - 1 - i) = bits_of bs ! (i - 8)"
      unfolding e(1) using lo [OF e(2)] Cons.IH [OF e(3)] by (rule trans)
    with False show ?thesis by (simp add: nth_append)
  qed
qed

lemma LeadingZeros_lcp:
  "length xs = n \<Longrightarrow> length ys = n \<Longrightarrow> (\<And>i. i < n \<Longrightarrow> bit x (n - 1 - i) \<longleftrightarrow> xs ! i \<noteq> ys ! i) \<Longrightarrow>
    LeadingZeros n x = lcp xs ys"
proof (induction n arbitrary: xs ys)
  case 0
  then show ?case by simp
next
  case (Suc n)
  then obtain a as b bs where l: "xs = a # as" "ys = b # bs" by (metis length_Suc_conv)
  have "bit x (n - 1 - i) \<longleftrightarrow> as ! i \<noteq> bs ! i" if "i < n" for i
    using Suc.prems(3) [of "Suc i"] that l by simp
  then have "LeadingZeros n x = lcp as bs" using Suc l by simp
  moreover have "bit x n \<longleftrightarrow> a \<noteq> b" using Suc.prems(3) [of 0] l by simp
  ultimately show ?case using l by simp
qed

lemma xor_zero_iff: "(a :: 'a :: len word) XOR b = 0 \<longleftrightarrow> a = b"
  by (metis xor.assoc xor.right_neutral xor_self_eq xor.left_neutral)

lemma common_bits_lcp:
  assumes "length a = length b" "length a = 4 \<or> length a = 16"
  shows "common_bits a b = lcp (bits_of a) (bits_of b)"
proof -
  have bx32: "bit (unat (x XOR y)) n \<longleftrightarrow> bit (unat x) n \<noteq> bit (unat y) n" if "n < 32" for x y :: u32 and n
    using that by (simp add: bit_unsigned_iff bit_xor_iff)
  have bx64: "bit (unat (x XOR y)) n \<longleftrightarrow> bit (unat x) n \<noteq> bit (unat y) n" if "n < 64" for x y :: u64 and n
    using that by (simp add: bit_unsigned_iff bit_xor_iff)
  have u32: "unat (get_u32_be x) = be_nat x" if "length x = 4" for x
    using be_nat_less [of x] that by (simp add: get_u32_be_def unat_of_nat)
  have u64: "unat (get_u64_be x) = be_nat (take 8 x)" if "8 \<le> length x" for x
    using be_nat_less [of "take 8 x"] that by (simp add: get_u64_be_def unat_of_nat)
  have L64: "LeadingZeros 64 (unat (get_u64_be x XOR get_u64_be y)) = lcp (bits_of (take 8 x)) (bits_of (take 8 y))"
    if "8 \<le> length x" "8 \<le> length y" for x y
  proof (rule LeadingZeros_lcp)
    fix i :: nat assume i: "i < 64"
    show "bit (unat (get_u64_be x XOR get_u64_be y)) (64 - 1 - i) \<longleftrightarrow> bits_of (take 8 x) ! i \<noteq> bits_of (take 8 y) ! i"
      using i that bit_be_nat [of i "take 8 x"] bit_be_nat [of i "take 8 y"]
      by (subst bx64) (simp_all add: u64)
  qed (use that in simp_all)
  show ?thesis
  proof (cases "length a = 4")
    case True
    have "LeadingZeros 32 (unat (get_u32_be a XOR get_u32_be b)) = lcp (bits_of a) (bits_of b)"
    proof (rule LeadingZeros_lcp)
      fix i :: nat assume i: "i < 32"
      show "bit (unat (get_u32_be a XOR get_u32_be b)) (32 - 1 - i) \<longleftrightarrow> bits_of a ! i \<noteq> bits_of b ! i"
        using i True assms bit_be_nat [of i a] bit_be_nat [of i b]
        by (subst bx32) (simp_all add: u32)
    qed (use True assms in simp_all)
    with True show ?thesis by (simp add: common_bits_def commonBits_def Let_def)
  next
    case False
    then have n: "length a = 16" "length b = 16" using assms by auto
    have eq: "get_u64_be a XOR get_u64_be b = 0 \<longleftrightarrow> bits_of (take 8 a) = bits_of (take 8 b)"
    proof -
      have "get_u64_be a XOR get_u64_be b = 0 \<longleftrightarrow> unat (get_u64_be a) = unat (get_u64_be b)"
        by (simp add: word_unat_eq_iff [symmetric] xor_zero_iff)
      also have "\<dots> \<longleftrightarrow> take 8 a = take 8 b"
        using n u64 [of a] u64 [of b] by (simp add: be_nat_inject)
      also have "\<dots> \<longleftrightarrow> bits_of (take 8 a) = bits_of (take 8 b)"
        using n bits_of_inject [of "take 8 a" "take 8 b"] by auto
      finally show ?thesis .
    qed
    have "lcp (bits_of (take 8 a) @ bits_of (drop 8 a)) (bits_of (take 8 b) @ bits_of (drop 8 b)) = common_bits a b"
      using n L64 [of a b] L64 [of "drop 8 a" "drop 8 b"]
      by (subst lcp_append) (simp_all add: common_bits_def commonBits_def Let_def eq)
    then show ?thesis by (simp flip: bits_of_append)
  qed
qed

lemma choose_bit_nth: "c < 8 * length ip \<Longrightarrow> choose_bit c ip = bits_of ip ! c"
  by (simp add: choose_bit_def bitAtByte_def bitAtShift_def nth_bits_of and_one_eq odd_iff_mod_2_eq_one [symmetric]
      bit_iff_odd_drop_bit)

lemma length_CIDRMask [simp]: "length (CIDRMask c n) = n"
  by (induction c n rule: CIDRMask.induct) auto

lemma length_mask_bits [simp]: "length (mask_bits c ip) = length ip"
  by (simp add: mask_bits_def)

lemma byte_bits_and: "byte_bits (a AND b) = map2 (\<and>) (byte_bits a) (byte_bits b)"
  by (rule nth_equalityI) (auto simp: bit_and_iff)

lemma bit_255: "n < 8 \<Longrightarrow> bit (255 :: byte) n"
proof -
  have "(255 :: byte) = mask 8" by (simp add: mask_eq_exp_minus_1)
  moreover assume "n < 8"
  ultimately show "bit (255 :: byte) n" by (simp only: bit_mask_iff) simp
qed

lemma byte_bits_mask: "c < 8 \<Longrightarrow> byte_bits (NOT (drop_bit c 255)) = replicate c True @ replicate (8 - c) False"
proof (rule nth_equalityI)
  fix i assume c: "c < 8" and "i < length (byte_bits (NOT (drop_bit c 255)))"
  then have "i < 8" by simp
  have "bit (255 :: byte) (c + (7 - i))" if "\<not> i < c"
    using that \<open>i < 8\<close> by (intro bit_255) simp
  with c \<open>i < 8\<close> show "byte_bits (NOT (drop_bit c 255)) ! i = (replicate c True @ replicate (8 - c) False) ! i"
    by (cases "i < c") (auto simp: bit_not_iff bit_drop_bit_eq nth_append dest: bit_imp_le_length)
qed simp

lemma byte_bits_255: "byte_bits 255 = replicate 8 True"
proof (rule nth_equalityI)
  fix i assume "i < length (byte_bits 255)"
  then have "i < 8" by simp
  moreover have "bit (255 :: byte) (7 - i)" by (rule bit_255) simp
  ultimately show "byte_bits 255 ! i = replicate 8 True ! i" by simp
qed simp

lemma bits_of_CIDRMask: "c \<le> 8 * n \<Longrightarrow> bits_of (CIDRMask c n) = replicate c True @ replicate (8 * n - c) False"
proof (induction c n rule: CIDRMask.induct)
  case (2 c n)
  have "replicate (8 - c) False @ replicate (8 * n) False = replicate (8 + 8 * n - c) False" if "c < 8"
    using that by (simp flip: replicate_add)
  moreover have "replicate 8 True @ replicate (c - 8) True = replicate c True" if "8 \<le> c"
    using that by (simp flip: replicate_add)
  ultimately show ?case using 2
    by (cases "8 \<le> c") (simp_all add: byte_bits_255 byte_bits_mask flip: append_assoc, simp)
qed simp

lemma bits_of_map2_and:
  "length xs = length ys \<Longrightarrow> bits_of (map2 (AND) xs ys) = map2 (\<and>) (bits_of xs) (bits_of ys)"
  by (induction xs ys rule: list_induct2) (auto simp: byte_bits_and)

lemma bits_of_mask:
  assumes "c \<le> 8 * length ip"
  shows "bits_of (mask_bits c ip) = take c (bits_of ip) @ replicate (8 * length ip - c) False"
  using assms
  by (intro nth_equalityI)
    (auto simp: mask_bits_def bits_of_map2_and bits_of_CIDRMask nth_append)

lemma take_bits_of_mask [simp]:
  "n \<le> c \<Longrightarrow> c \<le> 8 * length ip \<Longrightarrow> take n (bits_of (mask_bits c ip)) = take n (bits_of ip)"
  by (simp add: bits_of_mask)

lemma mask_bits_mask [simp]: "c \<le> d \<Longrightarrow> d \<le> 8 * length ip \<Longrightarrow> mask_bits c (mask_bits d ip) = mask_bits c ip"
  by (rule bits_of_inject) (simp_all add: bits_of_mask)

lemma mask_bits_cong:
  "length a = length b \<Longrightarrow> c \<le> 8 * length a \<Longrightarrow> take c (bits_of a) = take c (bits_of b) \<Longrightarrow>
    mask_bits c a = mask_bits c b"
  by (rule bits_of_inject) (simp_all add: bits_of_mask)

end
