(* ===== verification/Allowed_IPs.thy ===== *)
theory Allowed_IPs
  imports Ip_Bits
begin

text \<open>
  \<open>device/allowedips.go\<close>: the cryptokey routing table, one path-compressed binary trie per address
  family, and the list of entries each peer owns. A trie entry is a \<open>Node\<close>, a nil pointer \<open>Null\<close>; a
  pointer to an entry is the path of branch bits from the root, and a parent indirection is the path of the
  entry that holds it. A list element of \<open>trieEntries\<close> points to an entry; the entry is named by its
  address and prefix length, which no two entries of a table share. The section on the abstract table
  shows that the two tries together implement a finite map from prefixes to peers, \<open>Lookup\<close> is
  longest-prefix match in that map, and the per-peer lists are the inverse image of that map.
\<close>

type_synonym pid = nat
type_synonym path = "bool list"
type_synonym entry_key = "bytes \<times> nat"

datatype trieEntry = Null
  | Node (peer: "pid option") (cidr: nat) (bits: bytes) (child0: trieEntry) (child1: trieEntry)

fun child :: "bool \<Rightarrow> trieEntry \<Rightarrow> trieEntry" where
  "child b Null = Null"
| "child b (Node p c bs l r) = (if b then r else l)"

fun set_child :: "bool \<Rightarrow> trieEntry \<Rightarrow> trieEntry \<Rightarrow> trieEntry" where
  "set_child b t Null = Null"
| "set_child b t (Node p c bs l r) = (if b then Node p c bs l t else Node p c bs t r)"

fun set_peer :: "pid option \<Rightarrow> trieEntry \<Rightarrow> trieEntry" where
  "set_peer q Null = Null"
| "set_peer q (Node p c bs l r) = Node q c bs l r"

definition branch_of :: "trieEntry \<Rightarrow> bytes \<Rightarrow> bool" where
  "branch_of node ip = choose_bit (cidr node) ip"

definition new_entry :: "pid option \<Rightarrow> nat \<Rightarrow> bytes \<Rightarrow> trieEntry" where
  "new_entry p c ip = Node p c (mask_bits c ip) Null Null"

fun node_at :: "path \<Rightarrow> trieEntry \<Rightarrow> trieEntry" where
  "node_at [] t = t"
| "node_at (b # p) t = node_at p (child b t)"

fun at_path :: "path \<Rightarrow> (trieEntry \<Rightarrow> trieEntry) \<Rightarrow> trieEntry \<Rightarrow> trieEntry" where
  "at_path [] f t = f t"
| "at_path (b # p) f t = set_child b (at_path p f (child b t)) t"

section \<open>Operations on one trie\<close>

text \<open>The last entry on the way to \<open>ip/cidr\<close> that contains it, and whether it is that prefix itself.\<close>

fun nodePlacement :: "trieEntry \<Rightarrow> bytes \<Rightarrow> nat \<Rightarrow> path option \<times> bool" where
  "nodePlacement Null ip c = (None, False)"
| "nodePlacement (Node p d bs l r) ip c =
     (if d \<le> c \<and> common_bits bs ip \<ge> d then
        if d = c then (Some [], True)
        else
          let bit = choose_bit d ip
          in case nodePlacement (if bit then r else l) ip c of
               (Some q, exact) \<Rightarrow> (Some (bit # q), exact)
             | (None, exact) \<Rightarrow> (Some [], False)
      else (None, False))"

text \<open>The end of \<open>insert\<close>: what takes the place of the entry \<open>down\<close> when \<open>newNode\<close> must go above or
  beside it.\<close>

definition place_above :: "trieEntry \<Rightarrow> trieEntry \<Rightarrow> bytes \<Rightarrow> trieEntry" where
  "place_above down newNode ip =
     (let common = common_bits (bits down) ip;
          c = (if common < cidr newNode then common else cidr newNode)
      in if cidr newNode = c then set_child (branch_of newNode (bits down)) down newNode
         else
           let node = new_entry None c (bits newNode);
               node = set_child (branch_of node (bits down)) down node
           in set_child (branch_of node (bits newNode)) newNode node)"

definition insert_trie :: "trieEntry \<Rightarrow> bytes \<Rightarrow> nat \<Rightarrow> pid \<Rightarrow> trieEntry" where
  "insert_trie t ip c p =
     (if t = Null then new_entry (Some p) c ip
      else
        let newNode = new_entry (Some p) c ip
        in case nodePlacement t ip c of
             (Some q, True) \<Rightarrow> at_path q (set_peer (Some p)) t
           | (Some q, False) \<Rightarrow>
               at_path q (\<lambda>node.
                 let bit = branch_of node ip; down = child bit node
                 in if down = Null then set_child bit newNode node
                    else
                      let sub = place_above down newNode ip
                      in set_child (branch_of node (bits sub)) sub node) t
           | (None, _) \<Rightarrow> place_above t newNode ip)"

fun lookup :: "trieEntry \<Rightarrow> bytes \<Rightarrow> pid option \<Rightarrow> pid option" where
  "lookup Null ip found = found"
| "lookup (Node p d bs l r) ip found =
     (if common_bits bs ip \<ge> d then
        let found = (if p \<noteq> None then p else found)
        in if bitAtByte d = length ip then found
           else lookup (if choose_bit d ip then r else l) ip found
      else found)"

text \<open>\<open>remove\<close> of the entry a path leads to. An entry with two children stays, without a peer; another is
  replaced by its only child; one without children disappears, and a parent left without a peer and with
  one child disappears with it.\<close>

definition remove_root :: "trieEntry \<Rightarrow> trieEntry" where
  "remove_root node =
     (if child0 node \<noteq> Null \<and> child1 node \<noteq> Null then set_peer None node
      else child (child0 node = Null) node)"

fun remove_at :: "path \<Rightarrow> trieEntry \<Rightarrow> trieEntry" where
  "remove_at [] node = remove_root node"
| "remove_at [b] parent =
     (let node = child b parent; parent' = set_child b (remove_root node) parent in
      if child0 node \<noteq> Null \<or> child1 node \<noteq> Null then parent'
      else if peer parent \<noteq> None then parent'
      else child (\<not> b) parent)"
| "remove_at (b # b' # p) t = set_child b (remove_at (b' # p) (child b t)) t"

section \<open>The table\<close>

record AllowedIPs =
  IPv4 :: trieEntry
  IPv6 :: trieEntry
  trieEntries :: "pid \<Rightarrow> entry_key list"

definition empty_table :: AllowedIPs where
  "empty_table = \<lparr>IPv4 = Null, IPv6 = Null, trieEntries = (\<lambda>_. [])\<rparr>"

definition root_of :: "AllowedIPs \<Rightarrow> nat \<Rightarrow> trieEntry" where
  "root_of T n = (if n = 16 then IPv6 T else IPv4 T)"

definition set_root :: "AllowedIPs \<Rightarrow> nat \<Rightarrow> trieEntry \<Rightarrow> AllowedIPs" where
  "set_root T n t = (if n = 16 then T\<lparr>IPv6 := t\<rparr> else T\<lparr>IPv4 := t\<rparr>)"

definition addToPeerEntries :: "pid \<Rightarrow> entry_key \<Rightarrow> AllowedIPs \<Rightarrow> AllowedIPs" where
  "addToPeerEntries p k T = T\<lparr>trieEntries := (trieEntries T)(p := trieEntries T p @ [k])\<rparr>"

text \<open>\<open>perPeerElem\<close> is nil exactly on an entry without a peer.\<close>

definition removeFromPeerEntries :: "pid option \<Rightarrow> entry_key \<Rightarrow> AllowedIPs \<Rightarrow> AllowedIPs" where
  "removeFromPeerEntries q k T =
     (case q of None \<Rightarrow> T
      | Some p \<Rightarrow> T\<lparr>trieEntries := (trieEntries T)(p := remove1 k (trieEntries T p))\<rparr>)"

text \<open>A \<open>netip.Prefix\<close> is its address, of 4 or 16 bytes when it is valid, and a prefix length; \<open>None\<close> is
  the panic on an unknown address type.\<close>

definition Insert :: "bytes \<Rightarrow> nat \<Rightarrow> pid \<Rightarrow> AllowedIPs \<Rightarrow> AllowedIPs option" where
  "Insert ip c p T =
     (if length ip = 16 \<or> length ip = 4 then
        let t = root_of T (length ip); k = (mask_bits c ip, c);
            T = (case nodePlacement t ip c of
                   (Some q, True) \<Rightarrow> removeFromPeerEntries (peer (node_at q t)) k T
                 | _ \<Rightarrow> T);
            T = addToPeerEntries p k T
        in Some (set_root T (length ip) (insert_trie t ip c p))
      else None)"

definition remove_entry :: "path \<Rightarrow> nat \<Rightarrow> AllowedIPs \<Rightarrow> AllowedIPs" where
  "remove_entry q n T =
     (let t = root_of T n; node = node_at q t;
          T = removeFromPeerEntries (peer node) (bits node, cidr node) T
      in set_root T n (remove_at q t))"

definition Remove :: "bytes \<Rightarrow> nat \<Rightarrow> pid \<Rightarrow> AllowedIPs \<Rightarrow> AllowedIPs option" where
  "Remove ip c p T =
     (if length ip = 16 \<or> length ip = 4 then
        let t = root_of T (length ip)
        in case nodePlacement t ip c of
             (Some q, True) \<Rightarrow>
               if Some p \<noteq> peer (node_at q t) then Some T
               else Some (remove_entry q (length ip) T)
           | _ \<Rightarrow> Some T
      else None)"

text \<open>The list element of an entry leads to it: the path of the entry with that address and length.\<close>

definition remove_key :: "AllowedIPs \<Rightarrow> entry_key \<Rightarrow> AllowedIPs" where
  "remove_key T k =
     (case nodePlacement (root_of T (length (fst k))) (fst k) (snd k) of
        (Some q, True) \<Rightarrow> remove_entry q (length (fst k)) T
      | _ \<Rightarrow> T)"

definition RemoveByPeer :: "pid \<Rightarrow> AllowedIPs \<Rightarrow> AllowedIPs" where
  "RemoveByPeer p T = foldl remove_key T (trieEntries T p)"

definition Lookup :: "AllowedIPs \<Rightarrow> bytes \<Rightarrow> pid option option" where
  "Lookup T ip =
     (if length ip = 16 then Some (lookup (IPv6 T) ip None)
      else if length ip = 4 then Some (lookup (IPv4 T) ip None)
      else None)"

text \<open>\<open>EntriesForPeer\<close> calls back on each entry until the callback says stop; what is returned are the
  prefixes the callback was given.\<close>

fun entries_until :: "(entry_key \<Rightarrow> bool) \<Rightarrow> entry_key list \<Rightarrow> entry_key list" where
  "entries_until cb [] = []"
| "entries_until cb (k # ks) = (if cb k then k # entries_until cb ks else [k])"

definition EntriesForPeer :: "AllowedIPs \<Rightarrow> pid \<Rightarrow> (entry_key \<Rightarrow> bool) \<Rightarrow> entry_key list" where
  "EntriesForPeer T p cb = entries_until cb (trieEntries T p)"

section \<open>The trie as a map from prefixes to peers\<close>

fun assoc :: "trieEntry \<Rightarrow> bool list \<Rightarrow> pid option" where
  "assoc Null k = None"
| "assoc (Node p d bs l r) k =
     (if k = take d (bits_of bs) then p
      else if d < length k \<and> take d k = take d (bits_of bs) then assoc (if k ! d then r else l) k
      else None)"

fun wf_trie :: "nat \<Rightarrow> bool list \<Rightarrow> trieEntry \<Rightarrow> bool" where
  "wf_trie n q Null \<longleftrightarrow> True"
| "wf_trie n q (Node p d bs l r) \<longleftrightarrow>
     length bs = n \<and> d \<le> 8 * n \<and> mask_bits d bs = bs
     \<and> length q \<le> d \<and> take (length q) (bits_of bs) = q
     \<and> (p = None \<longrightarrow> l \<noteq> Null \<and> r \<noteq> Null)
     \<and> wf_trie n (take d (bits_of bs) @ [False]) l \<and> wf_trie n (take d (bits_of bs) @ [True]) r"

text \<open>Insertion as one recursion down the trie.\<close>

fun ins :: "trieEntry \<Rightarrow> bytes \<Rightarrow> nat \<Rightarrow> pid \<Rightarrow> trieEntry" where
  "ins Null ip c p = new_entry (Some p) c ip"
| "ins (Node q d bs l r) ip c p =
     (if d \<le> c \<and> d \<le> common_bits bs ip then
        if d = c then Node (Some p) d bs l r
        else if choose_bit d ip then Node q d bs l (ins r ip c p)
        else Node q d bs (ins l ip c p) r
      else place_above (Node q d bs l r) (new_entry (Some p) c ip) ip)"

fun lpm :: "(bool list \<Rightarrow> pid option) \<Rightarrow> bool list \<Rightarrow> nat \<Rightarrow> pid option" where
  "lpm m ip 0 = m []"
| "lpm m ip (Suc n) = (case m (take (Suc n) ip) of Some p \<Rightarrow> Some p | None \<Rightarrow> lpm m ip n)"


lemma assoc_extends:
  "wf_trie n q t \<Longrightarrow> assoc t k \<noteq> None \<Longrightarrow> length q \<le> length k \<and> take (length q) k = q \<and> length k \<le> 8 * n"
proof (induction t arbitrary: q)
  case Null
  then show ?case by simp
next
  case (Node p d bs l r)
  have q: "take (length q) (take d (bits_of bs)) = q" "length q \<le> d" "d \<le> 8 * n" "length bs = n"
    using Node.prems by (auto simp: min_def)
  show ?case
  proof (cases "k = take d (bits_of bs)")
    case True
    with q show ?thesis by simp
  next
    case False
    with Node.prems have k: "d < length k" "take d k = take d (bits_of bs)"
        "assoc (if k ! d then r else l) k \<noteq> None"
      by (auto split: if_splits)
    have "length k \<le> 8 * n"
      using Node.prems k Node.IH(1) [of "take d (bits_of bs) @ [False]"] Node.IH(2) [of "take d (bits_of bs) @ [True]"]
      by (auto split: if_splits)
    moreover have "take (length q) k = q"
      using q k by (metis min.absorb1 take_take)
    ultimately show ?thesis using q k by simp
  qed
qed

lemma assoc_Node_SomeD:
  "assoc (Node p d bs l r) k \<noteq> None \<Longrightarrow> d \<le> 8 * length bs \<Longrightarrow> d \<le> length k \<and> take d k = take d (bits_of bs)"
  by (auto split: if_splits)

lemma wf_weaken: "wf_trie n q t \<Longrightarrow> take (length q') q = q' \<Longrightarrow> length q' \<le> length q \<Longrightarrow> wf_trie n q' t"
  by (cases t) (auto simp del: take_take, (metis min.absorb1 take_take)+)

lemma wf_reroot:
  "wf_trie n q (Node p d bs l r) \<Longrightarrow> length q' \<le> d \<Longrightarrow> take (length q') (bits_of bs) = q' \<Longrightarrow> wf_trie n q' (Node p d bs l r)"
  by auto

lemma common_bits_ge:
  assumes "length a = length b" "length a = 4 \<or> length a = 16" "d \<le> 8 * length a"
  shows "d \<le> common_bits a b \<longleftrightarrow> take d (bits_of a) = take d (bits_of b)"
  using assms by (simp add: common_bits_lcp lcp_ge_iff)

lemma child_full:
  "wf_trie n q (Node p d bs l r) \<Longrightarrow> d = 8 * n \<Longrightarrow> l = Null \<and> r = Null"
  by (cases l; cases r) auto

subsection \<open>Lookup is longest-prefix match\<close>

lemma lpm_cong: "(\<And>j. j \<le> n \<Longrightarrow> m (take j ip) = m' (take j ip)) \<Longrightarrow> lpm m ip n = lpm m' ip n"
  by (induction n) (auto split: option.splits)

lemma lpm_None: "(\<And>j. j \<le> n \<Longrightarrow> m (take j ip) = None) \<Longrightarrow> lpm m ip n = None"
  by (induction n) auto

lemma lpm_skip: "d \<le> n \<Longrightarrow> (\<And>j. d < j \<Longrightarrow> j \<le> n \<Longrightarrow> m (take j ip) = None) \<Longrightarrow> lpm m ip n = lpm m ip d"
  by (induction n) (auto simp: le_Suc_eq)

lemma lpm_map_add:
  "(\<And>j. j \<le> n \<Longrightarrow> j \<noteq> d \<Longrightarrow> m (take j ip) = m' (take j ip)) \<Longrightarrow>
   (\<And>j. j \<le> d \<Longrightarrow> m' (take j ip) = None) \<Longrightarrow> d \<le> n \<Longrightarrow>
   lpm m ip n = (case lpm m' ip n of Some p \<Rightarrow> Some p | None \<Rightarrow> m (take d ip))"
proof (induction n)
  case 0
  then show ?case by (auto split: option.splits)
next
  case (Suc n)
  show ?case
  proof (cases "d = Suc n")
    case True
    with Suc.prems have "lpm m' ip (Suc n) = None" by (intro lpm_None) auto
    moreover have "lpm m ip n = None" using Suc.prems True by (intro lpm_None) auto
    ultimately show ?thesis using True by (auto split: option.splits)
  next
    case False
    with Suc show ?thesis by (auto split: option.splits)
  qed
qed

lemma lookup_lpm:
  assumes "wf_trie (length ip) q t" "take (length q) (bits_of ip) = q" "length ip = 4 \<or> length ip = 16"
  shows "lookup t ip found
    = (case lpm (assoc t) (bits_of ip) (8 * length ip) of Some p \<Rightarrow> Some p | None \<Rightarrow> found)"
  using assms
proof (induction t ip found arbitrary: q rule: lookup.induct)
  case (1 ip found)
  then show ?case by (simp add: lpm_None)
next
  case (2 p d bs l r ip found)
  let ?n = "8 * length ip" and ?t = "Node p d bs l r" and ?pre = "take d (bits_of bs)"
  have wf: "length bs = length ip" "d \<le> ?n" using 2 by auto
  show ?case
  proof (cases "d \<le> common_bits bs ip")
    case False
    then have ne: "take d (bits_of ip) \<noteq> ?pre"
      using wf 2 common_bits_ge [of bs ip d] by auto
    have "assoc ?t (take j (bits_of ip)) = None" if "j \<le> ?n" for j
      using ne wf that assoc_Node_SomeD [of p d bs l r "take j (bits_of ip)"]
      by (cases "assoc ?t (take j (bits_of ip))") (auto simp: min_def split: if_splits)
    then have "lpm (assoc ?t) (bits_of ip) ?n = None" by (intro lpm_None)
    with False show ?thesis by (simp del: assoc.simps)
  next
    case True
    then have pre: "take d (bits_of ip) = ?pre"
      using wf 2 common_bits_ge [of bs ip d] by auto
    show ?thesis
    proof (cases "bitAtByte d = length ip")
      case full: True
      then have d: "d = ?n" using wf by (simp add: bitAtByte_def)
      then have "l = Null" "r = Null" using child_full 2 by blast+
      with d pre wf have "lpm (assoc ?t) (bits_of ip) ?n = p"
        using lpm_skip [of 0 ?n "assoc ?t" "bits_of ip"]
        by (cases ?n) (auto split: option.splits intro!: lpm_None)
      with True full show ?thesis by (simp del: assoc.simps split: option.splits)
    next
      case False
      then have d: "d < ?n" using wf by (auto simp: bitAtByte_def)
      let ?c = "if choose_bit d ip then r else l" and ?b = "bits_of ip ! d"
      have b: "choose_bit d ip = ?b" using d by (simp add: choose_bit_nth)
      have wfc: "wf_trie (length ip) (?pre @ [?b]) ?c" using 2 b by (auto split: if_splits)
      have tk: "take (length (?pre @ [?b])) (bits_of ip) = ?pre @ [?b]"
        using d wf by (simp add: pre [symmetric] take_Suc_conv_app_nth)
      have IH: "lookup ?c ip f = (case lpm (assoc ?c) (bits_of ip) ?n of Some p \<Rightarrow> Some p | None \<Rightarrow> f)"
        if "f = (if p \<noteq> None then p else found)" for f
        using "2.IH" [OF True that False wfc tk "2.prems"(3)] by simp
      have "lpm (assoc ?t) (bits_of ip) ?n = (case lpm (assoc ?c) (bits_of ip) ?n of Some p \<Rightarrow> Some p | None \<Rightarrow> p)"
      proof -
        have "assoc ?t (take d (bits_of ip)) = p" using pre by simp
        moreover have "assoc ?c (take j (bits_of ip)) = None" if "j \<le> d" for j
        proof -
          have "\<not> length (?pre @ [?b]) \<le> length (take j (bits_of ip))"
            using that d wf by simp
          then show ?thesis using assoc_extends [OF wfc, of "take j (bits_of ip)"] by blast
        qed
        moreover have "assoc ?t (take j (bits_of ip)) = assoc ?c (take j (bits_of ip))" if "j \<le> ?n" "j \<noteq> d" for j
        proof (cases "d < j")
          case True
          then show ?thesis using that pre wf d b by (auto simp: min_def dest: arg_cong [of _ _ length])
        next
          case False
          then have "j < d" using that by simp
          then have "assoc ?t (take j (bits_of ip)) = None"
            using that wf d by (auto simp: min_def dest: arg_cong [of _ _ length])
          with calculation(2) \<open>j < d\<close> show ?thesis by simp
        qed
        ultimately show ?thesis using lpm_map_add [of ?n d "assoc ?t" "bits_of ip" "assoc ?c"] d
          by (simp del: assoc.simps split: option.split)
      qed
      with IH True False show ?thesis by (simp add: Let_def del: assoc.simps split: option.splits)
    qed
  qed
qed

subsection \<open>Insertion\<close>

lemma new_entry_simps [simp]:
  "cidr (new_entry p c ip) = c" "bits (new_entry p c ip) = mask_bits c ip"
  "peer (new_entry p c ip) = p" "new_entry p c ip \<noteq> Null"
  by (simp_all add: new_entry_def)

lemma assoc_new: "c \<le> 8 * length ip \<Longrightarrow> assoc (new_entry (Some p) c ip) = Map.empty(take c (bits_of ip) \<mapsto> p)"
  by (rule ext) (simp add: new_entry_def)

lemma wf_new:
  "c \<le> 8 * length ip \<Longrightarrow> length q \<le> c \<Longrightarrow> take (length q) (bits_of ip) = q \<Longrightarrow>
    wf_trie (length ip) q (new_entry (Some p) c ip)"
  by (simp add: new_entry_def)

text \<open>The entry that takes the place of \<open>down\<close>: the new one above it, or a branching entry over both.\<close>

lemma place_above:
  assumes t: "down = Node pd d bs l r" and wf: "wf_trie (length ip) q down"
    and size: "length ip = 4 \<or> length ip = 16" and c: "c \<le> 8 * length ip"
    and q: "length q \<le> c" "take (length q) (bits_of ip) = q"
    and out: "\<not> (d \<le> c \<and> d \<le> common_bits bs ip)"
    and new_def: "new = new_entry (Some p) c ip"
  shows "wf_trie (length ip) q (place_above down new ip) \<and>
    assoc (place_above down new ip) = (assoc down)(take c (bits_of ip) \<mapsto> p) \<and>
    place_above down new ip \<noteq> Null \<and>
    take (length q) (bits_of (bits (place_above down new ip))) = q"
proof -
  let ?n = "8 * length ip" and ?K = "take c (bits_of ip)" and ?D = "take d (bits_of bs)"
  have len: "length bs = length ip" "d \<le> ?n" "mask_bits d bs = bs" "length q \<le> d" "take (length q) (bits_of bs) = q"
    using wf t by auto
  have cb: "common_bits bs ip = lcp (bits_of bs) (bits_of ip)" using len size by (intro common_bits_lcp) auto
  have ql: "length q \<le> lcp (bits_of bs) (bits_of ip)"
    using len q c by (subst lcp_ge_iff) auto
  have wfd: "wf_trie (length ip) q' down" if "length q' \<le> d" "take (length q') (bits_of bs) = q'" for q'
    using wf_reroot [of "length ip" q pd d bs l r q'] wf t that by simp
  have ad: "assoc down k \<noteq> None \<Longrightarrow> d \<le> length k \<and> take d k = ?D" for k
    using assoc_Node_SomeD [of pd d bs l r k] t len by simp
  show ?thesis
  proof (cases "c \<le> lcp (bits_of bs) (bits_of ip)")
    case True
    then have cd: "c < d" using out cb by auto
    have K: "?K = take c (bits_of bs)" using True c len by (subst (asm) lcp_ge_iff) auto
    let ?b = "bits_of bs ! c"
    have b: "branch_of new bs = ?b" using cd len by (simp add: branch_of_def new_def choose_bit_nth)
    have eq: "place_above down new ip = set_child ?b down new"
      using True cb by (auto simp: place_above_def new_def t Let_def b [unfolded new_def])
    have wfn: "wf_trie (length ip) (?K @ [?b]) down"
      using cd len by (intro wfd) (simp_all add: K take_Suc_conv_app_nth)
    have "assoc (set_child ?b down new) k = ((assoc down)(?K \<mapsto> p)) k" for k
    proof (cases "k = ?K")
      case True
      then show ?thesis using c by (auto simp: new_def new_entry_def)
    next
      case False
      show ?thesis
      proof (cases "assoc down k")
        case None
        with False show ?thesis using c by (auto simp: new_def new_entry_def)
      next
        case (Some x)
        then have k: "d \<le> length k" "take d k = ?D" using ad [of k] by auto
        then have "take c k = ?K" "k ! c = ?b"
          using cd K by (metis min.absorb1 less_imp_le take_take, metis cd nth_take)
        with k cd False Some show ?thesis using c by (auto simp: new_def new_entry_def)
      qed
    qed
    moreover have "wf_trie (length ip) q (set_child ?b down new)"
      using wfn q c K len by (auto simp: new_def new_entry_def)
    moreover have "set_child ?b down new \<noteq> Null" "bits (set_child ?b down new) = mask_bits c ip"
      by (auto simp: new_def new_entry_def)
    ultimately show ?thesis using q c unfolding eq by auto
  next
    case False
    let ?m = "lcp (bits_of bs) (bits_of ip)"
    have m: "?m < c" "?m < ?n" "?m < d" using False c out cb lcp_le [of "bits_of bs" "bits_of ip"] by auto
    have mm: "take ?m (bits_of bs) = take ?m (bits_of ip)"
      using m len by (subst lcp_ge_iff [symmetric]) auto
    let ?bd = "bits_of bs ! ?m" and ?bi = "bits_of ip ! ?m" and ?M = "take ?m (bits_of ip)"
    have ne: "?bd \<noteq> ?bi" using m len by (intro lcp_differ) auto
    define node where "node = new_entry None ?m (mask_bits c ip)"
    have bn: "branch_of node bs = ?bd" "branch_of node (mask_bits c ip) = ?bi"
      using m len c by (auto simp: branch_of_def node_def choose_bit_nth bits_of_mask nth_append)
    have br: "branch_of (set_child b u node) x = branch_of node x" for b u x
      by (simp add: branch_of_def node_def new_entry_def)
    have eq: "place_above down new ip = set_child ?bi new (set_child ?bd down node)"
      using m cb bn br by (simp add: place_above_def new_def t Let_def flip: node_def)
    have bits_node: "bits node = mask_bits ?m ip" using m c by (simp add: node_def)
    have wf1: "wf_trie (length ip) (?M @ [?bd]) down"
      using m len by (intro wfd) (simp_all add: mm [symmetric] take_Suc_conv_app_nth)
    have wf2: "wf_trie (length ip) (?M @ [?bi]) new"
      unfolding new_def using m c by (intro wf_new) (simp_all add: take_Suc_conv_app_nth)
    have "assoc (set_child ?bi new (set_child ?bd down node)) k = ((assoc down)(?K \<mapsto> p)) k" for k
    proof -
      have step: "assoc (set_child ?bi new (set_child ?bd down node)) k =
          (if ?m < length k \<and> take ?m k = ?M then assoc (if k ! ?m = ?bd then down else new) k else None)"
        using ne m c by (auto simp: node_def new_entry_def)
      have an: "assoc new k = (if k = ?K then Some p else None)"
        using assoc_new [OF c] by (simp add: new_def)
      have kd: "?m < length k \<and> take ?m k = ?M \<and> k ! ?m = ?bd" if "assoc down k \<noteq> None" for k
        using ad [OF that] m mm by (metis le_less_trans less_imp_le min.absorb1 not_less nth_take take_take)
      have kn: "?m < length ?K \<and> take ?m ?K = ?M \<and> ?K ! ?m \<noteq> ?bd"
        using m c ne by (auto simp: min_def)
      have "assoc down ?K = None" using kd [of ?K] kn by blast
      then show ?thesis using step an kd [of k] kn
        by (cases "assoc down k") (auto simp: fun_upd_apply)
    qed
    moreover have "wf_trie (length ip) q (set_child ?bi new (set_child ?bd down node))"
    proof -
      have "down \<noteq> Null" "new \<noteq> Null" using t by (auto simp: new_def)
      moreover have "length q \<le> ?m" "take (length q) (bits_of (mask_bits ?m ip)) = q" using ql q m by auto
      ultimately show ?thesis using wf1 wf2 ne m c
        by (cases ?bi; cases ?bd) (auto simp: node_def new_entry_def)
    qed
    moreover have "set_child ?bi new (set_child ?bd down node) \<noteq> Null"
      "bits (set_child ?bi new (set_child ?bd down node)) = mask_bits ?m ip"
      using m c by (auto simp: node_def new_entry_def)
    ultimately show ?thesis using q ql m unfolding eq by auto
  qed
qed

lemma ins_correct:
  assumes "wf_trie (length ip) q t" "length ip = 4 \<or> length ip = 16" "c \<le> 8 * length ip"
    "length q \<le> c" "take (length q) (bits_of ip) = q"
  shows "wf_trie (length ip) q (ins t ip c p) \<and>
    assoc (ins t ip c p) = (assoc t)(take c (bits_of ip) \<mapsto> p) \<and>
    ins t ip c p \<noteq> Null \<and> take (length q) (bits_of (bits (ins t ip c p))) = q"
  using assms
proof (induction t ip c p arbitrary: q rule: ins.induct)
  case (1 ip c p)
  then show ?case using assoc_new [of c ip p] wf_new [of c ip q p]
    by (auto simp del: new_entry_simps(4)) (simp_all add: new_entry_def)
next
  case (2 po d bs l r ip c p)
  let ?t = "Node po d bs l r" and ?D = "take d (bits_of bs)" and ?K = "take c (bits_of ip)"
  have len: "length bs = length ip" "d \<le> 8 * length ip" using "2.prems" by auto
  show ?case
  proof (cases "d \<le> c \<and> d \<le> common_bits bs ip")
    case False
    then have "ins ?t ip c p = place_above ?t (new_entry (Some p) c ip) ip" by auto
    with place_above [OF refl "2.prems" False refl] show ?thesis by (simp del: assoc.simps ins.simps)
  next
    case True
    then have D: "?D = take d (bits_of ip)" using common_bits_ge [of bs ip d] len "2.prems" by auto
    show ?thesis
    proof (cases "d = c")
      case eq: True
      have "assoc (ins ?t ip c p) k = ((assoc ?t)(?K \<mapsto> p)) k" for k
        using True eq D by auto
      moreover have "wf_trie (length ip) q (ins ?t ip c p)" using True eq "2.prems" by auto
      ultimately show ?thesis using True eq "2.prems" by auto
    next
      case False
      with True have dc: "d < c" by simp
      let ?b = "bits_of ip ! d" and ?x = "if bits_of ip ! d then r else l"
      have b: "choose_bit d ip = ?b" using dc "2.prems" by (simp add: choose_bit_nth)
      have tk: "take (length (?D @ [?b])) (bits_of ip) = ?D @ [?b]" "length (?D @ [?b]) \<le> c"
        using dc len "2.prems"(3) by (simp_all add: D take_Suc_conv_app_nth)
      have wfx: "wf_trie (length ip) (?D @ [?b]) ?x" using "2.prems"(1) by auto
      have IH: "wf_trie (length ip) (?D @ [?b]) (ins ?x ip c p)
          \<and> assoc (ins ?x ip c p) = (assoc ?x)(?K \<mapsto> p) \<and> ins ?x ip c p \<noteq> Null"
        using "2.IH"(1) [OF True False _ _ "2.prems"(2,3) tk(2,1)] "2.IH"(2) [OF True False _ _ "2.prems"(2,3) tk(2,1)] wfx b
        by (cases ?b) auto
      have eq: "ins ?t ip c p = set_child ?b (ins ?x ip c p) ?t"
        using True False b by auto
      have "assoc (set_child ?b (ins ?x ip c p) ?t) k = ((assoc ?t)(?K \<mapsto> p)) k" for k
      proof -
        have "assoc (set_child ?b (ins ?x ip c p) ?t) k =
            (if k = ?D then po else if d < length k \<and> take d k = ?D
             then (if k ! d = ?b then assoc (ins ?x ip c p) k else assoc (if k ! d then r else l) k) else None)"
          by auto
        moreover have lens: "length ?K = c" "length ?D = d" using dc len "2.prems"(3) by auto
        moreover have "?K \<noteq> ?D" using lens dc by (metis less_irrefl)
        moreover have "d < length ?K" "take d ?K = ?D" "?K ! d = ?b"
          using dc len "2.prems"(3) D by (auto simp: min_def)
        ultimately show ?thesis using IH by auto
      qed
      moreover have "wf_trie (length ip) q (set_child ?b (ins ?x ip c p) ?t)"
        using IH "2.prems"(1) by auto
      ultimately show ?thesis using "2.prems" unfolding eq by auto
    qed
  qed
qed

text \<open>The walk to the place of insertion and the recursion agree.\<close>

lemma set_child_same: "set_child b t (set_child b u n) = set_child b t n"
  by (cases n) auto

lemma nodePlacement_at:
  "nodePlacement t ip c = (Some q, e) \<Longrightarrow> node_at q t \<noteq> Null \<and> (e \<longleftrightarrow> cidr (node_at q t) = c)"
proof (induction t ip c arbitrary: q e rule: nodePlacement.induct)
  case (2 p d bs l r ip c)
  then show ?case
    by (auto simp: Let_def split: if_splits option.splits prod.splits)
qed simp

lemma insert_trie_ins:
  assumes "wf_trie (length ip) q t" "length ip = 4 \<or> length ip = 16" "c \<le> 8 * length ip"
    "length q \<le> c" "take (length q) (bits_of ip) = q"
  shows "insert_trie t ip c p = ins t ip c p"
  using assms
proof (induction t ip c p arbitrary: q rule: ins.induct)
  case (1 ip c p)
  then show ?case by (simp add: insert_trie_def)
next
  case (2 po d bs l r ip c p)
  let ?t = "Node po d bs l r" and ?D = "take d (bits_of bs)" and ?new = "new_entry (Some p) c ip"
  have len: "length bs = length ip" "d \<le> 8 * length ip" using "2.prems" by auto
  show ?case
  proof (cases "d \<le> c \<and> d \<le> common_bits bs ip")
    case False
    then show ?thesis by (auto simp: insert_trie_def)
  next
    case True
    then have D: "?D = take d (bits_of ip)" using common_bits_ge [of bs ip d] len "2.prems" by auto
    show ?thesis
    proof (cases "d = c")
      case eq: True
      with True show ?thesis by (auto simp: insert_trie_def)
    next
      case False
      with True have dc: "d < c" by simp
      let ?b = "bits_of ip ! d" and ?x = "if bits_of ip ! d then r else l"
      have b: "choose_bit d ip = ?b" using dc "2.prems" by (simp add: choose_bit_nth)
      have tk: "take (length (?D @ [?b])) (bits_of ip) = ?D @ [?b]" "length (?D @ [?b]) \<le> c"
        using dc len "2.prems"(3) by (simp_all add: D take_Suc_conv_app_nth)
      have wfx: "wf_trie (length ip) (?D @ [?b]) ?x" using "2.prems"(1) by auto
      have IH: "insert_trie ?x ip c p = ins ?x ip c p"
        using "2.IH"(1) [OF True False _ _ "2.prems"(2,3) tk(2,1)] "2.IH"(2) [OF True False _ _ "2.prems"(2,3) tk(2,1)] wfx b
        by (cases ?b) auto
      have ins: "ins ?t ip c p = set_child ?b (ins ?x ip c p) ?t"
        using True False b by auto
      have np: "nodePlacement ?t ip c = (case nodePlacement ?x ip c of
          (Some q, exact) \<Rightarrow> (Some (?b # q), exact) | (None, exact) \<Rightarrow> (Some [], False))"
        using True False b by (auto simp: Let_def)
      show ?thesis
      proof (cases "nodePlacement ?x ip c")
        case (Pair o1 e1)
        show ?thesis
        proof (cases o1)
          case (Some q1)
          have nn: "?x \<noteq> Null" using Pair Some by auto
          show ?thesis
            unfolding ins IH [symmetric] using nn Pair Some
            by (cases ?b; cases e1) (simp_all add: insert_trie_def np Let_def del: nodePlacement.simps)
        next
          case None
          have IH': "ins ?x ip c p = (if ?x = Null then ?new else place_above ?x ?new ip)"
            unfolding IH [symmetric] by (auto simp: insert_trie_def Pair None)
          have "choose_bit d (bits (ins ?x ip c p)) = ?b"
            if "?x \<noteq> Null"
          proof -
            have i: "wf_trie (length ip) (?D @ [?b]) (ins ?x ip c p)" "ins ?x ip c p \<noteq> Null"
                "take (length (?D @ [?b])) (bits_of (bits (ins ?x ip c p))) = ?D @ [?b]"
              using ins_correct [OF wfx "2.prems"(2,3) tk(2,1)] by auto
            then have l: "length (bits (ins ?x ip c p)) = length ip"
              by (cases "ins ?x ip c p") auto
            have "(?D @ [?b]) ! d = ?b" "d < length (?D @ [?b])"
              using len dc "2.prems"(3) by (simp_all add: nth_append)
            then have "bits_of (bits (ins ?x ip c p)) ! d = ?b"
              using i(3) by (metis nth_take)
            with l dc "2.prems"(3) show ?thesis by (simp add: choose_bit_nth)
          qed
          then show ?thesis
            unfolding ins using b IH' Pair None
            by (cases ?b) (simp_all add: insert_trie_def np branch_of_def Let_def del: nodePlacement.simps)
        qed
      qed
    qed
  qed
qed

corollary insert_trie_correct:
  assumes "wf_trie (length ip) [] t" "length ip = 4 \<or> length ip = 16" "c \<le> 8 * length ip"
  shows "wf_trie (length ip) [] (insert_trie t ip c p)"
    "assoc (insert_trie t ip c p) = (assoc t)(take c (bits_of ip) \<mapsto> p)"
  using ins_correct [of ip "[]" t c p] insert_trie_ins [of ip "[]" t c p] assms by simp_all

subsection \<open>Placement finds the entry of a prefix\<close>

lemma nodePlacement_exact:
  assumes "wf_trie (length ip) q t" "length ip = 4 \<or> length ip = 16" "c \<le> 8 * length ip"
  shows "case nodePlacement t ip c of
      (Some w, True) \<Rightarrow> (cidr (node_at w t) = c \<and> bits (node_at w t) = mask_bits c ip \<and> node_at w t \<noteq> Null
        \<and> peer (node_at w t) = assoc t (take c (bits_of ip)))
    | _ \<Rightarrow> assoc t (take c (bits_of ip)) = None"
  using assms
proof (induction t ip c arbitrary: q rule: nodePlacement.induct)
  case (1 ip c)
  then show ?case by simp
next
  case (2 p d bs l r ip c)
  let ?t = "Node p d bs l r" and ?D = "take d (bits_of bs)" and ?K = "take c (bits_of ip)"
  have len: "length bs = length ip" "d \<le> 8 * length ip" "mask_bits d bs = bs" using "2.prems" by auto
  show ?case
  proof (cases "d \<le> c \<and> d \<le> common_bits bs ip")
    case False
    then have "\<not> (d \<le> c \<and> ?D = take d (bits_of ip))"
      using common_bits_ge [of bs ip d] len "2.prems" by auto
    then have "assoc ?t ?K = None"
      using assoc_Node_SomeD [of p d bs l r ?K] len "2.prems" by (cases "assoc ?t ?K") (auto simp: min_def split: if_splits)
    with False show ?thesis by (auto simp del: assoc.simps)
  next
    case True
    then have D: "?D = take d (bits_of ip)" using common_bits_ge [of bs ip d] len "2.prems" by auto
    show ?thesis
    proof (cases "d = c")
      case eq: True
      have "mask_bits c bs = mask_bits c ip" using D len eq by (intro mask_bits_cong) auto
      with True eq D len show ?thesis by auto
    next
      case False
      with True have dc: "d < c" by simp
      let ?b = "bits_of ip ! d" and ?x = "if choose_bit d ip then r else l"
      have b: "choose_bit d ip = ?b" using dc "2.prems" by (simp add: choose_bit_nth)
      have lens: "length ?K = c" "length ?D = d" using dc len "2.prems"(3) by auto
      have "?K \<noteq> ?D" using lens dc by (metis less_irrefl)
      then have aK: "assoc ?t ?K = assoc ?x ?K"
        using lens dc D b by (auto simp: min_def)
      have "wf_trie (length ip) (?D @ [?b]) ?x" using "2.prems"(1) b by auto
      from "2.IH" [OF True False refl this "2.prems"(2,3)]
      show ?thesis using True False unfolding aK
        by (auto simp: Let_def split: option.splits prod.splits bool.splits)
    qed
  qed
qed

subsection \<open>Removal\<close>

text \<open>The prefix of an entry as a bit string.\<close>

definition prefix_of :: "trieEntry \<Rightarrow> bool list" where
  "prefix_of t = take (cidr t) (bits_of (bits t))"

lemma prefix_of_Node [simp]: "prefix_of (Node p d bs l r) = take d (bits_of bs)"
  by (simp add: prefix_of_def)

lemma assoc_only_child:
  assumes "wf_trie n (take d (bits_of bs) @ [b]) x" "d \<le> 8 * length bs"
  shows "assoc (set_child b x (Node None d bs Null Null)) = assoc x"
proof
  fix k
  have "assoc x k \<noteq> None \<Longrightarrow> d < length k \<and> take d k = take d (bits_of bs) \<and> k ! d = b"
    using assoc_extends [OF assms(1), of k] assms(2)
    by (auto simp: take_Suc_conv_app_nth)
  then show "assoc (set_child b x (Node None d bs Null Null)) k = assoc x k"
    by (cases "assoc x k") auto
qed

lemma assoc_set_child:
  assumes "assoc x = (assoc (child b (Node p d bs l r)))(K := v)" "d < length K" "take d K = take d (bits_of bs)"
    "K ! d = b" "d \<le> 8 * length bs"
  shows "assoc (set_child b x (Node p d bs l r)) = (assoc (Node p d bs l r))(K := v)"
proof
  fix k
  have "K \<noteq> take d (bits_of bs)" using assms by (metis length_bits_of length_take less_irrefl min.absorb2)
  then show "assoc (set_child b x (Node p d bs l r)) k = ((assoc (Node p d bs l r))(K := v)) k"
    using assms by auto
qed

lemma wf_child: "wf_trie n q t \<Longrightarrow> t \<noteq> Null \<Longrightarrow> wf_trie n (prefix_of t @ [b]) (child b t)"
  by (cases t) auto

lemma remove_root_correct:
  assumes "wf_trie n q t" "t \<noteq> Null"
  shows "wf_trie n q (remove_root t) \<and> assoc (remove_root t) = (assoc t)(prefix_of t := None)"
proof (cases t)
  case Null
  with assms show ?thesis by simp
next
  case (Node p d bs l r)
  let ?D = "take d (bits_of bs)"
  have len: "d \<le> 8 * length bs" "length q \<le> d" "take (length q) (bits_of bs) = q"
    "wf_trie n (?D @ [False]) l" "wf_trie n (?D @ [True]) r"
    using assms Node by auto
  have up: "wf_trie n (?D @ [b]) x \<Longrightarrow> wf_trie n q x" for b x
    using len by (elim wf_weaken) (auto simp: min_def)
  have p: "assoc (Node None d bs l r) = (assoc t)(?D := None)"
    using Node by (intro ext) auto
  show ?thesis
  proof (cases "l \<noteq> Null \<and> r \<noteq> Null")
    case True
    with p Node assms show ?thesis by (auto simp: remove_root_def simp del: assoc.simps)
  next
    case False
    then have "assoc (remove_root t) = assoc (Node None d bs l r)"
      using assoc_only_child [OF len(5,1)] assoc_only_child [OF len(4,1)] Node
      by (cases l; cases r) (auto simp: remove_root_def simp del: assoc.simps)
    moreover have "wf_trie n q (remove_root t)"
      using False Node up len(4,5) by (auto simp: remove_root_def)
    ultimately show ?thesis using p Node by simp
  qed
qed

lemma take_snocD:
  assumes "take (length (xs @ [b])) k = xs @ [b]" "length (xs @ [b]) \<le> length k"
  shows "length xs < length k" "take (length xs) k = xs" "k ! length xs = b"
proof -
  show "length xs < length k" using assms(2) by simp
  have "take (length xs) (take (length (xs @ [b])) k) = xs" unfolding assms(1) by simp
  then show "take (length xs) k = xs" by (simp add: min_def)
  have "take (length (xs @ [b])) k ! length xs = b" unfolding assms(1) by simp
  then show "k ! length xs = b" by simp
qed

lemma node_at_Null [simp]: "node_at w Null = Null"
  by (induction w) auto

lemma remove_at_nonnull:
  "wf_trie n q t \<Longrightarrow> node_at (b # w) t \<noteq> Null \<Longrightarrow> remove_at (b # w) t \<noteq> Null"
proof (cases t)
  case (Node p d bs l r)
  assume "wf_trie n q t"
  with Node show ?thesis by (cases w; cases b) (auto simp: Let_def)
qed simp

lemma prefix_of_node_at:
  "wf_trie n q t \<Longrightarrow> node_at w t \<noteq> Null \<Longrightarrow>
    length q \<le> length (prefix_of (node_at w t)) \<and> take (length q) (prefix_of (node_at w t)) = q"
proof (induction w arbitrary: q t)
  case Nil
  then show ?case by (cases t) (auto simp: min_def)
next
  case (Cons b w)
  then have "t \<noteq> Null" by auto
  with Cons.prems obtain p d bs l r where t: "t = Node p d bs l r" by (cases t) auto
  have "wf_trie n (take d (bits_of bs) @ [b]) (child b t)" using Cons.prems t by auto
  from Cons.IH [OF this] Cons.prems
  have k: "length (take d (bits_of bs) @ [b]) \<le> length (prefix_of (node_at (b # w) t))"
    "take (length (take d (bits_of bs) @ [b])) (prefix_of (node_at (b # w) t)) = take d (bits_of bs) @ [b]" by auto
  note p = take_snocD [OF k(2,1)]
  have l: "length q \<le> length (take d (bits_of bs))" "take (length q) (take d (bits_of bs)) = q"
    using Cons.prems t by (auto simp: min_def)
  then have "take (length q) (prefix_of (node_at (b # w) t)) = q"
    using p(2) by (metis min.absorb1 take_take)
  with l p(1) show ?case by linarith
qed

lemma remove_at_correct:
  "wf_trie n q t \<Longrightarrow> node_at w t \<noteq> Null \<Longrightarrow>
    wf_trie n q (remove_at w t) \<and> assoc (remove_at w t) = (assoc t)(prefix_of (node_at w t) := None)"
proof (induction w t arbitrary: q rule: remove_at.induct)
  case (1 t)
  then show ?case using remove_root_correct [of n q t] by simp
next
  case (2 b t)
  then obtain p d bs l r where t: "t = Node p d bs l r" by (cases t) auto
  let ?N = "child b t" and ?D = "take d (bits_of bs)" and ?t' = "set_child b (remove_root (child b t)) t"
  have N: "?N \<noteq> Null" "wf_trie n (?D @ [b]) ?N" using "2.prems" t by auto
  have len: "d \<le> 8 * length bs" "n = length bs" using "2.prems" t by auto
  have R: "wf_trie n (?D @ [b]) (remove_root ?N)" "assoc (remove_root ?N) = (assoc ?N)(prefix_of ?N := None)"
    using remove_root_correct [OF N(2,1)] by auto
  have K: "d < length (prefix_of ?N)" "take d (prefix_of ?N) = ?D" "prefix_of ?N ! d = b"
    using prefix_of_node_at [OF N(2), of "[]"] N(1) len take_snocD [of ?D b "prefix_of ?N"] by auto
  have a: "assoc ?t' = (assoc t)(prefix_of ?N := None)"
    unfolding t using R(2) K len by (intro assoc_set_child) (simp_all add: t)
  show ?case
  proof (cases "child0 ?N \<noteq> Null \<or> child1 ?N \<noteq> Null")
    case True
    then have "remove_root ?N \<noteq> Null" using N by (cases ?N) (auto simp: remove_root_def)
    then have "wf_trie n q ?t'" using R(1) "2.prems" t by (cases b) auto
    with a True show ?thesis by (simp add: Let_def)
  next
    case leaf: False
    then have rn: "remove_root ?N = Null" using N by (cases ?N) (auto simp: remove_root_def)
    show ?thesis
    proof (cases "p = None")
      case False
      then have "wf_trie n q ?t'" using rn "2.prems" t by (cases b) auto
      moreover have "remove_at [b] t = ?t'" using leaf False t by (auto simp: Let_def)
      ultimately show ?thesis using a by simp
    next
      case True
      let ?M = "child (\<not> b) t"
      have M: "wf_trie n (?D @ [\<not> b]) ?M" using "2.prems" t by auto
      have "?t' = set_child (\<not> b) ?M (Node None d bs Null Null)"
        unfolding rn using t True by (cases b) auto
      then have "assoc ?t' = assoc ?M" using assoc_only_child [OF M len(1)] by simp
      moreover have "wf_trie n q ?M"
        using M by (rule wf_weaken) (use "2.prems" t len in \<open>auto simp: min_def\<close>)
      moreover have "remove_at [b] t = ?M"
        using leaf True t by (auto simp: Let_def)
      ultimately show ?thesis using a by simp
    qed
  qed
next
  case (3 b b' w t)
  then obtain p d bs l r where t: "t = Node p d bs l r" by (cases t) auto
  let ?N = "child b t" and ?D = "take d (bits_of bs)" and ?K = "prefix_of (node_at (b # b' # w) t)"
  have nn: "node_at (b' # w) ?N \<noteq> Null" and wfN: "wf_trie n (?D @ [b]) ?N" using "3.prems" t by auto
  have len: "d \<le> 8 * length bs" "n = length bs" using "3.prems" t by auto
  have IH: "wf_trie n (?D @ [b]) (remove_at (b' # w) ?N)" "assoc (remove_at (b' # w) ?N) = (assoc ?N)(?K := None)"
    using "3.IH" [OF wfN nn] by auto
  have K: "d < length ?K" "take d ?K = ?D" "?K ! d = b"
    using prefix_of_node_at [OF wfN nn] len take_snocD [of ?D b ?K] by auto
  have "assoc (set_child b (remove_at (b' # w) ?N) t) = (assoc t)(?K := None)"
    unfolding t using IH(2) K len by (intro assoc_set_child) (simp_all add: t)
  moreover have "wf_trie n q (set_child b (remove_at (b' # w) ?N) t)"
    using IH(1) remove_at_nonnull [OF wfN nn] "3.prems" t by (cases b) auto
  ultimately show ?case by simp
qed

subsection \<open>The abstract table\<close>

text \<open>The map of a table: from an address size in bytes and a bit string to the peer that owns that
  prefix. The operations on the map are one-liners; the ones on the tries implement them.\<close>

definition routes :: "AllowedIPs \<Rightarrow> nat \<Rightarrow> bool list \<Rightarrow> pid option" where
  "routes T n = (if n = 4 \<or> n = 16 then assoc (root_of T n) else Map.empty)"

definition key_ok :: "entry_key \<Rightarrow> bool" where
  "key_ok k \<longleftrightarrow> (length (fst k) = 4 \<or> length (fst k) = 16) \<and> snd k \<le> 8 * length (fst k) \<and> mask_bits (snd k) (fst k) = fst k"

definition key_bits :: "entry_key \<Rightarrow> bool list" where
  "key_bits k = take (snd k) (bits_of (fst k))"

text \<open>The invariant of a table: both tries are well formed, and a peer's list holds each entry that names
  it, once.\<close>

definition wf_table :: "AllowedIPs \<Rightarrow> bool" where
  "wf_table T \<longleftrightarrow> wf_trie 4 [] (IPv4 T) \<and> wf_trie 16 [] (IPv6 T) \<and>
    (\<forall>p. distinct (trieEntries T p) \<and>
      (\<forall>k. k \<in> set (trieEntries T p) \<longleftrightarrow> key_ok k \<and> routes T (length (fst k)) (key_bits k) = Some p))"

lemma byte_bits_surj: "length xs = 8 \<Longrightarrow> \<exists>b. byte_bits b = xs"
proof
  assume l: "length xs = 8"
  let ?b = "horner_sum of_bool 2 (rev xs) :: byte"
  show "byte_bits ?b = xs"
    using l by (intro nth_equalityI) (auto simp: bit_horner_sum_bit_word_iff rev_nth)
qed

lemma bits_of_surj: "length xs \<le> 8 * n \<Longrightarrow> \<exists>ip. length ip = n \<and> take (length xs) (bits_of ip) = xs"
proof (induction n arbitrary: xs)
  case 0
  then show ?case by simp
next
  case (Suc n)
  obtain b where b: "byte_bits b = take 8 (xs @ replicate 8 False)" using byte_bits_surj [of "take 8 (xs @ replicate 8 False)"] by (auto simp del: take_append)
  obtain ip where ip: "length ip = n" "take (length (drop 8 xs)) (bits_of ip) = drop 8 xs"
  proof -
    have "length (drop 8 xs) \<le> 8 * n" using Suc.prems by simp
    then show ?thesis using Suc.IH [of "drop 8 xs"] that by blast
  qed
  have "take (length xs) (bits_of (b # ip)) = xs"
    using ip by (cases "length xs < 8") (simp_all add: b min_def)
  then show ?case using ip by (intro exI [of _ "b # ip"]) simp
qed

lemma key_eqI: "key_ok k \<Longrightarrow> key_ok k' \<Longrightarrow> length (fst k) = length (fst k') \<Longrightarrow> key_bits k = key_bits k' \<Longrightarrow> k = k'"
proof -
  assume a: "key_ok k" "key_ok k'" "length (fst k) = length (fst k')" "key_bits k = key_bits k'"
  then have c: "snd k = snd k'"
    unfolding key_ok_def key_bits_def by (metis length_bits_of length_take min.absorb2)
  have "mask_bits (snd k) (fst k) = mask_bits (snd k) (fst k')"
    using a c by (intro mask_bits_cong) (simp_all add: key_ok_def key_bits_def)
  with a c show ?thesis by (simp add: key_ok_def prod_eq_iff)
qed

lemma key_ok_mask [simp]: "length ip = 4 \<or> length ip = 16 \<Longrightarrow> c \<le> 8 * length ip \<Longrightarrow> key_ok (mask_bits c ip, c)"
  by (simp add: key_ok_def)

lemma key_bits_mask [simp]: "c \<le> 8 * length ip \<Longrightarrow> key_bits (mask_bits c ip, c) = take c (bits_of ip)"
  by (simp add: key_bits_def)

lemma table_simps [simp]:
  "root_of (set_root T n t) n = t" "m \<in> {4, 16} \<Longrightarrow> n \<in> {4, 16} \<Longrightarrow> m \<noteq> n \<Longrightarrow> root_of (set_root T n t) m = root_of T m"
  "trieEntries (set_root T n t) = trieEntries T"
  "root_of (addToPeerEntries p k T) n = root_of T n" "root_of (removeFromPeerEntries q k T) n = root_of T n"
  "trieEntries (addToPeerEntries p k T) = (trieEntries T)(p := trieEntries T p @ [k])"
  "trieEntries (removeFromPeerEntries None k T) = trieEntries T"
  "trieEntries (removeFromPeerEntries (Some q') k T) = (trieEntries T)(q' := remove1 k (trieEntries T q'))"
  by (auto simp: root_of_def set_root_def addToPeerEntries_def removeFromPeerEntries_def split: option.splits)

lemma wf_table_roots: "wf_table T \<Longrightarrow> n = 4 \<or> n = 16 \<Longrightarrow> wf_trie n [] (root_of T n)"
  by (auto simp: wf_table_def root_of_def)

lemma wf_tableI:
  assumes "wf_trie 4 [] (root_of T 4)" "wf_trie 16 [] (root_of T 16)" "\<And>p. distinct (trieEntries T p)"
    "\<And>p k. k \<in> set (trieEntries T p) \<longleftrightarrow> key_ok k \<and> routes T (length (fst k)) (key_bits k) = Some p"
  shows "wf_table T"
  using assms unfolding wf_table_def by (auto simp: root_of_def)

lemma wf_tableD:
  assumes "wf_table T"
  shows "distinct (trieEntries T p)"
    "k \<in> set (trieEntries T p) \<longleftrightarrow> key_ok k \<and> routes T (length (fst k)) (key_bits k) = Some p"
  using assms unfolding wf_table_def by blast+

lemma routes_set_root:
  "n = 4 \<or> n = 16 \<Longrightarrow> routes (set_root T n t) = (routes T)(n := assoc t)"
  by (rule ext) (auto simp: routes_def)

lemma routes_entries [simp]:
  "routes (addToPeerEntries p k T) = routes T" "routes (removeFromPeerEntries q k T) = routes T"
  by (auto simp: routes_def fun_eq_iff)

lemma lists_changed:
  assumes ok: "wf_table T" and k: "key_ok k"
  shows "distinct (trieEntries (removeFromPeerEntries (routes T (length (fst k)) (key_bits k)) k T) p) \<and>
    (k' \<in> set (trieEntries (removeFromPeerEntries (routes T (length (fst k)) (key_bits k)) k T) p) \<longleftrightarrow>
      k' \<noteq> k \<and> k' \<in> set (trieEntries T p))"
proof (cases "routes T (length (fst k)) (key_bits k)")
  case None
  then show ?thesis using wf_tableD [OF ok] by auto
next
  case (Some q)
  then show ?thesis using wf_tableD [OF ok] by (auto simp: distinct_remove1)
qed

lemma Insert_correct:
  assumes ok: "wf_table T" and ip: "length ip = 4 \<or> length ip = 16" and c: "c \<le> 8 * length ip"
  shows "\<exists>T'. Insert ip c p T = Some T' \<and> wf_table T' \<and>
    routes T' = (routes T)(length ip := (routes T (length ip))(take c (bits_of ip) \<mapsto> p))"
proof -
  let ?n = "length ip" and ?k = "(mask_bits c ip, c)"
  let ?t = "root_of T ?n"
  let ?T1 = "removeFromPeerEntries (routes T ?n (take c (bits_of ip))) ?k T"
  let ?T' = "set_root (addToPeerEntries p ?k ?T1) ?n (insert_trie ?t ip c p)"
  have wf: "wf_trie ?n [] ?t" using ok ip by (rule wf_table_roots)
  have r: "routes T ?n = assoc ?t" using ip by (simp add: routes_def)
  have "(case nodePlacement ?t ip c of (Some q, True) \<Rightarrow> removeFromPeerEntries (peer (node_at q ?t)) ?k T | _ \<Rightarrow> T) = ?T1"
  proof (cases "nodePlacement ?t ip c")
    case (Pair w e)
    then show ?thesis using nodePlacement_exact [OF wf ip c]
      by (cases w; cases e) (simp_all add: r removeFromPeerEntries_def)
  qed
  then have "Insert ip c p T = Some ?T'"
    using ip by (auto simp: Insert_def Let_def)
  moreover have routes: "routes ?T' = (routes T)(?n := (routes T ?n)(take c (bits_of ip) \<mapsto> p))"
    using insert_trie_correct [OF wf ip c] ip r by (simp add: routes_set_root)
  moreover have "wf_table ?T'"
  proof (rule wf_tableI)
    show "wf_trie 4 [] (root_of ?T' 4)" "wf_trie 16 [] (root_of ?T' 16)"
      using insert_trie_correct(1) [OF wf ip c] ip wf_table_roots [OF ok] by (cases "?n = 4", auto)+
    fix p' k'
    have k: "key_ok ?k" "length (fst ?k) = ?n" "key_bits ?k = take c (bits_of ip)" using ip c by auto
    note l = lists_changed [OF ok k(1), of p', unfolded k]
    show "distinct (trieEntries ?T' p')" using l [of ?k] by auto
    show "k' \<in> set (trieEntries ?T' p') \<longleftrightarrow> key_ok k' \<and> routes ?T' (length (fst k')) (key_bits k') = Some p'"
    proof (cases "k' = ?k")
      case True
      with l [of ?k] show ?thesis using k c unfolding routes by auto
    next
      case False
      then have "key_ok k' \<Longrightarrow> \<not> (length (fst k') = ?n \<and> key_bits k' = take c (bits_of ip))"
        using key_eqI [of k' ?k] k by auto
      with False l [of k'] wf_tableD(2) [OF ok, of k' p'] show ?thesis
        unfolding routes by auto
    qed
  qed
  ultimately show ?thesis by blast
qed

text \<open>Removing the entry a placement found.\<close>

lemma remove_entry_correct:
  assumes ok: "wf_table T" and ip: "length ip = 4 \<or> length ip = 16" and c: "c \<le> 8 * length ip"
    and np: "nodePlacement (root_of T (length ip)) ip c = (Some w, True)"
  shows "wf_table (remove_entry w (length ip) T) \<and>
    routes (remove_entry w (length ip) T) = (routes T)(length ip := (routes T (length ip))(take c (bits_of ip) := None)) \<and>
    trieEntries (remove_entry w (length ip) T) =
      trieEntries (removeFromPeerEntries (routes T (length ip) (take c (bits_of ip))) (mask_bits c ip, c) T)"
proof -
  let ?n = "length ip" and ?k = "(mask_bits c ip, c)" and ?K = "take c (bits_of ip)"
  let ?t = "root_of T ?n" and ?T' = "remove_entry w (length ip) T"
  have wf: "wf_trie ?n [] ?t" using ok ip by (rule wf_table_roots)
  have r: "routes T ?n = assoc ?t" using ip by (simp add: routes_def)
  have N: "cidr (node_at w ?t) = c" "bits (node_at w ?t) = mask_bits c ip" "node_at w ?t \<noteq> Null"
    "peer (node_at w ?t) = assoc ?t ?K"
    using nodePlacement_exact [OF wf ip c] np by auto
  then have pk: "prefix_of (node_at w ?t) = ?K" using c by (simp add: prefix_of_def)
  note R = remove_at_correct [OF wf N(3), unfolded pk]
  have eq: "?T' = set_root (removeFromPeerEntries (routes T ?n ?K) ?k T) ?n (remove_at w ?t)"
    using N by (simp add: remove_entry_def Let_def r)
  have routes: "routes ?T' = (routes T)(?n := (routes T ?n)(?K := None))"
    unfolding eq using R ip r by (simp add: routes_set_root)
  moreover have "wf_table ?T'"
  proof (rule wf_tableI)
    show "wf_trie 4 [] (root_of ?T' 4)" "wf_trie 16 [] (root_of ?T' 16)"
      unfolding eq using R ip wf_table_roots [OF ok] by (cases "?n = 4", auto)+
    fix p' k'
    have k: "key_ok ?k" "length (fst ?k) = ?n" "key_bits ?k = ?K" using ip c by auto
    note l = lists_changed [OF ok k(1), of p', unfolded k]
    show "distinct (trieEntries ?T' p')" unfolding eq using l [of ?k] by auto
    show "k' \<in> set (trieEntries ?T' p') \<longleftrightarrow> key_ok k' \<and> routes ?T' (length (fst k')) (key_bits k') = Some p'"
    proof (cases "k' = ?k")
      case True
      with l [of ?k] show ?thesis using k c unfolding routes by (auto simp: eq)
    next
      case False
      then have "key_ok k' \<Longrightarrow> \<not> (length (fst k') = ?n \<and> key_bits k' = ?K)"
        using key_eqI [of k' ?k] k by auto
      with False l [of k'] wf_tableD(2) [OF ok, of k' p'] show ?thesis
        unfolding routes by (auto simp: eq)
    qed
  qed
  ultimately show ?thesis unfolding eq by simp
qed

lemma Remove_correct:
  assumes ok: "wf_table T" and ip: "length ip = 4 \<or> length ip = 16" and c: "c \<le> 8 * length ip"
  shows "\<exists>T'. Remove ip c p T = Some T' \<and> wf_table T' \<and>
    routes T' = (if routes T (length ip) (take c (bits_of ip)) = Some p
      then (routes T)(length ip := (routes T (length ip))(take c (bits_of ip) := None)) else routes T)"
proof -
  let ?t = "root_of T (length ip)"
  have wf: "wf_trie (length ip) [] ?t" using ok ip by (rule wf_table_roots)
  have r: "routes T (length ip) = assoc ?t" using ip by (simp add: routes_def)
  show ?thesis
  proof (cases "\<exists>w. nodePlacement ?t ip c = (Some w, True)")
    case True
    then obtain w where w: "nodePlacement ?t ip c = (Some w, True)" by blast
    have p: "peer (node_at w ?t) = assoc ?t (take c (bits_of ip))"
      using nodePlacement_exact [OF wf ip c] w by simp
    show ?thesis
      using remove_entry_correct [OF ok ip c w] w p ip ok
      by (cases "assoc ?t (take c (bits_of ip)) = Some p") (simp_all add: Remove_def r Let_def, auto)
  next
    case False
    then have "assoc ?t (take c (bits_of ip)) = None"
      using nodePlacement_exact [OF wf ip c] by (auto split: prod.splits option.splits bool.splits)
    moreover have "Remove ip c p T = Some T"
      using False ip by (auto simp: Remove_def Let_def split: prod.splits option.splits bool.splits)
    ultimately show ?thesis using ok r by simp
  qed
qed

lemma remove_key_correct:
  assumes ok: "wf_table T" and k: "k \<in> set (trieEntries T p)"
  shows "wf_table (remove_key T k) \<and>
    routes (remove_key T k) = (routes T)(length (fst k) := (routes T (length (fst k)))(key_bits k := None)) \<and>
    trieEntries (remove_key T k) = (trieEntries T)(p := remove1 k (trieEntries T p))"
proof -
  have kk: "key_ok k" "routes T (length (fst k)) (key_bits k) = Some p" using wf_tableD(2) [OF ok] k by auto
  then have ip: "length (fst k) = 4 \<or> length (fst k) = 16" "snd k \<le> 8 * length (fst k)" "mask_bits (snd k) (fst k) = fst k"
    by (auto simp: key_ok_def)
  have wf: "wf_trie (length (fst k)) [] (root_of T (length (fst k)))" using ok ip(1) by (rule wf_table_roots)
  obtain w where w: "nodePlacement (root_of T (length (fst k))) (fst k) (snd k) = (Some w, True)"
    using nodePlacement_exact [OF wf ip(1,2)] kk ip(1)
    by (auto simp: routes_def key_bits_def split: prod.splits option.splits bool.splits)
  have eq: "remove_key T k = remove_entry w (length (fst k)) T" using w by (simp add: remove_key_def)
  show ?thesis
    using remove_entry_correct [OF ok ip(1,2) w] kk ip(3)
    by (auto simp: eq key_bits_def removeFromPeerEntries_def)
qed

lemma foldl_remove_key:
  "wf_table T \<Longrightarrow> trieEntries T p = ks \<Longrightarrow>
    wf_table (foldl remove_key T ks) \<and> trieEntries (foldl remove_key T ks) p = [] \<and>
    (\<forall>q. q \<noteq> p \<longrightarrow> trieEntries (foldl remove_key T ks) q = trieEntries T q) \<and>
    (\<forall>n b. routes (foldl remove_key T ks) n b =
       (if \<exists>k \<in> set ks. length (fst k) = n \<and> key_bits k = b then None else routes T n b))"
proof (induction ks arbitrary: T)
  case Nil
  then show ?case by simp
next
  case (Cons k ks)
  then have k: "k \<in> set (trieEntries T p)" by simp
  note R = remove_key_correct [OF Cons.prems(1) k]
  have "trieEntries (remove_key T k) p = ks" using R Cons.prems by simp
  from Cons.IH [OF _ this] R show ?case by auto
qed

text \<open>Removing a peer removes its prefixes and nothing else.\<close>

lemma RemoveByPeer_correct:
  assumes "wf_table T"
  shows "wf_table (RemoveByPeer p T)" "trieEntries (RemoveByPeer p T) p = []"
    "routes (RemoveByPeer p T) = (\<lambda>n b. if routes T n b = Some p then None else routes T n b)"
proof -
  note F = foldl_remove_key [OF assms refl, of p]
  from F show "wf_table (RemoveByPeer p T)" "trieEntries (RemoveByPeer p T) p = []"
    by (simp_all add: RemoveByPeer_def)
  have "(\<exists>k \<in> set (trieEntries T p). length (fst k) = n \<and> key_bits k = b) \<longleftrightarrow> routes T n b = Some p" for n b
  proof
    assume a: "routes T n b = Some p"
    then have n: "n = 4 \<or> n = 16" "assoc (root_of T n) b \<noteq> None" by (auto simp: routes_def split: if_splits)
    have "length b \<le> 8 * n" using assoc_extends [OF wf_table_roots [OF assms n(1)] n(2)] by simp
    then have "\<exists>ip. length ip = n \<and> take (length b) (bits_of ip) = b" by (rule bits_of_surj)
    then obtain ip where ip: "length ip = n" "take (length b) (bits_of ip) = b" by blast
    have "key_ok (mask_bits (length b) ip, length b)" "key_bits (mask_bits (length b) ip, length b) = b"
      using ip n \<open>length b \<le> 8 * n\<close> by auto
    then show "\<exists>k \<in> set (trieEntries T p). length (fst k) = n \<and> key_bits k = b"
      using a ip by (intro bexI [of _ "(mask_bits (length b) ip, length b)"]) (simp_all add: wf_tableD(2) [OF assms])
  qed (use wf_tableD(2) [OF assms] in auto)
  then show "routes (RemoveByPeer p T) = (\<lambda>n b. if routes T n b = Some p then None else routes T n b)"
    using F by (intro ext) (simp add: RemoveByPeer_def)
qed

lemma Lookup_correct:
  assumes "wf_table T" "length ip = 4 \<or> length ip = 16"
  shows "Lookup T ip = Some (lpm (routes T (length ip)) (bits_of ip) (8 * length ip))"
proof -
  have "wf_trie (length ip) [] (root_of T (length ip))" using assms by (rule wf_table_roots)
  from lookup_lpm [OF this _ assms(2), of None] assms(2) show ?thesis
    by (auto simp: Lookup_def routes_def root_of_def split: option.splits)
qed

section \<open>The table as the device uses it\<close>

text \<open>What the device and its configuration code rely on: a table whose state is a finite map from
  prefixes to peers, changed by insertion and by purging a peer, and searched by longest prefix.\<close>

locale routing_table =
  fixes ok :: "'t \<Rightarrow> bool"
    and owner :: "'t \<Rightarrow> nat \<Rightarrow> bool list \<Rightarrow> pid option"
    and add :: "bytes \<Rightarrow> nat \<Rightarrow> pid \<Rightarrow> 't \<Rightarrow> 't option"
    and purge :: "pid \<Rightarrow> 't \<Rightarrow> 't"
    and find :: "'t \<Rightarrow> bytes \<Rightarrow> pid option option"
  assumes add: "ok T \<Longrightarrow> length ip = 4 \<or> length ip = 16 \<Longrightarrow> c \<le> 8 * length ip \<Longrightarrow>
      \<exists>T'. add ip c p T = Some T' \<and> ok T' \<and>
        owner T' = (owner T)(length ip := (owner T (length ip))(take c (bits_of ip) \<mapsto> p))"
    and purge: "ok T \<Longrightarrow> ok (purge p T) \<and>
      owner (purge p T) = (\<lambda>n b. if owner T n b = Some p then None else owner T n b)"
    and find: "ok T \<Longrightarrow> length ip = 4 \<or> length ip = 16 \<Longrightarrow>
      find T ip = Some (lpm (owner T (length ip)) (bits_of ip) (8 * length ip))"
begin

lemma find_owner:
  assumes "ok T" "length ip = 4 \<or> length ip = 16" "find T ip = Some (Some p)"
  shows "\<exists>n \<le> 8 * length ip. owner T (length ip) (take n (bits_of ip)) = Some p \<and>
    (\<forall>m. n < m \<and> m \<le> 8 * length ip \<longrightarrow> owner T (length ip) (take m (bits_of ip)) = None)"
proof -
  have "\<exists>n \<le> N. m (take n b) = Some p \<and> (\<forall>j. n < j \<and> j \<le> N \<longrightarrow> m (take j b) = None)"
    if "lpm m b N = Some p" for m b and N :: nat
    using that by (induction N) (auto simp: le_Suc_eq split: option.splits)
  then show ?thesis using find [OF assms(1,2)] assms(3) by simp
qed

lemma find_purged:
  assumes "ok T" "length ip = 4 \<or> length ip = 16"
  shows "find (purge p T) ip \<noteq> Some (Some p)"
  using find_owner [of "purge p T" ip p] purge [OF assms(1), of p] assms(2) by (auto split: if_splits)

lemma find_kept:
  assumes "ok T" "length ip = 4 \<or> length ip = 16" "find T ip = Some (Some q)" "q \<noteq> p"
  shows "find (purge p T) ip = Some (Some q)"
proof -
  have "lpm (\<lambda>b. if m b = Some p then None else m b) b N = Some q" if "lpm m b N = Some q" for m b and N :: nat
    using that assms(4) by (induction N) (auto split: option.splits if_splits)
  then show ?thesis using find [OF assms(1,2)] find [of "purge p T" ip] purge [OF assms(1), of p] assms by simp
qed

lemma find_added:
  assumes "ok T" "length ip = 4 \<or> length ip = 16"
  shows "\<exists>T'. add ip (8 * length ip) p T = Some T' \<and> find T' ip = Some (Some p)"
proof -
  obtain T' where T': "add ip (8 * length ip) p T = Some T'" "ok T'"
    "owner T' = (owner T)(length ip := (owner T (length ip))(take (8 * length ip) (bits_of ip) \<mapsto> p))"
    using add [OF assms, of "8 * length ip" p] by auto
  have "8 * length ip \<noteq> 0" using assms(2) by auto
  then have "lpm (owner T' (length ip)) (bits_of ip) (8 * length ip) = Some p"
    unfolding T'(3) by (cases "8 * length ip") auto
  then show ?thesis using T' find [OF T'(2) assms(2)] by auto
qed

end

interpretation cryptokey: routing_table wf_table routes Insert RemoveByPeer Lookup
proof (unfold_locales, goal_cases)
  case (1 T ip c p)
  then show ?case by (rule Insert_correct)
next
  case (2 T p)
  then show ?case using RemoveByPeer_correct [of T p] by auto
next
  case (3 T ip)
  then show ?case by (rule Lookup_correct)
qed

text \<open>A history of the table, and the same history on the map from prefixes to peers.\<close>

datatype table_op = Op_Insert bytes nat pid | Op_Remove bytes nat pid | Op_RemoveByPeer pid

fun table_op_ok :: "table_op \<Rightarrow> bool" where
  "table_op_ok (Op_Insert ip c p) \<longleftrightarrow> (length ip = 4 \<or> length ip = 16) \<and> c \<le> 8 * length ip"
| "table_op_ok (Op_Remove ip c p) \<longleftrightarrow> (length ip = 4 \<or> length ip = 16) \<and> c \<le> 8 * length ip"
| "table_op_ok (Op_RemoveByPeer p) \<longleftrightarrow> True"

fun table_step :: "AllowedIPs \<Rightarrow> table_op \<Rightarrow> AllowedIPs option" where
  "table_step T (Op_Insert ip c p) = Insert ip c p T"
| "table_step T (Op_Remove ip c p) = Remove ip c p T"
| "table_step T (Op_RemoveByPeer p) = Some (RemoveByPeer p T)"

fun map_step :: "(nat \<Rightarrow> bool list \<Rightarrow> pid option) \<Rightarrow> table_op \<Rightarrow> (nat \<Rightarrow> bool list \<Rightarrow> pid option)" where
  "map_step m (Op_Insert ip c p) = m(length ip := (m (length ip))(take c (bits_of ip) \<mapsto> p))"
| "map_step m (Op_Remove ip c p) =
     (if m (length ip) (take c (bits_of ip)) = Some p
      then m(length ip := (m (length ip))(take c (bits_of ip) := None)) else m)"
| "map_step m (Op_RemoveByPeer p) = (\<lambda>n b. if m n b = Some p then None else m n b)"

fun run_table :: "AllowedIPs \<Rightarrow> table_op list \<Rightarrow> AllowedIPs option" where
  "run_table T [] = Some T"
| "run_table T (x # xs) = (case table_step T x of Some T' \<Rightarrow> run_table T' xs | None \<Rightarrow> None)"

lemma wf_empty: "wf_table empty_table" "routes empty_table = (\<lambda>_ _. None)"
  by (auto simp: wf_table_def empty_table_def routes_def root_of_def fun_eq_iff)

lemma table_step_map:
  "wf_table T \<Longrightarrow> table_op_ok x \<Longrightarrow> \<exists>T'. table_step T x = Some T' \<and> wf_table T' \<and> routes T' = map_step (routes T) x"
  by (cases x) (use Insert_correct Remove_correct RemoveByPeer_correct in auto)

lemma run_table_map:
  "wf_table T \<Longrightarrow> list_all table_op_ok xs \<Longrightarrow>
    \<exists>T'. run_table T xs = Some T' \<and> wf_table T' \<and> routes T' = foldl map_step (routes T) xs"
proof (induction xs arbitrary: T)
  case (Cons x xs)
  then obtain T' where "table_step T x = Some T'" "wf_table T'" "routes T' = map_step (routes T) x"
    using table_step_map [of T x] by auto
  with Cons.IH [of T'] Cons.prems show ?case by auto
qed simp

text \<open>C14. Cryptokey routing is longest-prefix match. After any history of insertions, removals and
  purges of valid prefixes, none of which panics, \<open>Lookup\<close> of an address returns the peer of the longest
  prefix of the address in the map that the same history builds.\<close>

theorem Lookup_is_longest_prefix_match:
  assumes "list_all table_op_ok ops" "length ip = 4 \<or> length ip = 16"
  shows "\<exists>T. run_table empty_table ops = Some T \<and>
    Lookup T ip = Some (lpm (foldl map_step (\<lambda>_ _. None) ops (length ip)) (bits_of ip) (8 * length ip))"
  using run_table_map [OF wf_empty(1) assms(1)] cryptokey.find [OF _ assms(2)] wf_empty(2) by auto

theorem Lookup_is_longest_prefix_match_witness:
  "\<exists>T. run_table empty_table [Op_Insert [10, 0, 0, 0] 8 1, Op_Insert [10, 1, 0, 0] 16 2] = Some T \<and>
    Lookup T [10, 1, 2, 3] = Some (lpm (foldl map_step (\<lambda>_ _. None)
      [Op_Insert [10, 0, 0, 0] 8 1, Op_Insert [10, 1, 0, 0] 16 2] 4) (bits_of [10, 1, 2, 3]) 32)"
  using Lookup_is_longest_prefix_match
    [of "[Op_Insert [10, 0, 0, 0] 8 1, Op_Insert [10, 1, 0, 0] 16 2]" "[10, 1, 2, 3]"] by simp

text \<open>A removed peer is unreachable and nobody else is affected: after \<open>RemoveByPeer\<close>, no address
  is routed to the peer, its list of entries is empty, and an address routed to another peer still is.\<close>

theorem RemoveByPeer_isolates:
  assumes "list_all table_op_ok ops" "run_table empty_table ops = Some T" "length ip = 4 \<or> length ip = 16"
  shows "Lookup (RemoveByPeer p T) ip \<noteq> Some (Some p) \<and> EntriesForPeer (RemoveByPeer p T) p cb = [] \<and>
    (\<forall>q. q \<noteq> p \<and> Lookup T ip = Some (Some q) \<longrightarrow> Lookup (RemoveByPeer p T) ip = Some (Some q))"
proof -
  have ok: "wf_table T" using run_table_map [OF wf_empty(1) assms(1)] assms(2) by auto
  show ?thesis
    using cryptokey.find_purged [OF ok assms(3)] cryptokey.find_kept [OF ok assms(3)] RemoveByPeer_correct(2) [OF ok]
    by (simp add: EntriesForPeer_def)
qed

theorem RemoveByPeer_isolates_witness:
  "\<exists>T. run_table empty_table [Op_Insert [10, 0, 0, 0] 8 1, Op_Insert [10, 1, 0, 0] 16 2] = Some T \<and>
    Lookup (RemoveByPeer 1 T) [10, 1, 2, 3] \<noteq> Some (Some 1) \<and> EntriesForPeer (RemoveByPeer 1 T) 1 (\<lambda>_. True) = []"
proof -
  let ?ops = "[Op_Insert [10, 0, 0, 0] 8 1, Op_Insert [10, 1, 0, 0] 16 2]"
  obtain T where T: "run_table empty_table ?ops = Some T"
    using run_table_map [OF wf_empty(1), of ?ops] by auto
  show ?thesis
    using RemoveByPeer_isolates [OF _ T, of "[10, 1, 2, 3]" 1 "\<lambda>_. True"] T by (simp del: run_table.simps)
qed

lemma entries_until_all: "(\<And>k. cb k) \<Longrightarrow> entries_until cb ks = ks"
  by (induction ks) auto

text \<open>What \<open>EntriesForPeer\<close> reports, to a callback that never stops it, is what the table routes to
  the peer: each prefix it owns, masked, once.\<close>

theorem EntriesForPeer_complete:
  assumes "list_all table_op_ok ops" "run_table empty_table ops = Some T"
  shows "distinct (EntriesForPeer T p (\<lambda>_. True)) \<and>
    (\<forall>ip c. length ip = 4 \<or> length ip = 16 \<longrightarrow> c \<le> 8 * length ip \<longrightarrow>
      ((mask_bits c ip, c) \<in> set (EntriesForPeer T p (\<lambda>_. True))
        \<longleftrightarrow> foldl map_step (\<lambda>_ _. None) ops (length ip) (take c (bits_of ip)) = Some p))"
proof -
  have ok: "wf_table T" and r: "routes T = foldl map_step (\<lambda>_ _. None) ops"
    using run_table_map [OF wf_empty(1) assms(1)] assms(2) wf_empty(2) by auto
  show ?thesis using wf_tableD [OF ok] by (simp add: EntriesForPeer_def entries_until_all r)
qed

theorem EntriesForPeer_complete_witness:
  "(mask_bits 8 [10, 0, 0, 0], 8) \<in> set (EntriesForPeer
     (the (run_table empty_table [Op_Insert [10, 0, 0, 0] 8 1])) 1 (\<lambda>_. True))"
proof -
  obtain T where T: "run_table empty_table [Op_Insert [10, 0, 0, 0] 8 1] = Some T"
    using run_table_map [OF wf_empty(1), of "[Op_Insert [10, 0, 0, 0] 8 1]"] by auto
  show ?thesis
    using EntriesForPeer_complete [OF _ T, of 1] T
    by (auto simp del: run_table.simps elim!: conjE allE [of _ "[10, 0, 0, 0]"] allE [of _ 8])
qed

end
