(* ===== verification/Noise_Crypto.thy ===== *)
theory Noise_Crypto
  imports Go_Text
begin

text \<open>
  The primitives the protocol uses and what \<open>device/noise-helpers.go\<close> and \<open>device/noise-types.go\<close> build
  from them. BLAKE2s, ChaCha20-Poly1305, XChaCha20-Poly1305 and Curve25519 are not in the repository: they
  are the fields of a record \<open>crypto\<close> that every definition takes, and \<open>crypto_ok\<close> states what their
  documentation promises. HMAC (of Go's standard library) and the key derivation are written out.
\<close>

section \<open>Primitives\<close>

text \<open>Arguments: \<open>hash256\<close> data; \<open>mac128\<close> key data; \<open>seal\<close> and \<open>xseal\<close> key nonce plaintext additional;
  \<open>open_box\<close> and \<open>xopen_box\<close> key nonce ciphertext additional; \<open>scalar_mult\<close> secret point; \<open>base_mult\<close>
  secret.\<close>

record crypto =
  hash256 :: "bytes \<Rightarrow> bytes"
  mac128 :: "bytes \<Rightarrow> bytes \<Rightarrow> bytes"
  seal :: "bytes \<Rightarrow> bytes \<Rightarrow> bytes \<Rightarrow> bytes \<Rightarrow> bytes"
  open_box :: "bytes \<Rightarrow> bytes \<Rightarrow> bytes \<Rightarrow> bytes \<Rightarrow> bytes option"
  xseal :: "bytes \<Rightarrow> bytes \<Rightarrow> bytes \<Rightarrow> bytes \<Rightarrow> bytes"
  xopen_box :: "bytes \<Rightarrow> bytes \<Rightarrow> bytes \<Rightarrow> bytes \<Rightarrow> bytes option"
  scalar_mult :: "bytes \<Rightarrow> bytes \<Rightarrow> bytes"
  base_mult :: "bytes \<Rightarrow> bytes"

definition crypto_ok :: "crypto \<Rightarrow> bool" where
  "crypto_ok C \<longleftrightarrow>
     (\<forall>d. length (hash256 C d) = 32) \<and> (\<forall>k d. length (mac128 C k d) = 16) \<and>
     (\<forall>s p. length (scalar_mult C s p) = 32) \<and> (\<forall>s. length (base_mult C s) = 32) \<and>
     (\<forall>k n p a. length (seal C k n p a) = length p + 16) \<and> (\<forall>k n p a. open_box C k n (seal C k n p a) a = Some p) \<and>
     (\<forall>k n p a. length (xseal C k n p a) = length p + 16) \<and> (\<forall>k n p a. xopen_box C k n (xseal C k n p a) a = Some p) \<and>
     (\<forall>s t. length s = 32 \<longrightarrow> length t = 32 \<longrightarrow> scalar_mult C s (base_mult C t) = scalar_mult C t (base_mult C s))"

lemma crypto_okD:
  assumes "crypto_ok C"
  shows "length (hash256 C d) = 32" "length (mac128 C k d) = 16" "length (scalar_mult C s p) = 32"
    "length (base_mult C s) = 32" "length (seal C k n q a) = length q + 16" "open_box C k n (seal C k n q a) a = Some q"
    "length (xseal C k n q a) = length q + 16" "xopen_box C k n (xseal C k n q a) a = Some q"
    "length s = 32 \<Longrightarrow> length t = 32 \<Longrightarrow> scalar_mult C s (base_mult C t) = scalar_mult C t (base_mult C s)"
  using assms unfolding crypto_ok_def by auto

text \<open>An instance on which every law holds, for evaluation: hashes and tags are constant, the group is
  byte-wise addition.\<close>

definition toy_crypto :: crypto where
  "toy_crypto =
     \<lparr>hash256 = (\<lambda>d. replicate 32 7), mac128 = (\<lambda>k d. replicate 16 9),
      seal = (\<lambda>k n p a. p @ replicate 16 5),
      open_box = (\<lambda>k n c a. if 16 \<le> length c then Some (take (length c - 16) c) else None),
      xseal = (\<lambda>k n p a. p @ replicate 16 5),
      xopen_box = (\<lambda>k n c a. if 16 \<le> length c then Some (take (length c - 16) c) else None),
      scalar_mult = (\<lambda>s p. map (\<lambda>i. (if i < length s then s ! i else 0) + (if i < length p then p ! i else 0)) [0..<32]),
      base_mult = (\<lambda>s. map (\<lambda>i. if i < length s then s ! i else 0) [0..<32])\<rparr>"

lemma toy_crypto_ok: "crypto_ok toy_crypto"
  by (auto simp: crypto_ok_def toy_crypto_def add.commute)

section \<open>Hashes and key derivation\<close>

text \<open>\<open>crypto/hmac\<close> over BLAKE2s-256, whose block is 64 bytes long.\<close>

definition hmac :: "crypto \<Rightarrow> bytes \<Rightarrow> bytes \<Rightarrow> bytes" where
  "hmac C key d =
     (let k = (if length key > 64 then hash256 C key else key);
          k = k @ replicate (64 - length k) 0;
          ipad = map (\<lambda>b. b XOR 0x36) k; opad = map (\<lambda>b. b XOR 0x5c) k
      in hash256 C (opad @ hash256 C (ipad @ d)))"

definition HMAC1 :: "crypto \<Rightarrow> bytes \<Rightarrow> bytes \<Rightarrow> bytes" where
  "HMAC1 C key in0 = hmac C key in0"

definition HMAC2 :: "crypto \<Rightarrow> bytes \<Rightarrow> bytes \<Rightarrow> bytes \<Rightarrow> bytes" where
  "HMAC2 C key in0 in1 = hmac C key (in0 @ in1)"

definition KDF1 :: "crypto \<Rightarrow> bytes \<Rightarrow> bytes \<Rightarrow> bytes" where
  "KDF1 C key input = (let t0 = HMAC1 C key input in HMAC1 C t0 [1])"

definition KDF2 :: "crypto \<Rightarrow> bytes \<Rightarrow> bytes \<Rightarrow> bytes \<times> bytes" where
  "KDF2 C key input =
     (let prk = HMAC1 C key input; t0 = HMAC1 C prk [1]; t1 = HMAC2 C prk t0 [2] in (t0, t1))"

definition KDF3 :: "crypto \<Rightarrow> bytes \<Rightarrow> bytes \<Rightarrow> bytes \<times> bytes \<times> bytes" where
  "KDF3 C key input =
     (let prk = HMAC1 C key input; t0 = HMAC1 C prk [1]; t1 = HMAC2 C prk t0 [2]; t2 = HMAC2 C prk t1 [3]
      in (t0, t1, t2))"

definition mixKey :: "crypto \<Rightarrow> bytes \<Rightarrow> bytes \<Rightarrow> bytes" where
  "mixKey C c d = KDF1 C c d"

definition mixHash :: "crypto \<Rightarrow> bytes \<Rightarrow> bytes \<Rightarrow> bytes" where
  "mixHash C h d = hash256 C (h @ d)"

definition ascii :: "string \<Rightarrow> bytes" where
  "ascii s = map (\<lambda>c. of_char c) s"

definition InitialChainKey :: "crypto \<Rightarrow> bytes" where
  "InitialChainKey C = hash256 C (ascii ''Noise_IKpsk2_25519_ChaChaPoly_BLAKE2s'')"

definition InitialHash :: "crypto \<Rightarrow> bytes" where
  "InitialHash C = mixHash C (InitialChainKey C) (ascii ''WireGuard v1 zx2c4 Jason@zx2c4.com'')"

definition ZeroNonce :: bytes where
  "ZeroNonce = replicate 12 0"

section \<open>Keys\<close>

fun isZero :: "bytes \<Rightarrow> bool" where
  "isZero [] = True"
| "isZero (b # bs) = (isZero bs \<and> b = 0)"

definition setZero :: "bytes \<Rightarrow> bytes" where
  "setZero arr = map (\<lambda>_. 0) arr"

definition clamp :: "bytes \<Rightarrow> bytes" where
  "clamp sk = (let sk = sk[0 := sk ! 0 AND 248] in sk[31 := (sk ! 31 AND 127) OR 64])"

definition newPrivateKey :: "rng \<Rightarrow> bytes \<times> rng" where
  "newPrivateKey r = (let (sk, r) = rand_read 32 r in (clamp sk, r))"

definition publicKey_of :: "crypto \<Rightarrow> bytes \<Rightarrow> bytes" where
  "publicKey_of C sk = base_mult C sk"

text \<open>\<open>sharedSecret\<close>: the secret, and whether \<open>errInvalidPublicKey\<close> comes with it.\<close>

definition sharedSecret :: "crypto \<Rightarrow> bytes \<Rightarrow> bytes \<Rightarrow> bytes \<times> bool" where
  "sharedSecret C sk pk = (let ss = scalar_mult C sk pk in (ss, isZero ss))"

text \<open>The result says whether the load succeeded; on an error the destination keeps its value.\<close>

definition loadExactHex :: "bytes \<Rightarrow> string \<Rightarrow> bool \<times> bytes" where
  "loadExactHex dst src =
     (case hex_decode src of
        None \<Rightarrow> (False, dst)
      | Some sl \<Rightarrow> if length sl \<noteq> length dst then (False, dst) else (True, copy_into dst sl))"

definition PrivateKey_FromHex :: "bytes \<Rightarrow> string \<Rightarrow> bool \<times> bytes" where
  "PrivateKey_FromHex key src = (let (ok, key) = loadExactHex key src in (ok, clamp key))"

definition PrivateKey_FromMaybeZeroHex :: "bytes \<Rightarrow> string \<Rightarrow> bool \<times> bytes" where
  "PrivateKey_FromMaybeZeroHex key src =
     (let (ok, key) = loadExactHex key src in if isZero key then (ok, key) else (ok, clamp key))"

definition PublicKey_FromHex :: "bytes \<Rightarrow> string \<Rightarrow> bool \<times> bytes" where
  "PublicKey_FromHex key src = loadExactHex key src"

definition PresharedKey_FromHex :: "bytes \<Rightarrow> string \<Rightarrow> bool \<times> bytes" where
  "PresharedKey_FromHex key src = loadExactHex key src"

lemma isZero_iff: "isZero bs \<longleftrightarrow> bs = replicate (length bs) 0"
  by (induction bs) auto

lemma isZero_setZero [simp]: "isZero (setZero bs)"
  by (induction bs) (auto simp: setZero_def)

lemma length_setZero [simp]: "length (setZero bs) = length bs"
  by (simp add: setZero_def)

lemma length_clamp [simp]: "length (clamp sk) = length sk"
  by (simp add: clamp_def Let_def)

lemma length_KDF [simp]:
  assumes "crypto_ok C"
  shows "length (hmac C k d) = 32" "length (KDF1 C k d) = 32" "length (mixKey C k d) = 32"
    "length (mixHash C k d) = 32" "length (InitialChainKey C) = 32" "length (InitialHash C) = 32"
    "length (fst (KDF2 C k d)) = 32" "length (snd (KDF2 C k d)) = 32"
  using crypto_okD [OF assms]
  by (simp_all add: hmac_def KDF1_def KDF2_def HMAC1_def HMAC2_def mixKey_def mixHash_def InitialChainKey_def InitialHash_def Let_def)

lemma length_newPrivateKey [simp]: "length (fst (newPrivateKey r)) = 32"
  by (simp add: newPrivateKey_def rand_read_def)

text \<open>Clamping clears the three low bits and the top bit and sets the second top bit; doing it twice
  changes nothing, and a clamped key is never zero.\<close>

lemma clamp_clamp: "length sk = 32 \<Longrightarrow> clamp (clamp sk) = clamp sk"
proof (rule nth_equalityI)
  fix i assume l: "length sk = 32" and i: "i < length (clamp (clamp sk))"
  have idem: "(x AND 127 OR 64) AND 127 OR 64 = x AND 127 OR 64" for x :: byte
    by (rule bit_word_eqI) (auto simp: bit_and_iff bit_or_iff)
  show "clamp (clamp sk) ! i = clamp sk ! i"
    using l i by (auto simp: clamp_def Let_def nth_list_update and.assoc idem)
qed simp

lemma clamp_not_zero: "length sk = 32 \<Longrightarrow> \<not> isZero (clamp sk)"
proof
  assume l: "length sk = 32" and z: "isZero (clamp sk)"
  then have "clamp sk ! 31 = 0" using l nth_replicate [of 31 32 "0 :: byte"] by (simp add: isZero_iff)
  then have "(sk ! 31 AND 127) OR 64 = 0" using l by (simp add: clamp_def Let_def)
  then have "bit ((sk ! 31 AND 127) OR 64) 6 = False" by simp
  then show False by (simp add: bit_or_iff bit_numeral_rec)
qed

end
