(* ===== verification/Tai64n.thy ===== *)
theory Tai64n
  imports Prelude
begin

text \<open>
  Go times and \<open>tai64n/tai64n.go\<close>. A \<open>time.Time\<close> is the number of nanoseconds since Go's zero time (the
  start of year 1), so \<open>IsZero\<close> is equality with 0; a \<open>time.Duration\<close> is a number of nanoseconds. The
  timestamps that order handshake initiations are big-endian TAI64N labels whose nanoseconds are whitened
  to 24 bits; the theorems say what the comparison of two of them decides about the times.
\<close>

section \<open>Times and durations\<close>

type_synonym Time = int
type_synonym Duration = int

definition Second :: Duration where "Second = 1000000000"
definition Millisecond :: Duration where "Millisecond = 1000000"

text \<open>\<open>t.Sub(u)\<close> saturates at the range of \<open>int64\<close>.\<close>

definition time_sub :: "Time \<Rightarrow> Time \<Rightarrow> Duration" where
  "time_sub t u = max (- (2 ^ 63)) (min (2 ^ 63 - 1) (t - u))"

definition Unix :: "Time \<Rightarrow> int" where
  "Unix t = t div Second - 62135596800"

definition Nanosecond :: "Time \<Rightarrow> int" where
  "Nanosecond t = t mod Second"

definition time_Unix :: "int \<Rightarrow> int \<Rightarrow> Time" where
  "time_Unix sec nsec = (sec + 62135596800) * Second + nsec"

lemma time_Unix_parts: "time_Unix (Unix t) (Nanosecond t) = t"
  by (simp add: time_Unix_def Unix_def Nanosecond_def Second_def)

lemma Nanosecond_bounds: "0 \<le> Nanosecond t" "Nanosecond t < 1000000000"
  by (simp_all add: Nanosecond_def Second_def)

section \<open>Comparison of byte strings\<close>

fun bytes_compare :: "bytes \<Rightarrow> bytes \<Rightarrow> int" where
  "bytes_compare [] [] = 0"
| "bytes_compare [] (_ # _) = - 1"
| "bytes_compare (_ # _) [] = 1"
| "bytes_compare (a # as) (b # bs) = (if a < b then - 1 else if b < a then 1 else bytes_compare as bs)"

lemma bytes_compare_be:
  "length xs = length ys \<Longrightarrow>
    (0 < bytes_compare xs ys \<longleftrightarrow> be_nat ys < be_nat xs) \<and> (bytes_compare xs ys = 0 \<longleftrightarrow> xs = ys)"
proof (induction xs ys rule: bytes_compare.induct)
  case (4 a as b bs)
  have lex: "unat y * N + r < unat x * N + s" if "y < x" "r < N" for x y :: byte and N r s :: nat
  proof -
    have "Suc (unat y) \<le> unat x" using that by (simp add: word_less_nat_alt)
    then have "Suc (unat y) * N \<le> unat x * N" by (rule mult_le_mono1)
    with that show ?thesis by simp
  qed
  have N: "be_nat as < 256 ^ length as" "be_nat bs < 256 ^ length as"
    using be_nat_less [of as] be_nat_less [of bs] 4 by simp_all
  consider "a < b" | "b < a" | "a = b" by (metis linorder_neqE)
  then show ?case
  proof cases
    case 1
    then show ?thesis using lex [OF 1 N(1), of "be_nat bs"] 4 by auto
  next
    case 2
    then show ?thesis using lex [OF 2 N(2), of "be_nat as"] 4 by auto
  next
    case 3
    then show ?thesis using 4 by auto
  qed
qed auto

section \<open>Timestamps\<close>

definition tai64n_base :: u64 where "tai64n_base = 0x400000000000000a"
definition whitenerMask :: u32 where "whitenerMask = 0x1000000 - 1"

definition stamp :: "Time \<Rightarrow> bytes" where
  "stamp t =
     (let secs = tai64n_base + word_of_int (Unix t);
          nano = word_of_int (Nanosecond t) AND NOT whitenerMask
      in put_u64_be secs @ put_u32_be nano)"

definition After :: "bytes \<Rightarrow> bytes \<Rightarrow> bool" where
  "After t1 t2 \<longleftrightarrow> 0 < bytes_compare t1 t2"

text \<open>The time that \<open>String\<close> prints.\<close>

definition timestamp_time :: "bytes \<Rightarrow> Time" where
  "timestamp_time t =
     time_Unix (sint (get_u64_be (take 8 t) - tai64n_base)) (uint (get_u32_be (go_slice 8 12 t)))"

lemma length_stamp [simp]: "length (stamp t) = 12"
  by (simp add: stamp_def Let_def)

lemma After_irrefl [simp]: "\<not> After t t"
  using bytes_compare_be [of t t] by (simp add: After_def)

lemma bytes_compare_trans: "0 < bytes_compare a b \<Longrightarrow> 0 < bytes_compare b c \<Longrightarrow> 0 < bytes_compare a c"
proof (induction a b arbitrary: c rule: bytes_compare.induct)
  case (4 a as b bs)
  then show ?case by (cases c) (auto split: if_splits)
next
  case (3 a as)
  then show ?case by (cases c) auto
qed auto

lemma After_trans: "After a b \<Longrightarrow> After b c \<Longrightarrow> After a c"
  unfolding After_def by (rule bytes_compare_trans)

lemma After_asym: "After a b \<Longrightarrow> \<not> After b a"
  using After_trans [of a b a] by auto

lemma After_linear:
  "length a = length b \<Longrightarrow> a \<noteq> b \<Longrightarrow> After a b \<longleftrightarrow> \<not> After b a"
  using bytes_compare_be [of a b] bytes_compare_be [of b a] be_nat_inject [of a b] by (auto simp: After_def)

lemma unat_whiten: "unat (w AND NOT whitenerMask) = unat w div 2 ^ 24 * 2 ^ 24"
proof -
  have m: "whitenerMask = mask 24" by (simp add: whitenerMask_def mask_eq_exp_minus_1)
  have "w AND NOT whitenerMask = push_bit 24 (drop_bit 24 w)"
    unfolding m by (rule bit_word_eqI) (auto simp: bit_and_iff bit_not_iff bit_mask_iff bit_push_bit_iff bit_drop_bit_eq)
  then have "unat (w AND NOT whitenerMask) = take_bit 32 (push_bit 24 (drop_bit 24 (unat w)))"
    by (simp only: unsigned_push_bit_eq unat_drop_bit_eq) simp
  also have "\<dots> = (unat w div 2 ^ 24 * 2 ^ 24) mod 2 ^ 32"
    by (simp only: take_bit_eq_mod push_bit_eq_mult drop_bit_eq_div)
  also have "\<dots> = unat w div 2 ^ 24 * 2 ^ 24"
  proof (rule mod_less)
    have "unat w div 2 ^ 24 * 2 ^ 24 \<le> unat w" by (rule div_times_less_eq_dividend)
    with unat_u32_less [of w] show "unat w div 2 ^ 24 * 2 ^ 24 < 2 ^ 32" by simp
  qed
  finally show ?thesis .
qed

definition in_range :: "Time \<Rightarrow> bool" where
  "in_range t \<longleftrightarrow> - (2 ^ 62) \<le> Unix t \<and> Unix t < 2 ^ 62"

lemma unat_secs:
  assumes "in_range t"
  shows "int (unat (tai64n_base + word_of_int (Unix t))) = 2 ^ 62 + 10 + Unix t"
proof -
  have "tai64n_base + word_of_int (Unix t) = word_of_int (2 ^ 62 + 10 + Unix t)"
    by (simp add: tai64n_base_def)
  moreover have "uint (word_of_int (2 ^ 62 + 10 + Unix t) :: u64) = 2 ^ 62 + 10 + Unix t"
    using assms unfolding uint_word_of_int in_range_def by (subst mod_pos_pos_trivial) simp_all
  ultimately have "uint (tai64n_base + word_of_int (Unix t)) = 2 ^ 62 + 10 + Unix t" by simp
  then show ?thesis by (simp only: uint_nat)
qed

lemma unat_nano: "int (unat (word_of_int (Nanosecond t) :: u32)) = Nanosecond t"
proof -
  have "uint (word_of_int (Nanosecond t) :: u32) = Nanosecond t"
    using Nanosecond_bounds [of t] by (simp add: uint_word_of_int)
  then show ?thesis by (simp only: uint_nat)
qed

lemma lex_less: "(b :: nat) < N \<Longrightarrow> d < N \<Longrightarrow> a * N + b < c * N + d \<longleftrightarrow> a < c \<or> a = c \<and> b < d"
proof -
  assume N: "b < N" "d < N"
  have "x * N + y < z * N + w" if "x < z" "y < N" for x y z w :: nat
  proof -
    have "Suc x * N \<le> z * N" using that by (intro mult_le_mono1) simp
    with that show ?thesis by simp
  qed
  with N show ?thesis by (metis linorder_neqE_nat nat_add_left_cancel_less not_less_iff_gr_or_eq)
qed

lemma After_slots:
  assumes "in_range t" "in_range u"
  shows "After (stamp t) (stamp u) \<longleftrightarrow>
    Unix u < Unix t \<or> Unix u = Unix t \<and> Nanosecond u div 2 ^ 24 < Nanosecond t div 2 ^ 24"
proof -
  let ?S = "\<lambda>t. unat (tai64n_base + word_of_int (Unix t))" and ?W = "\<lambda>t. unat (word_of_int (Nanosecond t) AND NOT whitenerMask)"
  have be: "be_nat (stamp t) = ?S t * 2 ^ 32 + ?W t" for t
    using unat_u64_less [of "tai64n_base + word_of_int (Unix t)"] unat_u32_less [of "word_of_int (Nanosecond t) AND NOT whitenerMask"]
    by (simp add: stamp_def Let_def be_nat_append put_u64_be_def put_u32_be_def)
  have W: "int (?W t) = Nanosecond t div 2 ^ 24 * 2 ^ 24" for t
    unfolding unat_whiten by (simp only: of_nat_mult of_nat_power zdiv_int unat_nano) simp
  have lt: "?W t < 2 ^ 32" for t
    using unat_u32_less [of "word_of_int (Nanosecond t) AND NOT whitenerMask"] by simp
  have "After (stamp t) (stamp u) \<longleftrightarrow> ?S u * 2 ^ 32 + ?W u < ?S t * 2 ^ 32 + ?W t"
    using bytes_compare_be [of "stamp t" "stamp u"] by (simp add: After_def be)
  also have "\<dots> \<longleftrightarrow> ?S u < ?S t \<or> ?S u = ?S t \<and> ?W u < ?W t"
    using lt by (rule lex_less [OF lt])
  also have "?S u < ?S t \<longleftrightarrow> Unix u < Unix t"
    using unat_secs [OF assms(1)] unat_secs [OF assms(2)] by linarith
  also have "?S u = ?S t \<longleftrightarrow> Unix u = Unix t"
    using unat_secs [OF assms(1)] unat_secs [OF assms(2)] by linarith
  also have "?W u < ?W t \<longleftrightarrow> Nanosecond u div 2 ^ 24 < Nanosecond t div 2 ^ 24"
  proof -
    have "?W u < ?W t \<longleftrightarrow> int (?W u) < int (?W t)" by (simp only: of_nat_less_iff)
    then show ?thesis unfolding W by simp
  qed
  finally show ?thesis .
qed

text \<open>The timestamp order is sound and has a resolution of \<open>2^24\<close> nanoseconds (17 ms): a label is
  never after that of a later time, and it is after that of every time at least \<open>2^24\<close> nanoseconds
  earlier. So an initiation that replays an old time is never taken for a newer one, and two honest
  initiations that far apart are always told apart.\<close>

theorem After_order_and_resolution:
  assumes "in_range t" "in_range u"
  shows "(t \<le> u \<longrightarrow> \<not> After (stamp t) (stamp u)) \<and> (u + 2 ^ 24 \<le> t \<longrightarrow> After (stamp t) (stamp u))"
proof -
  define q r q' r' where "q = t div Second" and "r = t mod Second" and "q' = u div Second" and "r' = u mod Second"
  have parts: "t = 1000000000 * q + r" "0 \<le> r" "r < 1000000000" "u = 1000000000 * q' + r'" "0 \<le> r'" "r' < 1000000000"
    by (simp_all add: q_def r_def q'_def r'_def Second_def)
  have U: "Unix t = q - 62135596800" "Unix u = q' - 62135596800" "Nanosecond t = r" "Nanosecond u = r'"
    by (simp_all add: Unix_def Nanosecond_def q_def r_def q'_def r'_def)
  have mono: "r \<le> r' \<Longrightarrow> r div 2 ^ 24 \<le> r' div 2 ^ 24" by (simp add: zdiv_mono1)
  have step: "r' + 2 ^ 24 \<le> r \<Longrightarrow> r' div 2 ^ 24 < r div 2 ^ 24"
    using zdiv_mono1 [of "r' + 2 ^ 24" r "2 ^ 24"] by simp
  show ?thesis
    unfolding After_slots [OF assms] U using parts mono step by auto
qed

theorem After_order_and_resolution_witness:
  "After (stamp (62135596800 * Second + 2 ^ 24)) (stamp (62135596800 * Second))"
  using After_order_and_resolution [of "62135596800 * Second + 2 ^ 24" "62135596800 * Second"]
  by (simp add: in_range_def Unix_def Second_def)

text \<open>Reading a label back gives the time, less the whitened nanoseconds.\<close>

lemma timestamp_time_stamp:
  assumes "in_range t"
  shows "timestamp_time (stamp t) = t - Nanosecond t mod 2 ^ 24"
proof -
  have "tai64n_base + word_of_int (Unix t) - tai64n_base = (word_of_int (Unix t) :: u64)" by simp
  moreover have "sint (word_of_int (Unix t) :: u64) = Unix t"
    using assms by (simp add: in_range_def sint_sbintrunc' signed_take_bit_int_eq_self)
  moreover have "uint (word_of_int (Nanosecond t) AND NOT whitenerMask) = Nanosecond t - Nanosecond t mod 2 ^ 24"
    unfolding uint_nat unat_whiten
    by (simp only: of_nat_mult of_nat_power zdiv_int unat_nano) (simp add: minus_mod_eq_div_mult)
  moreover have "get_u64_be (take 8 (stamp t)) = tai64n_base + word_of_int (Unix t)"
    "get_u32_be (go_slice 8 12 (stamp t)) = word_of_int (Nanosecond t) AND NOT whitenerMask"
    using get_put_u64_be [of "tai64n_base + word_of_int (Unix t)" "[]"]
      get_put_u32_be [of "word_of_int (Nanosecond t) AND NOT whitenerMask" "[]"]
    by (simp_all add: stamp_def Let_def go_slice_def)
  ultimately show ?thesis
    using time_Unix_parts [of t] by (simp add: timestamp_time_def time_Unix_def)
qed

end
