(* ===== verification/Cookie.thy ===== *)
theory Cookie
  imports Noise_Crypto Tai64n
begin

text \<open>
  \<open>device/cookie.go\<close>: the two message authentication codes of a handshake message and the cookies that a
  device under load hands out. The checker belongs to the device that receives handshakes, the generator to
  the peer that sends them. The clock is an argument of each operation. The theorems are the round trips
  between the two sides: an honest sender's codes are accepted.
\<close>

definition CookieRefreshTime :: Duration where "CookieRefreshTime = Second * 120"

record CookieChecker =
  ck_mac1_key :: bytes
  ck_secret :: bytes
  ck_secretSet :: Time
  ck_encryptionKey :: bytes

record CookieGenerator =
  cg_mac1_key :: bytes
  cg_cookie :: bytes
  cg_cookieSet :: Time
  cg_hasLastMAC1 :: bool
  cg_lastMAC1 :: bytes
  cg_encryptionKey :: bytes

record MessageCookieReply =
  cr_Type :: u32
  cr_Receiver :: u32
  cr_Nonce :: bytes
  cr_Cookie :: bytes

definition new_CookieChecker :: CookieChecker where
  "new_CookieChecker = \<lparr>ck_mac1_key = replicate 32 0, ck_secret = replicate 32 0, ck_secretSet = 0,
     ck_encryptionKey = replicate 32 0\<rparr>"

definition new_CookieGenerator :: CookieGenerator where
  "new_CookieGenerator = \<lparr>cg_mac1_key = replicate 32 0, cg_cookie = replicate 16 0, cg_cookieSet = 0,
     cg_hasLastMAC1 = False, cg_lastMAC1 = replicate 16 0, cg_encryptionKey = replicate 32 0\<rparr>"

section \<open>The checker\<close>

definition mac1_key_of :: "crypto \<Rightarrow> bytes \<Rightarrow> bytes" where
  "mac1_key_of C pk = hash256 C (ascii ''mac1----'' @ pk)"

definition cookie_key_of :: "crypto \<Rightarrow> bytes \<Rightarrow> bytes" where
  "cookie_key_of C pk = hash256 C (ascii ''cookie--'' @ pk)"

definition CookieChecker_Init :: "crypto \<Rightarrow> bytes \<Rightarrow> CookieChecker \<Rightarrow> CookieChecker" where
  "CookieChecker_Init C pk st =
     st\<lparr>ck_mac1_key := mac1_key_of C pk, ck_encryptionKey := cookie_key_of C pk, ck_secretSet := 0\<rparr>"

text \<open>\<open>smac1\<close> and \<open>smac2\<close>: where the two codes start. Handshake messages are longer than both.\<close>

definition smac2 :: "bytes \<Rightarrow> nat" where "smac2 msg = length msg - 16"
definition smac1 :: "bytes \<Rightarrow> nat" where "smac1 msg = smac2 msg - 16"

definition CheckMAC1 :: "crypto \<Rightarrow> CookieChecker \<Rightarrow> bytes \<Rightarrow> bool" where
  "CheckMAC1 C st msg =
     (let mac1 = mac128 C (ck_mac1_key st) (take (smac1 msg) msg)
      in mac1 = go_slice (smac1 msg) (smac2 msg) msg)"

definition CheckMAC2 :: "crypto \<Rightarrow> Time \<Rightarrow> CookieChecker \<Rightarrow> bytes \<Rightarrow> bytes \<Rightarrow> bool" where
  "CheckMAC2 C now st msg src =
     (if time_sub now (ck_secretSet st) > CookieRefreshTime then False
      else
        let cookie = mac128 C (ck_secret st) src;
            mac2 = mac128 C cookie (take (smac2 msg) msg)
        in mac2 = drop (smac2 msg) msg)"

definition CreateReply ::
  "crypto \<Rightarrow> Time \<Rightarrow> bytes \<Rightarrow> u32 \<Rightarrow> bytes \<Rightarrow> u32 \<Rightarrow> rng \<Rightarrow> CookieChecker \<Rightarrow> MessageCookieReply \<times> CookieChecker \<times> rng" where
  "CreateReply C now msg recv src msgType r st =
     (let (st, r) =
        (if time_sub now (ck_secretSet st) > CookieRefreshTime then
           let (secret, r) = rand_read 32 r in (st\<lparr>ck_secret := secret, ck_secretSet := now\<rparr>, r)
         else (st, r));
        cookie = mac128 C (ck_secret st) src;
        (nonce, r) = rand_read 24 r;
        sealed = xseal C (ck_encryptionKey st) nonce cookie (go_slice (smac1 msg) (smac2 msg) msg)
      in (\<lparr>cr_Type = msgType, cr_Receiver = recv, cr_Nonce = nonce, cr_Cookie = sealed\<rparr>, st, r))"

section \<open>The generator\<close>

definition CookieGenerator_Init :: "crypto \<Rightarrow> bytes \<Rightarrow> CookieGenerator \<Rightarrow> CookieGenerator" where
  "CookieGenerator_Init C pk st =
     st\<lparr>cg_mac1_key := mac1_key_of C pk, cg_encryptionKey := cookie_key_of C pk, cg_cookieSet := 0\<rparr>"

definition ConsumeReply :: "crypto \<Rightarrow> Time \<Rightarrow> MessageCookieReply \<Rightarrow> CookieGenerator \<Rightarrow> bool \<times> CookieGenerator" where
  "ConsumeReply C now msg st =
     (if \<not> cg_hasLastMAC1 st then (False, st)
      else case xopen_box C (cg_encryptionKey st) (cr_Nonce msg) (cr_Cookie msg) (cg_lastMAC1 st) of
        None \<Rightarrow> (False, st)
      | Some cookie \<Rightarrow> (True, st\<lparr>cg_cookieSet := now, cg_cookie := cookie\<rparr>))"

definition AddMacs :: "crypto \<Rightarrow> Time \<Rightarrow> bytes \<Rightarrow> CookieGenerator \<Rightarrow> bytes \<times> CookieGenerator" where
  "AddMacs C now msg st =
     (let mac1 = mac128 C (cg_mac1_key st) (take (smac1 msg) msg);
          msg = take (smac1 msg) msg @ mac1 @ drop (smac2 msg) msg;
          st = st\<lparr>cg_lastMAC1 := mac1, cg_hasLastMAC1 := True\<rparr>
      in if time_sub now (cg_cookieSet st) > CookieRefreshTime then (msg, st)
         else
           let mac2 = mac128 C (cg_cookie st) (take (smac2 msg) msg)
           in (take (smac2 msg) msg @ mac2, st))"

section \<open>Shape of an authenticated message\<close>

lemma AddMacs_parts:
  assumes "crypto_ok C" "32 \<le> length msg" "AddMacs C now msg st = (msg', st')"
  shows "length msg' = length msg" "take (smac1 msg) msg' = take (smac1 msg) msg"
    "smac1 msg' = smac1 msg" "smac2 msg' = smac2 msg" "smac1 msg + 16 = smac2 msg"
    "go_slice (smac1 msg) (smac2 msg) msg' = mac128 C (cg_mac1_key st) (take (smac1 msg) msg)"
    "drop (smac2 msg) msg' = (if time_sub now (cg_cookieSet st) > CookieRefreshTime then drop (smac2 msg) msg
       else mac128 C (cg_cookie st) (take (smac2 msg) msg'))"
    "st' = st\<lparr>cg_lastMAC1 := go_slice (smac1 msg) (smac2 msg) msg', cg_hasLastMAC1 := True\<rparr>"
proof -
  let ?m1 = "mac128 C (cg_mac1_key st) (take (smac1 msg) msg)"
  let ?x = "take (smac1 msg) msg @ ?m1 @ drop (smac2 msg) msg"
  have l: "length ?m1 = 16" using crypto_okD [OF assms(1)] by simp
  have s: "smac1 msg + 16 = smac2 msg" "smac2 msg + 16 = length msg"
    using assms(2) by (auto simp: smac1_def smac2_def)
  have x: "length ?x = length msg" "smac2 ?x = smac2 msg" "smac1 ?x = smac1 msg"
    using s l by (auto simp: smac1_def smac2_def)
  have t: "take (smac2 msg) ?x = take (smac1 msg) msg @ ?m1"
    using s l by simp
  define m2 where "m2 = (if time_sub now (cg_cookieSet st) > CookieRefreshTime then drop (smac2 msg) msg
    else mac128 C (cg_cookie st) (take (smac1 msg) msg @ ?m1))"
  have l2: "length m2 = 16" using crypto_okD(2) [OF assms(1)] s(2) by (auto simp: m2_def)
  have m: "msg' = take (smac1 msg) msg @ ?m1 @ m2" "st' = st\<lparr>cg_lastMAC1 := ?m1, cg_hasLastMAC1 := True\<rparr>"
    using assms(3) x t by (auto simp: AddMacs_def Let_def m2_def split: if_splits)
  then have lm: "length msg' = length msg" using s l l2 by simp
  have t': "take (smac2 msg) msg' = take (smac1 msg) msg @ ?m1" using m(1) s l by simp
  show "length msg' = length msg" by (rule lm)
  show "smac1 msg' = smac1 msg" "smac2 msg' = smac2 msg" using lm by (simp_all add: smac1_def smac2_def)
  show "smac1 msg + 16 = smac2 msg" by (rule s(1))
  show "take (smac1 msg) msg' = take (smac1 msg) msg" using m(1) s by simp
  show g: "go_slice (smac1 msg) (smac2 msg) msg' = ?m1"
    using m(1) s l by (simp add: go_slice_def flip: s(1))
  show "drop (smac2 msg) msg' = (if time_sub now (cg_cookieSet st) > CookieRefreshTime then drop (smac2 msg) msg
       else mac128 C (cg_cookie st) (take (smac2 msg) msg'))"
    unfolding t' using m(1) s l by (simp add: m2_def)
  show "st' = st\<lparr>cg_lastMAC1 := go_slice (smac1 msg) (smac2 msg) msg', cg_hasLastMAC1 := True\<rparr>"
    using m(2) g by simp
qed

text \<open>The first code always passes: what a generator for a device's public key adds, the checker of
  that device accepts, whatever the rest of the message and of the two states, at any time.\<close>

theorem mac1_accepted:
  assumes "crypto_ok C" "32 \<le> length msg"
    "AddMacs C now msg (CookieGenerator_Init C pk g) = (msg', g')"
  shows "CheckMAC1 C (CookieChecker_Init C pk c) msg'"
proof -
  note p = AddMacs_parts [OF assms]
  show ?thesis unfolding CheckMAC1_def Let_def p(3) p(4)
    using p(2,6) by (simp add: CookieChecker_Init_def CookieGenerator_Init_def)
qed

theorem mac1_accepted_witness:
  "CheckMAC1 toy_crypto (CookieChecker_Init toy_crypto (replicate 32 1) new_CookieChecker)
     (fst (AddMacs toy_crypto 5 (replicate 148 3) (CookieGenerator_Init toy_crypto (replicate 32 1) new_CookieGenerator)))"
  using mac1_accepted [OF toy_crypto_ok, of "replicate 148 3" 5 "replicate 32 1" new_CookieGenerator _ _ new_CookieChecker]
  by (simp add: prod_eq_iff)

text \<open>C17. The cookie round trip. A message with codes arrives from \<open>src\<close> at a device under load, which
  answers with a cookie reply; the sender consumes it, and puts the codes on its next message while the
  cookie is fresh. The device then accepts the second code of that message from \<open>src\<close> as long as its
  secret is fresh.\<close>

theorem cookie_roundtrip:
  assumes C: "crypto_ok C"
    and gen: "cg_encryptionKey g = cookie_key_of C pk" and chk: "ck_encryptionKey c = cookie_key_of C pk"
    and len: "32 \<le> length msg" "32 \<le> length msg2"
    and sent: "AddMacs C t0 msg g = (m, g1)"
    and reply: "CreateReply C t1 m idx src typ r c = (rep, c1, r1)"
    and consumed: "ConsumeReply C t2 rep g1 = (ok, g2)"
    and sent2: "AddMacs C t3 msg2 g2 = (m2, g3)"
    and fresh: "time_sub t3 t2 \<le> CookieRefreshTime" "time_sub t4 (ck_secretSet c1) \<le> CookieRefreshTime"
  shows "ok \<and> CheckMAC2 C t4 c1 m2 src"
proof -
  note p = AddMacs_parts [OF C len(1) sent]
  have g1: "cg_hasLastMAC1 g1" "cg_lastMAC1 g1 = go_slice (smac1 msg) (smac2 msg) m" "cg_encryptionKey g1 = cookie_key_of C pk"
    using p(8) gen by simp_all
  have c1: "ck_encryptionKey c1 = cookie_key_of C pk"
    "cr_Cookie rep = xseal C (cookie_key_of C pk) (cr_Nonce rep) (mac128 C (ck_secret c1) src) (cg_lastMAC1 g1)"
    using reply chk p(3,4) g1(2)
    by (auto simp: CreateReply_def Let_def rand_read_def split: if_splits)
  have g2: "ok" "g2 = g1\<lparr>cg_cookieSet := t2, cg_cookie := mac128 C (ck_secret c1) src\<rparr>"
    using consumed g1 c1(2) crypto_okD(8) [OF C] by (auto simp: ConsumeReply_def)
  note q = AddMacs_parts [OF C len(2) sent2]
  have "drop (smac2 msg2) m2 = mac128 C (mac128 C (ck_secret c1) src) (take (smac2 msg2) m2)"
    using q(7) g2(2) fresh(1) by simp
  then show ?thesis using g2(1) fresh(2) q(4) by (simp add: CheckMAC2_def Let_def)
qed

definition cookie_trip :: "crypto \<Rightarrow> CookieGenerator \<Rightarrow> CookieChecker \<Rightarrow> bytes \<Rightarrow> bytes \<Rightarrow> bool" where
  "cookie_trip C g c msg src =
     (let (m, g1) = AddMacs C 1 msg g; (rep, c1, r1) = CreateReply C 10 m 1 src 3 (\<lambda>_. 4) c;
          (ok, g2) = ConsumeReply C 20 rep g1; (m2, g3) = AddMacs C 30 msg g2
      in ok \<and> CheckMAC2 C 40 c1 m2 src)"

theorem cookie_roundtrip_witness:
  "cookie_trip toy_crypto (CookieGenerator_Init toy_crypto (replicate 32 1) new_CookieGenerator)
     ((CookieChecker_Init toy_crypto (replicate 32 1) new_CookieChecker)\<lparr>ck_secretSet := 5\<rparr>) (replicate 148 3) [10, 0, 0, 1]"
proof -
  let ?g = "CookieGenerator_Init toy_crypto (replicate 32 1) new_CookieGenerator"
  let ?c = "(CookieChecker_Init toy_crypto (replicate 32 1) new_CookieChecker)\<lparr>ck_secretSet := 5\<rparr>"
  let ?m = "replicate 148 (3 :: byte)"
  obtain m g1 where a: "AddMacs toy_crypto 1 ?m ?g = (m, g1)" by (cases "AddMacs toy_crypto 1 ?m ?g")
  obtain rep c1 r1 where b: "CreateReply toy_crypto 10 m 1 [10, 0, 0, 1] 3 (\<lambda>_. 4) ?c = (rep, c1, r1)"
    by (cases "CreateReply toy_crypto 10 m 1 [10, 0, 0, 1] 3 (\<lambda>_. 4) ?c")
  obtain ok g2 where c: "ConsumeReply toy_crypto 20 rep g1 = (ok, g2)" by (cases "ConsumeReply toy_crypto 20 rep g1")
  obtain m2 g3 where d: "AddMacs toy_crypto 30 ?m g2 = (m2, g3)" by (cases "AddMacs toy_crypto 30 ?m g2")
  have "ck_secretSet c1 = 5"
    using b by (auto simp: CreateReply_def Let_def rand_read_def time_sub_def CookieRefreshTime_def Second_def)
  then have "ok \<and> CheckMAC2 toy_crypto 40 c1 m2 [10, 0, 0, 1]"
    by (intro cookie_roundtrip [OF toy_crypto_ok _ _ _ _ a b c d, where pk = "replicate 32 1"])
      (simp_all add: CookieGenerator_Init_def CookieChecker_Init_def time_sub_def CookieRefreshTime_def Second_def)
  with a b c d show ?thesis by (simp add: cookie_trip_def Let_def)
qed

text \<open>A cookie is used while it is fresh and no longer, and a reply that the generator did not ask for
  changes nothing: after \<open>CookieRefreshTime\<close> the place of the second code is left as it was, and without a
  message sent before, or when the reply does not decrypt, \<open>ConsumeReply\<close> refuses and keeps its state.\<close>

theorem cookie_expiry_and_refusal:
  assumes "crypto_ok C" "32 \<le> length msg"
  shows "(time_sub now (cg_cookieSet g) > CookieRefreshTime \<longrightarrow> drop (smac2 msg) (fst (AddMacs C now msg g)) = drop (smac2 msg) msg)
    \<and> (\<not> cg_hasLastMAC1 g \<or> xopen_box C (cg_encryptionKey g) (cr_Nonce rep) (cr_Cookie rep) (cg_lastMAC1 g) = None
        \<longrightarrow> ConsumeReply C now rep g = (False, g))"
  using AddMacs_parts(7) [OF assms, of now g] by (auto simp: ConsumeReply_def prod_eq_iff)

theorem cookie_expiry_and_refusal_witness:
  "drop 132 (fst (AddMacs toy_crypto (Second * 200) (replicate 148 3) new_CookieGenerator)) = replicate 16 3"
  using cookie_expiry_and_refusal [OF toy_crypto_ok, of "replicate 148 3" "Second * 200" new_CookieGenerator]
  by (simp add: smac2_def new_CookieGenerator_def time_sub_def CookieRefreshTime_def Second_def)

end
