(* ===== verification/Ratelimiter.thy ===== *)
theory Ratelimiter
  imports Tai64n "HOL-Library.AList"
begin

text \<open>
  \<open>ratelimiter/ratelimiter.go\<close>: a token bucket per source address, with the collection of idle buckets.
  The Go map is an association list of distinct addresses. The theorems bound the packets a source gets
  through in any stretch of time, and show that collecting buckets is invisible to the callers.
\<close>

definition packetsPerSecond :: int where "packetsPerSecond = 20"
definition packetsBurstable :: int where "packetsBurstable = 5"
definition garbageCollectTime :: Duration where "garbageCollectTime = Second"
definition packetCost :: int where "packetCost = 1000000000 div packetsPerSecond"
definition maxTokens :: int where "maxTokens = packetCost * packetsBurstable"

lemmas bucket_consts = packetsPerSecond_def packetsBurstable_def garbageCollectTime_def packetCost_def maxTokens_def Second_def

type_synonym Addr = bytes

record RatelimiterEntry =
  lastTime :: Time
  tokens :: int

record Ratelimiter =
  table :: "(Addr \<times> RatelimiterEntry) list"
  stopReset :: bool
  ticker :: bool

text \<open>\<open>stopReset\<close> says that the channel exists and is open, \<open>ticker\<close> that the collecting goroutine's
  ticker runs: it is started by the send on the channel and stopped when the table is empty.\<close>

definition Init :: Ratelimiter where
  "Init = \<lparr>table = [], stopReset = True, ticker = False\<rparr>"

definition Close :: "Ratelimiter \<Rightarrow> Ratelimiter" where
  "Close R = (if stopReset R then R\<lparr>stopReset := False, ticker := False\<rparr> else R)"

definition cleanup :: "Time \<Rightarrow> Ratelimiter \<Rightarrow> bool \<times> Ratelimiter" where
  "cleanup now R =
     (let R = R\<lparr>table := filter (\<lambda>(key, entry). \<not> garbageCollectTime < time_sub now (lastTime entry)) (table R)\<rparr>;
          empty = (table R = [])
      in (empty, if empty then R\<lparr>ticker := False\<rparr> else R))"

text \<open>Token counts are \<open>int64\<close> and wrap.\<close>

definition int64 :: "int \<Rightarrow> int" where
  "int64 x = (x + 2 ^ 63) mod 2 ^ 64 - 2 ^ 63"

definition Allow :: "Addr \<Rightarrow> Time \<Rightarrow> Ratelimiter \<Rightarrow> bool \<times> Ratelimiter" where
  "Allow ip now R =
     (case map_of (table R) ip of
        None \<Rightarrow>
          let R = R\<lparr>table := AList.update ip \<lparr>lastTime = now, tokens = maxTokens - packetCost\<rparr> (table R)\<rparr>
          in (True, if length (table R) = 1 then R\<lparr>ticker := True\<rparr> else R)
      | Some entry \<Rightarrow>
          let tok = int64 (tokens entry + time_sub now (lastTime entry));
              tok = (if tok > maxTokens then maxTokens else tok);
              pass = (tok > packetCost);
              tok = (if pass then tok - packetCost else tok)
          in (pass, R\<lparr>table := AList.update ip \<lparr>lastTime = now, tokens = tok\<rparr> (table R)\<rparr>))"

section \<open>Histories\<close>

datatype rl_event = Ev_Allow Addr Time | Ev_Cleanup Time

fun ev_time :: "rl_event \<Rightarrow> Time" where
  "ev_time (Ev_Allow ip t) = t"
| "ev_time (Ev_Cleanup t) = t"

text \<open>The answers of a history, each with its address, and the state it ends in.\<close>

fun run_rl :: "Ratelimiter \<Rightarrow> rl_event list \<Rightarrow> (Addr \<times> bool) list \<times> Ratelimiter" where
  "run_rl R [] = ([], R)"
| "run_rl R (Ev_Allow ip t # es) =
     (let (ok, R) = Allow ip t R; (oks, R) = run_rl R es in ((ip, ok) # oks, R))"
| "run_rl R (Ev_Cleanup t # es) = run_rl (snd (cleanup t R)) es"

fun ordered_from :: "Time \<Rightarrow> rl_event list \<Rightarrow> bool" where
  "ordered_from t [] \<longleftrightarrow> True"
| "ordered_from t (e # es) \<longleftrightarrow> t \<le> ev_time e \<and> ordered_from (ev_time e) es"

definition passed :: "Addr \<Rightarrow> (Addr \<times> bool) list \<Rightarrow> int" where
  "passed ip xs = int (length (filter (\<lambda>x. x = (ip, True)) xs))"

text \<open>A bucket seen at a later time. The state is good between \<open>lo\<close> and \<open>now\<close> when every bucket was last
  used then and holds between 0 and \<open>maxTokens\<close> tokens.\<close>

definition wf_rl :: "Time \<Rightarrow> Time \<Rightarrow> Ratelimiter \<Rightarrow> bool" where
  "wf_rl lo now R \<longleftrightarrow> distinct (map fst (table R)) \<and>
     (\<forall>ip e. map_of (table R) ip = Some e \<longrightarrow>
        lo \<le> lastTime e \<and> lastTime e \<le> now \<and> 0 \<le> tokens e \<and> tokens e \<le> maxTokens)"

definition available :: "Addr \<Rightarrow> Time \<Rightarrow> Ratelimiter \<Rightarrow> int" where
  "available ip now R = (case map_of (table R) ip of
     None \<Rightarrow> maxTokens | Some e \<Rightarrow> min maxTokens (tokens e + (now - lastTime e)))"

lemma int64_id: "- (2 ^ 63) \<le> x \<Longrightarrow> x < 2 ^ 63 \<Longrightarrow> int64 x = x"
  by (simp add: int64_def)

lemma time_sub_id: "0 \<le> t - u \<Longrightarrow> t - u < 2 ^ 62 \<Longrightarrow> time_sub t u = t - u"
  by (simp add: time_sub_def)

lemma AList_update_simps [simp]:
  "map_of (AList.update k v al) = (map_of al)(k \<mapsto> v)" "distinct (map fst (AList.update k v al)) \<longleftrightarrow> distinct (map fst al)"
  by (auto simp: update_conv' distinct_update intro: distinct_update) (induction al, auto simp: dom_update split: if_splits)

lemma map_of_filter_distinct:
  "distinct (map fst al) \<Longrightarrow>
    map_of (filter P al) k = (case map_of al k of Some v \<Rightarrow> if P (k, v) then Some v else None | None \<Rightarrow> None)"
proof (induction al)
  case (Cons x al)
  obtain a b where x: "x = (a, b)" by (cases x)
  have "a \<notin> fst ` set al \<Longrightarrow> map_of al a = None" by (simp add: map_of_eq_None_iff)
  with Cons x show ?case by (auto split: option.splits)
qed simp


section \<open>One step\<close>

lemma available_bounds:
  assumes "wf_rl lo now R" "now \<le> t"
  shows "0 \<le> available ip t R" "available ip t R \<le> maxTokens"
  using assms by (force simp: available_def wf_rl_def bucket_consts split: option.splits)+

lemma available_later: "t \<le> t' \<Longrightarrow> available ip t' R \<le> available ip t R + (t' - t)"
  by (auto simp: available_def split: option.splits)

lemma wf_rl_later: "wf_rl lo now R \<Longrightarrow> now \<le> t \<Longrightarrow> wf_rl lo t R"
  unfolding wf_rl_def by (meson order_trans)

text \<open>\<open>Allow\<close> looks only at what is available: it passes a packet when more than the cost of one is, and
  takes the cost.\<close>

lemma Allow_available:
  assumes wf: "wf_rl lo now R" and t: "now \<le> t" "t - lo < 2 ^ 62"
  shows "fst (Allow ip t R) \<longleftrightarrow> packetCost < available ip t R"
    "map_of (table (snd (Allow ip t R))) = (map_of (table R))(ip \<mapsto> \<lparr>lastTime = t, tokens =
       (if packetCost < available ip t R then available ip t R - packetCost else available ip t R)\<rparr>)"
    "distinct (map fst (table (snd (Allow ip t R))))"
proof -
  have d: "distinct (map fst (table R))" using wf by (simp add: wf_rl_def)
  show "fst (Allow ip t R) \<longleftrightarrow> packetCost < available ip t R"
    "map_of (table (snd (Allow ip t R))) = (map_of (table R))(ip \<mapsto> \<lparr>lastTime = t, tokens =
       (if packetCost < available ip t R then available ip t R - packetCost else available ip t R)\<rparr>)"
    "distinct (map fst (table (snd (Allow ip t R))))"
  proof (atomize(full), cases "map_of (table R) ip")
    case None
    then show "(fst (Allow ip t R) \<longleftrightarrow> packetCost < available ip t R) \<and>
      map_of (table (snd (Allow ip t R))) = (map_of (table R))(ip \<mapsto> \<lparr>lastTime = t, tokens =
       (if packetCost < available ip t R then available ip t R - packetCost else available ip t R)\<rparr>) \<and>
      distinct (map fst (table (snd (Allow ip t R))))"
      using d by (simp add: Allow_def Let_def available_def bucket_consts)
  next
    case (Some e)
    have b: "lo \<le> lastTime e" "lastTime e \<le> now" "0 \<le> tokens e" "tokens e \<le> maxTokens"
      using wf Some by (auto simp: wf_rl_def)
    have "time_sub t (lastTime e) = t - lastTime e" using b t by (intro time_sub_id) auto
    moreover have "int64 (tokens e + (t - lastTime e)) = tokens e + (t - lastTime e)"
      using b t by (intro int64_id) (auto simp: bucket_consts)
    ultimately show "(fst (Allow ip t R) \<longleftrightarrow> packetCost < available ip t R) \<and>
      map_of (table (snd (Allow ip t R))) = (map_of (table R))(ip \<mapsto> \<lparr>lastTime = t, tokens =
       (if packetCost < available ip t R then available ip t R - packetCost else available ip t R)\<rparr>) \<and>
      distinct (map fst (table (snd (Allow ip t R))))"
      using d Some by (auto simp: Allow_def Let_def available_def min_def)
  qed
qed

lemma wf_Allow:
  assumes "wf_rl lo now R" "lo \<le> now" "now \<le> t" "t - lo < 2 ^ 62"
  shows "wf_rl lo t (snd (Allow ip t R))"
  unfolding wf_rl_def Allow_available(2) [OF assms(1,3,4)]
  using Allow_available(3) [OF assms(1,3,4), of ip] available_bounds [OF assms(1,3), of ip] assms
  by (auto simp: wf_rl_def bucket_consts dest: order_trans) (meson order_trans)+

lemma wf_cleanup:
  assumes "wf_rl lo now R" "now \<le> t"
  shows "wf_rl lo t (snd (cleanup t R))"
  using wf_rl_later [OF assms]
  by (auto simp: wf_rl_def cleanup_def Let_def map_of_filter_distinct distinct_map_filter split: option.splits if_splits)

lemma table_cleanup:
  "table (snd (cleanup t R)) = filter (\<lambda>(key, entry). \<not> garbageCollectTime < time_sub t (lastTime entry)) (table R)"
  by (simp add: cleanup_def Let_def)

text \<open>A collected bucket was full, so what is available does not change.\<close>

lemma available_cleanup:
  assumes wf: "wf_rl lo now R" and t: "now \<le> t" "t - lo < 2 ^ 62" "t \<le> t'"
  shows "available ip t' (snd (cleanup t R)) = available ip t' R"
proof (cases "map_of (table R) ip")
  case None
  then show ?thesis using wf by (simp add: available_def cleanup_def Let_def wf_rl_def map_of_filter_distinct)
next
  case (Some e)
  have b: "lo \<le> lastTime e" "lastTime e \<le> now" "0 \<le> tokens e" using wf Some by (auto simp: wf_rl_def)
  then have "time_sub t (lastTime e) = t - lastTime e" using t by (intro time_sub_id) auto
  then have "map_of (table (snd (cleanup t R))) ip = (if garbageCollectTime < t - lastTime e then None else Some e)"
    using Some wf by (simp add: table_cleanup map_of_filter_distinct wf_rl_def)
  moreover have "min maxTokens (tokens e + (t' - lastTime e)) = maxTokens" if "garbageCollectTime < t - lastTime e"
    using that b t by (simp add: bucket_consts)
  ultimately show ?thesis using Some by (simp add: available_def)
qed

section \<open>Histories of a good state\<close>

lemma run_rl_wf:
  "wf_rl lo now R \<Longrightarrow> lo \<le> now \<Longrightarrow> ordered_from now es \<Longrightarrow> (\<forall>e \<in> set es. ev_time e - lo < 2 ^ 62) \<Longrightarrow>
    \<forall>e \<in> set es. ev_time e \<le> hi \<Longrightarrow> now \<le> hi \<Longrightarrow> wf_rl lo hi (snd (run_rl R es))"
proof (induction R es arbitrary: now rule: run_rl.induct)
  case (1 R)
  then show ?case by (simp add: wf_rl_later)
next
  case (2 R ip t es)
  have "wf_rl lo t (snd (Allow ip t R))" using "2.prems" by (intro wf_Allow) auto
  from "2.IH" [OF _ _ this] "2.prems" show ?case by (auto simp: Let_def split: prod.splits)
next
  case (3 R t es)
  have "wf_rl lo t (snd (cleanup t R))" using "3.prems" by (intro wf_cleanup) auto
  from "3.IH" [OF this] "3.prems" show ?case by auto
qed

lemma run_rl_budget:
  "wf_rl lo now R \<Longrightarrow> lo \<le> now \<Longrightarrow> ordered_from now es \<Longrightarrow> (\<forall>e \<in> set es. ev_time e - lo < 2 ^ 62) \<Longrightarrow>
    \<forall>e \<in> set es. ev_time e \<le> hi \<Longrightarrow> now \<le> hi \<Longrightarrow>
    packetCost * passed ip (fst (run_rl R es)) + available ip hi (snd (run_rl R es)) \<le> available ip now R + (hi - now)"
proof (induction R es arbitrary: now rule: run_rl.induct)
  case (1 R)
  then show ?case by (simp add: passed_def available_later)
next
  case (2 R ip' t es)
  let ?R = "snd (Allow ip' t R)" and ?ok = "fst (Allow ip' t R)"
  have t: "now \<le> t" "t - lo < 2 ^ 62" "t \<le> hi" using "2.prems" by auto
  have wf: "wf_rl lo t ?R" using "2.prems" t by (intro wf_Allow) auto
  note A = Allow_available [OF "2.prems"(1) t(1,2), of ip']
  have "packetCost * (if ip' = ip \<and> ?ok then 1 else 0) + available ip t ?R = available ip t R"
  proof (cases "ip' = ip")
    case True
    with available_bounds [OF "2.prems"(1) t(1), of ip] show ?thesis
      unfolding A(1) available_def [of ip t ?R] A(2) by (auto simp: bucket_consts)
  next
    case False
    then show ?thesis unfolding available_def A(2) by simp
  qed
  moreover have "packetCost * passed ip (fst (run_rl ?R es)) + available ip hi (snd (run_rl ?R es))
      \<le> available ip t ?R + (hi - t)"
    using "2.IH" [OF _ _ wf, of "(?ok, ?R)"] "2.prems" t by (auto simp: prod_eq_iff)
  moreover have "available ip t R \<le> available ip now R + (t - now)" using t by (intro available_later)
  ultimately show ?case
    by (auto simp: Let_def passed_def algebra_simps split: prod.splits if_splits)
next
  case (3 R t es)
  let ?R = "snd (cleanup t R)"
  have t: "now \<le> t" "t - lo < 2 ^ 62" "t \<le> hi" using "3.prems" by auto
  have wf: "wf_rl lo t ?R" using "3.prems" by (intro wf_cleanup) auto
  have "available ip t ?R = available ip t R" using available_cleanup [OF "3.prems"(1) t(1,2)] by simp
  moreover have "available ip t R \<le> available ip now R + (t - now)" using t by (intro available_later)
  ultimately show ?case using "3.IH" [OF wf] "3.prems" t by auto
qed

lemma run_rl_append:
  "run_rl R (es @ fs) = (let (oks, R) = run_rl R es; (oks', R) = run_rl R fs in (oks @ oks', R))"
  by (induction R es rule: run_rl.induct) (auto simp: Let_def split: prod.splits)

lemma ordered_append:
  "ordered_from t (es @ fs) \<Longrightarrow> ordered_from t es \<and>
    (\<forall>s. (\<forall>e \<in> set es. ev_time e \<le> s) \<longrightarrow> t \<le> s \<longrightarrow> (\<forall>f \<in> set fs. s \<le> ev_time f) \<longrightarrow> ordered_from s fs)"
  by (induction es arbitrary: t) (auto, cases fs, auto)

lemma wf_Init: "wf_rl lo lo Init"
  by (simp add: wf_rl_def Init_def)

text \<open>C18. The bound the limiter promises. In any history since \<open>Init\<close>, and for any stretch of it from
  \<open>s\<close> to \<open>e\<close>, a source gets at most \<open>packetsBurstable + packetsPerSecond\<close> times the seconds of the stretch
  packets through, collections of idle buckets included.\<close>

theorem Allow_rate_bound:
  assumes "ordered_from t0 (before @ during)" "\<forall>x \<in> set before. ev_time x \<le> s"
    "\<forall>x \<in> set during. s \<le> ev_time x \<and> ev_time x \<le> e" "t0 \<le> s" "s \<le> e" "e - t0 < 2 ^ 62"
  shows "packetCost * passed ip (fst (run_rl (snd (run_rl Init before)) during)) \<le> maxTokens + (e - s)"
proof -
  have o: "ordered_from t0 before" "ordered_from s during"
    using ordered_append [OF assms(1)] assms(2,3,4) by auto
  have b: "\<forall>x \<in> set before. ev_time x - t0 < 2 ^ 62" "\<forall>x \<in> set during. ev_time x - t0 < 2 ^ 62"
    using assms by force+
  have wf: "wf_rl t0 s (snd (run_rl Init before))"
    using run_rl_wf [OF wf_Init order_refl o(1) b(1) assms(2,4)] .
  have "packetCost * passed ip (fst (run_rl (snd (run_rl Init before)) during))
      + available ip e (snd (run_rl (snd (run_rl Init before)) during))
      \<le> available ip s (snd (run_rl Init before)) + (e - s)"
    using run_rl_budget [OF wf assms(4) o(2) b(2)] assms(3,5) by blast
  moreover have "0 \<le> available ip e (snd (run_rl (snd (run_rl Init before)) during))"
    using run_rl_wf [OF wf assms(4) o(2) b(2)] assms(3,5) by (intro available_bounds(1) [OF _ order_refl]) blast
  ultimately show ?thesis using available_bounds(2) [OF wf order_refl, of ip] by linarith
qed

theorem Allow_rate_bound_witness:
  "packetCost * passed [1] (fst (run_rl (snd (run_rl Init [Ev_Allow [1] 10])) [Ev_Allow [1] 20])) \<le> maxTokens + 10"
  using Allow_rate_bound [of 5 "[Ev_Allow [1] 10]" "[Ev_Allow [1] 20]" 15 25 "[1]"] by simp

text \<open>Two limiters that have the same tokens left answer alike.\<close>

fun is_allow :: "rl_event \<Rightarrow> bool" where
  "is_allow (Ev_Allow ip t) = True"
| "is_allow (Ev_Cleanup t) = False"

lemma run_rl_same:
  "wf_rl lo now R \<Longrightarrow> wf_rl lo now R' \<Longrightarrow> lo \<le> now \<Longrightarrow> (\<forall>ip t. now \<le> t \<longrightarrow> available ip t R = available ip t R') \<Longrightarrow>
    ordered_from now es \<Longrightarrow> (\<forall>e \<in> set es. ev_time e - lo < 2 ^ 62) \<Longrightarrow>
    fst (run_rl R es) = fst (run_rl R' (filter is_allow es))"
proof (induction es arbitrary: now R R')
  case Nil
  then show ?case by simp
next
  case (Cons x es)
  show ?case
  proof (cases x)
    case (Ev_Allow ip t)
    have t: "now \<le> t" "t - lo < 2 ^ 62" using Cons.prems Ev_Allow by auto
    let ?R = "snd (Allow ip t R)" and ?R' = "snd (Allow ip t R')"
    note A = Allow_available [OF Cons.prems(1) t, of ip] and A' = Allow_available [OF Cons.prems(2) t, of ip]
    have eq: "available ip t R = available ip t R'" using Cons.prems(4) t by blast
    have "\<forall>i u. t \<le> u \<longrightarrow> available i u ?R = available i u ?R'"
    proof (intro allI impI)
      fix i u assume u: "t \<le> u"
      show "available i u ?R = available i u ?R'"
      proof (cases "i = ip")
        case True
        have "map_of (table ?R) ip = map_of (table ?R') ip" unfolding A(2) A'(2) eq by simp
        with True show ?thesis by (simp add: available_def)
      next
        case False
        then have "available i u ?R = available i u R" "available i u ?R' = available i u R'"
          unfolding available_def A(2) A'(2) by simp_all
        then show ?thesis using Cons.prems(4) t u by simp
      qed
    qed
    moreover have "wf_rl lo t ?R" "wf_rl lo t ?R'" using Cons.prems t by (auto intro: wf_Allow)
    ultimately have "fst (run_rl ?R es) = fst (run_rl ?R' (filter is_allow es))"
      using Cons.prems Ev_Allow t by (intro Cons.IH [of t]) auto
    moreover have "fst (Allow ip t R) = fst (Allow ip t R')" using A(1) A'(1) eq by simp
    ultimately show ?thesis using Ev_Allow by (simp add: Let_def case_prod_beta)
  next
    case (Ev_Cleanup t)
    have t: "now \<le> t" "t - lo < 2 ^ 62" using Cons.prems Ev_Cleanup by auto
    have "wf_rl lo t (snd (cleanup t R))" "wf_rl lo t R'"
      using Cons.prems t by (auto intro: wf_cleanup wf_rl_later)
    then have "fst (run_rl (snd (cleanup t R)) es) = fst (run_rl R' (filter is_allow es))"
      using Cons.prems Ev_Cleanup t available_cleanup [OF Cons.prems(1) t] by (intro Cons.IH [of t]) auto
    then show ?thesis using Ev_Cleanup by simp
  qed
qed

text \<open>C19. Collecting idle buckets is invisible: a history gives the same answers as the history without
  its collections.\<close>

theorem cleanup_invisible:
  assumes "ordered_from t0 es" "\<forall>e \<in> set es. ev_time e - t0 < 2 ^ 62"
  shows "fst (run_rl Init es) = fst (run_rl Init (filter is_allow es))"
  using run_rl_same [OF wf_Init wf_Init order_refl _ assms] by simp

theorem cleanup_invisible_witness:
  "fst (run_rl Init [Ev_Allow [1] 10, Ev_Cleanup 3000000000, Ev_Allow [1] 3000000001])
    = fst (run_rl Init [Ev_Allow [1] 10, Ev_Allow [1] 3000000001])"
  using cleanup_invisible [of 0 "[Ev_Allow [1] 10, Ev_Cleanup 3000000000, Ev_Allow [1] 3000000001]"] by simp

end
