(* ===== verification/Replay.thy ===== *)
theory Replay
  imports Prelude
begin

text \<open>
  The anti-replay window of \<open>replay/replay.go\<close> (RFC 6479): a ring of 128 blocks of 64 bits and the
  greatest counter accepted so far. The theory shows that the ring implements an abstract set of
  accepted counters: a counter is accepted exactly when it is below the limit, was never accepted
  before, and is not more than the window size behind the greatest accepted counter.
\<close>

section \<open>The filter\<close>

record Filter =
  flast :: u64
  fring :: "u64 list"

definition blockBitLog :: nat where "blockBitLog = 6"
definition blockBits :: u64 where "blockBits = 64"
definition ringBlocks :: u64 where "ringBlocks = 128"
definition windowSize :: u64 where "windowSize = (ringBlocks - 1) * blockBits"
definition blockMask :: u64 where "blockMask = ringBlocks - 1"
definition bitMask :: u64 where "bitMask = blockBits - 1"

lemmas replay_consts =
  blockBitLog_def blockBits_def ringBlocks_def windowSize_def blockMask_def bitMask_def

text \<open>The zero value of the Go struct.\<close>

definition zero_filter :: Filter where
  "zero_filter = \<lparr>flast = 0, fring = replicate 128 0\<rparr>"

definition Reset :: "Filter \<Rightarrow> Filter" where
  "Reset f = f\<lparr>flast := 0, fring := (fring f)[0 := 0]\<rparr>"

text \<open>The loop \<open>for i := current + 1; i <= current+diff; i++\<close>: \<open>i\<close> is \<open>current + k\<close>; it cannot wrap,
  because \<open>current\<close> is a counter shifted right by six bits and \<open>diff\<close> is at most 128.\<close>

definition clear_blocks :: "u64 \<Rightarrow> u64 \<Rightarrow> u64 list \<Rightarrow> u64 list" where
  "clear_blocks current diff ring =
     foldl (\<lambda>r k. r[unat ((current + word_of_nat k) AND blockMask) := 0]) ring [1..<Suc (unat diff)]"

definition set_bit_of :: "Filter \<Rightarrow> u64 \<Rightarrow> bool \<times> Filter" where
  "set_bit_of f counter =
     (let indexBlock = unat (drop_bit blockBitLog counter AND blockMask);
          indexBit = unat (counter AND bitMask);
          old = fring f ! indexBlock;
          new = old OR push_bit indexBit 1
      in (old \<noteq> new, f\<lparr>fring := (fring f)[indexBlock := new]\<rparr>))"

definition ValidateCounter :: "Filter \<Rightarrow> u64 \<Rightarrow> u64 \<Rightarrow> bool \<times> Filter" where
  "ValidateCounter f counter limit =
     (if limit \<le> counter then (False, f)
      else
        let indexBlock = drop_bit blockBitLog counter in
        if flast f < counter then
          let current = drop_bit blockBitLog (flast f);
              diff0 = indexBlock - current;
              diff = (if ringBlocks < diff0 then ringBlocks else diff0)
          in set_bit_of (f\<lparr>fring := clear_blocks current diff (fring f), flast := counter\<rparr>) counter
        else if windowSize < flast f - counter then (False, f)
        else set_bit_of f counter)"

section \<open>Reading the bit operations on numbers\<close>

lemma unat_block [simp]: "unat (drop_bit blockBitLog (c :: u64)) = unat c div 64"
  proof -
  have "unat (drop_bit 6 c) = drop_bit 6 (unat c)"
    by (rule unat_drop_bit_eq)
  then show ?thesis by (simp add: blockBitLog_def drop_bit_eq_div)
qed

lemma unat_and_blockMask [simp]: "unat (w AND blockMask) = unat w mod 128"
proof -
  have "w AND blockMask = take_bit 7 w"
    by (simp add: replay_consts take_bit_eq_mask mask_eq_exp_minus_1)
  then show ?thesis by (simp only: unsigned_take_bit_eq) (simp add: take_bit_eq_mod)
qed

lemma unat_and_bitMask [simp]: "unat (w AND bitMask) = unat w mod 64"
proof -
  have "w AND bitMask = take_bit 6 w"
    by (simp add: replay_consts take_bit_eq_mask mask_eq_exp_minus_1)
  then show ?thesis by (simp only: unsigned_take_bit_eq) (simp add: take_bit_eq_mod)
qed

lemma unat_windowSize [simp]: "unat windowSize = 8128"
  by (simp add: replay_consts)

lemma length_clear_blocks [simp]: "length (clear_blocks c d r) = length r"
proof -
  have "length (foldl (\<lambda>r k. r[g k := 0]) r ks) = length r" for ks and g :: "nat \<Rightarrow> nat"
    by (induction ks arbitrary: r) auto
  then show ?thesis by (simp add: clear_blocks_def)
qed

lemma foldl_update_nth:
  "j < length r \<Longrightarrow> foldl (\<lambda>r k. r[g k := 0]) r ks ! j = (if j \<in> g ` set ks then 0 else r ! j)"
  by (induction ks arbitrary: r) (auto simp: nth_list_update)

lemma nth_clear_blocks:
  assumes "j < length r" and "unat cur + unat d < 2 ^ 64"
  shows "clear_blocks cur d r ! j =
    (if \<exists>k \<in> {1..unat d}. (unat cur + k) mod 128 = j then 0 else r ! j)"
proof -
  have eq: "unat ((cur + word_of_nat k) AND blockMask) = (unat cur + k) mod 128"
    if "k \<in> {1..<Suc (unat d)}" for k
    using that assms(2) by (simp add: unat_word_ariths unat_of_nat)
  have "clear_blocks cur d r ! j =
    (if j \<in> (\<lambda>k. unat ((cur + word_of_nat k) AND blockMask)) ` {1..<Suc (unat d)} then 0 else r ! j)"
    unfolding clear_blocks_def using assms(1) by (subst foldl_update_nth) (auto simp del: upt_Suc)
  also have "j \<in> (\<lambda>k. unat ((cur + word_of_nat k) AND blockMask)) ` {1..<Suc (unat d)}
      \<longleftrightarrow> (\<exists>k \<in> {1..unat d}. (unat cur + k) mod 128 = j)"
    using eq by (fastforce simp: image_iff)
  finally show ?thesis .
qed

section \<open>The abstract window\<close>

text \<open>The specification: the set of accepted counters, as numbers.\<close>

definition accepts :: "nat \<Rightarrow> nat set \<Rightarrow> nat \<Rightarrow> bool" where
  "accepts limit S c \<longleftrightarrow> c < limit \<and> c \<notin> S \<and> (\<forall>s \<in> S. s \<le> c + 8128)"

text \<open>The filter represents \<open>S\<close>: \<open>flast\<close> is the greatest element, and every block that is less than
  128 blocks behind it holds exactly the counters of \<open>S\<close> in that block. Older blocks, and the blocks
  that a \<open>Reset\<close> leaves untouched, may hold anything.\<close>

definition block_ok :: "u64 list \<Rightarrow> nat set \<Rightarrow> nat \<Rightarrow> bool" where
  "block_ok r S b \<longleftrightarrow> (\<forall>i < 64. bit (r ! (b mod 128)) i \<longleftrightarrow> b * 64 + i \<in> S)"

definition represents :: "Filter \<Rightarrow> nat set \<Rightarrow> bool" where
  "represents f S \<longleftrightarrow> length (fring f) = 128
     \<and> (\<forall>s \<in> S. s \<le> unat (flast f))
     \<and> (if S = {} then flast f = 0 else unat (flast f) \<in> S)
     \<and> (\<forall>b. b \<le> unat (flast f) div 64 \<and> unat (flast f) div 64 - b < 128 \<longrightarrow> block_ok (fring f) S b)"

lemma represents_Reset:
  assumes "length (fring f) = 128"
  shows "represents (Reset f) {}"
  using assms by (auto simp: represents_def Reset_def block_ok_def)

lemma bit_or_push_one:
  "i < 64 \<Longrightarrow> bit ((w :: u64) OR 2 ^ n) i \<longleftrightarrow> bit w i \<or> i = n"
  by (auto simp: bit_or_iff bit_exp_iff possible_bit_def)

lemma or_push_one_changes: "n < 64 \<Longrightarrow> (w :: u64) \<noteq> w OR 2 ^ n \<longleftrightarrow> \<not> bit w n"
proof
  assume n: "n < 64" and ne: "w \<noteq> w OR 2 ^ n"
  show "\<not> bit w n"
  proof
    assume "bit w n"
    then have "w = w OR 2 ^ n"
      by (intro bit_word_eqI) (auto simp: bit_or_push_one)
    with ne show False by simp
  qed
qed (auto simp: bit_or_push_one dest!: arg_cong [where f = "\<lambda>v. bit v n"])

lemma set_bit_of_eq:
  "set_bit_of f c =
    (\<not> bit (fring f ! (unat c div 64 mod 128)) (unat c mod 64),
     f\<lparr>fring := (fring f)[unat c div 64 mod 128 :=
        fring f ! (unat c div 64 mod 128) OR 2 ^ (unat c mod 64)]\<rparr>)"
by (simp add: set_bit_of_def Let_def or_push_one_changes push_bit_of_1)

lemma block_ok_set_bit:
  assumes "length r = 128" and "block_ok r S b" and "b div 128 = q div 128 \<or> b mod 128 \<noteq> q mod 128"
    and "k < 64"
  shows "block_ok (r[q mod 128 := r ! (q mod 128) OR 2 ^ k]) (insert (q * 64 + k) S) b"
proof (cases "b = q")
  case True
  with assms show ?thesis by (auto simp: block_ok_def bit_or_push_one)
next
  case False
  then have ne: "b mod 128 \<noteq> q mod 128"
    using assms(3) by (metis div_mult_mod_eq)
  have "b * 64 + i \<noteq> q * 64 + k" if "i < 64" for i
    using that assms(4) False by (metis div_less div_mult_self3 add.right_neutral zero_neq_numeral)
  with ne assms show ?thesis by (auto simp: block_ok_def nth_list_update)
qed

lemma near_mod_eq:
  assumes "b \<le> q" "q - b < n" "b mod n = q mod n"
  shows "b = (q :: nat)"
proof -
  have "n dvd q - b"
    using mod_eq_dvd_iff_nat [OF assms(1), of n] assms(3) by simp
  then have "q - b = 0" using assms(2) by (auto dest: dvd_imp_le)
  with assms(1) show ?thesis by simp
qed

lemma near_blocks_eq:
  assumes "b \<le> l" "l - b < n" "q \<le> l" "l - q < n" "b mod n = q mod n"
  shows "b = (q :: nat)"
proof (cases "b \<le> q")
  case True
  moreover have "q - b < n" using assms(1-4) by linarith
  ultimately show ?thesis using assms(5) by (rule near_mod_eq)
next
  case False
  then have "q \<le> b" by simp
  moreover have "b - q < n" using assms(1-4) by linarith
  ultimately show ?thesis using assms(5) [symmetric] by (rule near_mod_eq [symmetric])
qed

text \<open>Setting the bit of a counter whose block is in the window.\<close>

lemma represents_set_bit:
  assumes len: "length (fring f) = 128"
    and blocks: "\<And>b. b \<le> unat (flast f) div 64 \<Longrightarrow> unat (flast f) div 64 - b < 128 \<Longrightarrow> block_ok (fring f) S b"
    and bnd: "\<forall>s \<in> S. s \<le> unat (flast f)" and c: "unat c \<le> unat (flast f)"
    and win: "unat (flast f) div 64 - unat c div 64 < 128"
    and last: "unat (flast f) \<in> insert (unat c) S"
    and step: "set_bit_of f c = (ok, f')"
  shows "(ok \<longleftrightarrow> unat c \<notin> S) \<and> represents f' (insert (unat c) S)"
proof -
  let ?q = "unat c div 64" let ?k = "unat c mod 64"
  have qk: "?q * 64 + ?k = unat c" by simp
  have ck: "?q \<le> unat (flast f) div 64" using c by (rule div_le_mono)
  then have "block_ok (fring f) S ?q" using blocks win by blast
  then have ok: "ok \<longleftrightarrow> unat c \<notin> S"
    using step qk by (auto simp: set_bit_of_eq block_ok_def)
  have f': "f' = f\<lparr>fring := (fring f)[?q mod 128 := fring f ! (?q mod 128) OR 2 ^ ?k]\<rparr>"
    using step by (auto simp: set_bit_of_eq)
  have "block_ok (fring f') (insert (unat c) S) b"
    if b: "b \<le> unat (flast f) div 64" "unat (flast f) div 64 - b < 128" for b
  proof -
    have "b = ?q" if "b mod 128 = ?q mod 128"
      by (rule near_blocks_eq [OF b(1) b(2) ck win that])
    then have "b div 128 = ?q div 128 \<or> b mod 128 \<noteq> ?q mod 128" by auto
    then have "block_ok ((fring f)[?q mod 128 := fring f ! (?q mod 128) OR 2 ^ ?k])
        (insert (?q * 64 + ?k) S) b"
      by (rule block_ok_set_bit [OF len blocks [OF b]]) simp
    then show ?thesis using qk f' by simp
  qed
  with ok len bnd c last f' show ?thesis
    by (auto simp: represents_def)
qed

text \<open>Moving the window forward: the blocks between the old and the new greatest counter are cleared,
  all of them hold no accepted counter.\<close>

lemma clear_blocks_window:
  assumes len: "length r = 128"
    and old: "\<And>b. b \<le> l \<Longrightarrow> l - b < 128 \<Longrightarrow> block_ok r S b"
    and bnd: "\<forall>s \<in> S. s div 64 \<le> l" and l: "unat cur = l" "l < 2 ^ 58"
    and d: "unat d = min (n - l) 128" and n: "l \<le> n" and b: "b \<le> n" "n - b < 128"
  shows "block_ok (clear_blocks cur d r) S b"
proof (cases "b \<le> l")
  case True
  have "(l + k) mod 128 \<noteq> b mod 128" if "k \<in> {1..unat d}" for k
  proof
    assume eq: "(l + k) mod 128 = b mod 128"
    have k: "l + k \<le> n" "n - (l + k) < 128" "b < l + k"
      using that d n b True by auto
    from near_blocks_eq [OF k(1,2) b eq] k(3) show False by simp
  qed
  then show ?thesis
    using True len b old [of b] n l d by (auto simp: block_ok_def nth_clear_blocks)
next
  case False
  have "\<exists>k \<in> {1..unat d}. (l + k) mod 128 = b mod 128"
  proof
    have bl: "b = l + Suc (b - l - 1)" using False by simp
    then show "(l + Suc ((b - l - 1) mod 128)) mod 128 = b mod 128"
      by (metis add_Suc_right mod_add_right_eq mod_Suc_eq)
    have "Suc ((b - l - 1) mod 128) \<le> b - l" using False by (simp add: Suc_le_eq le_less_trans [OF mod_less_eq_dividend])
    then show "Suc ((b - l - 1) mod 128) \<in> {1..unat d}"
      using d b by (auto simp: Suc_le_eq)
  qed
  then have "clear_blocks cur d r ! (b mod 128) = 0"
    using len l d by (subst nth_clear_blocks) auto
  moreover have "b * 64 + i \<notin> S" if "i < 64" for i
    using that bnd False by fastforce
  ultimately show ?thesis by (auto simp: block_ok_def)
qed

lemma windowSize_blocks:
  "c \<le> l \<Longrightarrow> l - c \<le> 8128 \<Longrightarrow> (l :: nat) div 64 - c div 64 < 128"
  by (auto simp: div_le_mono less_diff_conv2 intro!: le_imp_less_Suc)

text \<open>One call implements the abstract decision.\<close>

lemma ValidateCounter_step:
  assumes rep: "represents f S" and val: "ValidateCounter f c lim = (ok, f')"
  shows "ok = accepts (unat lim) S (unat c) \<and> represents f' (if ok then insert (unat c) S else S)"
proof -
  let ?l = "unat (flast f)" let ?c = "unat c"
  have len: "length (fring f) = 128" and bnd: "\<forall>s \<in> S. s \<le> ?l"
    and last: "if S = {} then flast f = 0 else ?l \<in> S"
    and old: "\<And>b. b \<le> ?l div 64 \<Longrightarrow> ?l div 64 - b < 128 \<Longrightarrow> block_ok (fring f) S b"
    using rep by (auto simp: represents_def)
  consider (limit) "lim \<le> c" | (forward) "c < lim" "flast f < c"
    | (behind) "c < lim" "c \<le> flast f" "windowSize < flast f - c"
    | (window) "c < lim" "c \<le> flast f" "flast f - c \<le> windowSize"
    by force
  then show ?thesis
  proof cases
    case limit
    then show ?thesis using val rep by (auto simp: ValidateCounter_def accepts_def word_le_nat_alt)
  next
    case forward
    let ?cur = "drop_bit blockBitLog (flast f)" let ?ib = "drop_bit blockBitLog c"
    define d where "d = (if ringBlocks < ?ib - ?cur then ringBlocks else ?ib - ?cur)"
    have lc: "?l < ?c" using forward by (simp add: word_less_nat_alt)
    have n: "?l div 64 \<le> ?c div 64" using lc by (intro div_le_mono) simp
    have diff: "unat (?ib - ?cur) = ?c div 64 - ?l div 64"
      using n by (subst unat_sub) (auto simp: word_le_nat_alt)
    have d: "unat d = min (?c div 64 - ?l div 64) 128"
      by (auto simp: d_def diff word_less_nat_alt ringBlocks_def)
    define f1 where "f1 = f\<lparr>fring := clear_blocks ?cur d (fring f), flast := c\<rparr>"
    have step: "set_bit_of f1 c = (ok, f')"
      using val forward iffD2 [OF not_le forward(1)]
      by (auto simp: ValidateCounter_def Let_def d_def f1_def)
    have l58: "?l div 64 < 2 ^ 58" using unat_u64_less [of "flast f"] by simp
    have bnd': "\<forall>s \<in> S. s div 64 \<le> ?l div 64" using bnd by (auto intro: div_le_mono)
    have blocks: "block_ok (fring f1) S b" if "b \<le> ?c div 64" "?c div 64 - b < 128" for b
      using clear_blocks_window [OF len old bnd' _ l58 d n that] by (simp add: f1_def)
    have "(ok \<longleftrightarrow> ?c \<notin> S) \<and> represents f' (insert ?c S)"
      by (rule represents_set_bit [OF _ _ _ _ _ _ step]) (use len blocks bnd lc in \<open>auto simp: f1_def\<close>)
    moreover have "?c \<notin> S" using bnd lc by auto
    moreover have "accepts (unat lim) S ?c"
      using forward bnd lc \<open>?c \<notin> S\<close> by (auto simp: accepts_def word_less_nat_alt)
    ultimately show ?thesis by auto
  next
    case behind
    have "unat (flast f - c) = ?l - ?c" using behind by (simp add: unat_sub)
    then have "8128 < ?l - ?c" using behind by (simp add: word_less_nat_alt)
    moreover have "?l \<in> S" using last calculation by (auto split: if_splits)
    ultimately have "\<not> accepts (unat lim) S ?c" by (force simp: accepts_def)
    moreover have "ValidateCounter f c lim = (False, f)"
      using behind iffD2 [OF not_le behind(1)] iffD2 [OF not_less behind(2)]
      by (simp add: ValidateCounter_def)
    ultimately show ?thesis using val rep by simp
  next
    case window
    have "unat (flast f - c) = ?l - ?c" using window by (simp add: unat_sub)
    then have win: "?l - ?c \<le> 8128" "?c \<le> ?l" using window by (simp_all add: word_le_nat_alt)
    have step: "set_bit_of f c = (ok, f')"
      using val window iffD2 [OF not_le window(1)] iffD2 [OF not_less window(2)]
        iffD2 [OF not_less window(3)] by (simp add: ValidateCounter_def)
    have "(ok \<longleftrightarrow> ?c \<notin> S) \<and> represents f' (insert ?c S)"
      by (rule represents_set_bit [OF len old bnd win(2) windowSize_blocks [OF win(2,1)] _ step])
        (use last win in \<open>auto split: if_splits\<close>)
    moreover have "accepts (unat lim) S ?c \<longleftrightarrow> ?c \<notin> S"
      using window bnd win by (auto simp: accepts_def word_less_nat_alt)
    ultimately show ?thesis by (auto simp: insert_absorb)
  qed
qed

section \<open>Sequences of packets\<close>

text \<open>The sequential receiver calls the filter once for each authenticated packet, in order.\<close>

fun run_filter :: "('f \<Rightarrow> 'c \<Rightarrow> bool \<times> 'f) \<Rightarrow> 'f \<Rightarrow> 'c list \<Rightarrow> bool list \<times> 'f" where
  "run_filter v f [] = ([], f)"
| "run_filter v f (c # cs) =
     (let (ok, f1) = v f c; (oks, f2) = run_filter v f1 cs in (ok # oks, f2))"

fun run_spec :: "('a set \<Rightarrow> 'a \<Rightarrow> bool) \<Rightarrow> 'a set \<Rightarrow> 'a list \<Rightarrow> bool list" where
  "run_spec A S [] = []"
| "run_spec A S (c # cs) = A S c # run_spec A (if A S c then insert c S else S) cs"

text \<open>What the device relies on from an anti-replay filter: it implements a decision over the set of
  accepted counters that never accepts a member of that set.\<close>

locale anti_replay =
  fixes validate :: "'f \<Rightarrow> 'c \<Rightarrow> bool \<times> 'f"
    and rep :: "'f \<Rightarrow> 'a set \<Rightarrow> bool"
    and num :: "'c \<Rightarrow> 'a"
    and decide :: "'a set \<Rightarrow> 'a \<Rightarrow> bool"
  assumes step: "rep f S \<Longrightarrow> validate f c = (ok, f') \<Longrightarrow>
      ok = decide S (num c) \<and> rep f' (if ok then insert (num c) S else S)"
    and fresh: "decide S a \<Longrightarrow> a \<notin> S"
begin

lemma run_refines: "rep f S \<Longrightarrow> fst (run_filter validate f cs) = run_spec decide S (map num cs)"
proof (induction cs arbitrary: f S)
  case Nil
  then show ?case by simp
next
  case (Cons c cs)
  obtain ok f1 where v: "validate f c = (ok, f1)" by force
  with step [OF Cons.prems] have "ok = decide S (num c)" "rep f1 (if ok then insert (num c) S else S)"
    by auto
  with Cons.IH v show ?case by (auto simp: case_prod_beta)
qed

lemma run_spec_fresh:
  "(c, True) \<in> set (zip cs (run_spec decide S cs)) \<Longrightarrow> c \<notin> S"
  by (induction cs arbitrary: S) (auto dest: fresh split: if_splits)

lemma run_spec_distinct: "distinct (map fst (filter snd (zip cs (run_spec decide S cs))))"
proof (induction cs arbitrary: S)
  case Nil
  then show ?case by simp
next
  case (Cons c cs)
  have "c \<notin> fst ` {x \<in> set (zip cs (run_spec decide (insert c S) cs)). snd x}"
    using run_spec_fresh [of c cs "insert c S"] by force
  with Cons show ?case by simp
qed

lemma no_replay:
  "rep f S \<Longrightarrow> distinct (map fst (filter snd (zip (map num cs) (fst (run_filter validate f cs)))))"
  by (simp add: run_refines run_spec_distinct)

end

interpretation window: anti_replay "\<lambda>f c. ValidateCounter f c lim" represents unat "accepts (unat lim)"
  by unfold_locales (auto dest: ValidateCounter_step simp: accepts_def)

section \<open>Properties\<close>

text \<open>C15: one call of the filter implements the window decision. Whatever set \<open>S\<close> of accepted counters
  the ring represents, \<open>ValidateCounter\<close> accepts a counter exactly when it is below the limit, not in
  \<open>S\<close>, and at most 8128 behind every counter of \<open>S\<close>; the new ring represents the new set.\<close>

theorem ValidateCounter_implements_window:
  assumes "represents f S" and "ValidateCounter f c lim = (ok, f')"
  shows "(ok \<longleftrightarrow> unat c < unat lim \<and> unat c \<notin> S \<and> (\<forall>s \<in> S. s \<le> unat c + 8128))
    \<and> represents f' (if ok then insert (unat c) S else S)"
  using window.step [OF assms] unfolding accepts_def .

theorem ValidateCounter_implements_window_witness:
  "represents (snd (ValidateCounter (Reset zero_filter) 5 100)) {5}"
proof -
  have r: "represents (Reset zero_filter) {}"
    by (rule represents_Reset) (simp add: zero_filter_def)
  obtain ok f' where v: "ValidateCounter (Reset zero_filter) 5 100 = (ok, f')" by force
  have five: "unat (5 :: u64) = 5" "unat (100 :: u64) = 100" by simp_all
  from ValidateCounter_implements_window [OF r v] v show ?thesis by (simp only: five) auto
qed

text \<open>C16: replay protection. From a reset filter, whatever its old ring holds, no counter is accepted
  twice in any sequence of calls.\<close>

theorem replayed_counters_rejected:
  assumes "length (fring f) = 128"
  shows "distinct (map fst (filter snd
    (zip (map unat cs) (fst (run_filter (\<lambda>f c. ValidateCounter f c lim) (Reset f) cs)))))"
  by (rule window.no_replay [OF represents_Reset [OF assms]])

theorem replayed_counters_rejected_witness:
  "distinct (map fst (filter snd (zip (map unat [7, 7, 3 :: u64])
    (fst (run_filter (\<lambda>f c. ValidateCounter f c 100) (Reset zero_filter) [7, 7, 3])))))"
  by (rule replayed_counters_rejected) (simp add: zero_filter_def)

end
