(* ===== verification/Magic_Header.thy ===== *)
theory Magic_Header
  imports Go_Text
begin

text \<open>
  The message header ranges of \<open>device/magic-header.go\<close>: parsing and printing a range, testing a value
  against it, drawing a value from it, and the overlap test of \<open>ipcSetDevice.mergeWithDevice\<close>.
  \<open>crypto/rand.Int\<close> is a function argument \<open>rnd\<close>: it is asked for a number below its argument, and
  panics when the argument is not positive.
\<close>

record magicHeader =
  mh_start :: u32
  mh_end :: u32

datatype header_error = BadFormat | BadNumber string | WrongRange

definition newMagicHeader :: "string \<Rightarrow> header_error + magicHeader" where
  "newMagicHeader spec =
     (let parts = Split spec (CHR ''-'') in
      if length parts < 1 \<or> 2 < length parts then Inl BadFormat
      else case ParseUint (parts ! 0) 32 of
        None \<Rightarrow> Inl (BadNumber (parts ! 0))
      | Some start \<Rightarrow>
          (case (if 1 < length parts then ParseUint (parts ! 1) 32 else Some start) of
             None \<Rightarrow> Inl (BadNumber (parts ! 1))
           | Some end' \<Rightarrow>
               if end' < start then Inl WrongRange
               else Inr \<lparr>mh_start = word_of_nat start, mh_end = word_of_nat end'\<rparr>))"

definition GenSpec :: "magicHeader \<Rightarrow> string" where
  "GenSpec h =
     (if mh_start h = mh_end h then show_nat (unat (mh_start h))
      else show_nat (unat (mh_start h)) @ CHR ''-'' # show_nat (unat (mh_end h)))"

definition Validate :: "magicHeader \<Rightarrow> u32 \<Rightarrow> bool" where
  "Validate h val \<longleftrightarrow> mh_start h \<le> val \<and> val \<le> mh_end h"

text \<open>\<open>high\<close> is computed in 32 bits and then widened; \<open>None\<close> is the panic of \<open>rand.Int\<close> on \<open>high = 0\<close>.\<close>

definition Generate :: "(nat \<Rightarrow> nat) \<Rightarrow> magicHeader \<Rightarrow> u32 option" where
  "Generate rnd h =
     (let high = unat (mh_end h - mh_start h + 1)
      in if high = 0 then None else Some (mh_start h + word_of_nat (rnd high)))"

text \<open>The documented behaviour of \<open>rand.Int\<close>: a number in \<open>[0, n)\<close>.\<close>

definition rand_int_ok :: "(nat \<Rightarrow> nat) \<Rightarrow> bool" where
  "rand_int_ok rnd \<longleftrightarrow> (\<forall>n > 0. rnd n < n)"

text \<open>The overlap test of two headers.\<close>

definition overlaps :: "magicHeader \<Rightarrow> magicHeader \<Rightarrow> bool" where
  "overlaps l r \<longleftrightarrow> mh_start l \<le> mh_end r \<and> mh_start r \<le> mh_end l"

fun any_overlap :: "magicHeader list \<Rightarrow> bool" where
  "any_overlap [] = False"
| "any_overlap (h # hs) = (list_ex (overlaps h) hs \<or> any_overlap hs)"

definition full_range :: "magicHeader \<Rightarrow> bool" where
  "full_range h \<longleftrightarrow> mh_start h = 0 \<and> mh_end h = - 1"

section \<open>Lemmas\<close>

lemma dash_not_in_show [simp]: "CHR ''-'' \<notin> set (show_nat n)"
  by (rule not_digit_not_in_show) simp

lemma newMagicHeader_sorted: "newMagicHeader s = Inr h \<Longrightarrow> mh_start h \<le> mh_end h"
  by (auto simp: newMagicHeader_def Let_def word_le_nat_alt unat_of_nat dest!: ParseUint_less
      split: if_splits option.splits)

lemma newMagicHeader_GenSpec:
  assumes "mh_start h \<le> mh_end h"
  shows "newMagicHeader (GenSpec h) = Inr h"
proof -
  have "unat (mh_start h) < 2 ^ 32" "unat (mh_end h) < 2 ^ 32"
    using unat_u32_less by auto
  with assms show ?thesis
    by (auto simp: newMagicHeader_def GenSpec_def Split_no_sep Split_append word_le_nat_alt)
qed

lemma Validate_disjoint:
  "\<not> overlaps l r \<Longrightarrow> Validate l v \<Longrightarrow> \<not> Validate r v"
  by (auto simp: overlaps_def Validate_def)

lemma high_zero_iff:
  assumes "mh_start h \<le> mh_end h"
  shows "unat (mh_end h - mh_start h + 1) = 0 \<longleftrightarrow> full_range h"
proof
  assume "unat (mh_end h - mh_start h + 1) = 0"
  then have "mh_end h - mh_start h + 1 = 0" by (simp only: unat_eq_0)
  then have "mh_end h - (mh_start h - 1) = 0" by (simp only: diff_diff_eq2) (simp add: algebra_simps)
  then have eq: "mh_end h = mh_start h - 1" by (simp only: right_minus_eq)
  show "full_range h"
  proof (cases "mh_start h = 0")
    case True
    with eq show ?thesis by (simp add: full_range_def)
  next
    case False
    then have "mh_start h - 1 < mh_start h" by (simp add: word_less_nat_alt unat_minus_one word_neq_0_conv)
    with eq assms show ?thesis by simp
  qed
qed (simp add: full_range_def)

lemma Generate_in_range:
  assumes rnd: "rand_int_ok rnd" and se: "mh_start h \<le> mh_end h" and gen: "Generate rnd h = Some v"
  shows "Validate h v"
proof -
  let ?s = "unat (mh_start h)" and ?e = "unat (mh_end h)"
  let ?n = "unat (mh_end h - mh_start h + 1)"
  have n: "0 < ?n" using gen by (auto simp: Generate_def Let_def split: if_splits)
  have v: "v = mh_start h + word_of_nat (rnd ?n)" using gen by (auto simp: Generate_def Let_def split: if_splits)
  have "unat (mh_end h - mh_start h) = ?e - ?s" "?s \<le> ?e"
    using se by (auto simp: unat_sub word_le_nat_alt)
  then have "?n \<le> ?e - ?s + 1" by (simp add: unat_word_ariths)
  moreover have "rnd ?n < ?n" using rnd n by (simp add: rand_int_ok_def)
  ultimately have "?s + rnd ?n \<le> ?e" using \<open>?s \<le> ?e\<close> by linarith
  moreover from this have "unat v = ?s + rnd ?n"
    using unat_u32_less [of "mh_end h"] by (simp add: v unat_word_ariths unat_of_nat)
  ultimately show ?thesis by (simp add: Validate_def word_le_nat_alt)
qed

section \<open>Properties\<close>

text \<open>Parsing a header specification inverts printing it, for every header whose range is not
  empty, and every header the parser returns has such a range.\<close>

theorem header_spec_roundtrip:
  "(mh_start h \<le> mh_end h \<longrightarrow> newMagicHeader (GenSpec h) = Inr h)
   \<and> (newMagicHeader s = Inr h' \<longrightarrow> mh_start h' \<le> mh_end h')"
  using newMagicHeader_GenSpec newMagicHeader_sorted by blast

theorem header_spec_roundtrip_witness:
  "newMagicHeader (GenSpec \<lparr>mh_start = 5, mh_end = 9\<rparr>) = Inr \<lparr>mh_start = 5, mh_end = 9\<rparr>"
  using header_spec_roundtrip [of "\<lparr>mh_start = 5, mh_end = 9\<rparr>"] by simp

text \<open>C26: a value drawn from a parsed header lies in the header's range, and the draw panics exactly
  for the range of all 32-bit values, whose size wraps to 0.\<close>

theorem Generate_validates_or_panics:
  assumes "newMagicHeader s = Inr h" and "rand_int_ok rnd"
  shows "(case Generate rnd h of Some v \<Rightarrow> Validate h v | None \<Rightarrow> full_range h)
    \<and> (full_range h \<longrightarrow> Generate rnd h = None)"
proof -
  have se: "mh_start h \<le> mh_end h" by (rule newMagicHeader_sorted [OF assms(1)])
  have "Generate rnd h = None \<longleftrightarrow> full_range h"
    by (simp add: Generate_def Let_def high_zero_iff [OF se])
  with Generate_in_range [OF assms(2) se] show ?thesis by (auto split: option.splits)
qed

theorem Generate_validates_or_panics_witness:
  "newMagicHeader ''0-4294967295'' = Inr \<lparr>mh_start = 0, mh_end = - 1\<rparr>
   \<and> Generate (\<lambda>_. 0) \<lparr>mh_start = 0, mh_end = - 1\<rparr> = None"
proof -
  have p: "newMagicHeader ''0-4294967295'' = Inr \<lparr>mh_start = 0, mh_end = - 1\<rparr>"
    by (simp add: newMagicHeader_def ParseUint_def digit_of_def)
  have "rand_int_ok (\<lambda>_. 0)" by (simp add: rand_int_ok_def)
  from Generate_validates_or_panics [OF p this] p show ?thesis by (simp add: full_range_def)
qed

end
