(* ===== verification/Obf.thy ===== *)
theory Obf
  imports Go_Text
begin

text \<open>
  The custom signature packets of \<open>device/obf*.go\<close>: a specification is a sequence of tags
  \<open><key argument>\<close>, each building one obfuscator, and a packet is the concatenation of what the
  obfuscators write. Panics (a slice with a negative length, a destination that is too short) are
  \<open>None\<close>. The bytes of \<open>crypto/rand\<close> come from an explicit source and \<open>time.Now().Unix()\<close> is an
  argument.
\<close>

section \<open>Obfuscators\<close>

datatype obf =
    BytesObf bytes
  | TimestampObf
  | RandObf int
  | RandCharObf int
  | RandDigitObf int
  | DataObf
  | DataStringObf
  | DataSizeObf int

datatype obf_error =
    MissingEnclosing
  | EmptyTag
  | UnknownTag string
  | BuildFailed string

text \<open>The builders; \<open>None\<close> is an error.\<close>

definition newBytesObf :: "string \<Rightarrow> obf option" where
  "newBytesObf val0 =
     (let val = TrimPrefix val0 ''0x'' in
      if val = [] then None
      else if length val mod 2 \<noteq> 0 then None
      else map_option BytesObf (hex_decode val))"

definition newRandObf :: "string \<Rightarrow> obf option" where
  "newRandObf val = map_option RandObf (Atoi val)"

definition newRandCharObf :: "string \<Rightarrow> obf option" where
  "newRandCharObf val = map_option RandCharObf (Atoi val)"

definition newRandDigitsObf :: "string \<Rightarrow> obf option" where
  "newRandDigitsObf val = map_option RandDigitObf (Atoi val)"

definition newDataSizeObf :: "string \<Rightarrow> obf option" where
  "newDataSizeObf val = map_option DataSizeObf (Atoi val)"

text \<open>The table \<open>obfBuilders\<close>: \<open>None\<close> when the key is not in the table.\<close>

definition obfBuilders :: "string \<Rightarrow> (string \<Rightarrow> obf option) option" where
  "obfBuilders key =
     (if key = ''b'' then Some newBytesObf
      else if key = ''t'' then Some (\<lambda>_. Some TimestampObf)
      else if key = ''r'' then Some newRandObf
      else if key = ''rc'' then Some newRandCharObf
      else if key = ''rd'' then Some newRandDigitsObf
      else if key = ''d'' then Some (\<lambda>_. Some DataObf)
      else if key = ''ds'' then Some (\<lambda>_. Some DataStringObf)
      else if key = ''dz'' then Some newDataSizeObf
      else None)"

fun ObfuscatedLen :: "obf \<Rightarrow> int \<Rightarrow> int" where
  "ObfuscatedLen (BytesObf d) n = int (length d)"
| "ObfuscatedLen TimestampObf n = 4"
| "ObfuscatedLen (RandObf l) n = l"
| "ObfuscatedLen (RandCharObf l) n = l"
| "ObfuscatedLen (RandDigitObf l) n = l"
| "ObfuscatedLen DataObf n = n"
| "ObfuscatedLen DataStringObf n = EncodedLen n"
| "ObfuscatedLen (DataSizeObf l) n = l"

fun DeobfuscatedLen :: "obf \<Rightarrow> int \<Rightarrow> int" where
  "DeobfuscatedLen DataObf n = n"
| "DeobfuscatedLen DataStringObf n = DecodedLen n"
| "DeobfuscatedLen _ n = 0"

definition chars52 :: string where
  "chars52 = ''abcdefghijklmnopqrstuvwxyzABCDEFGHIJKLMNOPQRSTUVWXYZ''"

definition digits10 :: string where
  "digits10 = ''0123456789''"

text \<open>The byte at an index of one of these tables.\<close>

definition char_byte :: "char \<Rightarrow> byte" where
  "char_byte c = word_of_nat (of_char c)"

text \<open>\<open>for i := length - 1; i >= 0; i-- { dst[i] = byte(srcLen & 0xFF); srcLen >>= 8 }\<close>\<close>

fun size_loop :: "nat \<Rightarrow> nat \<Rightarrow> bytes \<Rightarrow> bytes" where
  "size_loop 0 n d = d"
| "size_loop (Suc i) n d = size_loop i (n div 256) (d[i := word_of_nat (n mod 256)])"

text \<open>\<open>Obfuscate(dst, src)\<close>: the new contents of the slice \<open>dst\<close>, whose length is the
  obfuscator's length.\<close>

fun Obfuscate :: "int \<Rightarrow> obf \<Rightarrow> bytes \<Rightarrow> bytes \<Rightarrow> rng \<Rightarrow> bytes \<times> rng" where
  "Obfuscate now (BytesObf d) dst src r = (copy_into dst d, r)"
| "Obfuscate now TimestampObf dst src r = (copy_into dst (put_u32_be (word_of_int now)), r)"
| "Obfuscate now (RandObf l) dst src r =
     (let (bs, r') = rand_read (nat l) r in (copy_into dst bs, r'))"
| "Obfuscate now (RandCharObf l) dst src r =
     (let (bs, r') = rand_read (nat l) r
      in (copy_into dst (map (\<lambda>b. char_byte (chars52 ! (unat b mod 52))) bs), r'))"
| "Obfuscate now (RandDigitObf l) dst src r =
     (let (bs, r') = rand_read (nat l) r
      in (copy_into dst (map (\<lambda>b. char_byte (digits10 ! (unat b mod 10))) bs), r'))"
| "Obfuscate now DataObf dst src r = (copy_into dst src, r)"
| "Obfuscate now DataStringObf dst src r = (copy_into dst (b64_encode src), r)"
| "Obfuscate now (DataSizeObf l) dst src r = (size_loop (nat l) (length src) dst, r)"

text \<open>\<open>unicode.IsLetter\<close> and \<open>unicode.IsDigit\<close> on the code points below 256.\<close>

definition is_letter :: "byte \<Rightarrow> bool" where
  "is_letter b = (let n = unat b in
     65 \<le> n \<and> n \<le> 90 \<or> 97 \<le> n \<and> n \<le> 122 \<or> n \<in> {170, 181, 186}
     \<or> 192 \<le> n \<and> n \<noteq> 215 \<and> n \<noteq> 247)"

definition is_digit :: "byte \<Rightarrow> bool" where
  "is_digit b = (let n = unat b in 48 \<le> n \<and> n \<le> 57)"

text \<open>\<open>Deobfuscate(dst, src)\<close>: whether the bytes are acceptable, and the new contents of \<open>dst\<close>.\<close>

fun Deobfuscate :: "obf \<Rightarrow> bytes \<Rightarrow> bytes \<Rightarrow> bool \<times> bytes" where
  "Deobfuscate (BytesObf d) dst src = (d = take (length d) src, dst)"
| "Deobfuscate (RandCharObf l) dst src = (list_all is_letter (take (nat l) src), dst)"
| "Deobfuscate (RandDigitObf l) dst src = (list_all is_digit (take (nat l) src), dst)"
| "Deobfuscate DataObf dst src = (True, copy_into dst src)"
| "Deobfuscate DataStringObf dst src = (True, copy_into dst (b64_decode src))"
| "Deobfuscate _ dst src = (True, dst)"

section \<open>Chains\<close>

record obfChain =
  chainSpec :: string
  obfs :: "obf list"

text \<open>The body of the parsing loop, for a tag between \<open><\<close> and \<open>>\<close>.\<close>

definition parse_tag :: "string \<Rightarrow> obf_error + obf" where
  "parse_tag tag =
     (case Fields tag of
        [] \<Rightarrow> Inl EmptyTag
      | key # parts \<Rightarrow>
          (case obfBuilders key of
             None \<Rightarrow> Inl (UnknownTag key)
           | Some builder \<Rightarrow>
               (case builder (case parts of [] \<Rightarrow> [] | v # _ \<Rightarrow> v) of
                  None \<Rightarrow> Inl (BuildFailed key)
                | Some ob \<Rightarrow> Inr ob)))"

text \<open>The loop collects obfuscators and errors; a \<open><\<close> with no \<open>>\<close> after it stops it at once.\<close>

function parse_loop :: "string \<Rightarrow> obf list \<Rightarrow> obf_error list \<Rightarrow> obf_error list + obf list" where
  "parse_loop remaining os errs =
     (case IndexByte remaining (CHR ''<'') of
        None \<Rightarrow> if errs = [] then Inr os else Inl errs
      | Some start \<Rightarrow>
          (case IndexByte (drop start remaining) (CHR ''>'') of
             None \<Rightarrow> Inl [MissingEnclosing]
           | Some e \<Rightarrow>
               let fin = e + start; rest = drop (fin + 1) remaining in
               (case parse_tag (go_slice (start + 1) fin remaining) of
                  Inl err \<Rightarrow> parse_loop rest os (errs @ [err])
                | Inr ob \<Rightarrow> parse_loop rest (os @ [ob]) errs)))"
  by pat_completeness auto
termination
  by (relation "measure (\<lambda>(rem, os, errs). length rem)") (auto dest: IndexByte_less)

declare parse_loop.simps [simp del]

definition newObfChain :: "string \<Rightarrow> obf_error list + obfChain" where
  "newObfChain spec =
     (case parse_loop spec [] [] of
        Inl errs \<Rightarrow> Inl errs
      | Inr os \<Rightarrow> Inr \<lparr>chainSpec = spec, obfs = os\<rparr>)"

definition chainObfuscatedLen :: "obfChain \<Rightarrow> int \<Rightarrow> int" where
  "chainObfuscatedLen c n = sum_list (map (\<lambda>ob. ObfuscatedLen ob n) (obfs c))"

definition chainDeobfuscatedLen :: "obfChain \<Rightarrow> int \<Rightarrow> int" where
  "chainDeobfuscatedLen c n =
     (let dynamicLen = n - chainObfuscatedLen c 0
      in sum_list (map (\<lambda>ob. DeobfuscatedLen ob dynamicLen) (obfs c)))"

text \<open>\<open>dst[written : written+len] = new contents\<close>; \<open>None\<close> when the slice expression panics.\<close>

definition sub_slice :: "bytes \<Rightarrow> nat \<Rightarrow> int \<Rightarrow> bytes option" where
  "sub_slice d at len =
     (if len < 0 \<or> int (length d) < int at + len then None else Some (take (nat len) (drop at d)))"

definition write_back :: "bytes \<Rightarrow> nat \<Rightarrow> bytes \<Rightarrow> bytes" where
  "write_back d at new = take at d @ new @ drop (at + length new) d"

fun obfuscate_loop ::
  "int \<Rightarrow> obf list \<Rightarrow> nat \<Rightarrow> bytes \<Rightarrow> bytes \<Rightarrow> rng \<Rightarrow> (bytes \<times> rng) option" where
  "obfuscate_loop now [] written dst src r = Some (dst, r)"
| "obfuscate_loop now (ob # os) written dst src r =
     (case sub_slice dst written (ObfuscatedLen ob (int (length src))) of
        None \<Rightarrow> None
      | Some d \<Rightarrow>
          (let (new, r') = Obfuscate now ob d src r
           in obfuscate_loop now os (written + length new) (write_back dst written new) src r'))"

definition chainObfuscate ::
  "int \<Rightarrow> obfChain \<Rightarrow> bytes \<Rightarrow> bytes \<Rightarrow> rng \<Rightarrow> (bytes \<times> rng) option" where
  "chainObfuscate now c dst src r = obfuscate_loop now (obfs c) 0 dst src r"

fun deobfuscate_loop ::
  "int \<Rightarrow> obf list \<Rightarrow> nat \<Rightarrow> nat \<Rightarrow> bytes \<Rightarrow> bytes \<Rightarrow> (bool \<times> bytes) option" where
  "deobfuscate_loop dyn [] written rd dst src = Some (True, dst)"
| "deobfuscate_loop dyn (ob # os) written rd dst src =
     (let deobfLen = DeobfuscatedLen ob dyn; obfLen = ObfuscatedLen ob deobfLen in
      case (sub_slice dst written deobfLen, sub_slice src rd obfLen) of
        (Some d, Some s) \<Rightarrow>
          (let (ok, new) = Deobfuscate ob d s; dst' = write_back dst written new in
           if \<not> ok then Some (False, dst')
           else deobfuscate_loop dyn os (written + nat deobfLen) (rd + nat obfLen) dst' src)
      | _ \<Rightarrow> None)"

definition chainDeobfuscate :: "obfChain \<Rightarrow> bytes \<Rightarrow> bytes \<Rightarrow> (bool \<times> bytes) option" where
  "chainDeobfuscate c dst src =
     deobfuscate_loop (int (length src) - chainObfuscatedLen c 0) (obfs c) 0 0 dst src"

section \<open>Lengths\<close>

text \<open>The obfuscators that carry the data of the packet; the others have a fixed length.\<close>

definition is_data :: "obf \<Rightarrow> bool" where
  "is_data ob \<longleftrightarrow> ob = DataObf \<or> ob = DataStringObf"

lemma is_data_simps [simp]:
  "is_data DataObf" "is_data DataStringObf" "\<not> is_data (BytesObf d)" "\<not> is_data TimestampObf"
  "\<not> is_data (RandObf l)" "\<not> is_data (RandCharObf l)" "\<not> is_data (RandDigitObf l)"
  "\<not> is_data (DataSizeObf l)"
  by (simp_all add: is_data_def)

text \<open>No obfuscator has a negative length.\<close>

definition lengths_ok :: "obf list \<Rightarrow> bool" where
  "lengths_ok os \<longleftrightarrow> list_all (\<lambda>ob. 0 \<le> ObfuscatedLen ob 0) os"

lemma EncodedLen_nonneg: "0 \<le> n \<Longrightarrow> 0 \<le> EncodedLen n"
  by (simp add: EncodedLen_def pos_imp_zdiv_nonneg_iff)

lemma ObfuscatedLen_static: "\<not> is_data ob \<Longrightarrow> ObfuscatedLen ob n = ObfuscatedLen ob 0"
  by (cases ob) auto

lemma ObfuscatedLen_data_0: "is_data ob \<Longrightarrow> ObfuscatedLen ob 0 = 0"
  by (cases ob) (auto simp: EncodedLen_def)

lemma ObfuscatedLen_nonneg: "0 \<le> ObfuscatedLen ob 0 \<Longrightarrow> 0 \<le> n \<Longrightarrow> 0 \<le> ObfuscatedLen ob n"
  by (cases ob) (auto simp: EncodedLen_nonneg)

lemma lengths_nonneg:
  "list_all (\<lambda>ob. 0 \<le> ObfuscatedLen ob 0) os \<Longrightarrow> 0 \<le> n
    \<Longrightarrow> 0 \<le> sum_list (map (\<lambda>ob. ObfuscatedLen ob n) os)"
  by (induction os) (simp_all add: ObfuscatedLen_nonneg)

lemma DeobfuscatedLen_static: "\<not> is_data ob \<Longrightarrow> DeobfuscatedLen ob n = 0"
  by (cases ob) auto

lemma DeobfuscatedLen_data:
  "is_data ob \<Longrightarrow> 0 \<le> n \<Longrightarrow> DeobfuscatedLen ob (ObfuscatedLen ob n) = n"
  by (cases ob) (auto simp: DecodedLen_EncodedLen)

lemma copy_into_full [simp]: "length d = length s \<Longrightarrow> copy_into d s = s"
  by (simp add: copy_into_def)

lemma size_loop_eq: "i \<le> length d \<Longrightarrow> size_loop i n d = nat_be i n @ drop i d"
proof (induction i arbitrary: n d)
  case 0
  then show ?case by (simp add: nat_be_def)
next
  case (Suc i)
  then have "drop i (d[i := word_of_nat (n mod 256)]) = word_of_nat (n mod 256) # drop (Suc i) d"
    by (simp add: drop_update_swap Cons_nth_drop_Suc [symmetric])
  moreover have "(word_of_nat (n mod 256) :: byte) = word_of_nat n"
    by (rule word_unat_eq_iff [THEN iffD2]) (simp add: unat_of_nat)
  ultimately show ?case using Suc by (simp add: nat_be_def)
qed

lemma chars52_letters: "i < 52 \<Longrightarrow> is_letter (char_byte (chars52 ! i))"
proof -
  have "list_all (\<lambda>c. is_letter (char_byte c)) chars52"
    by (simp add: chars52_def char_byte_def is_letter_def)
  moreover have "length chars52 = 52" by (simp add: chars52_def)
  ultimately show "i < 52 \<Longrightarrow> ?thesis" by (simp add: list_all_length)
qed

lemma digits10_digits: "i < 10 \<Longrightarrow> is_digit (char_byte (digits10 ! i))"
proof -
  have "list_all (\<lambda>c. is_digit (char_byte c)) digits10"
    by (simp add: digits10_def char_byte_def is_digit_def)
  moreover have "length digits10 = 10" by (simp add: digits10_def)
  ultimately show "i < 10 \<Longrightarrow> ?thesis" by (simp add: list_all_length)
qed

section \<open>Round trip\<close>

text \<open>\<open>out\<close> is what \<open>ob\<close> may write for \<open>src\<close>: it has the announced length, and reading it back
  accepts it and yields \<open>src\<close> where \<open>ob\<close> carries the data.\<close>

definition written_by :: "obf \<Rightarrow> bytes \<Rightarrow> bytes \<Rightarrow> bool" where
  "written_by ob src out \<longleftrightarrow> int (length out) = ObfuscatedLen ob (int (length src))
    \<and> (\<forall>d. length d = (if is_data ob then length src else 0) \<longrightarrow>
          Deobfuscate ob d out = (True, if is_data ob then src else d))"

lemma Obfuscate_written_by:
  assumes "int (length d) = ObfuscatedLen ob (int (length src))"
    and "Obfuscate now ob d src r = (out, r')"
  shows "written_by ob src out"
proof (cases ob)
  case (RandObf l)
  with assms show ?thesis by (auto simp: written_by_def rand_read_def)
next
  case (RandCharObf l)
  with assms show ?thesis
    by (auto simp: written_by_def rand_read_def list_all_iff chars52_letters)
next
  case (RandDigitObf l)
  with assms show ?thesis
    by (auto simp: written_by_def rand_read_def list_all_iff digits10_digits)
next
  case (DataSizeObf l)
  with assms show ?thesis by (auto simp: written_by_def size_loop_eq)
next
  case DataStringObf
  then have "length d = length (b64_encode src)"
    using assms(1) by (simp flip: length_b64_encode)
  with DataStringObf assms show ?thesis by (auto simp: written_by_def length_b64_encode)
qed (use assms in \<open>auto simp: written_by_def\<close>)

fun packet_of :: "obf list \<Rightarrow> bytes \<Rightarrow> bytes \<Rightarrow> bool" where
  "packet_of [] src body = (body = [])"
| "packet_of (ob # os) src body =
     (\<exists>out rest. body = out @ rest \<and> written_by ob src out \<and> packet_of os src rest)"

lemma obfuscate_loop_packet:
  assumes "lengths_ok os"
    and "int (length dst) = int written + sum_list (map (\<lambda>ob. ObfuscatedLen ob (int (length src))) os)"
  shows "\<exists>body r'. obfuscate_loop now os written dst src r = Some (take written dst @ body, r')
    \<and> packet_of os src body"
  using assms
proof (induction os arbitrary: written dst r)
  case Nil
  then show ?case by simp
next
  case (Cons ob os)
  let ?n = "ObfuscatedLen ob (int (length src))"
  let ?rest = "sum_list (map (\<lambda>ob. ObfuscatedLen ob (int (length src))) os)"
  have n: "0 \<le> ?n"
    using Cons.prems(1) ObfuscatedLen_nonneg [of ob "int (length src)"] by (simp add: lengths_ok_def)
  have "0 \<le> ?rest"
    using Cons.prems(1) by (simp add: lengths_ok_def lengths_nonneg)
  moreover have "int (length dst) = int written + (?n + ?rest)" using Cons.prems(2) by simp
  ultimately have fit: "int written + ?n \<le> int (length dst)" by linarith
  define d where "d = take (nat ?n) (drop written dst)"
  have d: "sub_slice dst written ?n = Some d" "int (length d) = ?n"
    using n fit by (auto simp: sub_slice_def d_def)
  obtain out r1 where o1: "Obfuscate now ob d src r = (out, r1)"
    by (cases "Obfuscate now ob d src r")
  then have w: "written_by ob src out" using d(2) by (rule Obfuscate_written_by [rotated])
  then have lo: "int (length out) = ?n" by (simp add: written_by_def)
  let ?dst = "write_back dst written out"
  have fit': "written + length out \<le> length dst" using lo fit by linarith
  have "length ?dst = length dst" using fit' by (simp add: write_back_def)
  then have len: "int (length ?dst) = int (written + length out) + ?rest"
    using Cons.prems(2) lo by simp
  have "lengths_ok os" using Cons.prems(1) by (simp add: lengths_ok_def)
  from Cons.IH [OF this len] obtain body r' where
    "obfuscate_loop now os (written + length out) ?dst src r1
       = Some (take (written + length out) ?dst @ body, r')" and p: "packet_of os src body"
    by blast
  moreover have "take (written + length out) ?dst = take written dst @ out"
    using fit' by (simp add: write_back_def)
  ultimately have "obfuscate_loop now (ob # os) written dst src r = Some (take written dst @ out @ body, r')"
    using d(1) o1 by simp
  moreover have "packet_of (ob # os) src (out @ body)" using w p by auto
  ultimately show ?case by blast
qed

lemma length_packet_of:
  "packet_of os src body \<Longrightarrow>
    int (length body) = sum_list (map (\<lambda>ob. ObfuscatedLen ob (int (length src))) os)"
  by (induction os src body rule: packet_of.induct) (auto simp: written_by_def)

lemma sub_slice_mid:
  "int (length out) = n \<Longrightarrow> sub_slice (pre @ out @ post) (length pre) n = Some out"
  by (auto simp: sub_slice_def)

text \<open>One step of the deobfuscation loop on what \<open>ob\<close> wrote.\<close>

lemma deobfuscate_step:
  assumes w: "written_by ob src out" and n: "n = (if is_data ob then length src else 0)"
    and fit: "at + n \<le> length dst" and dyn: "is_data ob \<Longrightarrow> dyn = ObfuscatedLen ob (int (length src))"
  shows "deobfuscate_loop dyn (ob # os) at (length pre) dst (pre @ out @ post)
    = deobfuscate_loop dyn os (at + n) (length pre + length out)
        (if is_data ob then write_back dst at src else dst) (pre @ out @ post)"
proof -
  have de: "DeobfuscatedLen ob dyn = int n"
    using n dyn by (simp add: DeobfuscatedLen_static DeobfuscatedLen_data)
  have lo: "int (length out) = ObfuscatedLen ob (int n)"
    using w n ObfuscatedLen_static [of ob "int (length src)"] by (auto simp: written_by_def)
  define d where "d = take n (drop at dst)"
  have d: "sub_slice dst at (int n) = Some d" "length d = n"
    using fit by (auto simp: sub_slice_def d_def)
  then have "Deobfuscate ob d out = (True, if is_data ob then src else d)"
    using w n by (simp add: written_by_def)
  moreover have "write_back dst at d = dst"
    using fit by (simp add: write_back_def d_def min_absorb2) (metis append_take_drop_id drop_drop add.commute)
  ultimately show ?thesis
    using de lo [symmetric] d n by (simp add: sub_slice_mid)
qed

lemma deobfuscate_static:
  "packet_of os src body \<Longrightarrow> filter is_data os = [] \<Longrightarrow> at \<le> length dst \<Longrightarrow>
    deobfuscate_loop dyn os at (length pre) dst (pre @ body) = Some (True, dst)"
proof (induction os src body arbitrary: pre rule: packet_of.induct)
  case (1 src body)
  then show ?case by simp
next
  case (2 ob os src body)
  then obtain out rest where b: "body = out @ rest" "written_by ob src out" "packet_of os src rest" by auto
  from 2 have nd: "\<not> is_data ob" "filter is_data os = []" by (auto split: if_splits)
  have "deobfuscate_loop dyn (ob # os) at (length pre) dst (pre @ out @ rest)
      = deobfuscate_loop dyn os at (length (pre @ out)) dst ((pre @ out) @ rest)"
    using deobfuscate_step [OF b(2), of 0 at dst] nd 2 by simp
  also have "\<dots> = Some (True, dst)"
    using 2 b nd by blast
  finally show ?case using b by simp
qed

lemma deobfuscate_data:
  "packet_of os src body \<Longrightarrow> length (filter is_data os) = 1 \<Longrightarrow> length dst = at + length src \<Longrightarrow>
    (\<forall>ob \<in> set os. is_data ob \<longrightarrow> dyn = ObfuscatedLen ob (int (length src))) \<Longrightarrow>
    deobfuscate_loop dyn os at (length pre) dst (pre @ body) = Some (True, take at dst @ src)"
proof (induction os arbitrary: pre body)
  case Nil
  then show ?case by simp
next
  case (Cons ob os)
  then obtain out rest where b: "body = out @ rest" "written_by ob src out" "packet_of os src rest" by auto
  show ?case
  proof (cases "is_data ob")
    case True
    let ?dst = "write_back dst at src"
    have "deobfuscate_loop dyn (ob # os) at (length pre) dst (pre @ out @ rest)
      = deobfuscate_loop dyn os (at + length src) (length (pre @ out)) ?dst ((pre @ out) @ rest)"
      using deobfuscate_step [OF b(2), of "length src" at dst] True Cons.prems by simp
    also have "\<dots> = Some (True, ?dst)"
      using Cons.prems True by (intro deobfuscate_static [OF b(3)]) (auto simp: write_back_def filter_empty_conv)
    finally show ?thesis using b Cons.prems by (simp add: write_back_def)
  next
    case False
    have "deobfuscate_loop dyn (ob # os) at (length pre) dst (pre @ out @ rest)
      = deobfuscate_loop dyn os at (length (pre @ out)) dst ((pre @ out) @ rest)"
      using deobfuscate_step [OF b(2), of 0 at dst] False Cons.prems by simp
    also have "\<dots> = Some (True, take at dst @ src)"
      using Cons.IH [OF b(3), of "pre @ out"] Cons.prems False by (simp del: append_assoc)
    finally show ?thesis using b by simp
  qed
qed

lemma sum_lengths_split:
  "length (filter is_data os) = 1 \<Longrightarrow> ob \<in> set os \<Longrightarrow> is_data ob \<Longrightarrow>
    sum_list (map (\<lambda>ob. ObfuscatedLen ob n) os) - sum_list (map (\<lambda>ob. ObfuscatedLen ob 0) os)
      = ObfuscatedLen ob n"
proof (induction os)
  case Nil
  then show ?case by simp
next
  case (Cons x os)
  show ?case
  proof (cases "is_data x")
    case True
    with Cons.prems have f: "filter is_data os = []" by simp
    then have "sum_list (map (\<lambda>ob. ObfuscatedLen ob n) os) = sum_list (map (\<lambda>ob. ObfuscatedLen ob 0) os)"
      by (intro arg_cong [where f = sum_list] map_cong refl ObfuscatedLen_static) (auto simp: filter_empty_conv)
    moreover have "ob = x" using Cons.prems f by (auto simp: filter_empty_conv)
    ultimately show ?thesis using True by (simp add: ObfuscatedLen_data_0)
  next
    case False
    then show ?thesis using Cons ObfuscatedLen_static [of x n] by auto
  qed
qed

text \<open>The chain writes a packet of the announced length.\<close>

lemma chainObfuscate_packet:
  assumes "lengths_ok (obfs c)" and "int (length dst) = chainObfuscatedLen c (int (length src))"
  shows "\<exists>out r'. chainObfuscate now c dst src r = Some (out, r') \<and> length out = length dst
    \<and> packet_of (obfs c) src out"
  using obfuscate_loop_packet [OF assms(1), of dst 0 src now r] assms(2) length_packet_of [of "obfs c" src]
  by (fastforce simp: chainObfuscate_def chainObfuscatedLen_def)

section \<open>Properties\<close>

text \<open>C23: a signature packet can be read back. For a chain without negative lengths and with exactly one
  data tag, obfuscating any data into a buffer of the announced length does not panic, fills the
  buffer, and deobfuscating the packet accepts it and returns the data.\<close>

theorem obf_chain_roundtrip:
  assumes "lengths_ok (obfs c)" and "length (filter is_data (obfs c)) = 1"
    and "int (length dst) = chainObfuscatedLen c (int (length src))" and "length dst' = length src"
  shows "\<exists>out r'. chainObfuscate now c dst src r = Some (out, r') \<and> length out = length dst
    \<and> chainDeobfuscate c dst' out = Some (True, src)"
proof -
  from chainObfuscate_packet [OF assms(1,3)] obtain out r' where
    o: "chainObfuscate now c dst src r = Some (out, r')" "length out = length dst"
      "packet_of (obfs c) src out" by blast
  have dyn: "int (length out) - chainObfuscatedLen c 0 = ObfuscatedLen ob (int (length src))"
    if "ob \<in> set (obfs c)" "is_data ob" for ob
    using sum_lengths_split [OF assms(2) that] o(2) assms(3) by (simp add: chainObfuscatedLen_def)
  have "chainDeobfuscate c dst' out = Some (True, take 0 dst' @ src)"
    unfolding chainDeobfuscate_def
    using deobfuscate_data [OF o(3) assms(2), of dst' 0 _ "[]"] assms(4) dyn by simp
  with o show ?thesis by auto
qed

theorem obf_chain_roundtrip_witness:
  "\<exists>out r'. chainObfuscate 7 \<lparr>chainSpec = [], obfs = [BytesObf [1, 2], DataObf, RandObf 1]\<rparr>
      [0, 0, 0, 0, 0] [8, 9] (\<lambda>_. 3) = Some (out, r') \<and> length out = length [0 :: byte, 0, 0, 0, 0]
    \<and> chainDeobfuscate \<lparr>chainSpec = [], obfs = [BytesObf [1, 2], DataObf, RandObf 1]\<rparr> [0, 0] out
      = Some (True, [8, 9])"
  by (rule obf_chain_roundtrip) (simp_all add: lengths_ok_def chainObfuscatedLen_def)

text \<open>Sending a signature packet (\<open>make([]byte, ObfuscatedLen(0))\<close> and \<open>Obfuscate(buf, nil)\<close>)
  never panics and fills the buffer, for every chain without negative lengths; a tag with a negative
  length is accepted by the parser and makes the call panic.\<close>

theorem signature_packet_total:
  "(lengths_ok (obfs c) \<longrightarrow>
      (\<exists>out r'. chainObfuscate now c (replicate (nat (chainObfuscatedLen c 0)) 0) [] r = Some (out, r')
        \<and> int (length out) = chainObfuscatedLen c 0))
   \<and> newObfChain ''<r -5>'' = Inr \<lparr>chainSpec = ''<r -5>'', obfs = [RandObf (-5)]\<rparr>
   \<and> chainObfuscate now \<lparr>chainSpec = ''<r -5>'', obfs = [RandObf (-5)]\<rparr> d [] r = None"
proof (intro conjI impI)
  assume ok: "lengths_ok (obfs c)"
  then have nn: "0 \<le> chainObfuscatedLen c 0"
    by (simp add: lengths_ok_def chainObfuscatedLen_def lengths_nonneg)
  then have len: "int (length (replicate (nat (chainObfuscatedLen c 0)) (0 :: byte)))
      = chainObfuscatedLen c (int (length ([] :: bytes)))" by simp
  show "\<exists>out r'. chainObfuscate now c (replicate (nat (chainObfuscatedLen c 0)) 0) [] r = Some (out, r')
      \<and> int (length out) = chainObfuscatedLen c 0"
    using chainObfuscate_packet [OF ok len] nn by fastforce
next
  show "newObfChain ''<r -5>'' = Inr \<lparr>chainSpec = ''<r -5>'', obfs = [RandObf (-5)]\<rparr>"
    by (simp add: newObfChain_def parse_loop.simps go_slice_def parse_tag_def Fields_def is_space_def
        obfBuilders_def newRandObf_def Atoi_def digit_of_def)
  show "chainObfuscate now \<lparr>chainSpec = ''<r -5>'', obfs = [RandObf (-5)]\<rparr> d [] r = None"
    by (simp add: chainObfuscate_def sub_slice_def)
qed

theorem signature_packet_total_witness:
  "\<exists>out r'. chainObfuscate 7 \<lparr>chainSpec = [], obfs = [TimestampObf]\<rparr> (replicate 4 0) [] (\<lambda>_. 3) = Some (out, r')
    \<and> int (length out) = 4"
  using signature_packet_total [of "\<lparr>chainSpec = [], obfs = [TimestampObf]\<rparr>" 7 "\<lambda>_. 3"]
  by (simp add: lengths_ok_def chainObfuscatedLen_def)

end
