(* ===== verification/Device_State.thy ===== *)
theory Device_State
  imports Allowed_IPs Cookie Ratelimiter Replay Magic_Header Obf "HOL-Library.Monad_Syntax"
begin

text \<open>
  The state of a device and of its peers (\<open>device/device.go\<close>, \<open>device/peer.go\<close>, \<open>device/keypair.go\<close>,
  \<open>device/indextable.go\<close>, the data types of \<open>device/noise-protocol.go\<close>, \<open>device/timers.go\<close>,
  \<open>device/send.go\<close> and \<open>device/receive.go\<close>) and the operations of the index table and of the key pairs.
  Pointers to peers and key pairs are numbers into the stores \<open>peers\<close> and \<open>keypairs\<close>; a handshake belongs to
  its peer and is named by it. An operation takes the device and returns it changed; it is run under the
  locks the code takes, so it is one step. \<open>None\<close> as the result of an operation is a panic or an endless
  loop. The clock, the random bytes, the random numbers and the packets handed to the network and to the
  TUN device are fields of the device as well: they are what the code reads from and does to its
  surroundings.
\<close>

section \<open>Handshakes, key pairs and the index table\<close>

type_synonym kpid = nat

datatype handshakeState = handshakeZeroed | handshakeInitiationCreated | handshakeInitiationConsumed
  | handshakeResponseCreated | handshakeResponseConsumed

record Handshake =
  hs_state :: handshakeState
  hs_hash :: bytes
  hs_chainKey :: bytes
  presharedKey :: bytes
  localEphemeral :: bytes
  hs_localIndex :: u32
  hs_remoteIndex :: u32
  remoteStatic :: bytes
  remoteEphemeral :: bytes
  precomputedStaticStatic :: bytes
  lastTimestamp :: bytes
  lastInitiationConsumption :: Time
  lastSentHandshake :: Time

definition zero32 :: bytes where "zero32 = replicate 32 0"

definition new_Handshake :: Handshake where
  "new_Handshake = \<lparr>hs_state = handshakeZeroed, hs_hash = zero32, hs_chainKey = zero32, presharedKey = zero32,
     localEphemeral = zero32, hs_localIndex = 0, hs_remoteIndex = 0, remoteStatic = zero32,
     remoteEphemeral = zero32, precomputedStaticStatic = zero32, lastTimestamp = replicate 12 0,
     lastInitiationConsumption = 0, lastSentHandshake = 0\<rparr>"

definition Handshake_Clear :: "Handshake \<Rightarrow> Handshake" where
  "Handshake_Clear h = h\<lparr>localEphemeral := setZero (localEphemeral h), remoteEphemeral := setZero (remoteEphemeral h),
     hs_chainKey := setZero (hs_chainKey h), hs_hash := setZero (hs_hash h), hs_localIndex := 0,
     hs_state := handshakeZeroed\<rparr>"

text \<open>An AEAD instance is its key.\<close>

record Keypair =
  sendNonce :: u64
  kp_send :: bytes
  kp_receive :: bytes
  replayFilter :: Filter
  isInitiator :: bool
  created :: Time
  kp_localIndex :: u32
  kp_remoteIndex :: u32

definition new_Keypair :: Keypair where
  "new_Keypair = \<lparr>sendNonce = 0, kp_send = zero32, kp_receive = zero32, replayFilter = zero_filter,
     isInitiator = False, created = 0, kp_localIndex = 0, kp_remoteIndex = 0\<rparr>"

record IndexTableEntry =
  ite_peer :: "pid option"
  ite_handshake :: "pid option"
  ite_keypair :: "kpid option"

type_synonym IndexTable = "u32 \<Rightarrow> IndexTableEntry option"

definition IndexTable_Delete :: "u32 \<Rightarrow> IndexTable \<Rightarrow> IndexTable" where
  "IndexTable_Delete index t = t(index := None)"

definition SwapIndexForKeypair :: "u32 \<Rightarrow> kpid \<Rightarrow> IndexTable \<Rightarrow> IndexTable" where
  "SwapIndexForKeypair index kp t =
     (case t index of
        None \<Rightarrow> t
      | Some entry \<Rightarrow> t(index \<mapsto> \<lparr>ite_peer = ite_peer entry, ite_handshake = None, ite_keypair = Some kp\<rparr>))"

definition randUint32 :: "rng \<Rightarrow> u32 \<times> rng" where
  "randUint32 r = (let (b, r) = rand_read 4 r in (get_u32_le b, r))"

text \<open>The loop of \<open>NewIndexForHandshake\<close> draws until it meets a free index; \<open>None\<close> is a loop that never
  does. The table is locked from the second test on, and no other step runs in between.\<close>

partial_function (option) draw_index :: "IndexTable \<Rightarrow> rng \<Rightarrow> (u32 \<times> rng) option" where
  [code]: "draw_index t r =
     (let (index, r') = randUint32 r in if t index \<noteq> None then draw_index t r' else Some (index, r'))"

definition NewIndexForHandshake :: "pid \<Rightarrow> IndexTable \<Rightarrow> rng \<Rightarrow> (u32 \<times> IndexTable \<times> rng) option" where
  "NewIndexForHandshake p t r =
     do { (index, r) \<leftarrow> draw_index t r;
          Some (index, t(index \<mapsto> \<lparr>ite_peer = Some p, ite_handshake = Some p, ite_keypair = None\<rparr>), r) }"

definition no_entry :: IndexTableEntry where
  "no_entry = \<lparr>ite_peer = None, ite_handshake = None, ite_keypair = None\<rparr>"

definition IndexTable_Lookup :: "IndexTable \<Rightarrow> u32 \<Rightarrow> IndexTableEntry" where
  "IndexTable_Lookup t index = (case t index of Some e \<Rightarrow> e | None \<Rightarrow> no_entry)"

section \<open>Peers\<close>

record Timer =
  tm_pending :: bool
  tm_deadline :: "Time option"

datatype timer_name = retransmitHandshake | sendKeepalive | newHandshake | zeroKeyMaterial | persistentKeepalive

record Endpoint =
  ep_addr :: bytes
  ep_port :: u16
  ep_src :: bytes

record QueueOutboundElement =
  oe_packet :: bytes
  oe_nonce :: u64
  oe_keypair :: "kpid option"

record QueueInboundElement =
  ie_packet :: "bytes option"
  ie_counter :: u64
  ie_keypair :: kpid
  ie_endpoint :: Endpoint

record Peer =
  isRunning :: bool
  kp_current :: "kpid option"
  kp_previous :: "kpid option"
  kp_next :: "kpid option"
  handshake :: Handshake
  txBytes :: u64
  rxBytes :: u64
  lastHandshakeNano :: int
  ep_val :: "Endpoint option"
  clearSrcOnTx :: bool
  disableRoaming :: bool
  timers :: "timer_name \<Rightarrow> Timer"
  handshakeAttempts :: u32
  needAnotherKeepalive :: bool
  sentLastMinuteHandshake :: bool
  q_staged :: "QueueOutboundElement list list"
  q_outbound :: "QueueOutboundElement list list"
  q_inbound :: "QueueInboundElement list list"
  cookieGenerator :: CookieGenerator
  persistentKeepaliveInterval :: u32

definition new_Timer :: Timer where "new_Timer = \<lparr>tm_pending = False, tm_deadline = None\<rparr>"

definition new_Peer :: Peer where
  "new_Peer = \<lparr>isRunning = False, kp_current = None, kp_previous = None, kp_next = None, handshake = new_Handshake,
     txBytes = 0, rxBytes = 0, lastHandshakeNano = 0, ep_val = None, clearSrcOnTx = False, disableRoaming = False,
     timers = (\<lambda>_. new_Timer), handshakeAttempts = 0, needAnotherKeepalive = False, sentLastMinuteHandshake = False,
     q_staged = [], q_outbound = [], q_inbound = [], cookieGenerator = new_CookieGenerator,
     persistentKeepaliveInterval = 0\<rparr>"

section \<open>The device\<close>

datatype deviceState = deviceStateDown | deviceStateUp | deviceStateClosed

record QueueHandshakeElement =
  he_msgType :: u32
  he_packet :: bytes
  he_endpoint :: Endpoint

record Device =
  dev_state :: deviceState
  net_open :: bool
  net_port :: u16
  net_fwmark :: u32
  brokenRoaming :: bool
  privateKey :: bytes
  publicKey :: bytes
  keyMap :: "(bytes \<times> pid) list"
  peers :: "pid \<Rightarrow> Peer"
  peer_count :: nat
  keypairs :: "kpid \<Rightarrow> Keypair"
  keypair_count :: nat
  underLoadUntil :: int
  limiter :: Ratelimiter
  allowedips :: AllowedIPs
  indexTable :: IndexTable
  cookieChecker :: CookieChecker
  q_handshake :: "QueueHandshakeElement list"
  tun_mtu :: int
  dev_closed :: bool
  junk_min :: int
  junk_max :: int
  junk_count :: int
  headers_init :: magicHeader
  headers_cookie :: magicHeader
  headers_response :: magicHeader
  headers_transport :: magicHeader
  paddings_init :: int
  paddings_response :: int
  paddings_cookie :: int
  paddings_transport :: int
  ipackets :: "obfChain option list"
  now :: Time
  rng_state :: rng
  dice :: "nat \<Rightarrow> nat"
  wire :: "(bytes list \<times> Endpoint) list"
  tun_out :: "bytes list"

text \<open>The zero value of the struct, in an environment with an empty clock and no random input.\<close>

definition header_for :: "u32 \<Rightarrow> magicHeader" where
  "header_for t = \<lparr>mh_start = t, mh_end = t\<rparr>"

definition zero_Device :: Device where
  "zero_Device = \<lparr>dev_state = deviceStateDown, net_open = False, net_port = 0, net_fwmark = 0, brokenRoaming = False,
     privateKey = zero32, publicKey = zero32, keyMap = [], peers = (\<lambda>_. new_Peer), peer_count = 0,
     keypairs = (\<lambda>_. new_Keypair), keypair_count = 0, underLoadUntil = 0, limiter = Init,
     allowedips = empty_table, indexTable = Map.empty, cookieChecker = new_CookieChecker, q_handshake = [],
     tun_mtu = 0, dev_closed = False, junk_min = 0, junk_max = 0, junk_count = 0,
     headers_init = header_for 1, headers_cookie = header_for 3, headers_response = header_for 2,
     headers_transport = header_for 4, paddings_init = 0, paddings_response = 0, paddings_cookie = 0,
     paddings_transport = 0, ipackets = [None, None, None, None, None], now = 0, rng_state = (\<lambda>_. 0),
     dice = (\<lambda>_. 0), wire = [], tun_out = []\<rparr>"

definition upd_peer :: "pid \<Rightarrow> (Peer \<Rightarrow> Peer) \<Rightarrow> Device \<Rightarrow> Device" where
  "upd_peer p f d = d\<lparr>peers := (peers d)(p := f (peers d p))\<rparr>"

definition upd_hs :: "pid \<Rightarrow> (Handshake \<Rightarrow> Handshake) \<Rightarrow> Device \<Rightarrow> Device" where
  "upd_hs p f d = upd_peer p (\<lambda>P. P\<lparr>handshake := f (handshake P)\<rparr>) d"

definition upd_keypair :: "kpid \<Rightarrow> (Keypair \<Rightarrow> Keypair) \<Rightarrow> Device \<Rightarrow> Device" where
  "upd_keypair k f d = d\<lparr>keypairs := (keypairs d)(k := f (keypairs d k))\<rparr>"

definition hs_of :: "Device \<Rightarrow> pid \<Rightarrow> Handshake" where
  "hs_of d p = handshake (peers d p)"

text \<open>Reading random bytes, and \<open>rand.Int\<close> below \<open>n\<close>, from the device's surroundings; \<open>time.Since\<close>.\<close>

definition read_rand :: "nat \<Rightarrow> Device \<Rightarrow> bytes \<times> Device" where
  "read_rand n d = (let (b, r) = rand_read n (rng_state d) in (b, d\<lparr>rng_state := r\<rparr>))"

definition rand_below :: "int \<Rightarrow> Device \<Rightarrow> (int \<times> Device) option" where
  "rand_below n d = (if n \<le> 0 then None else Some (int (dice d 0) mod n, d\<lparr>dice := \<lambda>i. dice d (Suc i)\<rparr>))"

definition gen_header :: "magicHeader \<Rightarrow> Device \<Rightarrow> (u32 \<times> Device) option" where
  "gen_header h d =
     do { v \<leftarrow> Generate (\<lambda>n. dice d 0 mod n) h; Some (v, d\<lparr>dice := \<lambda>i. dice d (Suc i)\<rparr>) }"

definition since :: "Device \<Rightarrow> Time \<Rightarrow> Duration" where
  "since d t = time_sub (now d) t"

definition isClosed :: "Device \<Rightarrow> bool" where "isClosed d \<longleftrightarrow> dev_state d = deviceStateClosed"
definition isUp :: "Device \<Rightarrow> bool" where "isUp d \<longleftrightarrow> dev_state d = deviceStateUp"

definition LookupPeer :: "Device \<Rightarrow> bytes \<Rightarrow> pid option" where
  "LookupPeer d pk = map_of (keyMap d) pk"

definition DeleteKeypair :: "kpid option \<Rightarrow> Device \<Rightarrow> Device" where
  "DeleteKeypair key d =
     (case key of
        None \<Rightarrow> d
      | Some k \<Rightarrow> d\<lparr>indexTable := IndexTable_Delete (kp_localIndex (keypairs d k)) (indexTable d)\<rparr>)"

end
