(* ===== verification/Sessions.thy ===== *)
theory Sessions
  imports Noise_Protocol "HOL-Library.Multiset"
begin

text \<open>
  The life of the keys of a peer: the operations of \<open>device/peer.go\<close> that erase them, the step relation of
  everything that touches handshakes and key pairs, and what holds in every state it reaches.
\<close>

section \<open>Erasing keys\<close>

definition RejectAfterMessages :: u64 where "RejectAfterMessages = - (2 ^ 13) - 1"
definition RekeyTimeout :: Duration where "RekeyTimeout = Second * 5"

definition FlushStagedPackets :: "pid \<Rightarrow> Device \<Rightarrow> Device" where
  "FlushStagedPackets p d = upd_peer p (\<lambda>P. P\<lparr>q_staged := []\<rparr>) d"

definition ZeroAndFlushAll :: "pid \<Rightarrow> Device \<Rightarrow> Device" where
  "ZeroAndFlushAll p d =
     (let P = peers d p;
          d = DeleteKeypair (kp_previous P) d;
          d = DeleteKeypair (kp_current P) d;
          d = DeleteKeypair (kp_next P) d;
          d = upd_peer p (\<lambda>P. P\<lparr>kp_previous := None, kp_current := None, kp_next := None\<rparr>) d;
          d = d\<lparr>indexTable := IndexTable_Delete (hs_localIndex (hs_of d p)) (indexTable d)\<rparr>;
          d = upd_hs p Handshake_Clear d
      in FlushStagedPackets p d)"

definition ExpireCurrentKeypairs :: "pid \<Rightarrow> Device \<Rightarrow> Device" where
  "ExpireCurrentKeypairs p d =
     (let d = d\<lparr>indexTable := IndexTable_Delete (hs_localIndex (hs_of d p)) (indexTable d)\<rparr>;
          d = upd_hs p (\<lambda>H. (Handshake_Clear H)\<lparr>lastSentHandshake := now d - (RekeyTimeout + Second)\<rparr>) d;
          d = (case kp_current (peers d p) of None \<Rightarrow> d | Some k \<Rightarrow> upd_keypair k (\<lambda>K. K\<lparr>sendNonce := RejectAfterMessages\<rparr>) d)
      in case kp_next (peers d p) of None \<Rightarrow> d | Some k \<Rightarrow> upd_keypair k (\<lambda>K. K\<lparr>sendNonce := RejectAfterMessages\<rparr>) d)"

section \<open>Steps\<close>

text \<open>One step of the protocol: any operation on any peer and message, in any order, whatever it returns,
  or the passing of time.\<close>

inductive noise_step :: "crypto \<Rightarrow> Device \<Rightarrow> Device \<Rightarrow> bool" for C where
  create_initiation: "CreateMessageInitiation C p d = Some (res, d') \<Longrightarrow> noise_step C d d'"
| consume_initiation: "ConsumeMessageInitiation C m d = (who, d') \<Longrightarrow> noise_step C d d'"
| create_response: "CreateMessageResponse C p d = Some (rsp, d') \<Longrightarrow> noise_step C d d'"
| consume_response: "ConsumeMessageResponse C r d = (who, d') \<Longrightarrow> noise_step C d d'"
| begin_session: "BeginSymmetricSession C p d = (err, d') \<Longrightarrow> noise_step C d d'"
| received: "ReceivedWithKeypair p k d = (b, d') \<Longrightarrow> noise_step C d d'"
| zero: "noise_step C d (ZeroAndFlushAll p d)"
| expire: "noise_step C d (ExpireCurrentKeypairs p d)"
| tick: "now d \<le> t \<Longrightarrow> noise_step C d (d\<lparr>now := t\<rparr>)"

abbreviation noise_steps :: "crypto \<Rightarrow> Device \<Rightarrow> Device \<Rightarrow> bool" where
  "noise_steps C \<equiv> (noise_step C)\<^sup>*\<^sup>*"

section \<open>Handshake replay\<close>

text \<open>What no step changes, and the times and timestamps that only grow.\<close>

definition hs_keeps :: "Handshake \<Rightarrow> Handshake \<Rightarrow> bool" where
  "hs_keeps H H' \<longleftrightarrow> precomputedStaticStatic H' = precomputedStaticStatic H \<and> remoteStatic H' = remoteStatic H \<and>
     presharedKey H' = presharedKey H \<and> lastInitiationConsumption H \<le> lastInitiationConsumption H' \<and>
     (lastTimestamp H' = lastTimestamp H \<or> After (lastTimestamp H') (lastTimestamp H))"

definition keeps :: "Device \<Rightarrow> Device \<Rightarrow> bool" where
  "keeps d d' \<longleftrightarrow> publicKey d' = publicKey d \<and> privateKey d' = privateKey d \<and> keyMap d' = keyMap d \<and> now d \<le> now d' \<and>
     (\<forall>q. isRunning (peers d' q) = isRunning (peers d q) \<and> hs_keeps (hs_of d q) (hs_of d' q))"

lemma hs_keeps_refl [simp]: "hs_keeps H H"
  by (simp add: hs_keeps_def)

lemma hs_keeps_trans: "hs_keeps H H1 \<Longrightarrow> hs_keeps H1 H2 \<Longrightarrow> hs_keeps H H2"
  unfolding hs_keeps_def by (auto dest: After_trans)

lemma keeps_refl [simp]: "keeps d d"
  by (simp add: keeps_def)

lemma keeps_trans: "keeps d d1 \<Longrightarrow> keeps d1 d2 \<Longrightarrow> keeps d d2"
  unfolding keeps_def by (auto intro: hs_keeps_trans order_trans)

lemma keeps_upd_hs: "keeps d d' \<Longrightarrow> (\<And>H. hs_keeps H (f H)) \<Longrightarrow> keeps d (upd_hs p f d')"
  unfolding keeps_def by (auto intro: hs_keeps_trans)

lemma keeps_upd_peer:
  "keeps d d' \<Longrightarrow> (\<And>P. handshake (f P) = handshake P \<and> isRunning (f P) = isRunning P) \<Longrightarrow> keeps d (upd_peer p f d')"
  unfolding keeps_def by (auto simp: upd_peer_def hs_of_def)

lemma keeps_fields:
  "keeps d d' \<Longrightarrow> keeps d (d'\<lparr>indexTable := t\<rparr>)" "keeps d d' \<Longrightarrow> keeps d (d'\<lparr>rng_state := r\<rparr>)"
  "keeps d d' \<Longrightarrow> keeps d (d'\<lparr>dice := c\<rparr>)" "keeps d d' \<Longrightarrow> keeps d (d'\<lparr>keypairs := ks\<rparr>)"
  "keeps d d' \<Longrightarrow> keeps d (d'\<lparr>keypair_count := n\<rparr>)" "keeps d d' \<Longrightarrow> keeps d (DeleteKeypair k d')"
  "keeps d d' \<Longrightarrow> keeps d (upd_keypair j g d')"
  unfolding keeps_def by (auto simp: hs_of_def upd_keypair_def DeleteKeypair_def split: option.splits)

lemmas keeps_intros = keeps_fields keeps_upd_hs keeps_upd_peer

lemma CreateMessageInitiation_keeps:
  assumes "CreateMessageInitiation C p d = Some (res, d')"
  shows "keeps d d'"
proof -
  obtain e r where er: "newPrivateKey (rng_state d) = (e, r)" by (cases "newPrivateKey (rng_state d)")
  obtain v d2 where g: "gen_header (headers_init d) (d\<lparr>rng_state := r\<rparr>) = Some (v, d2)"
    using assms er by (auto simp: CreateMessageInitiation_def Let_def bind_eq_Some_conv)
  have "keeps d d2" unfolding gen_header_frame [OF g] by (intro keeps_intros keeps_refl)
  then show ?thesis
    using assms er g
    by (auto simp: CreateMessageInitiation_def Let_def bind_eq_Some_conv case_prod_beta split: if_splits
        intro!: keeps_intros) (auto simp: hs_keeps_def)
qed

lemma CreateMessageResponse_keeps:
  assumes "CreateMessageResponse C p d = Some (res, d')"
  shows "keeps d d'"
proof (cases "hs_state (hs_of d p) = handshakeInitiationConsumed")
  case False
  with assms show ?thesis by (auto simp: CreateMessageResponse_def Let_def)
next
  case True
  then obtain i t r where n: "NewIndexForHandshake p (IndexTable_Delete (hs_localIndex (hs_of d p)) (indexTable d)) (rng_state d) = Some (i, t, r)"
    using assms by (auto simp: CreateMessageResponse_def Let_def bind_eq_Some_conv)
  let ?d1 = "upd_hs p (\<lambda>H. H\<lparr>hs_localIndex := i\<rparr>) (d\<lparr>indexTable := t, rng_state := r\<rparr>)"
  obtain v d2 where g: "gen_header (headers_response ?d1) ?d1 = Some (v, d2)"
    using assms True n by (auto simp: CreateMessageResponse_def Let_def bind_eq_Some_conv)
  have "keeps d d2" unfolding gen_header_frame [OF g]
    by (intro keeps_intros keeps_refl) (simp add: hs_keeps_def)
  then show ?thesis
    using assms True n g
    by (auto simp: CreateMessageResponse_def Let_def case_prod_beta split: if_splits intro!: keeps_intros)
      (auto simp: hs_keeps_def)
qed

text \<open>An accepted initiation: what it authenticated as, and the state it leaves.\<close>

definition initiation_time :: "crypto \<Rightarrow> MessageInitiation \<Rightarrow> Device \<Rightarrow> pid \<Rightarrow> bytes option" where
  "initiation_time C m d p =
     (case open_initiation C m d of
        None \<Rightarrow> None
      | Some (pk, h, ck) \<Rightarrow>
          if LookupPeer d pk = Some p then
            open_box C (snd (KDF2 C ck (precomputedStaticStatic (hs_of d p)))) ZeroNonce (mi_Timestamp m) h
          else None)"

lemma ConsumeMessageInitiation_cases:
  assumes "ConsumeMessageInitiation C m d = (who, d')"
  shows "who = None \<and> d' = d \<or> (\<exists>p ts h ck. who = Some p \<and> initiation_time C m d p = Some ts \<and>
    isRunning (peers d p) \<and> After ts (lastTimestamp (hs_of d p)) \<and>
    HandshakeInitationRate < since d (lastInitiationConsumption (hs_of d p)) \<and>
    d' = upd_hs p (\<lambda>H. H\<lparr>hs_hash := h, hs_chainKey := ck, hs_remoteIndex := mi_Sender m, remoteEphemeral := mi_Ephemeral m,
      lastTimestamp := (if After ts (lastTimestamp H) then ts else lastTimestamp H),
      lastInitiationConsumption := (if lastInitiationConsumption H < now d then now d else lastInitiationConsumption H),
      hs_state := handshakeInitiationConsumed\<rparr>) d)"
proof (cases "who")
  case None
  then show ?thesis using assms
    by (auto simp: ConsumeMessageInitiation_def Let_def split: if_splits option.splits prod.splits)
next
  case (Some p)
  then obtain pk h ck where o: "open_initiation C m d = Some (pk, h, ck)" "LookupPeer d pk = Some p" "mi_Type m = MessageInitiationType"
    using assms by (auto simp: ConsumeMessageInitiation_def Let_def split: if_splits option.splits prod.splits)
  obtain ck2 key where k: "KDF2 C ck (precomputedStaticStatic (hs_of d p)) = (ck2, key)"
    by (cases "KDF2 C ck (precomputedStaticStatic (hs_of d p))")
  obtain ts where ts: "open_box C key ZeroNonce (mi_Timestamp m) h = Some ts"
    using assms Some o k by (auto simp: ConsumeMessageInitiation_def Let_def split: if_splits option.splits)
  show ?thesis
    using assms Some o k ts
    by (auto simp: ConsumeMessageInitiation_def initiation_time_def Let_def split: if_splits)
qed

lemma hs_keeps_consumed:
  "hs_keeps H (H\<lparr>hs_hash := h, hs_chainKey := ck, hs_remoteIndex := i, remoteEphemeral := e,
      lastTimestamp := (if After ts (lastTimestamp H) then ts else lastTimestamp H),
      lastInitiationConsumption := (if lastInitiationConsumption H < t then t else lastInitiationConsumption H),
      hs_state := s\<rparr>)"
  by (auto simp: hs_keeps_def)

lemma noise_step_keeps: "noise_step C d d' \<Longrightarrow> keeps d d'"
proof (induction rule: noise_step.induct)
  case (create_initiation p d res d')
  then show ?case by (rule CreateMessageInitiation_keeps)
next
  case (consume_initiation m d who d')
  from ConsumeMessageInitiation_cases [OF this] show ?case
    by (auto intro!: keeps_upd_hs hs_keeps_consumed)
next
  case (create_response p d rsp d')
  then show ?case by (rule CreateMessageResponse_keeps)
next
  case (consume_response r d who d')
  then show ?case
    by (auto simp: ConsumeMessageResponse_def Let_def split: if_splits option.splits intro!: keeps_upd_hs)
      (simp add: hs_keeps_def)
next
  case (begin_session p d err d')
  then show ?case
    by (auto simp: BeginSymmetricSession_def rotate_keypairs_def Let_def case_prod_beta split: if_splits intro!: keeps_intros)
      (auto simp: hs_keeps_def)
next
  case (received p k d b d')
  then show ?case
    by (auto simp: ReceivedWithKeypair_def Let_def split: if_splits intro!: keeps_intros)
next
  case (zero d p)
  show ?case unfolding ZeroAndFlushAll_def FlushStagedPackets_def Let_def
    by (intro keeps_intros keeps_refl) (auto simp: hs_keeps_def Handshake_Clear_def)
next
  case (expire d p)
  show ?case unfolding ExpireCurrentKeypairs_def Let_def
    by (auto split: option.splits intro!: keeps_intros simp: hs_keeps_def Handshake_Clear_def)
next
  case (tick d t)
  then show ?case by (simp add: keeps_def)
qed

lemma noise_steps_keep: "noise_steps C d d' \<Longrightarrow> keeps d d'"
  by (induction rule: rtranclp_induct) (auto intro: keeps_trans noise_step_keeps)

text \<open>C8. A handshake initiation is accepted at most once. Once a device accepted it, it rejects the same
  message in every state the protocol reaches from there, without a trace; and no other initiation of that
  peer is accepted within \<open>HandshakeInitationRate\<close> of it.\<close>

theorem initiation_not_replayed:
  assumes acc: "ConsumeMessageInitiation C m d = (Some p, d1)" and steps: "noise_steps C d1 d2"
  shows "ConsumeMessageInitiation C m d2 = (None, d2) \<and>
    (\<forall>m' d3. ConsumeMessageInitiation C m' d2 = (Some p, d3) \<longrightarrow> HandshakeInitationRate < now d2 - now d)"
proof -
  obtain ts h ck where ts: "initiation_time C m d p = Some ts" "After ts (lastTimestamp (hs_of d p))"
    "d1 = upd_hs p (\<lambda>H. H\<lparr>hs_hash := h, hs_chainKey := ck, hs_remoteIndex := mi_Sender m, remoteEphemeral := mi_Ephemeral m,
      lastTimestamp := (if After ts (lastTimestamp H) then ts else lastTimestamp H),
      lastInitiationConsumption := (if lastInitiationConsumption H < now d then now d else lastInitiationConsumption H),
      hs_state := handshakeInitiationConsumed\<rparr>) d"
    using ConsumeMessageInitiation_cases [OF acc] by auto
  have last1: "lastTimestamp (hs_of d1 p) = ts" "now d \<le> lastInitiationConsumption (hs_of d1 p)"
    using ts(2,3) by (auto simp: hs_of_def)
  have k1: "keeps d d1" by (rule noise_step_keeps [OF noise_step.consume_initiation [OF acc]])
  note k2 = noise_steps_keep [OF steps]
  note k = keeps_trans [OF k1 k2]
  have same: "initiation_time C m d2 q = initiation_time C m d q" for q
  proof -
    have "open_initiation C m d2 = open_initiation C m d" using k by (simp add: open_initiation_def keeps_def)
    moreover have "LookupPeer d2 = LookupPeer d" using k by (intro ext) (simp add: LookupPeer_def keeps_def)
    moreover have "precomputedStaticStatic (hs_of d2 q) = precomputedStaticStatic (hs_of d q)"
      using k by (simp add: keeps_def hs_keeps_def)
    ultimately show ?thesis by (simp add: initiation_time_def split: option.split)
  qed
  have last2: "lastTimestamp (hs_of d2 p) = ts \<or> After (lastTimestamp (hs_of d2 p)) ts"
    "lastInitiationConsumption (hs_of d1 p) \<le> lastInitiationConsumption (hs_of d2 p)"
    using k2 last1(1) by (auto simp: keeps_def hs_keeps_def)
  have "ConsumeMessageInitiation C m d2 = (None, d2)"
  proof (cases "fst (ConsumeMessageInitiation C m d2)")
    case None
    then show ?thesis using ConsumeMessageInitiation_cases [of C m d2] by (auto simp: prod_eq_iff)
  next
    case (Some q)
    then obtain ts' where q: "initiation_time C m d2 q = Some ts'" "After ts' (lastTimestamp (hs_of d2 q))"
      using ConsumeMessageInitiation_cases [of C m d2 "Some q"] by (auto simp: prod_eq_iff)
    then have "q = p" using same ts(1) by (auto simp: initiation_time_def split: option.splits if_splits)
    then have "After ts (lastTimestamp (hs_of d2 p))" using q same ts(1) by simp
    then show ?thesis using last2(1) After_irrefl After_asym by blast
  qed
  moreover have "HandshakeInitationRate < now d2 - now d" if "ConsumeMessageInitiation C m' d2 = (Some p, d3)" for m' d3
  proof -
    have "HandshakeInitationRate < since d2 (lastInitiationConsumption (hs_of d2 p))"
      using ConsumeMessageInitiation_cases [OF that] by auto
    moreover have "0 < HandshakeInitationRate" by (simp add: HandshakeInitationRate_def Second_def)
    ultimately have "HandshakeInitationRate < now d2 - lastInitiationConsumption (hs_of d2 p)"
      by (auto simp: since_def time_sub_def HandshakeInitationRate_def Second_def)
    then show ?thesis using last1(2) last2(2) by linarith
  qed
  ultimately show ?thesis by blast
qed

theorem initiation_not_replayed_witness:
  "\<exists>m d1 d2. ConsumeMessageInitiation toy_crypto m (toy_device 2 1 0) = (Some 0, d1) \<and>
     noise_steps toy_crypto d1 d2 \<and> now d1 < now d2 \<and> ConsumeMessageInitiation toy_crypto m d2 = (None, d2)"
proof -
  obtain m A1 who d1 where "CreateMessageInitiation toy_crypto 0 (toy_device 1 2 0) = Some (Inr m, A1)"
    and c: "ConsumeMessageInitiation toy_crypto (m\<lparr>mi_Type := MessageInitiationType\<rparr>) (toy_device 2 1 0) = (who, d1)"
    and w: "who = Some 0"
    by (rule toy_initiation)
  have s: "noise_steps toy_crypto d1 (d1\<lparr>now := now d1 + 7\<rparr>)"
    by (rule r_into_rtranclp, rule noise_step.tick) simp
  from initiation_not_replayed [OF c [unfolded w] s] show ?thesis
    using c w s by (intro exI [of _ "m\<lparr>mi_Type := MessageInitiationType\<rparr>"] exI [of _ d1] exI [of _ "d1\<lparr>now := now d1 + 7\<rparr>"]) simp
qed

section \<open>The index table\<close>

text \<open>The key pairs a peer holds, and the invariant on the table \<open>T\<close>, the local index \<open>L p\<close> of the handshake
  of a peer, whether its handshake is under way (\<open>A p\<close>), the key pairs \<open>H p\<close> it holds, their local indices
  \<open>X\<close> and the number \<open>n\<close> of key pairs made so far: the table has no entry 0; an entry is a peer's handshake
  under its local index or a key pair that a peer holds under the index of that key pair; and every local
  index and every key pair held is in the table.\<close>

definition opt_list :: "'a option \<Rightarrow> 'a list" where
  "opt_list x = (case x of None \<Rightarrow> [] | Some a \<Rightarrow> [a])"

lemma opt_list_simps [simp]: "opt_list None = []" "opt_list (Some a) = [a]"
  by (simp_all add: opt_list_def)

definition held :: "Device \<Rightarrow> pid \<Rightarrow> kpid list" where
  "held d p = opt_list (kp_current (peers d p)) @ opt_list (kp_previous (peers d p)) @ opt_list (kp_next (peers d p))"

definition active :: "handshakeState \<Rightarrow> bool" where
  "active s \<longleftrightarrow> s = handshakeInitiationCreated \<or> s = handshakeResponseCreated \<or> s = handshakeResponseConsumed"

definition hs_entry :: "pid \<Rightarrow> IndexTableEntry" where
  "hs_entry p = \<lparr>ite_peer = Some p, ite_handshake = Some p, ite_keypair = None\<rparr>"

definition kp_entry :: "pid \<Rightarrow> kpid \<Rightarrow> IndexTableEntry" where
  "kp_entry p k = \<lparr>ite_peer = Some p, ite_handshake = None, ite_keypair = Some k\<rparr>"

lemma entry_inject [simp]:
  "hs_entry p = hs_entry q \<longleftrightarrow> p = q" "kp_entry p k = kp_entry q j \<longleftrightarrow> p = q \<and> k = j"
  "hs_entry p \<noteq> kp_entry q j" "kp_entry q j \<noteq> hs_entry p"
  by (auto simp: hs_entry_def kp_entry_def)

definition idx_inv ::
  "IndexTable \<Rightarrow> (pid \<Rightarrow> u32) \<Rightarrow> (pid \<Rightarrow> bool) \<Rightarrow> (pid \<Rightarrow> kpid list) \<Rightarrow> (kpid \<Rightarrow> u32) \<Rightarrow> nat \<Rightarrow> bool" where
  "idx_inv T L A H X n \<longleftrightarrow> T 0 = None \<and>
     (\<forall>i e. T i = Some e \<longrightarrow> (\<exists>p. e = hs_entry p \<and> L p = i \<or> (\<exists>k \<in> set (H p). e = kp_entry p k \<and> X k = i))) \<and>
     (\<forall>p. L p \<noteq> 0 \<longrightarrow> T (L p) = Some (hs_entry p)) \<and> (\<forall>p. A p \<longrightarrow> L p \<noteq> 0) \<and>
     (\<forall>p. distinct (H p)) \<and> (\<forall>p. \<forall>k \<in> set (H p). k < n \<and> T (X k) = Some (kp_entry p k))"

lemma idx_new:
  assumes "idx_inv T L A H X n" "(T(L p := None)) i = None" "i \<noteq> 0" "\<And>q. q \<noteq> p \<Longrightarrow> A' q \<Longrightarrow> A q"
  shows "idx_inv ((T(L p := None))(i \<mapsto> hs_entry p)) (L(p := i)) A' H X n"
proof -
  have i: "T i = None \<or> i = L p" using assms(2) by (auto split: if_splits)
  have nk: "X k \<noteq> i \<and> X k \<noteq> L p" if "k \<in> set (H q)" for k q
  proof -
    have T: "T (X k) = Some (kp_entry q k)" using assms(1) that by (auto simp: idx_inv_def)
    have "T (L p) = None \<or> T (L p) = Some (hs_entry p)"
      using assms(1) by (cases "L p = 0") (auto simp: idx_inv_def)
    with T i show ?thesis by auto
  qed
  have nl: "L q \<noteq> i \<and> L q \<noteq> L p" if "q \<noteq> p" "L q \<noteq> 0" for q
  proof -
    have "T (L q) = Some (hs_entry q)" "L p \<noteq> 0 \<longrightarrow> T (L p) = Some (hs_entry p)"
      using assms(1) that by (auto simp: idx_inv_def)
    with that i assms(3) show ?thesis by (cases "L p = 0") auto
  qed
  show ?thesis
    using assms nk nl unfolding idx_inv_def by (auto split: if_splits) (metis)+
qed

lemma idx_clear:
  assumes "idx_inv T L A H X n"
  shows "idx_inv (T(L p := None)) (L(p := 0)) (A(p := False)) H X n"
proof -
  have nk: "X k \<noteq> L p" if "k \<in> set (H q)" for k q
  proof -
    have T: "T (X k) = Some (kp_entry q k)" using assms(1) that by (auto simp: idx_inv_def)
    have "T (L p) = None \<or> T (L p) = Some (hs_entry p)"
      using assms(1) by (cases "L p = 0") (auto simp: idx_inv_def)
    with T show ?thesis by auto
  qed
  have nl: "L q \<noteq> L p" if "q \<noteq> p" "L q \<noteq> 0" for q
  proof -
    have "T (L q) = Some (hs_entry q)" "L p \<noteq> 0 \<longrightarrow> T (L p) = Some (hs_entry p)"
      using assms(1) that by (auto simp: idx_inv_def)
    with that show ?thesis by (cases "L p = 0") auto
  qed
  show ?thesis
    using assms nk nl unfolding idx_inv_def by (auto split: if_splits) (metis)+
qed

lemma idx_quiet: "idx_inv T L A H X n \<Longrightarrow> (\<And>q. A' q \<Longrightarrow> A q) \<Longrightarrow> idx_inv T L A' H X n"
  unfolding idx_inv_def by blast

lemma idx_session:
  assumes "idx_inv T L A H X n" "L p \<noteq> 0" "set hs = insert n (set (H p))" "distinct hs"
  shows "idx_inv (T(L p \<mapsto> kp_entry p n)) (L(p := 0)) (A(p := False)) (H(p := hs)) (X(n := L p)) (Suc n)"
proof -
  have nk: "k < n \<and> X k \<noteq> L p" if "k \<in> set (H q)" for k q
    using assms(1,2) that by (auto simp: idx_inv_def) (metis entry_inject(3) option.inject)
  have nl: "L q \<noteq> L p" if "q \<noteq> p" "L q \<noteq> 0" for q
    using assms(1,2) that by (auto simp: idx_inv_def) (metis entry_inject(1) option.inject)
  show ?thesis
    using assms nk nl unfolding idx_inv_def by (auto split: if_splits) (metis less_SucI less_irrefl)+
qed

lemma idx_drop:
  assumes "idx_inv T L A H X n" "k \<in> set (H p)" "set hs = set (H p) - {k}" "distinct hs"
  shows "idx_inv (T(X k := None)) L A (H(p := hs)) X n"
proof -
  have k: "T (X k) = Some (kp_entry p k)" using assms(1,2) by (auto simp: idx_inv_def)
  have nk: "X j \<noteq> X k" if "j \<in> set (H q)" "j \<noteq> k" for j q
    using assms(1) that k by (auto simp: idx_inv_def) (metis entry_inject(2) option.inject)
  have nl: "L q \<noteq> X k" if "L q \<noteq> 0" for q
    using assms(1) that k by (auto simp: idx_inv_def)
  have other: "k \<notin> set (H q)" if "q \<noteq> p" for q
    using assms(1) that k by (auto simp: idx_inv_def)
  have "\<exists>q. e = hs_entry q \<and> L q = i \<or> (\<exists>j \<in> set ((H(p := hs)) q). e = kp_entry q j \<and> X j = i)"
    if "(T(X k := None)) i = Some e" for i e
  proof -
    from that have "i \<noteq> X k" "T i = Some e" by (auto split: if_splits)
    then obtain q where "e = hs_entry q \<and> L q = i \<or> (\<exists>j \<in> set (H q). e = kp_entry q j \<and> X j = i)"
      using assms(1) unfolding idx_inv_def by blast
    with \<open>i \<noteq> X k\<close> assms(3) show ?thesis by (intro exI [of _ q]) auto
  qed
  moreover have "j < n \<and> (T(X k := None)) (X j) = Some (kp_entry q j)" if "j \<in> set ((H(p := hs)) q)" for q j
  proof -
    have "j \<in> set (H q)" "j \<noteq> k" using that assms(3) other by (auto split: if_splits)
    then show ?thesis using nk assms(1) by (auto simp: idx_inv_def)
  qed
  ultimately show ?thesis
    using assms(1,4) nl unfolding idx_inv_def by simp
qed

definition index_ok :: "Device \<Rightarrow> bool" where
  "index_ok d \<longleftrightarrow> idx_inv (indexTable d) (\<lambda>p. hs_localIndex (hs_of d p)) (\<lambda>p. active (hs_state (hs_of d p)))
     (held d) (\<lambda>k. kp_localIndex (keypairs d k)) (keypair_count d)"


subsection \<open>Every step keeps the invariant\<close>

lemma CreateMessageInitiation_Inl:
  assumes "CreateMessageInitiation C p d = Some (Inl e, d')"
  shows "\<exists>h ck eph r dc. d' = upd_hs p (\<lambda>H. H\<lparr>hs_hash := h, hs_chainKey := ck, localEphemeral := eph\<rparr>) (d\<lparr>rng_state := r, dice := dc\<rparr>)"
proof -
  obtain eph r where er: "newPrivateKey (rng_state d) = (eph, r)" by (cases "newPrivateKey (rng_state d)")
  obtain v d2 where g: "gen_header (headers_init d) (d\<lparr>rng_state := r\<rparr>) = Some (v, d2)"
    using assms er by (auto simp: CreateMessageInitiation_def Let_def bind_eq_Some_conv)
  show ?thesis
    using assms er g gen_header_frame [OF g]
    by (auto simp: CreateMessageInitiation_def Let_def case_prod_beta bind_eq_Some_conv split: if_splits) blast+
qed

lemma CreateMessageResponse_Inl:
  assumes "CreateMessageResponse C p d = Some (Inl e, d')"
  shows "d' = d \<or> (\<exists>i h ck eph r dc. IndexTable_Delete (hs_localIndex (hs_of d p)) (indexTable d) i = None \<and>
    d' = upd_hs p (\<lambda>H. H\<lparr>hs_localIndex := i, hs_hash := h, hs_chainKey := ck, localEphemeral := eph\<rparr>)
     (d\<lparr>indexTable := (IndexTable_Delete (hs_localIndex (hs_of d p)) (indexTable d))(i \<mapsto> hs_entry p), rng_state := r, dice := dc\<rparr>))"
proof (cases "hs_state (hs_of d p) = handshakeInitiationConsumed")
  case False
  with assms show ?thesis by (auto simp: CreateMessageResponse_def Let_def)
next
  case True
  then obtain i t r where n: "NewIndexForHandshake p (IndexTable_Delete (hs_localIndex (hs_of d p)) (indexTable d)) (rng_state d) = Some (i, t, r)"
    using assms by (auto simp: CreateMessageResponse_def Let_def bind_eq_Some_conv)
  let ?d1 = "upd_hs p (\<lambda>H. H\<lparr>hs_localIndex := i\<rparr>) (d\<lparr>indexTable := t, rng_state := r\<rparr>)"
  obtain v d2 where g: "gen_header (headers_response ?d1) ?d1 = Some (v, d2)"
    using assms True n by (auto simp: CreateMessageResponse_def Let_def bind_eq_Some_conv)
  note fr = NewIndexForHandshake_fresh [OF n]
  have "\<exists>h ck eph r2. d' = upd_hs p (\<lambda>H. H\<lparr>hs_hash := h, hs_chainKey := ck, localEphemeral := eph\<rparr>) (d2\<lparr>rng_state := r2\<rparr>)"
    using assms True n g
    by (auto simp: CreateMessageResponse_def Let_def case_prod_beta split: if_splits)
  then obtain h ck eph r2 where d': "d' = upd_hs p (\<lambda>H. H\<lparr>hs_hash := h, hs_chainKey := ck, localEphemeral := eph\<rparr>) (d2\<lparr>rng_state := r2\<rparr>)"
    by blast
  have "d' = upd_hs p (\<lambda>H. H\<lparr>hs_localIndex := i, hs_hash := h, hs_chainKey := ck, localEphemeral := eph\<rparr>)
     (d\<lparr>indexTable := (IndexTable_Delete (hs_localIndex (hs_of d p)) (indexTable d))(i \<mapsto> hs_entry p), rng_state := r2, dice := \<lambda>j. dice d (Suc j)\<rparr>)"
    unfolding d' gen_header_frame [OF g] fr(2) by (simp add: upd_hs_def upd_peer_def hs_entry_def)
  then show ?thesis using fr(1) by blast
qed

lemma held_upd_hs [simp]: "held (upd_hs p f d) = held d"
  by (simp add: held_def fun_eq_iff)

lemma held_frame [simp]:
  "held (d\<lparr>indexTable := t\<rparr>) = held d" "held (d\<lparr>rng_state := r\<rparr>) = held d" "held (d\<lparr>dice := c\<rparr>) = held d"
  "held (d\<lparr>keypairs := ks\<rparr>) = held d" "held (d\<lparr>keypair_count := n\<rparr>) = held d" "held (d\<lparr>now := u\<rparr>) = held d"
  by (simp_all add: held_def fun_eq_iff)

text \<open>An operation that leaves the table, the indices and the key pairs alone and activates no handshake.\<close>

lemma index_ok_quiet:
  assumes "index_ok d" "indexTable d' = indexTable d" "\<And>q. hs_localIndex (hs_of d' q) = hs_localIndex (hs_of d q)"
    "\<And>q. active (hs_state (hs_of d' q)) \<Longrightarrow> active (hs_state (hs_of d q))" "held d' = held d"
    "\<And>k. kp_localIndex (keypairs d' k) = kp_localIndex (keypairs d k)" "keypair_count d' = keypair_count d"
  shows "index_ok d'"
  using idx_quiet [OF assms(1) [unfolded index_ok_def], of "\<lambda>p. active (hs_state (hs_of d' p))"] assms(2-)
  by (simp add: index_ok_def)

lemma index_ok_new:
  assumes "index_ok d" "IndexTable_Delete (hs_localIndex (hs_of d p)) (indexTable d) i = None" "i \<noteq> 0"
    "indexTable d' = (IndexTable_Delete (hs_localIndex (hs_of d p)) (indexTable d))(i \<mapsto> hs_entry p)"
    "\<And>q. hs_localIndex (hs_of d' q) = (if q = p then i else hs_localIndex (hs_of d q))"
    "\<And>q. q \<noteq> p \<Longrightarrow> hs_state (hs_of d' q) = hs_state (hs_of d q)" "held d' = held d" "keypairs d' = keypairs d"
    "keypair_count d' = keypair_count d"
  shows "index_ok d'"
proof -
  have "(\<lambda>p. hs_localIndex (hs_of d' p)) = (\<lambda>p. hs_localIndex (hs_of d p))(p := i)"
    using assms(5) by (intro ext) simp
  then show ?thesis
    using idx_new [OF assms(1) [unfolded index_ok_def], of p i "\<lambda>p. active (hs_state (hs_of d' p))"] assms
    by (simp add: index_ok_def IndexTable_Delete_def)
qed

lemma index_ok_clear:
  assumes "index_ok d" "indexTable d' = IndexTable_Delete (hs_localIndex (hs_of d p)) (indexTable d)"
    "\<And>q. hs_localIndex (hs_of d' q) = (if q = p then 0 else hs_localIndex (hs_of d q))"
    "\<And>q. hs_state (hs_of d' q) = (if q = p then handshakeZeroed else hs_state (hs_of d q))" "held d' = held d"
    "\<And>k. kp_localIndex (keypairs d' k) = kp_localIndex (keypairs d k)" "keypair_count d' = keypair_count d"
  shows "index_ok d'"
proof -
  have "(\<lambda>q. hs_localIndex (hs_of d' q)) = (\<lambda>q. hs_localIndex (hs_of d q))(p := 0)"
    "(\<lambda>q. active (hs_state (hs_of d' q))) = (\<lambda>q. active (hs_state (hs_of d q)))(p := False)"
    using assms(3,4) by (auto simp: active_def)
  then show ?thesis
    using idx_clear [OF assms(1) [unfolded index_ok_def], of p] assms
    by (simp add: index_ok_def IndexTable_Delete_def)
qed

text \<open>Dropping key pairs of a peer, one \<open>DeleteKeypair\<close> each.\<close>

definition drop_entry :: "(kpid \<Rightarrow> u32) \<Rightarrow> kpid option \<Rightarrow> IndexTable \<Rightarrow> IndexTable" where
  "drop_entry X k T = (case k of None \<Rightarrow> T | Some j \<Rightarrow> T(X j := None))"

lemma idx_drop_opt:
  assumes "idx_inv T L A H X n" "mset (H p) = mset (opt_list k @ hs)"
  shows "idx_inv (drop_entry X k T) L A (H(p := hs)) X n"
proof (cases k)
  case None
  then have "set hs = set (H p)" "distinct hs"
    using assms mset_eq_setD [OF assms(2)] mset_eq_imp_distinct_iff [OF assms(2)] by (auto simp: idx_inv_def)
  then have s: "set ((H(p := hs)) q) = set (H q)" and d: "distinct ((H(p := hs)) q)" for q
    using assms(1) by (auto simp: idx_inv_def)
  have "idx_inv T L A (H(p := hs)) X n"
    using assms(1) d unfolding idx_inv_def s by blast
  with None show ?thesis by (simp add: drop_entry_def)
next
  case (Some j)
  have "distinct (H p)" using assms(1) by (simp add: idx_inv_def)
  then have "distinct (j # hs)" using mset_eq_imp_distinct_iff [OF assms(2)] Some by simp
  moreover have "set (H p) = insert j (set hs)" using mset_eq_setD [OF assms(2)] Some by simp
  ultimately have "j \<in> set (H p)" "set hs = set (H p) - {j}" "distinct hs" by auto
  from idx_drop [OF assms(1) this] Some show ?thesis by (simp only: drop_entry_def option.case)
qed

lemma indexTable_DeleteKeypair:
  "indexTable (DeleteKeypair k d) = drop_entry (\<lambda>j. kp_localIndex (keypairs d j)) k (indexTable d)"
  by (simp add: drop_entry_def)

lemma hs_of_more [simp]:
  "hs_of (DeleteKeypair k d) q = hs_of d q" "hs_of (d\<lparr>keypairs := ks\<rparr>) q = hs_of d q" "hs_of (d\<lparr>keypair_count := n\<rparr>) q = hs_of d q"
  "(\<And>P. handshake (f P) = handshake P) \<Longrightarrow> hs_of (upd_peer p f d) q = hs_of d q"
  by (simp_all add: hs_of_def upd_peer_def)

lemma held_fun: "held d' p = hs \<Longrightarrow> (\<And>q. q \<noteq> p \<Longrightarrow> held d' q = held d q) \<Longrightarrow> held d' = (held d)(p := hs)"
  by (rule ext) simp

lemma ReceivedWithKeypair_index_ok:
  assumes "index_ok d" "ReceivedWithKeypair p k d = (b, d')"
  shows "index_ok d'"
proof (cases "kp_next (peers d p) = Some k")
  case False
  with assms show ?thesis by (simp add: ReceivedWithKeypair_def)
next
  case True
  let ?P = "peers d p" and ?X = "\<lambda>j. kp_localIndex (keypairs d j)"
  let ?hs = "opt_list (kp_next ?P) @ opt_list (kp_current ?P)"
  have d': "d' = upd_peer p (\<lambda>P. P\<lparr>kp_current := kp_next P, kp_next := None\<rparr>)
      (DeleteKeypair (kp_previous ?P) (upd_peer p (\<lambda>P. P\<lparr>kp_previous := kp_current P\<rparr>) d))"
    using assms(2) True by (auto simp: ReceivedWithKeypair_def Let_def)
  have "held d' = (held d)(p := ?hs)"
    by (rule held_fun) (auto simp: d' held_def)
  moreover have "indexTable d' = drop_entry ?X (kp_previous ?P) (indexTable d)"
    by (simp add: d' indexTable_DeleteKeypair del: DeleteKeypair_frame(4))
  moreover have "idx_inv (drop_entry ?X (kp_previous ?P) (indexTable d)) (\<lambda>p. hs_localIndex (hs_of d p))
      (\<lambda>p. active (hs_state (hs_of d p))) ((held d)(p := ?hs)) ?X (keypair_count d)"
    using assms(1) unfolding index_ok_def by (rule idx_drop_opt) (simp add: held_def)
  ultimately show ?thesis by (simp add: index_ok_def d')
qed

lemma rotate_view:
  "indexTable (rotate_keypairs i p k e) =
     (let X = \<lambda>j. kp_localIndex (keypairs e j); P = peers e p in
      if i then
        (if kp_next P \<noteq> None then drop_entry X (kp_previous P) (drop_entry X (kp_current P) (indexTable e))
         else drop_entry X (kp_previous P) (indexTable e))
      else drop_entry X (kp_previous P) (drop_entry X (kp_next P) (indexTable e)))"
  "held (rotate_keypairs i p k e) p =
     (let P = peers e p in
      if i then k # opt_list (if kp_next P \<noteq> None then kp_next P else kp_current P) else opt_list (kp_current P) @ [k])"
  "q \<noteq> p \<Longrightarrow> held (rotate_keypairs i p k e) q = held e q" "hs_of (rotate_keypairs i p k e) q' = hs_of e q'"
  by (simp_all add: rotate_keypairs_def Let_def indexTable_DeleteKeypair held_def del: DeleteKeypair_frame(4))

lemma BeginSymmetricSession_index_ok:
  assumes ok: "index_ok d" and b: "BeginSymmetricSession C p d = (err, d')"
  shows "index_ok d'"
proof (cases "hs_state (hs_of d p) = handshakeResponseConsumed \<or> hs_state (hs_of d p) = handshakeResponseCreated")
  case False
  with assms show ?thesis by (simp add: BeginSymmetricSession_def)
next
  case True
  let ?P = "peers d p" and ?n = "keypair_count d" and ?i = "hs_state (hs_of d p) = handshakeResponseConsumed"
  let ?c = "opt_list (kp_current ?P)" and ?v = "opt_list (kp_previous ?P)" and ?x = "opt_list (kp_next ?P)"
  let ?L = "\<lambda>q. hs_localIndex (hs_of d q)" and ?A = "\<lambda>q. active (hs_state (hs_of d q))"
  let ?X = "\<lambda>j. kp_localIndex (keypairs d j)"
  obtain K where K: "kp_localIndex K = ?L p" and d1: "d' = rotate_keypairs ?i p ?n
      (upd_hs p (\<lambda>H. H\<lparr>hs_chainKey := setZero (hs_chainKey H), hs_hash := setZero (hs_hash H),
                  localEphemeral := setZero (localEphemeral H), hs_state := handshakeZeroed, hs_localIndex := 0\<rparr>)
        (d\<lparr>keypairs := (keypairs d)(?n := K), keypair_count := Suc ?n,
            indexTable := SwapIndexForKeypair (?L p) ?n (indexTable d)\<rparr>))" (is "_ = rotate_keypairs _ _ _ ?d1")
  proof -
    obtain t0 t1 where t: "KDF2 C (hs_chainKey (hs_of d p)) [] = (t0, t1)" by (cases "KDF2 C (hs_chainKey (hs_of d p)) []")
    show ?thesis
      by (rule that [of "\<lparr>sendNonce = 0, kp_send = (if ?i then t0 else t1), kp_receive = (if ?i then t1 else t0),
          replayFilter = Reset zero_filter, isInitiator = ?i, created = now d, kp_localIndex = ?L p,
          kp_remoteIndex = hs_remoteIndex (hs_of d p)\<rparr>"])
        (use b True t in \<open>auto simp: BeginSymmetricSession_def Let_def upd_hs_def upd_peer_def\<close>)
  qed
  have L: "?L p \<noteq> 0" "indexTable d (?L p) = Some (hs_entry p)"
    using ok True by (auto simp: index_ok_def idx_inv_def active_def)
  have T1: "indexTable ?d1 = (indexTable d)(?L p \<mapsto> kp_entry p ?n)"
    using L by (simp add: SwapIndexForKeypair_def hs_entry_def kp_entry_def)
  have kps: "(\<lambda>j. kp_localIndex (keypairs ?d1 j)) = ?X(?n := ?L p)" "keypair_count ?d1 = Suc ?n" "peers ?d1 p = (peers ?d1 p)"
    using K by (auto simp: fun_eq_iff)
  have hsf: "(\<lambda>q. hs_localIndex (hs_of ?d1 q)) = ?L(p := 0)" "(\<lambda>q. active (hs_state (hs_of ?d1 q))) = ?A(p := False)"
    by (auto simp: fun_eq_iff active_def)
  have base: "idx_inv (indexTable ?d1) (?L(p := 0)) (?A(p := False)) ((held d)(p := ?n # held d p)) (?X(?n := ?L p)) (Suc ?n)"
    unfolding T1 using ok L by (intro idx_session) (auto simp: index_ok_def idx_inv_def)
  let ?Xn = "?X(?n := ?L p)" and ?T = "(indexTable d)(?L p \<mapsto> kp_entry p ?n)"
  have goal: "index_ok d'" if "indexTable d' = T" "held d' p = hs"
    "idx_inv T (?L(p := 0)) (?A(p := False)) (((held d)(p := ?n # held d p))(p := hs)) ?Xn (Suc ?n)" for T hs
  proof -
    have "held d' q = held d q" if "q \<noteq> p" for q
      unfolding d1 rotate_view(3) [OF that] by simp
    then have h: "held d' = ((held d)(p := ?n # held d p))(p := hs)"
      using that(2) by (intro ext) simp
    have v: "(\<lambda>q. hs_localIndex (hs_of d' q)) = ?L(p := 0)" "(\<lambda>q. active (hs_state (hs_of d' q))) = ?A(p := False)"
      "(\<lambda>j. kp_localIndex (keypairs d' j)) = ?Xn" "keypair_count d' = Suc ?n"
      unfolding d1 rotate_view(4) rotate_frame using hsf kps by auto
    show ?thesis using that(3) unfolding index_ok_def that(1) h v .
  qed
  have view: "indexTable d' =
     (if ?i then
        (if kp_next ?P \<noteq> None then drop_entry ?Xn (kp_previous ?P) (drop_entry ?Xn (kp_current ?P) ?T)
         else drop_entry ?Xn (kp_previous ?P) ?T)
      else drop_entry ?Xn (kp_previous ?P) (drop_entry ?Xn (kp_next ?P) ?T))"
    "held d' p = (if ?i then ?n # opt_list (if kp_next ?P \<noteq> None then kp_next ?P else kp_current ?P) else ?c @ [?n])"
    unfolding d1 rotate_view Let_def kps(1) T1 by simp_all
  note base = base [unfolded T1]
  show ?thesis
  proof (cases ?i)
    case init: True
    show ?thesis
    proof (cases "kp_next ?P = None")
      case True
      have "idx_inv (drop_entry ?Xn (kp_previous ?P) ?T) (?L(p := 0)) (?A(p := False))
          (((held d)(p := ?n # held d p))(p := ?n # ?c)) ?Xn (Suc ?n)"
        using base by (rule idx_drop_opt) (simp add: held_def True)
      then show ?thesis using view init True by (intro goal [of _ "?n # ?c"]) simp_all
    next
      case False
      have "idx_inv (drop_entry ?Xn (kp_current ?P) ?T) (?L(p := 0)) (?A(p := False))
          (((held d)(p := ?n # held d p))(p := ?n # ?v @ ?x)) ?Xn (Suc ?n)"
        using base by (rule idx_drop_opt) (simp add: held_def)
      then have "idx_inv (drop_entry ?Xn (kp_previous ?P) (drop_entry ?Xn (kp_current ?P) ?T)) (?L(p := 0)) (?A(p := False))
          ((((held d)(p := ?n # held d p))(p := ?n # ?v @ ?x))(p := ?n # ?x)) ?Xn (Suc ?n)"
        by (rule idx_drop_opt) simp
      then show ?thesis using view init False by (intro goal [of _ "?n # ?x"]) simp_all
    qed
  next
    case resp: False
    have "idx_inv (drop_entry ?Xn (kp_next ?P) ?T) (?L(p := 0)) (?A(p := False))
        (((held d)(p := ?n # held d p))(p := ?n # ?c @ ?v)) ?Xn (Suc ?n)"
      using base by (rule idx_drop_opt) (simp add: held_def)
    then have "idx_inv (drop_entry ?Xn (kp_previous ?P) (drop_entry ?Xn (kp_next ?P) ?T)) (?L(p := 0)) (?A(p := False))
        ((((held d)(p := ?n # held d p))(p := ?n # ?c @ ?v))(p := ?c @ [?n])) ?Xn (Suc ?n)"
      by (rule idx_drop_opt) simp
    then show ?thesis using view resp by (intro goal [of _ "?c @ [?n]"]) simp_all
  qed
qed

lemma ZeroAndFlushAll_view:
  "indexTable (ZeroAndFlushAll p d) = (let X = \<lambda>j. kp_localIndex (keypairs d j); P = peers d p in
     (drop_entry X (kp_next P) (drop_entry X (kp_current P) (drop_entry X (kp_previous P) (indexTable d))))
       (hs_localIndex (hs_of d p) := None))"
  "held (ZeroAndFlushAll p d) q = (if q = p then [] else held d q)"
  "hs_of (ZeroAndFlushAll p d) q = (if q = p then Handshake_Clear (hs_of d p) else hs_of d q)"
  "keypairs (ZeroAndFlushAll p d) = keypairs d" "keypair_count (ZeroAndFlushAll p d) = keypair_count d"
  by (auto simp: ZeroAndFlushAll_def FlushStagedPackets_def Let_def IndexTable_Delete_def indexTable_DeleteKeypair held_def
      upd_peer_def upd_hs_def hs_of_def simp del: DeleteKeypair_frame(4))

lemma ZeroAndFlushAll_index_ok:
  assumes "index_ok d"
  shows "index_ok (ZeroAndFlushAll p d)"
proof -
  let ?P = "peers d p" and ?X = "\<lambda>j. kp_localIndex (keypairs d j)" and ?n = "keypair_count d"
  let ?L = "\<lambda>q. hs_localIndex (hs_of d q)" and ?A = "\<lambda>q. active (hs_state (hs_of d q))"
  let ?c = "opt_list (kp_current ?P)" and ?x = "opt_list (kp_next ?P)"
  have "idx_inv (drop_entry ?X (kp_previous ?P) (indexTable d)) ?L ?A ((held d)(p := ?c @ ?x)) ?X ?n"
    using assms unfolding index_ok_def by (rule idx_drop_opt) (simp add: held_def)
  then have "idx_inv (drop_entry ?X (kp_current ?P) (drop_entry ?X (kp_previous ?P) (indexTable d))) ?L ?A
      (((held d)(p := ?c @ ?x))(p := ?x)) ?X ?n"
    by (rule idx_drop_opt) simp
  then have "idx_inv (drop_entry ?X (kp_next ?P) (drop_entry ?X (kp_current ?P) (drop_entry ?X (kp_previous ?P) (indexTable d)))) ?L ?A
      ((((held d)(p := ?c @ ?x))(p := ?x))(p := [])) ?X ?n"
    by (rule idx_drop_opt) simp
  note idx_clear [OF this, of p]
  moreover have "held (ZeroAndFlushAll p d) = (((held d)(p := ?c @ ?x))(p := ?x))(p := [])"
    by (intro ext) (simp add: ZeroAndFlushAll_view)
  moreover have "(\<lambda>q. hs_localIndex (hs_of (ZeroAndFlushAll p d) q)) = ?L(p := 0)"
    "(\<lambda>q. active (hs_state (hs_of (ZeroAndFlushAll p d) q))) = ?A(p := False)"
    by (auto simp: ZeroAndFlushAll_view Handshake_Clear_def active_def)
  ultimately show ?thesis unfolding index_ok_def ZeroAndFlushAll_view(1,4,5) Let_def by simp
qed

lemma Expire_view:
  "indexTable (ExpireCurrentKeypairs p d) = IndexTable_Delete (hs_localIndex (hs_of d p)) (indexTable d)"
  "held (ExpireCurrentKeypairs p d) = held d"
  "hs_localIndex (hs_of (ExpireCurrentKeypairs p d) q) = (if q = p then 0 else hs_localIndex (hs_of d q))"
  "hs_state (hs_of (ExpireCurrentKeypairs p d) q) = (if q = p then handshakeZeroed else hs_state (hs_of d q))"
  "kp_localIndex (keypairs (ExpireCurrentKeypairs p d) k) = kp_localIndex (keypairs d k)"
  "keypair_count (ExpireCurrentKeypairs p d) = keypair_count d"
  by (auto simp: ExpireCurrentKeypairs_def Let_def upd_keypair_def Handshake_Clear_def hs_of_def held_def upd_hs_def upd_peer_def
      fun_eq_iff split: option.splits)

lemma noise_step_index_ok:
  "noise_step C d d' \<Longrightarrow> index_ok d \<Longrightarrow> indexTable d' 0 = None \<Longrightarrow> index_ok d'"
proof (induction rule: noise_step.induct)
  case (create_initiation p d res d')
  show ?case
  proof (cases res)
    case (Inl e)
    with create_initiation CreateMessageInitiation_Inl [of C p d e d'] show ?thesis
      by (auto elim!: index_ok_quiet split: if_splits)
  next
    case (Inr m)
    with create_initiation(1) obtain h ck eph t r dc where m:
      "IndexTable_Delete (hs_localIndex (hs_of d p)) (indexTable d) (mi_Sender m) = None"
      "t = (IndexTable_Delete (hs_localIndex (hs_of d p)) (indexTable d))(mi_Sender m \<mapsto> hs_entry p)"
      "d' = upd_hs p (\<lambda>H. H\<lparr>hs_hash := h, hs_chainKey := ck, localEphemeral := eph,
           hs_localIndex := mi_Sender m, hs_state := handshakeInitiationCreated\<rparr>)
           (d\<lparr>dice := dc, indexTable := t, rng_state := r\<rparr>)"
      using CreateMessageInitiation_Inr [of C p d m d'] unfolding hs_entry_def by blast
    have "mi_Sender m \<noteq> 0" using create_initiation(3) m by (auto split: if_splits)
    from index_ok_new [OF create_initiation(2) m(1) this] show ?thesis using m by auto
  qed
next
  case (consume_initiation m d who d')
  from ConsumeMessageInitiation_cases [OF consume_initiation(1)] consume_initiation(2) show ?case
    by (auto elim!: index_ok_quiet simp: active_def split: if_splits)
next
  case (create_response p d rsp d')
  show ?case
  proof (cases rsp)
    case (Inl e)
    with create_response(1) consider "d' = d" | i h ck eph r dc where
      "IndexTable_Delete (hs_localIndex (hs_of d p)) (indexTable d) i = None"
      "d' = upd_hs p (\<lambda>H. H\<lparr>hs_localIndex := i, hs_hash := h, hs_chainKey := ck, localEphemeral := eph\<rparr>)
     (d\<lparr>indexTable := (IndexTable_Delete (hs_localIndex (hs_of d p)) (indexTable d))(i \<mapsto> hs_entry p), rng_state := r, dice := dc\<rparr>)"
      using CreateMessageResponse_Inl [of C p d e d'] by blast
    then show ?thesis
    proof cases
      case 1
      with create_response show ?thesis by simp
    next
      case (2 i)
      have "i \<noteq> 0" using create_response(3) 2 by (auto split: if_splits)
      from index_ok_new [OF create_response(2) 2(1) this] show ?thesis using 2 by auto
    qed
  next
    case (Inr m)
    with create_response(1) obtain h ck eph t r dc where m:
      "IndexTable_Delete (hs_localIndex (hs_of d p)) (indexTable d) (mr_Sender m) = None"
      "t = (IndexTable_Delete (hs_localIndex (hs_of d p)) (indexTable d))(mr_Sender m \<mapsto> hs_entry p)"
      "d' = upd_hs p (\<lambda>H. H\<lparr>hs_localIndex := mr_Sender m, hs_hash := h, hs_chainKey := ck, localEphemeral := eph,
           hs_state := handshakeResponseCreated\<rparr>)
           (d\<lparr>indexTable := t, rng_state := r, dice := dc\<rparr>)"
      using CreateMessageResponse_Inr [of C p d m d'] unfolding hs_entry_def by blast
    have "mr_Sender m \<noteq> 0" using create_response(3) m by (auto split: if_splits)
    from index_ok_new [OF create_response(2) m(1) this] show ?thesis using m by auto
  qed
next
  case (consume_response r d who d')
  then show ?case
    by (auto simp: ConsumeMessageResponse_def open_response_def Let_def active_def split: if_splits option.splits prod.splits
        elim!: index_ok_quiet)
next
  case (begin_session p d err d')
  then show ?case by (blast intro: BeginSymmetricSession_index_ok)
next
  case (received p k d b d')
  then show ?case by (blast intro: ReceivedWithKeypair_index_ok)
next
  case (zero d p)
  then show ?case by (blast intro: ZeroAndFlushAll_index_ok)
next
  case (expire d p)
  show ?case using expire(1) by (rule index_ok_clear) (simp_all add: Expire_view)
next
  case (tick d t)
  from tick(2) show ?case by (rule index_ok_quiet) simp_all
qed


lemma zero_Device_index_ok: "index_ok zero_Device"
  by (simp add: index_ok_def idx_inv_def zero_Device_def new_Peer_def new_Handshake_def hs_of_def held_def active_def)

end
