(* ===== verification/Timers.thy ===== *)
theory Timers
  imports Sessions
begin

text \<open>
  \<open>device/timers.go\<close>: the timers of a peer and the events that arm and cancel them, and the operations of
  \<open>device/peer.go\<close> on the endpoint of a peer. An armed timer has a deadline; \<open>Reset\<close> and \<open>Stop\<close> of Go's runtime
  timer set and clear it. What happens at a deadline is in \<open>Send\<close>, because the expiration functions send.
\<close>

definition RekeyAfterMessages :: u64 where "RekeyAfterMessages = 2 ^ 60"
definition RekeyAfterTime :: Duration where "RekeyAfterTime = Second * 120"
definition MaxTimerHandshakes :: nat where "MaxTimerHandshakes = 90 div 5"
definition RekeyTimeoutJitterMaxMs :: nat where "RekeyTimeoutJitterMaxMs = 334"
definition RejectAfterTime :: Duration where "RejectAfterTime = Second * 180"
definition KeepaliveTimeout :: Duration where "KeepaliveTimeout = Second * 10"

lemmas time_consts = RekeyAfterTime_def RejectAfterTime_def KeepaliveTimeout_def RekeyTimeout_def Second_def Millisecond_def

section \<open>Timers\<close>

definition Timer_Mod :: "Time \<Rightarrow> Duration \<Rightarrow> Timer \<Rightarrow> Timer" where
  "Timer_Mod t dur tm = tm\<lparr>tm_pending := True, tm_deadline := Some (t + dur)\<rparr>"

definition Timer_Del :: "Timer \<Rightarrow> Timer" where
  "Timer_Del tm = tm\<lparr>tm_pending := False, tm_deadline := None\<rparr>"

text \<open>\<open>DelSync\<close> deletes, waits for a running expiration function, and deletes again.\<close>

definition Timer_DelSync :: "Timer \<Rightarrow> Timer" where
  "Timer_DelSync tm = Timer_Del (Timer_Del tm)"

definition upd_timer :: "pid \<Rightarrow> timer_name \<Rightarrow> (Timer \<Rightarrow> Timer) \<Rightarrow> Device \<Rightarrow> Device" where
  "upd_timer p t f d = upd_peer p (\<lambda>P. P\<lparr>timers := (timers P)(t := f (timers P t))\<rparr>) d"

definition timer_mod :: "pid \<Rightarrow> timer_name \<Rightarrow> Duration \<Rightarrow> Device \<Rightarrow> Device" where
  "timer_mod p t dur d = upd_timer p t (Timer_Mod (now d) dur) d"

definition timer_del :: "pid \<Rightarrow> timer_name \<Rightarrow> Device \<Rightarrow> Device" where
  "timer_del p t d = upd_timer p t Timer_Del d"

definition IsPending :: "pid \<Rightarrow> timer_name \<Rightarrow> Device \<Rightarrow> bool" where
  "IsPending p t d = tm_pending (timers (peers d p) t)"

definition timersActive :: "pid \<Rightarrow> Device \<Rightarrow> bool" where
  "timersActive p d \<longleftrightarrow> isRunning (peers d p) \<and> isUp d"

text \<open>The runtime's \<open>fastrandn\<close>: a number below \<open>n\<close>.\<close>

definition fastrandn :: "nat \<Rightarrow> Device \<Rightarrow> nat \<times> Device" where
  "fastrandn n d = (dice d 0 mod n, d\<lparr>dice := \<lambda>i. dice d (Suc i)\<rparr>)"

definition timersDataSent :: "pid \<Rightarrow> Device \<Rightarrow> Device" where
  "timersDataSent p d =
     (if timersActive p d \<and> \<not> IsPending p newHandshake d then
        let (j, d) = fastrandn RekeyTimeoutJitterMaxMs d
        in timer_mod p newHandshake (KeepaliveTimeout + RekeyTimeout + Millisecond * int j) d
      else d)"

definition timersDataReceived :: "pid \<Rightarrow> Device \<Rightarrow> Device" where
  "timersDataReceived p d =
     (if timersActive p d then
        if \<not> IsPending p sendKeepalive d then timer_mod p sendKeepalive KeepaliveTimeout d
        else upd_peer p (\<lambda>P. P\<lparr>needAnotherKeepalive := True\<rparr>) d
      else d)"

definition timersAnyAuthenticatedPacketSent :: "pid \<Rightarrow> Device \<Rightarrow> Device" where
  "timersAnyAuthenticatedPacketSent p d = (if timersActive p d then timer_del p sendKeepalive d else d)"

definition timersAnyAuthenticatedPacketReceived :: "pid \<Rightarrow> Device \<Rightarrow> Device" where
  "timersAnyAuthenticatedPacketReceived p d = (if timersActive p d then timer_del p newHandshake d else d)"

definition timersHandshakeInitiated :: "pid \<Rightarrow> Device \<Rightarrow> Device" where
  "timersHandshakeInitiated p d =
     (if timersActive p d then
        let (j, d) = fastrandn RekeyTimeoutJitterMaxMs d
        in timer_mod p retransmitHandshake (RekeyTimeout + Millisecond * int j) d
      else d)"

text \<open>\<open>time.Time.UnixNano\<close>.\<close>

definition UnixNano :: "Time \<Rightarrow> int" where
  "UnixNano t = int64 (t - 62135596800 * Second)"

definition timersHandshakeComplete :: "pid \<Rightarrow> Device \<Rightarrow> Device" where
  "timersHandshakeComplete p d =
     (let d = (if timersActive p d then timer_del p retransmitHandshake d else d)
      in upd_peer p (\<lambda>P. P\<lparr>handshakeAttempts := 0, sentLastMinuteHandshake := False, lastHandshakeNano := UnixNano (now d)\<rparr>) d)"

definition timersSessionDerived :: "pid \<Rightarrow> Device \<Rightarrow> Device" where
  "timersSessionDerived p d = (if timersActive p d then timer_mod p zeroKeyMaterial (RejectAfterTime * 3) d else d)"

definition timersAnyAuthenticatedPacketTraversal :: "pid \<Rightarrow> Device \<Rightarrow> Device" where
  "timersAnyAuthenticatedPacketTraversal p d =
     (let keepalive = persistentKeepaliveInterval (peers d p)
      in if 0 < keepalive \<and> timersActive p d then timer_mod p persistentKeepalive (int (unat keepalive) * Second) d else d)"

definition timersInit :: "pid \<Rightarrow> Device \<Rightarrow> Device" where
  "timersInit p d = upd_peer p (\<lambda>P. P\<lparr>timers := (\<lambda>_. new_Timer)\<rparr>) d"

definition timersStart :: "pid \<Rightarrow> Device \<Rightarrow> Device" where
  "timersStart p d = upd_peer p (\<lambda>P. P\<lparr>handshakeAttempts := 0, sentLastMinuteHandshake := False, needAnotherKeepalive := False\<rparr>) d"

definition timersStop :: "pid \<Rightarrow> Device \<Rightarrow> Device" where
  "timersStop p d =
     upd_timer p persistentKeepalive Timer_DelSync (upd_timer p zeroKeyMaterial Timer_DelSync
       (upd_timer p newHandshake Timer_DelSync (upd_timer p sendKeepalive Timer_DelSync
         (upd_timer p retransmitHandshake Timer_DelSync d))))"

section \<open>The endpoint of a peer\<close>

definition SetEndpointFromPacket :: "pid \<Rightarrow> Endpoint \<Rightarrow> Device \<Rightarrow> Device" where
  "SetEndpointFromPacket p ep d =
     (if disableRoaming (peers d p) then d
      else upd_peer p (\<lambda>P. P\<lparr>clearSrcOnTx := False, ep_val := Some ep\<rparr>) d)"

definition markEndpointSrcForClearing :: "pid \<Rightarrow> Device \<Rightarrow> Device" where
  "markEndpointSrcForClearing p d =
     (if ep_val (peers d p) = None then d else upd_peer p (\<lambda>P. P\<lparr>clearSrcOnTx := True\<rparr>) d)"

definition DisableSomeRoamingForBrokenMobileSemantics :: "Device \<Rightarrow> Device" where
  "DisableSomeRoamingForBrokenMobileSemantics d =
     foldl (\<lambda>d (key, p). upd_peer p (\<lambda>P. P\<lparr>disableRoaming := (ep_val P \<noteq> None)\<rparr>) d) (d\<lparr>brokenRoaming := True\<rparr>) (keyMap d)"

text \<open>\<open>conn.Bind\<close> is an interface; what its operations answer is the record \<open>Net\<close>: whether \<open>Send\<close> and \<open>Close\<close>
  succeed, the port that \<open>Open\<close> got, whether the mark was set, whether the route listener started, and the
  size of a batch; what \<open>ParseEndpoint\<close> makes of a string and how an endpoint prints.\<close>

record Net =
  net_send :: "bytes list \<Rightarrow> Endpoint \<Rightarrow> bool"
  net_open_port :: "u16 \<Rightarrow> u16 option"
  net_close :: bool
  net_setmark :: "u32 \<Rightarrow> bool"
  net_listener :: bool
  net_batch :: nat
  net_parse :: "string \<Rightarrow> Endpoint option"
  net_print :: "Endpoint \<Rightarrow> string"

definition SendBuffers :: "Net \<Rightarrow> pid \<Rightarrow> bytes list \<Rightarrow> Device \<Rightarrow> bool \<times> Device" where
  "SendBuffers N p buffers d =
     (if isClosed d then (True, d)
      else case ep_val (peers d p) of
        None \<Rightarrow> (False, d)
      | Some endpoint \<Rightarrow>
          let endpoint = (if clearSrcOnTx (peers d p) then endpoint\<lparr>ep_src := []\<rparr> else endpoint);
              d = upd_peer p (\<lambda>P. P\<lparr>ep_val := Some endpoint, clearSrcOnTx := False\<rparr>) d;
              d = d\<lparr>wire := wire d @ [(buffers, endpoint)]\<rparr>
          in if net_send N buffers endpoint then
               (True, upd_peer p (\<lambda>P. P\<lparr>txBytes := txBytes P + sum_list (map (\<lambda>b. word_of_nat (length b)) buffers)\<rparr>) d)
             else (False, d))"

section \<open>Lemmas\<close>

lemma timers_upd_timer [simp]:
  "timers (peers (upd_timer p t f d) q) s = (if q = p \<and> s = t then f (timers (peers d p) t) else timers (peers d q) s)"
  by (simp add: upd_timer_def upd_peer_def)

text \<open>Stopping the timers leaves none of the peer's armed.\<close>

lemma timersStop_none: "tm_pending (timers (peers (timersStop p d) p) t) = False" "tm_deadline (timers (peers (timersStop p d) p) t) = None"
  by (cases t; simp add: timersStop_def Timer_DelSync_def Timer_Del_def)+

end
