(* ===== verification/Send.thy ===== *)
theory Send
  imports Timers
begin

text \<open>
  \<open>device/send.go\<close>: what a peer sends. Handshake messages with the junk and signature packets before them
  and the random padding in front of them; the staging of packets, the assignment of nonces and the framing
  of transport messages; and the expiration functions of \<open>device/timers.go\<close>, which send. A packet is its
  bytes; the buffers and pools behind the slices are not modelled. \<open>None\<close> is a panic (a negative size given
  to \<open>make\<close>, a random number below a non-positive bound) or a loop that does not end.
\<close>

definition QueueStagedSize :: nat where "QueueStagedSize = 128"
definition QueueHandshakeSize :: nat where "QueueHandshakeSize = 1024"
definition MaxMessageSize :: nat where "MaxMessageSize = 2 ^ 16 - 1"
definition PaddingMultiple :: int where "PaddingMultiple = 16"

section \<open>Handshake messages\<close>

text \<open>\<open>make([]byte, n)\<close>.\<close>

definition make_bytes :: "int \<Rightarrow> bytes option" where
  "make_bytes n = (if n < 0 then None else Some (replicate (nat n) 0))"

text \<open>The signature packets of the configured chains, in order.\<close>

fun signature_packets :: "obfChain option list \<Rightarrow> Device \<Rightarrow> (bytes list \<times> Device) option" where
  "signature_packets [] d = Some ([], d)"
| "signature_packets (None # cs) d = signature_packets cs d"
| "signature_packets (Some c # cs) d =
     do { buf \<leftarrow> make_bytes (chainObfuscatedLen c 0);
          (buf, r) \<leftarrow> chainObfuscate (Unix (now d)) c buf [] (rng_state d);
          (bufs, d) \<leftarrow> signature_packets cs (d\<lparr>rng_state := r\<rparr>);
          Some (buf # bufs, d) }"

text \<open>\<open>n\<close> junk packets of random lengths between \<open>junk_min\<close> and \<open>junk_max\<close>.\<close>

fun junk_packets :: "nat \<Rightarrow> Device \<Rightarrow> (bytes list \<times> Device) option" where
  "junk_packets 0 d = Some ([], d)"
| "junk_packets (Suc n) d =
     do { (big, d) \<leftarrow> rand_below (junk_max d - junk_min d + 1) d;
          buf \<leftarrow> make_bytes (big + junk_min d);
          let (buf, d) = read_rand (length buf) d;
          (bufs, d) \<leftarrow> junk_packets n d;
          Some (buf # bufs, d) }"

text \<open>A handshake message behind \<open>padding\<close> random bytes.\<close>

definition pad_front :: "int \<Rightarrow> bytes \<Rightarrow> Device \<Rightarrow> bytes \<times> Device" where
  "pad_front padding packet d =
     (if padding > 0 then (let (rnd, d) = read_rand (nat padding) d in (rnd @ packet, d)) else (packet, d))"

definition add_macs :: "crypto \<Rightarrow> pid \<Rightarrow> bytes \<Rightarrow> Device \<Rightarrow> bytes \<times> Device" where
  "add_macs C p packet d =
     (let (packet, g) = AddMacs C (now d) packet (cookieGenerator (peers d p))
      in (packet, upd_peer p (\<lambda>P. P\<lparr>cookieGenerator := g\<rparr>) d))"

definition SendHandshakeInitiation :: "crypto \<Rightarrow> Net \<Rightarrow> pid \<Rightarrow> bool \<Rightarrow> Device \<Rightarrow> (bool \<times> Device) option" where
  "SendHandshakeInitiation C N p isRetry d =
     (let d = (if \<not> isRetry then upd_peer p (\<lambda>P. P\<lparr>handshakeAttempts := 0\<rparr>) d else d) in
      if since d (lastSentHandshake (hs_of d p)) < RekeyTimeout then Some (True, d)
      else do {
        let d = upd_hs p (\<lambda>H. H\<lparr>lastSentHandshake := now d\<rparr>) d;
        (created, d) \<leftarrow> CreateMessageInitiation C p d;
        case created of
          Inl _ \<Rightarrow> Some (False, d)
        | Inr msg \<Rightarrow> do {
            (signatures, d) \<leftarrow> signature_packets (ipackets d) d;
            (junk, d) \<leftarrow> junk_packets (nat (junk_count d)) d;
            let (packet, d) = add_macs C p (marshal_initiation msg) d;
            let d = timersAnyAuthenticatedPacketTraversal p d;
            let d = timersAnyAuthenticatedPacketSent p d;
            let (packet, d) = pad_front (paddings_init d) packet d;
            let (ok, d) = SendBuffers N p (signatures @ junk @ [packet]) d;
            Some (ok, timersHandshakeInitiated p d)
          }
      })"

definition SendHandshakeResponse :: "crypto \<Rightarrow> Net \<Rightarrow> pid \<Rightarrow> Device \<Rightarrow> (bool \<times> Device) option" where
  "SendHandshakeResponse C N p d =
     (do {
        let d = upd_hs p (\<lambda>H. H\<lparr>lastSentHandshake := now d\<rparr>) d;
        (created, d) \<leftarrow> CreateMessageResponse C p d;
        case created of
          Inl _ \<Rightarrow> Some (False, d)
        | Inr response \<Rightarrow>
            (let (packet, d) = add_macs C p (marshal_response response) d;
                 (err, d) = BeginSymmetricSession C p d
             in if err \<noteq> None then Some (False, d)
                else
                  let d = timersSessionDerived p d;
                      d = timersAnyAuthenticatedPacketTraversal p d;
                      d = timersAnyAuthenticatedPacketSent p d;
                      (packet, d) = pad_front (paddings_response d) packet d
                  in Some (SendBuffers N p [packet] d))
      })"

text \<open>The sender index of the refused message names the cookie reply; an endpoint's \<open>DstToBytes\<close> are the
  bytes of its address and port.\<close>

definition DstToBytes :: "Endpoint \<Rightarrow> bytes" where
  "DstToBytes ep = ep_addr ep @ put_u16_be (word_of_nat (unat (ep_port ep) mod 256 * 256 + unat (ep_port ep) div 256))"

definition SendHandshakeCookie :: "crypto \<Rightarrow> QueueHandshakeElement \<Rightarrow> Device \<Rightarrow> Device option" where
  "SendHandshakeCookie C elem d =
     do {
       let sender = get_u32_le (go_slice 4 8 (he_packet elem));
       (msgType, d) \<leftarrow> gen_header (headers_cookie d) d;
       let (reply, ck, r) = CreateReply C (now d) (he_packet elem) sender (DstToBytes (he_endpoint elem)) msgType
             (rng_state d) (cookieChecker d);
       let d = d\<lparr>cookieChecker := ck, rng_state := r\<rparr>;
       let (packet, d) = pad_front (paddings_cookie d) (marshal_cookie_reply reply) d;
       Some (d\<lparr>wire := wire d @ [([packet], he_endpoint elem)]\<rparr>)
     }"

definition keepKeyFreshSending :: "crypto \<Rightarrow> Net \<Rightarrow> pid \<Rightarrow> Device \<Rightarrow> Device option" where
  "keepKeyFreshSending C N p d =
     (case kp_current (peers d p) of
        None \<Rightarrow> Some d
      | Some k \<Rightarrow>
          let kp = keypairs d k in
          if RekeyAfterMessages < sendNonce kp \<or> isInitiator kp \<and> RekeyAfterTime < since d (created kp) then
            map_option snd (SendHandshakeInitiation C N p False d)
          else Some d)"

section \<open>Staging and nonces\<close>

text \<open>Staging a container: when the queue is full the oldest container is dropped and the send tried again.\<close>

function stage_loop :: "'a list \<Rightarrow> 'a list list \<Rightarrow> 'a list list" where
  "stage_loop elems q = (if length q < QueueStagedSize then q @ [elems] else stage_loop elems (tl q))"
  by pat_completeness auto
termination by (relation "measure (\<lambda>(e, q). length q)") (auto simp: QueueStagedSize_def)

declare stage_loop.simps [simp del]

definition StagePackets :: "pid \<Rightarrow> QueueOutboundElement list \<Rightarrow> Device \<Rightarrow> Device" where
  "StagePackets p elems d = upd_peer p (\<lambda>P. P\<lparr>q_staged := stage_loop elems (q_staged P)\<rparr>) d"

text \<open>One container: each element takes the next nonce of the key pair \<open>k\<close>; those past the limit are put
  aside, and the counter is set back to the limit. The result: kept, put aside, the counter.\<close>

fun assign_nonces :: "kpid \<Rightarrow> u64 \<Rightarrow> QueueOutboundElement list
    \<Rightarrow> QueueOutboundElement list \<times> QueueOutboundElement list \<times> u64" where
  "assign_nonces k n [] = ([], [], n)"
| "assign_nonces k n (e # es) =
     (let e = e\<lparr>oe_nonce := n\<rparr> in
      if RejectAfterMessages \<le> n then
        let (kept, aside, n') = assign_nonces k RejectAfterMessages es in (kept, e # aside, n')
      else
        let (kept, aside, n') = assign_nonces k (n + 1) es in (e\<lparr>oe_keypair := Some k\<rparr> # kept, aside, n'))"

text \<open>The loop over the staged containers. The result: what stays staged, the containers for the outbound
  queue, the counter, and whether the loop went back to the top with something staged and the counter at
  the limit. There the other conditions of the top are as they were before, so this is the only case in
  which going back to the top does not enter the loop again.\<close>

fun send_loop :: "kpid \<Rightarrow> u64 \<Rightarrow> QueueOutboundElement list list
    \<Rightarrow> QueueOutboundElement list list \<times> QueueOutboundElement list list \<times> u64 \<times> bool" where
  "send_loop k n [] = ([], [], n, False)"
| "send_loop k n (c # cs) =
     (let (kept, aside, n') = assign_nonces k n c in
      if aside \<noteq> [] then (stage_loop aside cs, (if kept = [] then [] else [kept]), n', True)
      else if kept = [] then
        (if cs \<noteq> [] \<and> RejectAfterMessages \<le> n' then (cs, [], n', True) else send_loop k n' cs)
      else let (rest, out, n'', exhausted) = send_loop k n' cs in (rest, kept # out, n'', exhausted))"

definition SendStagedPackets :: "crypto \<Rightarrow> Net \<Rightarrow> pid \<Rightarrow> Device \<Rightarrow> Device option" where
  "SendStagedPackets C N p d =
     (if q_staged (peers d p) = [] \<or> \<not> isUp d then Some d
      else case kp_current (peers d p) of
        None \<Rightarrow> map_option snd (SendHandshakeInitiation C N p False d)
      | Some k \<Rightarrow>
          let kp = keypairs d k in
          if RejectAfterMessages \<le> sendNonce kp \<or> RejectAfterTime \<le> since d (created kp) then
            map_option snd (SendHandshakeInitiation C N p False d)
          else
            let (rest, out, n, exhausted) = send_loop k (sendNonce kp) (q_staged (peers d p));
                d = upd_keypair k (\<lambda>K. K\<lparr>sendNonce := n\<rparr>) d;
                d = upd_peer p (\<lambda>P. P\<lparr>q_staged := rest,
                      q_outbound := q_outbound P @ (if isRunning P then out else [])\<rparr>) d
            in if exhausted then map_option snd (SendHandshakeInitiation C N p False d) else Some d)"

definition new_elem :: "bytes \<Rightarrow> QueueOutboundElement" where
  "new_elem packet = \<lparr>oe_packet = packet, oe_nonce = 0, oe_keypair = None\<rparr>"

definition SendKeepalive :: "crypto \<Rightarrow> Net \<Rightarrow> pid \<Rightarrow> Device \<Rightarrow> Device option" where
  "SendKeepalive C N p d =
     (let d = (if q_staged (peers d p) = [] \<and> isRunning (peers d p) then
                 upd_peer p (\<lambda>P. P\<lparr>q_staged := [[new_elem []]]\<rparr>) d
               else d)
      in SendStagedPackets C N p d)"

section \<open>Transport messages\<close>

text \<open>\<open>(n + PaddingMultiple - 1) & ^(PaddingMultiple - 1)\<close> for \<open>n \<ge> 0\<close>.\<close>

definition round_up :: "int \<Rightarrow> int" where
  "round_up n = (n + PaddingMultiple - 1) AND NOT (PaddingMultiple - 1)"

definition calculatePaddingSize :: "int \<Rightarrow> int \<Rightarrow> int" where
  "calculatePaddingSize packetSize mtu =
     (let lastUnit = packetSize in
      if mtu = 0 then round_up lastUnit - lastUnit
      else
        let lastUnit = (if lastUnit > mtu then go_mod lastUnit mtu else lastUnit);
            paddedSize = round_up lastUnit;
            paddedSize = (if paddedSize > mtu then mtu else paddedSize)
        in paddedSize - lastUnit)"

definition transport_header :: "u32 \<Rightarrow> u32 \<Rightarrow> u64 \<Rightarrow> bytes" where
  "transport_header msgType receiver nonce = put_u32_le msgType @ put_u32_le receiver @ put_u64_le nonce"

definition transport_nonce :: "u64 \<Rightarrow> bytes" where
  "transport_nonce n = replicate 4 0 @ put_u64_le n"

text \<open>\<open>RoutineEncryption\<close> of one element. A negative padding or one above \<open>PaddingMultiple\<close> is a panic of the
  slice expression \<open>paddingZeros[:paddingSize]\<close>.\<close>

definition encrypt_element :: "crypto \<Rightarrow> QueueOutboundElement \<Rightarrow> Device \<Rightarrow> (bytes \<times> Device) option" where
  "encrypt_element C elem d =
     do {
       (msgType, d) \<leftarrow> gen_header (headers_transport d) d;
       k \<leftarrow> oe_keypair elem;
       let header = transport_header msgType (kp_remoteIndex (keypairs d k)) (oe_nonce elem);
       let paddingSize = calculatePaddingSize (int (length (oe_packet elem))) (tun_mtu d);
       if paddingSize < 0 \<or> PaddingMultiple < paddingSize then None
       else
         let packet = oe_packet elem @ replicate (nat paddingSize) 0
         in Some (header @ seal C (kp_send (keypairs d k)) (transport_nonce (oe_nonce elem)) packet [], d)
     }"

fun encrypt_container :: "crypto \<Rightarrow> QueueOutboundElement list \<Rightarrow> Device \<Rightarrow> (bytes list \<times> Device) option" where
  "encrypt_container C [] d = Some ([], d)"
| "encrypt_container C (e # es) d =
     do { (b, d) \<leftarrow> encrypt_element C e d; (bs, d) \<leftarrow> encrypt_container C es d; Some (b # bs, d) }"

text \<open>The sender frames what is not a keepalive with random padding; the message must fit its buffer.\<close>

definition frame_packet :: "bytes \<Rightarrow> Device \<Rightarrow> (bool \<times> bytes \<times> Device) option" where
  "frame_packet packet d =
     (if length packet \<noteq> MessageKeepaliveSize then
        let padding = paddings_transport d in
        if padding > 0 then
          if int MaxMessageSize < padding + int (length packet) then None
          else let (rnd, d) = read_rand (nat padding) d in Some (True, rnd @ packet, d)
        else Some (True, packet, d)
      else Some (False, packet, d))"

fun frame_packets :: "bytes list \<Rightarrow> Device \<Rightarrow> (bool \<times> bytes list \<times> Device) option" where
  "frame_packets [] d = Some (False, [], d)"
| "frame_packets (b # bs) d =
     do { (s, b, d) \<leftarrow> frame_packet b d; (s', bs, d) \<leftarrow> frame_packets bs d; Some (s \<or> s', b # bs, d) }"

text \<open>\<open>RoutineSequentialSender\<close> on the encrypted packets of one container.\<close>

definition sequential_send :: "crypto \<Rightarrow> Net \<Rightarrow> pid \<Rightarrow> bytes list \<Rightarrow> Device \<Rightarrow> Device option" where
  "sequential_send C N p packets d =
     (if \<not> isRunning (peers d p) then Some d
      else do {
        (dataSent, bufs, d) \<leftarrow> frame_packets packets d;
        let d = timersAnyAuthenticatedPacketTraversal p d;
        let d = timersAnyAuthenticatedPacketSent p d;
        let (ok, d) = SendBuffers N p bufs d;
        let d = (if dataSent then timersDataSent p d else d);
        if \<not> ok then Some d else keepKeyFreshSending C N p d
      })"

text \<open>The outbound queue of a peer: encryption and transmission of its first container.\<close>

definition transmit_next :: "crypto \<Rightarrow> Net \<Rightarrow> pid \<Rightarrow> Device \<Rightarrow> Device option" where
  "transmit_next C N p d =
     (case q_outbound (peers d p) of
        [] \<Rightarrow> Some d
      | c # cs \<Rightarrow>
          do { (packets, d) \<leftarrow> encrypt_container C c (upd_peer p (\<lambda>P. P\<lparr>q_outbound := cs\<rparr>) d);
               sequential_send C N p packets d })"

section \<open>Expirations\<close>

definition expiredRetransmitHandshake :: "crypto \<Rightarrow> Net \<Rightarrow> pid \<Rightarrow> Device \<Rightarrow> Device option" where
  "expiredRetransmitHandshake C N p d =
     (if MaxTimerHandshakes < unat (handshakeAttempts (peers d p)) then
        let d = (if timersActive p d then timer_del p sendKeepalive d else d);
            d = FlushStagedPackets p d
        in Some (if timersActive p d \<and> \<not> IsPending p zeroKeyMaterial d
                 then timer_mod p zeroKeyMaterial (RejectAfterTime * 3) d else d)
      else
        let d = upd_peer p (\<lambda>P. P\<lparr>handshakeAttempts := handshakeAttempts P + 1\<rparr>) d;
            d = markEndpointSrcForClearing p d
        in map_option snd (SendHandshakeInitiation C N p True d))"

definition expiredSendKeepalive :: "crypto \<Rightarrow> Net \<Rightarrow> pid \<Rightarrow> Device \<Rightarrow> Device option" where
  "expiredSendKeepalive C N p d =
     do { d \<leftarrow> SendKeepalive C N p d;
          Some (if needAnotherKeepalive (peers d p) then
                  let d = upd_peer p (\<lambda>P. P\<lparr>needAnotherKeepalive := False\<rparr>) d
                  in if timersActive p d then timer_mod p sendKeepalive KeepaliveTimeout d else d
                else d) }"

definition expiredNewHandshake :: "crypto \<Rightarrow> Net \<Rightarrow> pid \<Rightarrow> Device \<Rightarrow> Device option" where
  "expiredNewHandshake C N p d =
     map_option snd (SendHandshakeInitiation C N p False (markEndpointSrcForClearing p d))"

definition expiredZeroKeyMaterial :: "pid \<Rightarrow> Device \<Rightarrow> Device" where
  "expiredZeroKeyMaterial p d = ZeroAndFlushAll p d"

definition expiredPersistentKeepalive :: "crypto \<Rightarrow> Net \<Rightarrow> pid \<Rightarrow> Device \<Rightarrow> Device option" where
  "expiredPersistentKeepalive C N p d =
     (if 0 < persistentKeepaliveInterval (peers d p) then SendKeepalive C N p d else Some d)"

text \<open>The timer fires at its deadline: it runs its function unless it was cancelled in between.\<close>

definition fire_timer :: "crypto \<Rightarrow> Net \<Rightarrow> pid \<Rightarrow> timer_name \<Rightarrow> Device \<Rightarrow> Device option" where
  "fire_timer C N p t d =
     (if \<not> IsPending p t d then Some d
      else
        let d = upd_timer p t (\<lambda>tm. tm\<lparr>tm_pending := False, tm_deadline := None\<rparr>) d in
        case t of
          retransmitHandshake \<Rightarrow> expiredRetransmitHandshake C N p d
        | sendKeepalive \<Rightarrow> expiredSendKeepalive C N p d
        | newHandshake \<Rightarrow> expiredNewHandshake C N p d
        | zeroKeyMaterial \<Rightarrow> Some (expiredZeroKeyMaterial p d)
        | persistentKeepalive \<Rightarrow> expiredPersistentKeepalive C N p d)"

end
