(* ===== verification/Receive.thy ===== *)
theory Receive
  imports Send
begin

text \<open>
  \<open>device/receive.go\<close>: what a device does with a datagram. Classification by size and header, the queues,
  the decryption of transport messages, the handshake worker with its cookies and rate limit, and the
  sequential receiver, which filters replays and source addresses and hands packets to the TUN device.
  A container is decrypted before its sequential receiver takes it, because the container is locked until
  then; the model decrypts it at that point. \<open>None\<close> is a panic, as in \<open>Send\<close>.
\<close>

definition MinMessageSize :: nat where "MinMessageSize = MessageKeepaliveSize"
definition UnderLoadAfterTime :: Duration where "UnderLoadAfterTime = Second"

section \<open>Datagrams\<close>

text \<open>One branch of \<open>DeterminePacketTypeAndPadding\<close>. A negative padding that meets the size test is a panic
  of the slice expression \<open>packet[padding:]\<close>.\<close>

definition try_type :: "u32 \<Rightarrow> bytes \<Rightarrow> u32 \<Rightarrow> int \<Rightarrow> magicHeader \<Rightarrow> bool \<Rightarrow> (u32 \<times> int) option \<Rightarrow> (u32 \<times> int) option" where
  "try_type expectedType packet t padding header sizeOk otherwise =
     (if (expectedType = MessageUnknownType \<or> expectedType = t) \<and> sizeOk then
        if padding < 0 then None
        else if Validate header (get_u32_le (drop (nat padding) packet)) then Some (t, padding) else otherwise
      else otherwise)"

definition DeterminePacketTypeAndPadding :: "bytes \<Rightarrow> u32 \<Rightarrow> Device \<Rightarrow> (u32 \<times> int) option" where
  "DeterminePacketTypeAndPadding packet expectedType d =
     (let size = int (length packet) in
      try_type expectedType packet MessageInitiationType (paddings_init d) (headers_init d)
        (size = paddings_init d + int MessageInitiationSize)
      (try_type expectedType packet MessageResponseType (paddings_response d) (headers_response d)
        (size = paddings_response d + int MessageResponseSize)
      (try_type expectedType packet MessageCookieReplyType (paddings_cookie d) (headers_cookie d)
        (size = paddings_cookie d + int MessageCookieReplySize)
      (try_type expectedType packet MessageTransportType (paddings_transport d) (headers_transport d)
        (paddings_transport d + int MessageTransportHeaderSize \<le> size)
      (Some (MessageUnknownType, 0))))))"

text \<open>A datagram becomes an element for a peer, an element of the handshake queue, or nothing.\<close>

datatype dispatch = To_Peer pid QueueInboundElement | To_Handshake QueueHandshakeElement | Dropped

definition dispatch_datagram :: "bytes \<Rightarrow> Endpoint \<Rightarrow> Device \<Rightarrow> dispatch option" where
  "dispatch_datagram packet endpoint d =
     (if length packet < MinMessageSize then Some Dropped
      else do {
        (msgType, padding) \<leftarrow> DeterminePacketTypeAndPadding packet MessageUnknownType d;
        let packet = (if padding > 0 then drop (nat padding) packet else packet);
        if msgType = MessageTransportType then
          if length packet < MessageTransportSize then Some Dropped
          else
            let receiver = get_u32_le (go_slice 4 8 packet);
                value = IndexTable_Lookup (indexTable d) receiver
            in case ite_keypair value of
                 None \<Rightarrow> Some Dropped
               | Some k \<Rightarrow>
                   if created (keypairs d k) + RejectAfterTime < now d then Some Dropped
                   else case ite_peer value of
                     None \<Rightarrow> None
                   | Some p \<Rightarrow> Some (To_Peer p \<lparr>ie_packet = Some packet, ie_counter = 0, ie_keypair = k, ie_endpoint = endpoint\<rparr>)
        else if msgType = MessageInitiationType \<and> length packet = MessageInitiationSize
            \<or> msgType = MessageResponseType \<and> length packet = MessageResponseSize
            \<or> msgType = MessageCookieReplyType \<and> length packet = MessageCookieReplySize then
          Some (To_Handshake \<lparr>he_msgType = msgType, he_packet = packet, he_endpoint = endpoint\<rparr>)
        else Some Dropped
      })"

text \<open>One batch: \<open>elemsByPeer\<close> collects the elements of each peer, in the order of the batch; the handshake
  queue drops what does not fit. The queues are given out at the end of the batch, to running peers.\<close>

type_synonym elems_by_peer = "(pid \<times> QueueInboundElement list) list"

definition collect :: "pid \<Rightarrow> QueueInboundElement \<Rightarrow> elems_by_peer \<Rightarrow> elems_by_peer" where
  "collect p e m = AList.update p ((case map_of m p of None \<Rightarrow> [] | Some es \<Rightarrow> es) @ [e]) m"

fun receive_packets :: "(bytes \<times> Endpoint) list \<Rightarrow> elems_by_peer \<Rightarrow> Device \<Rightarrow> (elems_by_peer \<times> Device) option" where
  "receive_packets [] m d = Some (m, d)"
| "receive_packets ((packet, endpoint) # ps) m d =
     do { what \<leftarrow> dispatch_datagram packet endpoint d;
          case what of
            Dropped \<Rightarrow> receive_packets ps m d
          | To_Peer p e \<Rightarrow> receive_packets ps (collect p e m) d
          | To_Handshake e \<Rightarrow>
              receive_packets ps m
                (if length (q_handshake d) < QueueHandshakeSize then d\<lparr>q_handshake := q_handshake d @ [e]\<rparr> else d) }"

definition enqueue_inbound :: "elems_by_peer \<Rightarrow> Device \<Rightarrow> Device" where
  "enqueue_inbound m d =
     foldl (\<lambda>d (p, es). if isRunning (peers d p) then upd_peer p (\<lambda>P. P\<lparr>q_inbound := q_inbound P @ [es]\<rparr>) d else d) d m"

definition receive_batch :: "(bytes \<times> Endpoint) list \<Rightarrow> Device \<Rightarrow> Device option" where
  "receive_batch batch d =
     do { (m, d) \<leftarrow> receive_packets batch [] d; Some (enqueue_inbound m d) }"

text \<open>What a read from the network returns: datagrams, that the socket is closed, or another error, which may say that it
  is not temporary. The loop over the reads ends with the reads it has not made; its pauses take no time.\<close>

datatype recv_result = Received "(bytes \<times> Endpoint) list" | Recv_Closed | Recv_Failed bool

fun RoutineReceiveIncoming :: "recv_result list \<Rightarrow> nat \<Rightarrow> Device \<Rightarrow> (recv_result list \<times> Device) option" where
  "RoutineReceiveIncoming [] deathSpiral d = Some ([], d)"
| "RoutineReceiveIncoming (r # rs) deathSpiral d =
     (case r of
        Received batch \<Rightarrow> do { d \<leftarrow> receive_batch batch d; RoutineReceiveIncoming rs 0 d }
      | Recv_Closed \<Rightarrow> Some (rs, d)
      | Recv_Failed permanent \<Rightarrow>
          if permanent then Some (rs, d)
          else if deathSpiral < 10 then RoutineReceiveIncoming rs (deathSpiral + 1) d
          else Some (rs, d))"

text \<open>\<open>RoutineDecryption\<close> of one element.\<close>

definition decrypt_element :: "crypto \<Rightarrow> Device \<Rightarrow> QueueInboundElement \<Rightarrow> QueueInboundElement" where
  "decrypt_element C d elem =
     (case ie_packet elem of
        None \<Rightarrow> elem
      | Some packet \<Rightarrow>
          let counter = get_u64_le (go_slice 8 16 packet); content = drop 16 packet in
          elem\<lparr>ie_counter := counter,
            ie_packet := open_box C (kp_receive (keypairs d (ie_keypair elem))) (transport_nonce counter) content []\<rparr>)"

section \<open>The handshake worker\<close>

definition IsUnderLoad :: "Device \<Rightarrow> bool \<times> Device" where
  "IsUnderLoad d =
     (if QueueHandshakeSize div 8 \<le> length (q_handshake d) then
        (True, d\<lparr>underLoadUntil := UnixNano (now d + UnderLoadAfterTime)\<rparr>)
      else (UnixNano (now d) < underLoadUntil d, d))"

definition handle_cookie_reply :: "crypto \<Rightarrow> QueueHandshakeElement \<Rightarrow> Device \<Rightarrow> Device" where
  "handle_cookie_reply C elem d =
     (if length (he_packet elem) < MessageCookieReplySize then d
      else
        let reply = unmarshal_cookie_reply (he_packet elem) in
        case ite_peer (IndexTable_Lookup (indexTable d) (cr_Receiver reply)) of
          None \<Rightarrow> d
        | Some p \<Rightarrow>
            if isRunning (peers d p) then
              upd_peer p (\<lambda>P. P\<lparr>cookieGenerator := snd (ConsumeReply C (now d) reply (cookieGenerator P))\<rparr>) d
            else d)"

text \<open>The checks before a handshake message is looked into: whether it goes on, and the device.\<close>

definition admit_handshake :: "crypto \<Rightarrow> QueueHandshakeElement \<Rightarrow> Device \<Rightarrow> (bool \<times> Device) option" where
  "admit_handshake C elem d =
     (if \<not> CheckMAC1 C (cookieChecker d) (he_packet elem) then Some (False, d)
      else
        let (load, d) = IsUnderLoad d in
        if load then
          if \<not> CheckMAC2 C (now d) (cookieChecker d) (he_packet elem) (DstToBytes (he_endpoint elem)) then
            do { d \<leftarrow> SendHandshakeCookie C elem d; Some (False, d) }
          else
            let (ok, l) = Allow (ep_addr (he_endpoint elem)) (now d) (limiter d)
            in Some (ok, d\<lparr>limiter := l\<rparr>)
        else Some (True, d))"

definition add_rx :: "pid \<Rightarrow> nat \<Rightarrow> Device \<Rightarrow> Device" where
  "add_rx p n d = upd_peer p (\<lambda>P. P\<lparr>rxBytes := rxBytes P + word_of_nat n\<rparr>) d"

definition handle_initiation :: "crypto \<Rightarrow> Net \<Rightarrow> QueueHandshakeElement \<Rightarrow> Device \<Rightarrow> Device option" where
  "handle_initiation C N elem d =
     (if length (he_packet elem) < MessageInitiationSize then Some d
      else
        let msg = (unmarshal_initiation (he_packet elem))\<lparr>mi_Type := he_msgType elem\<rparr>;
            (who, d) = ConsumeMessageInitiation C msg d
        in case who of
             None \<Rightarrow> Some d
           | Some p \<Rightarrow>
               let d = timersAnyAuthenticatedPacketTraversal p d;
                   d = timersAnyAuthenticatedPacketReceived p d;
                   d = SetEndpointFromPacket p (he_endpoint elem) d;
                   d = add_rx p (length (he_packet elem)) d
               in map_option snd (SendHandshakeResponse C N p d))"

definition handle_response :: "crypto \<Rightarrow> Net \<Rightarrow> QueueHandshakeElement \<Rightarrow> Device \<Rightarrow> Device option" where
  "handle_response C N elem d =
     (if length (he_packet elem) < MessageResponseSize then Some d
      else
        let msg = (unmarshal_response (he_packet elem))\<lparr>mr_Type := he_msgType elem\<rparr>;
            (who, d) = ConsumeMessageResponse C msg d
        in case who of
             None \<Rightarrow> Some d
           | Some p \<Rightarrow>
               let d = SetEndpointFromPacket p (he_endpoint elem) d;
                   d = add_rx p (length (he_packet elem)) d;
                   d = timersAnyAuthenticatedPacketTraversal p d;
                   d = timersAnyAuthenticatedPacketReceived p d;
                   (err, d) = BeginSymmetricSession C p d
               in if err \<noteq> None then Some d
                  else
                    let d = timersSessionDerived p d;
                        d = timersHandshakeComplete p d
                    in SendKeepalive C N p d)"

definition handle_handshake :: "crypto \<Rightarrow> Net \<Rightarrow> QueueHandshakeElement \<Rightarrow> Device \<Rightarrow> Device option" where
  "handle_handshake C N elem d =
     (if he_msgType elem = MessageCookieReplyType then Some (handle_cookie_reply C elem d)
      else if he_msgType elem = MessageInitiationType \<or> he_msgType elem = MessageResponseType then
        do { (ok, d) \<leftarrow> admit_handshake C elem d;
             if \<not> ok then Some d
             else if he_msgType elem = MessageInitiationType then handle_initiation C N elem d
             else handle_response C N elem d }
      else Some d)"

definition RoutineHandshake :: "crypto \<Rightarrow> Net \<Rightarrow> Device \<Rightarrow> Device option" where
  "RoutineHandshake C N d =
     (case q_handshake d of [] \<Rightarrow> Some d | elem # rest \<Rightarrow> handle_handshake C N elem (d\<lparr>q_handshake := rest\<rparr>))"

section \<open>The sequential receiver\<close>

definition keepKeyFreshReceiving :: "crypto \<Rightarrow> Net \<Rightarrow> pid \<Rightarrow> Device \<Rightarrow> Device option" where
  "keepKeyFreshReceiving C N p d =
     (if sentLastMinuteHandshake (peers d p) then Some d
      else case kp_current (peers d p) of
        None \<Rightarrow> Some d
      | Some k \<Rightarrow>
          if isInitiator (keypairs d k) \<and> RejectAfterTime - KeepaliveTimeout - RekeyTimeout < since d (created (keypairs d k)) then
            map_option snd (SendHandshakeInitiation C N p False
              (upd_peer p (\<lambda>P. P\<lparr>sentLastMinuteHandshake := True\<rparr>) d))
          else Some d)"

text \<open>A decrypted packet, cut to the length its header states, and its source address, for a packet that
  passes the checks on its lengths. The IPv6 length is added up in 16 bits. The source is a slice of the
  packet's buffer, so the cut does not shorten it.\<close>

definition inbound_ip :: "bytes \<Rightarrow> (bytes \<times> bytes) option" where
  "inbound_ip packet =
     (let version = drop_bit 4 (packet ! 0) in
      if version = 4 then
        if length packet < 20 then None
        else
          let total = get_u16_be (go_slice 2 4 packet) in
          if length packet < unat total \<or> unat total < 20 then None
          else Some (take (unat total) packet, go_slice 12 16 packet)
      else if version = 6 then
        if length packet < 40 then None
        else
          let total = get_u16_be (go_slice 4 6 packet) + 40 in
          if length packet < unat total then None
          else Some (take (unat total) packet, go_slice 8 24 packet)
      else None)"

record Inbound =
  in_tail :: "Endpoint option"
  in_data :: bool
  in_rx :: u64
  in_bufs :: "bytes list"

definition receive_elem ::
  "crypto \<Rightarrow> Net \<Rightarrow> pid \<Rightarrow> QueueInboundElement \<Rightarrow> Inbound \<Rightarrow> Device \<Rightarrow> (Inbound \<times> Device) option" where
  "receive_elem C N p elem I d =
     (case ie_packet elem of
        None \<Rightarrow> Some (I, d)
      | Some packet \<Rightarrow>
          let k = ie_keypair elem;
              (ok, f) = ValidateCounter (replayFilter (keypairs d k)) (ie_counter elem) RejectAfterMessages;
              d = upd_keypair k (\<lambda>K. K\<lparr>replayFilter := f\<rparr>) d
          in if \<not> ok then Some (I, d)
             else do {
               let I = I\<lparr>in_tail := Some (ie_endpoint elem)\<rparr>;
               let (first, d) = ReceivedWithKeypair p k d;
               d \<leftarrow> (if first then
                       SendStagedPackets C N p (timersHandshakeComplete p (SetEndpointFromPacket p (ie_endpoint elem) d))
                     else Some d);
               let I = I\<lparr>in_rx := in_rx I + word_of_nat (length packet + MinMessageSize)\<rparr>;
               if packet = [] then Some (I, d)
               else
                 let I = I\<lparr>in_data := True\<rparr> in
                 case inbound_ip packet of
                   None \<Rightarrow> Some (I, d)
                 | Some (trimmed, src) \<Rightarrow>
                     if Lookup (allowedips d) src \<noteq> Some (Some p) then Some (I, d)
                     else Some (I\<lparr>in_bufs := in_bufs I @ [trimmed]\<rparr>, d)
             })"

fun receive_elems ::
  "crypto \<Rightarrow> Net \<Rightarrow> pid \<Rightarrow> QueueInboundElement list \<Rightarrow> Inbound \<Rightarrow> Device \<Rightarrow> (Inbound \<times> Device) option" where
  "receive_elems C N p [] I d = Some (I, d)"
| "receive_elems C N p (e # es) I d =
     do { (I, d) \<leftarrow> receive_elem C N p e I d; receive_elems C N p es I d }"

definition no_inbound :: Inbound where
  "no_inbound = \<lparr>in_tail = None, in_data = False, in_rx = 0, in_bufs = []\<rparr>"

definition RoutineSequentialReceiver ::
  "crypto \<Rightarrow> Net \<Rightarrow> pid \<Rightarrow> QueueInboundElement list \<Rightarrow> Device \<Rightarrow> Device option" where
  "RoutineSequentialReceiver C N p elems d =
     do {
       (I, d) \<leftarrow> receive_elems C N p elems no_inbound d;
       let d = upd_peer p (\<lambda>P. P\<lparr>rxBytes := rxBytes P + in_rx I\<rparr>) d;
       d \<leftarrow> (case in_tail I of
               None \<Rightarrow> Some d
             | Some ep \<Rightarrow>
                 do { d \<leftarrow> keepKeyFreshReceiving C N p (SetEndpointFromPacket p ep d);
                      Some (timersAnyAuthenticatedPacketReceived p (timersAnyAuthenticatedPacketTraversal p d)) });
       let d = (if in_data I then timersDataReceived p d else d);
       Some (if in_bufs I \<noteq> [] then d\<lparr>tun_out := tun_out d @ in_bufs I\<rparr> else d)
     }"

text \<open>The inbound queue of a peer: decryption and delivery of its first container.\<close>

definition receive_next :: "crypto \<Rightarrow> Net \<Rightarrow> pid \<Rightarrow> Device \<Rightarrow> Device option" where
  "receive_next C N p d =
     (case q_inbound (peers d p) of
        [] \<Rightarrow> Some d
      | es # rest \<Rightarrow>
          let d = upd_peer p (\<lambda>P. P\<lparr>q_inbound := rest\<rparr>) d
          in RoutineSequentialReceiver C N p (map (decrypt_element C d) es) d)"

end
