(* ===== verification/Send_Facts.thy ===== *)
theory Send_Facts
  imports Send
begin

text \<open>
  Lemmas on \<open>Send\<close>: the nonces that a staged queue is given, what the timer events and the handshake messages
  leave alone, and the complete behaviour of \<open>SendHandshakeInitiation\<close>.
\<close>


section \<open>Nonces\<close>

lemma unat_Reject: "unat RejectAfterMessages = 18446744073709543423"
  by (simp add: RejectAfterMessages_def)

lemma unat_next_nonce: "n < RejectAfterMessages \<Longrightarrow> unat (n + 1) = Suc (unat n) \<and> n + 1 \<le> RejectAfterMessages"
proof -
  assume n: "n < RejectAfterMessages"
  then have "unat n < unat RejectAfterMessages" by (simp add: word_less_nat_alt)
  then have "unat (n + 1) = Suc (unat n)"
    by (simp add: unat_Reject unat_word_ariths)
  with n show ?thesis by (simp add: word_less_nat_alt word_le_nat_alt)
qed

text \<open>One container: the first elements, as many as the counter allows, get consecutive nonces.\<close>

lemma assign_nonces_spec:
  assumes "n \<le> RejectAfterMessages" "assign_nonces k n es = (kept, aside, n')"
  shows "unat n' = unat n + length kept \<and> n' \<le> RejectAfterMessages \<and>
    map (\<lambda>e. unat (oe_nonce e)) kept = [unat n ..< unat n'] \<and> (\<forall>e \<in> set kept. oe_keypair e = Some k) \<and>
    map oe_packet kept @ map oe_packet aside = map oe_packet es \<and> (aside \<noteq> [] \<longrightarrow> n' = RejectAfterMessages)"
  using assms
proof (induction k n es arbitrary: kept aside n' rule: assign_nonces.induct)
  case (1 k n)
  then show ?case by simp
next
  case (2 k n e es)
  show ?case
  proof (cases "RejectAfterMessages \<le> n")
    case True
    then have n: "n = RejectAfterMessages" using "2.prems" by simp
    obtain kp as m where r: "assign_nonces k RejectAfterMessages es = (kp, as, m)" by (cases "assign_nonces k RejectAfterMessages es")
    have res: "kept = kp" "aside = e\<lparr>oe_nonce := n\<rparr> # as" "n' = m" using "2.prems" True r by (simp_all add: Let_def)
    note IH = "2.IH"(1) [OF refl True order_refl r]
    have "kp = []" using IH n by (cases kp) (auto simp: word_le_nat_alt)
    with IH res n show ?thesis by (auto simp: word_unat_eq_iff word_le_nat_alt)
  next
    case False
    then have n: "n < RejectAfterMessages" by simp
    obtain kp as m where r: "assign_nonces k (n + 1) es = (kp, as, m)" by (cases "assign_nonces k (n + 1) es")
    have res: "kept = e\<lparr>oe_nonce := n, oe_keypair := Some k\<rparr> # kp" "aside = as" "n' = m" using "2.prems" False r by (simp_all add: Let_def)
    note n1 = unat_next_nonce [OF n]
    note IH = "2.IH"(2) [OF refl False conjunct2 [OF n1] r]
    have "[unat n ..< unat m] = unat n # [Suc (unat n) ..< unat m]"
      using IH n1 by (subst upt_conv_Cons) auto
    with IH res n1 show ?thesis by auto
  qed
qed

lemma stage_loop_room: "length q < QueueStagedSize \<Longrightarrow> stage_loop es q = q @ [es]"
  by (subst stage_loop.simps) simp

lemma stage_loop_drops:
  "length q = QueueStagedSize \<Longrightarrow> stage_loop es q = tl q @ [es]"
  by (subst stage_loop.simps) (simp add: stage_loop_room QueueStagedSize_def)

text \<open>The loop over the queue: what goes out has the nonces from the counter to its new value, and every
  packet either goes out or stays staged.\<close>

lemma send_loop_spec:
  assumes "n \<le> RejectAfterMessages" "length q \<le> QueueStagedSize" "send_loop k n q = (rest, out, n', ex)"
  shows "map (\<lambda>e. unat (oe_nonce e)) (concat out) = [unat n ..< unat n'] \<and> unat n \<le> unat n' \<and> n' \<le> RejectAfterMessages \<and>
    (\<forall>e \<in> set (concat out). oe_keypair e = Some k) \<and> length rest \<le> QueueStagedSize \<and>
    (\<exists>staged. map oe_packet (concat out @ staged) = map oe_packet (concat q) \<and> mset (concat rest) = mset staged) \<and>
    (rest \<noteq> [] \<longrightarrow> n' = RejectAfterMessages) \<and> (ex \<longrightarrow> n' = RejectAfterMessages)"
  using assms
proof (induction k n q arbitrary: rest out n' ex rule: send_loop.induct)
  case (1 k n)
  then show ?case by simp
next
  case (2 k n c cs)
  obtain kept aside m where a: "assign_nonces k n c = (kept, aside, m)" by (cases "assign_nonces k n c")
  note A = assign_nonces_spec [OF "2.prems"(1) a]
  have len: "length cs < QueueStagedSize" using "2.prems"(2) by simp
  show ?case
  proof (cases "aside = []")
    case False
    then have r: "rest = cs @ [aside]" "out = (if kept = [] then [] else [kept])" "n' = m" "ex"
      using "2.prems"(3) a stage_loop_room [OF len, of aside] by (simp_all add: Let_def)
    have "map oe_packet (concat out @ (aside @ concat cs)) = map oe_packet (concat (c # cs))"
      using A r by (auto simp flip: append_assoc)
    with False r A len show ?thesis by (intro conjI exI [of _ "aside @ concat cs"]) auto
  next
    case True
    show ?thesis
    proof (cases "kept = []")
      case True
      with \<open>aside = []\<close> A have c: "c = []" by simp
      with a have m: "m = n" by simp
      show ?thesis
      proof (cases "cs \<noteq> [] \<and> RejectAfterMessages \<le> m")
        case True
        then have "rest = cs" "out = []" "n' = m" "ex"
          using "2.prems"(3) a \<open>aside = []\<close> \<open>kept = []\<close> by (simp_all add: Let_def)
        then show ?thesis using True A c m len by (intro conjI exI [of _ "concat cs"]) auto
      next
        case False
        then have "send_loop k m cs = (rest, out, n', ex)"
          using "2.prems"(3) a \<open>aside = []\<close> \<open>kept = []\<close> by (auto simp: Let_def)
        with \<open>aside = []\<close> \<open>kept = []\<close> A len c m show ?thesis
          using "2.IH"(1) [OF a [symmetric] refl refl _ \<open>kept = []\<close> False] by simp
      qed
    next
      case False
      obtain rs ou k2 e2 where s: "send_loop k m cs = (rs, ou, k2, e2)" by (cases "send_loop k m cs")
      then have r: "rest = rs" "out = kept # ou" "n' = k2" "ex = e2"
        using "2.prems"(3) a \<open>aside = []\<close> False by (simp_all add: Let_def)
      have IH: "map (\<lambda>e. unat (oe_nonce e)) (concat ou) = [unat m ..< unat k2] \<and> unat m \<le> unat k2 \<and> k2 \<le> RejectAfterMessages \<and>
        (\<forall>e \<in> set (concat ou). oe_keypair e = Some k) \<and> length rs \<le> QueueStagedSize \<and>
        (\<exists>staged. map oe_packet (concat ou @ staged) = map oe_packet (concat cs) \<and> mset (concat rs) = mset staged) \<and>
        (rs \<noteq> [] \<longrightarrow> k2 = RejectAfterMessages) \<and> (e2 \<longrightarrow> k2 = RejectAfterMessages)"
        using "2.IH"(2) [OF a [symmetric] refl refl _ False _ _ s] \<open>aside = []\<close> A len by simp
      then obtain staged where staged: "map oe_packet (concat ou @ staged) = map oe_packet (concat cs)" "mset (concat rs) = mset staged" by blast
      have "[unat n ..< unat m] @ [unat m ..< unat k2] = [unat n ..< unat k2]"
        using A IH upt_add_eq_append [of "unat n" "unat m" "unat k2 - unat m"] by simp
      moreover have "map oe_packet (concat out @ staged) = map oe_packet (concat (c # cs))"
        using A \<open>aside = []\<close> staged(1) r by simp
      ultimately have "map (\<lambda>e. unat (oe_nonce e)) (concat out) = [unat n ..< unat n']"
        "map oe_packet (concat out @ staged) = map oe_packet (concat (c # cs))"
        using r A IH by simp_all
      then show ?thesis using r A IH staged(2) by (intro conjI exI [of _ staged]) auto
    qed
  qed
qed

section \<open>What sending a handshake message leaves alone\<close>

text \<open>The part of the device that packets and key pairs live in.\<close>

definition traffic :: "Device \<Rightarrow> (kpid \<Rightarrow> Keypair) \<times> nat \<times> deviceState \<times> AllowedIPs \<times> bytes list \<times>
    (pid \<Rightarrow> kpid option \<times> kpid option \<times> kpid option \<times> QueueOutboundElement list list \<times> QueueOutboundElement list list
      \<times> QueueInboundElement list list \<times> bool)" where
  "traffic d = (keypairs d, keypair_count d, dev_state d, allowedips d, tun_out d, \<lambda>q. let P = peers d q in
     (kp_current P, kp_previous P, kp_next P, q_staged P, q_outbound P, q_inbound P, isRunning P))"

lemma traffic_upd_peer:
  "(\<And>P. kp_current (f P) = kp_current P \<and> kp_previous (f P) = kp_previous P \<and> kp_next (f P) = kp_next P \<and>
     q_staged (f P) = q_staged P \<and> q_outbound (f P) = q_outbound P \<and> q_inbound (f P) = q_inbound P \<and> isRunning (f P) = isRunning P)
   \<Longrightarrow> traffic (upd_peer p f d) = traffic d"
  by (simp add: traffic_def upd_peer_def Let_def fun_eq_iff)

lemma traffic_upd_hs [simp]: "traffic (upd_hs p f d) = traffic d"
  unfolding upd_hs_def by (rule traffic_upd_peer) simp

lemma traffic_fields [simp]:
  "traffic (d\<lparr>rng_state := r\<rparr>) = traffic d" "traffic (d\<lparr>dice := c\<rparr>) = traffic d" "traffic (d\<lparr>wire := w\<rparr>) = traffic d"
  "traffic (d\<lparr>indexTable := t\<rparr>) = traffic d" "traffic (d\<lparr>cookieChecker := ck\<rparr>) = traffic d" "traffic (d\<lparr>limiter := l\<rparr>) = traffic d"
  "traffic (d\<lparr>underLoadUntil := u\<rparr>) = traffic d" "traffic (d\<lparr>now := t'\<rparr>) = traffic d" "traffic (d\<lparr>q_handshake := h\<rparr>) = traffic d"
  by (simp_all add: traffic_def)

lemma traffic_timer [simp]: "traffic (upd_timer p t f d) = traffic d"
  unfolding upd_timer_def by (rule traffic_upd_peer) simp

lemmas timer_ops = timer_mod_def timer_del_def timersDataSent_def timersDataReceived_def timersAnyAuthenticatedPacketSent_def
  timersAnyAuthenticatedPacketReceived_def timersHandshakeInitiated_def timersHandshakeComplete_def timersSessionDerived_def
  timersAnyAuthenticatedPacketTraversal_def fastrandn_def

lemma traffic_timer_events [simp]:
  "traffic (timersDataSent p d) = traffic d" "traffic (timersDataReceived p d) = traffic d"
  "traffic (timersAnyAuthenticatedPacketSent p d) = traffic d" "traffic (timersAnyAuthenticatedPacketReceived p d) = traffic d"
  "traffic (timersHandshakeInitiated p d) = traffic d" "traffic (timersHandshakeComplete p d) = traffic d"
  "traffic (timersSessionDerived p d) = traffic d" "traffic (timersAnyAuthenticatedPacketTraversal p d) = traffic d"
  by (auto simp: timer_ops Let_def intro!: traffic_upd_peer [THEN trans])

lemma SendBuffers_traffic [simp]: "traffic (snd (SendBuffers N p bs d)) = traffic d"
  by (auto simp: SendBuffers_def Let_def split: option.split intro!: traffic_upd_peer [THEN trans])

lemma signature_packets_frame: "signature_packets cs d = Some (bs, d') \<Longrightarrow> \<exists>r. d' = d\<lparr>rng_state := r\<rparr>"
proof (induction cs d arbitrary: bs d' rule: signature_packets.induct)
  case (1 d)
  then show ?case by (auto intro: exI [of _ "rng_state d"])
next
  case (2 cs d)
  then show ?case by simp
next
  case (3 c cs d)
  then obtain buf out r b2 where s: "make_bytes (chainObfuscatedLen c 0) = Some buf"
    "chainObfuscate (Unix (now d)) c buf [] (rng_state d) = Some (out, r)"
    "signature_packets cs (d\<lparr>rng_state := r\<rparr>) = Some (b2, d')"
    by (auto simp: bind_eq_Some_conv)
  then show ?case using "3.IH" by fastforce
qed

lemma junk_packets_frame: "junk_packets n d = Some (bs, d') \<Longrightarrow>
    (\<exists>r c. d' = d\<lparr>rng_state := r, dice := c\<rparr>) \<and> length bs = n \<and>
    (\<forall>b \<in> set bs. junk_min d \<le> int (length b) \<and> int (length b) \<le> junk_max d)"
proof (induction n arbitrary: d bs d')
  case 0
  then have "d' = d\<lparr>rng_state := rng_state d, dice := dice d\<rparr>" "bs = []" by simp_all
  then show ?case by (metis list.size(3) empty_iff list.set(1))
next
  case (Suc n)
  then obtain big d1 buf bs2 where s: "rand_below (junk_max d - junk_min d + 1) d = Some (big, d1)"
    "make_bytes (big + junk_min d1) = Some buf"
    "junk_packets n (snd (read_rand (length buf) d1)) = Some (bs2, d')" "bs = fst (read_rand (length buf) d1) # bs2"
    by (auto simp: bind_eq_Some_conv case_prod_beta Let_def)
  have d1: "d1 = d\<lparr>dice := \<lambda>i. dice d (Suc i)\<rparr>" "0 \<le> big" "big < junk_max d - junk_min d + 1"
    using s(1) pos_mod_bound [of "junk_max d - junk_min d + 1" "int (dice d 0)"]
    by (auto simp: rand_below_def simp del: pos_mod_bound split: if_splits)
  have b: "int (length buf) = big + junk_min d" using s(2) d1 by (auto simp: make_bytes_def split: if_splits)
  obtain d2 where d2: "snd (read_rand (length buf) d1) = d2" "\<exists>r. d2 = d1\<lparr>rng_state := r\<rparr>"
    by (auto simp: read_rand_def rand_read_def)
  have l: "length (fst (read_rand (length buf) d1)) = length buf" by (simp add: read_rand_def rand_read_def)
  have "(\<exists>r c. d' = d2\<lparr>rng_state := r, dice := c\<rparr>) \<and> length bs2 = n \<and>
      (\<forall>b \<in> set bs2. junk_min d2 \<le> int (length b) \<and> int (length b) \<le> junk_max d2)"
    using Suc.IH s(3) d2(1) by simp
  with s(4) l b d1 d2 show ?case by auto blast
qed

lemma pad_front_frame: "\<exists>rnd r. pad_front n packet d = (rnd @ packet, d\<lparr>rng_state := r\<rparr>) \<and> length rnd = nat n"
  by (auto simp: pad_front_def read_rand_def rand_read_def intro: exI [of _ "[]"] exI [of _ "rng_state d"])


text \<open>What a timer event leaves alone.\<close>

definition settings :: "Device \<Rightarrow> (bytes list \<times> Endpoint) list \<times> deviceState \<times> Time \<times> (int \<times> int \<times> int \<times> int) \<times>
    (magicHeader \<times> magicHeader \<times> magicHeader \<times> magicHeader) \<times> (int \<times> int \<times> int) \<times> obfChain option list \<times> IndexTable \<times>
    (pid \<Rightarrow> Endpoint option \<times> bool \<times> bool \<times> Handshake \<times> CookieGenerator \<times> u32)" where
  "settings d = (wire d, dev_state d, now d, (paddings_init d, paddings_response d, paddings_cookie d, paddings_transport d),
     (headers_init d, headers_response d, headers_cookie d, headers_transport d), (junk_min d, junk_max d, junk_count d),
     ipackets d, indexTable d, \<lambda>q. let P = peers d q in
     (ep_val P, clearSrcOnTx P, disableRoaming P, handshake P, cookieGenerator P, persistentKeepaliveInterval P))"

lemma settings_upd_peer:
  "(\<And>P. ep_val (f P) = ep_val P \<and> clearSrcOnTx (f P) = clearSrcOnTx P \<and> disableRoaming (f P) = disableRoaming P \<and>
     handshake (f P) = handshake P \<and> cookieGenerator (f P) = cookieGenerator P \<and>
     persistentKeepaliveInterval (f P) = persistentKeepaliveInterval P) \<Longrightarrow> settings (upd_peer p f d) = settings d"
  by (simp add: settings_def upd_peer_def Let_def fun_eq_iff)

lemma settings_fields [simp]:
  "settings (d\<lparr>rng_state := r\<rparr>) = settings d" "settings (d\<lparr>dice := c\<rparr>) = settings d"
  by (simp_all add: settings_def)

lemma settings_timer [simp]: "settings (upd_timer p t f d) = settings d"
  unfolding upd_timer_def by (rule settings_upd_peer) simp

lemma settings_timer_events [simp]:
  "settings (timersDataSent p d) = settings d" "settings (timersDataReceived p d) = settings d"
  "settings (timersAnyAuthenticatedPacketSent p d) = settings d" "settings (timersAnyAuthenticatedPacketReceived p d) = settings d"
  "settings (timersHandshakeInitiated p d) = settings d" "settings (timersHandshakeComplete p d) = settings d"
  "settings (timersSessionDerived p d) = settings d" "settings (timersAnyAuthenticatedPacketTraversal p d) = settings d"
  by (auto simp: timer_ops Let_def intro!: settings_upd_peer [THEN trans])

lemma settingsD:
  assumes "settings d' = settings d"
  shows "wire d' = wire d" "dev_state d' = dev_state d" "now d' = now d" "paddings_init d' = paddings_init d"
    "paddings_response d' = paddings_response d" "paddings_transport d' = paddings_transport d" "indexTable d' = indexTable d"
    "ep_val (peers d' q) = ep_val (peers d q)" "clearSrcOnTx (peers d' q) = clearSrcOnTx (peers d q)"
    "handshake (peers d' q) = handshake (peers d q)" "cookieGenerator (peers d' q) = cookieGenerator (peers d q)"
    "persistentKeepaliveInterval (peers d' q) = persistentKeepaliveInterval (peers d q)"
  using assms by (simp_all add: settings_def Let_def fun_eq_iff)

text \<open>The endpoint a peer's packets go to, and the effect of sending on the wire.\<close>

definition target :: "pid \<Rightarrow> Device \<Rightarrow> Endpoint option" where
  "target p d = (if isClosed d then None
     else map_option (\<lambda>ep. if clearSrcOnTx (peers d p) then ep\<lparr>ep_src := []\<rparr> else ep) (ep_val (peers d p)))"

lemma SendBuffers_wire:
  "wire (snd (SendBuffers N p bs d)) = (case target p d of None \<Rightarrow> wire d | Some ep \<Rightarrow> wire d @ [(bs, ep)])"
  "fst (SendBuffers N p bs d) \<longleftrightarrow> isClosed d \<or> (\<exists>ep. target p d = Some ep \<and> net_send N bs ep)"
  by (auto simp: SendBuffers_def target_def Let_def upd_peer_def split: option.split)

lemma target_settings: "settings d' = settings d \<Longrightarrow> target p d' = target p d"
  using settingsD [of d' d] by (simp add: target_def isClosed_def)


text \<open>What the signature packets of a list of chains are.\<close>

definition signature_of :: "obfChain \<Rightarrow> bytes \<Rightarrow> bool" where
  "signature_of c b \<longleftrightarrow> (lengths_ok (obfs c) \<longrightarrow> packet_of (obfs c) [] b)"

lemma signature_packets_spec:
  "signature_packets cs d = Some (bs, d') \<Longrightarrow> list_all2 signature_of (concat (map opt_list cs)) bs"
proof (induction cs d arbitrary: bs d' rule: signature_packets.induct)
  case (1 d)
  then show ?case by simp
next
  case (2 cs d)
  then show ?case by simp
next
  case (3 c cs d)
  then obtain buf out r b2 where s: "make_bytes (chainObfuscatedLen c 0) = Some buf"
    "chainObfuscate (Unix (now d)) c buf [] (rng_state d) = Some (out, r)"
    "signature_packets cs (d\<lparr>rng_state := r\<rparr>) = Some (b2, d')" "bs = out # b2"
    by (auto simp: bind_eq_Some_conv)
  have len: "int (length buf) = chainObfuscatedLen c 0" using s(1) by (auto simp: make_bytes_def split: if_splits)
  have "packet_of (obfs c) [] out" if "lengths_ok (obfs c)"
    using chainObfuscate_packet [OF that, of buf "[]" "Unix (now d)" "rng_state d"] len s(2) by simp
  then have "signature_of c out" by (simp add: signature_of_def)
  then show ?case using "3.IH" s by fastforce
qed


lemma target_upd_hs [simp]: "target q (upd_hs p f d) = target q d"
  by (simp add: target_def isClosed_def upd_hs_def upd_peer_def)

definition begin_attempt :: "pid \<Rightarrow> bool \<Rightarrow> Device \<Rightarrow> Device" where
  "begin_attempt p isRetry d = (if \<not> isRetry then upd_peer p (\<lambda>P. P\<lparr>handshakeAttempts := 0\<rparr>) d else d)"

lemma begin_attempt_frame [simp]:
  "traffic (begin_attempt p rt d) = traffic d" "settings (begin_attempt p rt d) = settings d"
  by (auto simp: begin_attempt_def intro!: traffic_upd_peer settings_upd_peer)

lemma CreateMessageInitiation_env:
  assumes "CreateMessageInitiation C p d = Some (res, d1)"
  shows "traffic d1 = traffic d" "ipackets d1 = ipackets d" "junk_count d1 = junk_count d" "junk_min d1 = junk_min d"
    "junk_max d1 = junk_max d" "paddings_init d1 = paddings_init d" "now d1 = now d" "wire d1 = wire d" "target q d1 = target q d"
    "cookieGenerator (peers d1 q) = cookieGenerator (peers d q)" "lastSentHandshake (hs_of d1 q) = lastSentHandshake (hs_of d q)"
    "handshakeAttempts (peers d1 q) = handshakeAttempts (peers d q)"
proof -
  have "\<exists>f t dc r. d1 = upd_hs p f (d\<lparr>dice := dc, indexTable := t, rng_state := r\<rparr>) \<and> (\<forall>H. lastSentHandshake (f H) = lastSentHandshake H)"
  proof (cases res)
    case (Inl e)
    then obtain h ck eph r dc where "d1 = upd_hs p (\<lambda>H. H\<lparr>hs_hash := h, hs_chainKey := ck, localEphemeral := eph\<rparr>) (d\<lparr>rng_state := r, dice := dc\<rparr>)"
      using CreateMessageInitiation_Inl assms by blast
    moreover have "d\<lparr>rng_state := r, dice := dc\<rparr> = d\<lparr>dice := dc, indexTable := indexTable d, rng_state := r\<rparr>" by simp
    ultimately show ?thesis
      by (intro exI [of _ "\<lambda>H. H\<lparr>hs_hash := h, hs_chainKey := ck, localEphemeral := eph\<rparr>"] exI [of _ "indexTable d"] exI [of _ dc] exI [of _ r]) simp
  next
    case (Inr m)
    then obtain h ck eph t dc r where d1: "d1 = upd_hs p (\<lambda>H. H\<lparr>hs_hash := h, hs_chainKey := ck, localEphemeral := eph,
           hs_localIndex := mi_Sender m, hs_state := handshakeInitiationCreated\<rparr>) (d\<lparr>dice := dc, indexTable := t, rng_state := r\<rparr>)"
      using CreateMessageInitiation_Inr assms by blast
    show ?thesis
      unfolding d1 by (intro exI conjI) (rule refl, simp)
  qed
  then obtain f t dc r where d1: "d1 = upd_hs p f (d\<lparr>dice := dc, indexTable := t, rng_state := r\<rparr>)"
    and f: "\<And>H. lastSentHandshake (f H) = lastSentHandshake H" by blast
  show "traffic d1 = traffic d" "ipackets d1 = ipackets d" "junk_count d1 = junk_count d" "junk_min d1 = junk_min d"
    "junk_max d1 = junk_max d" "paddings_init d1 = paddings_init d" "now d1 = now d" "wire d1 = wire d" "target q d1 = target q d"
    "cookieGenerator (peers d1 q) = cookieGenerator (peers d q)" "lastSentHandshake (hs_of d1 q) = lastSentHandshake (hs_of d q)"
    "handshakeAttempts (peers d1 q) = handshakeAttempts (peers d q)"
    unfolding d1 by (simp_all add: f hs_of_def upd_hs_def upd_peer_def target_def isClosed_def traffic_def Let_def fun_eq_iff)
qed

lemma begin_attempt_attempts:
  "handshakeAttempts (peers (begin_attempt p rt d) p) = (if rt then handshakeAttempts (peers d p) else 0)"
  by (simp add: begin_attempt_def upd_peer_def)

lemma attempts_events [simp]:
  "handshakeAttempts (peers (timersAnyAuthenticatedPacketSent p d) q) = handshakeAttempts (peers d q)"
  "handshakeAttempts (peers (timersAnyAuthenticatedPacketTraversal p d) q) = handshakeAttempts (peers d q)"
  "handshakeAttempts (peers (timersHandshakeInitiated p d) q) = handshakeAttempts (peers d q)"
  "handshakeAttempts (peers (snd (SendBuffers N p bs d)) q) = handshakeAttempts (peers d q)"
  by (auto simp: timer_ops upd_timer_def upd_peer_def Let_def SendBuffers_def split: option.split)

text \<open>The whole of \<open>SendHandshakeInitiation\<close>: refused because one was sent just now, failed, or sent.\<close>

lemma SendHandshakeInitiation_spec:
  assumes "SendHandshakeInitiation C N p rt d = Some (ok, d')"
  shows "traffic d' = traffic d \<and> handshakeAttempts (peers d' p) = (if rt then handshakeAttempts (peers d p) else 0) \<and>
    (if since d (lastSentHandshake (hs_of d p)) < RekeyTimeout then ok \<and> d' = begin_attempt p rt d
     else \<exists>res d1. CreateMessageInitiation C p (upd_hs p (\<lambda>H. H\<lparr>lastSentHandshake := now d\<rparr>) (begin_attempt p rt d)) = Some (res, d1) \<and>
       lastSentHandshake (hs_of d' p) = now d \<and> now d' = now d \<and>
       (case res of
          Inl e \<Rightarrow> \<not> ok \<and> d' = d1
        | Inr m \<Rightarrow> \<exists>signatures junk rnd. list_all2 signature_of (concat (map opt_list (ipackets d))) signatures \<and>
            length junk = nat (junk_count d) \<and> (\<forall>b \<in> set junk. junk_min d \<le> int (length b) \<and> int (length b) \<le> junk_max d) \<and>
            length rnd = nat (paddings_init d) \<and>
            wire d' = (case target p d of None \<Rightarrow> wire d | Some ep \<Rightarrow>
              wire d @ [(signatures @ junk @ [rnd @ fst (AddMacs C (now d) (marshal_initiation m) (cookieGenerator (peers d p)))], ep)])))"
proof -
  let ?d0 = "begin_attempt p rt d" and ?d1 = "upd_hs p (\<lambda>H. H\<lparr>lastSentHandshake := now d\<rparr>) (begin_attempt p rt d)"
  have same: "hs_of ?d0 p = hs_of d p" "now ?d0 = now d" "ipackets ?d0 = ipackets d" "junk_count ?d0 = junk_count d" "junk_min ?d0 = junk_min d"
    "junk_max ?d0 = junk_max d" "paddings_init ?d0 = paddings_init d" "wire ?d0 = wire d" "target p ?d0 = target p d"
    "cookieGenerator (peers ?d0 p) = cookieGenerator (peers d p)"
    by (auto simp: begin_attempt_def hs_of_def upd_peer_def target_def isClosed_def)
  have same1: "ipackets ?d1 = ipackets d" "junk_count ?d1 = junk_count d" "junk_min ?d1 = junk_min d" "junk_max ?d1 = junk_max d"
    "paddings_init ?d1 = paddings_init d" "wire ?d1 = wire d" "target p ?d1 = target p d" "now ?d1 = now d"
    "cookieGenerator (peers ?d1 p) = cookieGenerator (peers d p)" "lastSentHandshake (hs_of ?d1 p) = now d"
    "handshakeAttempts (peers ?d1 p) = (if rt then handshakeAttempts (peers d p) else 0)"
    using same begin_attempt_attempts [of p rt d] target_upd_hs [of p p _ ?d0] by (auto simp: upd_hs_def upd_peer_def hs_of_def)
  have sn: "since ?d0 (lastSentHandshake (hs_of ?d0 p)) = since d (lastSentHandshake (hs_of d p))" by (simp add: since_def same)
  note u = assms [unfolded SendHandshakeInitiation_def Let_def, folded begin_attempt_def, unfolded sn same(2)]
  show ?thesis
  proof (cases "since d (lastSentHandshake (hs_of d p)) < RekeyTimeout")
    case True
    then have "ok \<and> d' = ?d0" using u by simp
    with True show ?thesis by (simp add: begin_attempt_attempts)
  next
    case False
    obtain res d1 where c: "CreateMessageInitiation C p ?d1 = Some (res, d1)"
      using u False by (auto simp: bind_eq_Some_conv)
    note E = CreateMessageInitiation_env [OF c]
    show ?thesis
    proof (cases res)
      case (Inl e)
      then have "\<not> ok \<and> d' = d1"
        using u False c by simp
      with Inl False c E same1 show ?thesis by auto
    next
      case (Inr m)
      obtain sigs d2 junk d3 where s: "signature_packets (ipackets d1) d1 = Some (sigs, d2)" "junk_packets (nat (junk_count d2)) d2 = Some (junk, d3)"
        and rest: "(let (packet, d) = add_macs C p (marshal_initiation m) d3;
              d = timersAnyAuthenticatedPacketTraversal p d; d = timersAnyAuthenticatedPacketSent p d;
              (packet, d) = pad_front (paddings_init d) packet d; (ok, d) = SendBuffers N p (sigs @ junk @ [packet]) d
             in (ok, timersHandshakeInitiated p d)) = (ok, d')"
        using u False c Inr by (auto simp: bind_eq_Some_conv case_prod_beta Let_def)
      obtain r2 where d2: "d2 = d1\<lparr>rng_state := r2\<rparr>" using signature_packets_frame [OF s(1)] by blast
      obtain r3 c3 where d3: "d3 = d2\<lparr>rng_state := r3, dice := c3\<rparr>" using junk_packets_frame [OF s(2)] by blast
      note J = junk_packets_frame [OF s(2)]
      have d3e: "settings d3 = settings d1" "traffic d3 = traffic d1" by (simp_all add: d3 d2)
      obtain pk d4 where a: "add_macs C p (marshal_initiation m) d3 = (pk, d4)" by (cases "add_macs C p (marshal_initiation m) d3")
      have pk: "pk = fst (AddMacs C (now d) (marshal_initiation m) (cookieGenerator (peers d p)))"
        and d4: "\<exists>g. d4 = upd_peer p (\<lambda>P. P\<lparr>cookieGenerator := g\<rparr>) d3"
        using a settingsD [OF d3e(1)] E same1 by (auto simp: add_macs_def case_prod_beta Let_def)
      let ?d5 = "timersAnyAuthenticatedPacketSent p (timersAnyAuthenticatedPacketTraversal p d4)"
      obtain rnd r6 where pf: "pad_front (paddings_init ?d5) pk ?d5 = (rnd @ pk, ?d5\<lparr>rng_state := r6\<rparr>)" "length rnd = nat (paddings_init ?d5)"
        using pad_front_frame by blast
      let ?d6 = "?d5\<lparr>rng_state := r6\<rparr>" and ?bs = "sigs @ junk @ [rnd @ pk]"
      have d': "d' = timersHandshakeInitiated p (snd (SendBuffers N p ?bs ?d6))" "ok = fst (SendBuffers N p ?bs ?d6)"
        using rest a pf(1) by (simp_all add: Let_def case_prod_beta)
      have t4: "traffic d4 = traffic d3" using d4 by (auto intro!: traffic_upd_peer)
      have e6: "settings ?d6 = settings d4" by simp
      have e4: "target p d4 = target p d3" "wire d4 = wire d3" "now d4 = now d3" "paddings_init d4 = paddings_init d3"
        "handshake (peers d4 p) = handshake (peers d3 p)"
        using d4 by (auto simp: target_def isClosed_def upd_peer_def)
      have t6: "target p ?d6 = target p d" "wire ?d6 = wire d"
        using target_settings [OF e6] settingsD(1) [OF e6] e4 target_settings [OF d3e(1)] settingsD(1) [OF d3e(1)] E same1 by simp_all
      have w: "wire d' = (case target p d of None \<Rightarrow> wire d | Some ep \<Rightarrow> wire d @ [(?bs, ep)])"
        unfolding d' settingsD(1) [OF settings_timer_events(5)] SendBuffers_wire t6 ..
      have sb: "now (snd (SendBuffers N p ?bs ?d6)) = now ?d6" "handshake (peers (snd (SendBuffers N p ?bs ?d6)) p) = handshake (peers ?d6 p)"
        by (auto simp: SendBuffers_def upd_peer_def Let_def split: option.split)
      have nw: "now d' = now d" "lastSentHandshake (hs_of d' p) = now d"
        unfolding d' hs_of_def settingsD(3,10) [OF settings_timer_events(5)] sb settingsD(3,10) [OF e6] e4 settingsD(3,10) [OF d3e(1)]
        using E same1 by (simp_all add: hs_of_def)
      have tr: "traffic d' = traffic d" unfolding d' using t4 d3e E by simp
      have at: "handshakeAttempts (peers d' p) = (if rt then handshakeAttempts (peers d p) else 0)"
        unfolding d' using d4 E same1 by (auto simp: d3 d2)
      have "list_all2 signature_of (concat (map opt_list (ipackets d))) sigs"
        using signature_packets_spec [OF s(1)] E same1 by simp
      moreover have "length junk = nat (junk_count d)" "\<forall>b \<in> set junk. junk_min d \<le> int (length b) \<and> int (length b) \<le> junk_max d"
        using J d2 E same1 by simp_all
      moreover have "length rnd = nat (paddings_init d)"
        using pf(2) settingsD(4) [OF e6] e4 settingsD(4) [OF d3e(1)] E same1 by simp
      ultimately show ?thesis using False c Inr tr at nw w pk by auto
    qed
  qed
qed

text \<open>The same as a case distinction.\<close>

lemma SendHandshakeInitiation_cases:
  assumes s: "SendHandshakeInitiation C N p rt d = Some (ok, d')"
  obtains (limited) "since d (lastSentHandshake (hs_of d p)) < RekeyTimeout" "ok" "d' = begin_attempt p rt d"
  | (failed) e where "\<not> since d (lastSentHandshake (hs_of d p)) < RekeyTimeout" "\<not> ok"
    "CreateMessageInitiation C p (upd_hs p (\<lambda>H. H\<lparr>lastSentHandshake := now d\<rparr>) (begin_attempt p rt d)) = Some (Inl e, d')"
  | (sent) m d1 signatures junk rnd where "\<not> since d (lastSentHandshake (hs_of d p)) < RekeyTimeout"
    "CreateMessageInitiation C p (upd_hs p (\<lambda>H. H\<lparr>lastSentHandshake := now d\<rparr>) (begin_attempt p rt d)) = Some (Inr m, d1)"
    "lastSentHandshake (hs_of d' p) = now d" "now d' = now d"
    "list_all2 signature_of (concat (map opt_list (ipackets d))) signatures" "length junk = nat (junk_count d)"
    "\<And>b. b \<in> set junk \<Longrightarrow> junk_min d \<le> int (length b) \<and> int (length b) \<le> junk_max d" "length rnd = nat (paddings_init d)"
    "wire d' = (case target p d of None \<Rightarrow> wire d | Some ep \<Rightarrow>
       wire d @ [(signatures @ junk @ [rnd @ fst (AddMacs C (now d) (marshal_initiation m) (cookieGenerator (peers d p)))], ep)])"
proof (cases "since d (lastSentHandshake (hs_of d p)) < RekeyTimeout")
  case True
  note S = conjunct2 [OF conjunct2 [OF SendHandshakeInitiation_spec [OF s]], unfolded if_P [OF True]]
  show thesis using True S by (intro limited) blast+
next
  case False
  note S = conjunct2 [OF conjunct2 [OF SendHandshakeInitiation_spec [OF s]], unfolded if_not_P [OF False]]
  from S show thesis
  proof (elim exE conjE, goal_cases)
    case (1 res d1)
    show thesis
    proof (cases res)
      case (Inl e)
      with 1 False show thesis by (intro failed [of e]) simp_all
    next
      case (Inr m)
      note c = 1(4) [unfolded Inr sum.case]
      from c show thesis
      proof (elim exE conjE, goal_cases)
        case (1 sigs junk rnd)
        show thesis by (rule sent [OF False _ _ _ 1(1,2) _ 1(4,5)])
            (use \<open>CreateMessageInitiation _ _ _ = _\<close> \<open>lastSentHandshake _ = _\<close> \<open>now d' = _\<close> 1(3) Inr in auto)
      qed
    qed
  qed
qed

text \<open>A bind on which everything succeeds.\<close>

definition some_net :: Net where
  "some_net = \<lparr>net_send = (\<lambda>_ _. True), net_open_port = (\<lambda>p. Some p), net_close = True, net_setmark = (\<lambda>_. True),
     net_listener = True, net_batch = 1, net_parse = (\<lambda>_. None), net_print = (\<lambda>_. [])\<rparr>"


end
