(* ===== verification/Sending.thy ===== *)
theory Sending
  imports Send_Facts
begin

text \<open>
  Bounds on what a peer sends: the padding of its packets, the handshake initiations to a peer that does not
  answer, and the rate of initiations.
\<close>


section \<open>The size of the padding\<close>

lemma round_up_eq: "round_up n = 16 * ((n + 15) div 16)"
proof -
  have "x AND NOT (15 :: int) = push_bit 4 (drop_bit 4 x)" for x :: int
  proof (rule bit_eqI)
    fix n
    have m: "(15 :: int) = mask 4" by (simp add: mask_eq_exp_minus_1)
    show "bit (x AND NOT 15) n \<longleftrightarrow> bit (push_bit 4 (drop_bit 4 x)) n"
      unfolding m by (auto simp: bit_simps)
  qed
  then show ?thesis by (simp add: round_up_def PaddingMultiple_def push_bit_eq_mult drop_bit_eq_div)
qed

lemma round_up_bounds: "n \<le> round_up n" "round_up n \<le> n + 15" "16 dvd round_up n"
  unfolding round_up_eq by (simp_all add: algebra_simps)

lemma calculatePaddingSize_spec:
  assumes "0 \<le> n" "0 \<le> mtu"
  shows "0 \<le> calculatePaddingSize n mtu \<and> calculatePaddingSize n mtu < PaddingMultiple \<and>
    (mtu = 0 \<longrightarrow> PaddingMultiple dvd n + calculatePaddingSize n mtu) \<and>
    (0 < mtu \<longrightarrow>
      (let lastUnit = if n \<le> mtu then n else n mod mtu; padded = lastUnit + calculatePaddingSize n mtu
       in padded \<le> mtu \<and> (PaddingMultiple dvd padded \<or> padded = mtu)))"
proof (cases "mtu = 0")
  case True
  with round_up_bounds [of n] show ?thesis
    by (simp add: calculatePaddingSize_def PaddingMultiple_def)
next
  case False
  define l where "l = (if n > mtu then n mod mtu else n)"
  have l: "0 \<le> l" "l \<le> mtu" using assms False pos_mod_bound [of mtu n] by (auto simp: l_def less_imp_le)
  have c: "calculatePaddingSize n mtu = min (round_up l) mtu - l"
    using assms False by (auto simp: calculatePaddingSize_def Let_def l_def min_def)
  have "(if n \<le> mtu then n else n mod mtu) = l" by (simp add: l_def)
  with c l False assms round_up_bounds [of l] show ?thesis
    by (auto simp: PaddingMultiple_def Let_def min_def)
qed

text \<open>C39. The padding of a packet is at most 15 bytes, so the slice of \<open>paddingZeros\<close> never panics, and never
  negative. Without an MTU the padded packet fills whole 16-byte blocks; with one, the last unit of the
  packet (the packet, or what is left of it after whole MTUs) is padded to whole blocks or to the MTU.\<close>

theorem padding_size_bounds:
  assumes "0 \<le> n" "0 \<le> mtu"
  shows "0 \<le> calculatePaddingSize n mtu \<and> calculatePaddingSize n mtu < PaddingMultiple \<and>
    (mtu = 0 \<longrightarrow> PaddingMultiple dvd n + calculatePaddingSize n mtu) \<and>
    (0 < mtu \<longrightarrow>
      (let lastUnit = if n \<le> mtu then n else n mod mtu; padded = lastUnit + calculatePaddingSize n mtu
       in padded \<le> mtu \<and> (PaddingMultiple dvd padded \<or> padded = mtu)))"
  by (rule calculatePaddingSize_spec [OF assms])

theorem padding_size_bounds_witness:
  "0 \<le> calculatePaddingSize 1421 1420 \<and> calculatePaddingSize 1421 1420 < PaddingMultiple \<and> 1 + calculatePaddingSize 1421 1420 \<le> 1420"
  using padding_size_bounds [of 1421 1420] by (simp add: Let_def)

section \<open>Giving up a handshake\<close>

text \<open>The timer of a handshake that is never answered fires again and again, after the given delays.\<close>

fun retransmissions :: "crypto \<Rightarrow> Net \<Rightarrow> pid \<Rightarrow> Duration list \<Rightarrow> Device \<Rightarrow> Device option" where
  "retransmissions C N p [] d = Some d"
| "retransmissions C N p (dt # dts) d =
     do { d \<leftarrow> expiredRetransmitHandshake C N p (d\<lparr>now := now d + dt\<rparr>); retransmissions C N p dts d }"

lemma SendHandshakeInitiation_wire:
  assumes "SendHandshakeInitiation C N p rt d = Some (ok, d')"
  shows "length (wire d') \<le> length (wire d) + 1"
  using assms
proof (cases rule: SendHandshakeInitiation_cases)
  case limited
  then show ?thesis by (simp add: begin_attempt_def upd_peer_def)
next
  case (failed e)
  from CreateMessageInitiation_env(8) [OF failed(3)] show ?thesis by (simp add: begin_attempt_def upd_hs_def upd_peer_def)
next
  case (sent m d1 signatures junk rnd)
  then show ?thesis by (simp split: option.split)
qed

lemma upd_peer_wire [simp]: "wire (upd_peer p f d) = wire d"
  by (simp add: upd_peer_def)

lemma upd_timer_keeps [simp]:
  "wire (upd_timer p t f d) = wire d" "handshakeAttempts (peers (upd_timer p t f d) q) = handshakeAttempts (peers d q)"
  "q_staged (peers (upd_timer p t f d) q) = q_staged (peers d q)"
  by (simp_all add: upd_timer_def upd_peer_def)

lemma expiredRetransmitHandshake_step:
  assumes "expiredRetransmitHandshake C N p d = Some d'"
  shows "if unat (handshakeAttempts (peers d p)) \<le> MaxTimerHandshakes
    then handshakeAttempts (peers d' p) = handshakeAttempts (peers d p) + 1 \<and> length (wire d') \<le> length (wire d) + 1
    else handshakeAttempts (peers d' p) = handshakeAttempts (peers d p) \<and> wire d' = wire d \<and> q_staged (peers d' p) = []"
proof (cases "unat (handshakeAttempts (peers d p)) \<le> MaxTimerHandshakes")
  case True
  let ?d = "markEndpointSrcForClearing p (upd_peer p (\<lambda>P. P\<lparr>handshakeAttempts := handshakeAttempts P + 1\<rparr>) d)"
  have "\<exists>ok. SendHandshakeInitiation C N p True ?d = Some (ok, d')"
    using assms True by (auto simp: expiredRetransmitHandshake_def)
  then obtain ok where s: "SendHandshakeInitiation C N p True ?d = Some (ok, d')" by blast
  have "handshakeAttempts (peers ?d p) = handshakeAttempts (peers d p) + 1" "wire ?d = wire d"
    by (simp_all add: markEndpointSrcForClearing_def upd_peer_def)
  with True SendHandshakeInitiation_spec [OF s] SendHandshakeInitiation_wire [OF s] show ?thesis by simp
next
  case False
  let ?d = "FlushStagedPackets p (if timersActive p d then timer_del p sendKeepalive d else d)"
  have "d' = ?d \<or> d' = timer_mod p zeroKeyMaterial (RejectAfterTime * 3) ?d"
    using assms False by (auto simp: expiredRetransmitHandshake_def Let_def split: if_splits)
  moreover have "wire ?d = wire d" "handshakeAttempts (peers ?d p) = handshakeAttempts (peers d p)" "q_staged (peers ?d p) = []"
    by (simp_all add: FlushStagedPackets_def timer_del_def upd_peer_wire)
  ultimately show ?thesis using False by (auto simp: timer_mod_def)
qed

lemma retransmissions_spec:
  "retransmissions C N p dts d = Some d' \<Longrightarrow> unat (handshakeAttempts (peers d p)) \<le> MaxTimerHandshakes + 1 \<Longrightarrow>
    length (wire d') \<le> length (wire d) + (MaxTimerHandshakes + 1 - unat (handshakeAttempts (peers d p))) \<and>
    (MaxTimerHandshakes + 1 < unat (handshakeAttempts (peers d p)) + length dts \<longrightarrow> q_staged (peers d' p) = [])"
proof (induction dts arbitrary: d)
  case Nil
  then show ?case by simp
next
  case (Cons dt dts)
  let ?d = "d\<lparr>now := now d + dt\<rparr>" and ?a = "handshakeAttempts (peers d p)"
  obtain d1 where e: "expiredRetransmitHandshake C N p ?d = Some d1" "retransmissions C N p dts d1 = Some d'"
    using Cons.prems(1) by (auto simp: bind_eq_Some_conv)
  note E = expiredRetransmitHandshake_step [OF e(1)]
  show ?case
  proof (cases "unat ?a \<le> MaxTimerHandshakes")
    case True
    have "unat (?a + 1) = Suc (unat ?a)"
      using True by (simp add: unat_word_ariths MaxTimerHandshakes_def)
    then show ?thesis using Cons.IH [OF e(2)] E True by (simp, arith)
  next
    case False
    have eq: "unat ?a = MaxTimerHandshakes + 1" using False Cons.prems(2) by simp
    have "wire d1 = wire d" "handshakeAttempts (peers d1 p) = ?a" "q_staged (peers d1 p) = []" using E False by simp_all
    moreover have "q_staged (peers d' p) = []"
    proof (cases dts)
      case Nil
      with e(2) \<open>q_staged (peers d1 p) = []\<close> show ?thesis by simp
    next
      case (Cons a list)
      with Cons.IH [OF e(2)] \<open>handshakeAttempts (peers d1 p) = ?a\<close> eq show ?thesis by simp
    qed
    ultimately show ?thesis using Cons.IH [OF e(2)] eq by simp
  qed
qed

text \<open>C20. A peer that does not answer is given up: however often the timer of a handshake fires, and at
  whatever times, at most \<open>MaxTimerHandshakes + 1\<close> further initiations leave the device, and once it has
  fired that often again, nothing is staged for the peer any more.\<close>

theorem retransmission_gives_up:
  assumes "retransmissions C N p dts d = Some d'" "handshakeAttempts (peers d p) = 0"
  shows "length (wire d') \<le> length (wire d) + (MaxTimerHandshakes + 1) \<and>
    (MaxTimerHandshakes + 1 < length dts \<longrightarrow> q_staged (peers d' p) = [])"
  using retransmissions_spec [OF assms(1)] assms(2) by simp

lemma retransmissions_return:
  "now d = lastSentHandshake (hs_of d p) \<Longrightarrow> \<exists>d'. retransmissions C N p (replicate n 0) d = Some d'"
proof (induction n arbitrary: d)
  case (Suc n)
  have "\<exists>d1. expiredRetransmitHandshake C N p d = Some d1 \<and> now d1 = lastSentHandshake (hs_of d1 p)"
    using Suc.prems
    by (auto simp: expiredRetransmitHandshake_def SendHandshakeInitiation_def Let_def since_def time_sub_def RekeyTimeout_def Second_def
      markEndpointSrcForClearing_def hs_of_def upd_peer_def FlushStagedPackets_def timer_mod_def timer_del_def upd_timer_def)
  then show ?case using Suc.IH by auto
qed simp

theorem retransmission_gives_up_witness:
  "\<exists>d'. retransmissions toy_crypto some_net 0 (replicate 20 0) (StagePackets 0 [new_elem [1]] zero_Device) = Some d' \<and>
     q_staged (peers d' 0) = []"
proof -
  let ?d = "StagePackets 0 [new_elem [1]] zero_Device"
  have "now ?d = lastSentHandshake (hs_of ?d 0)" "handshakeAttempts (peers ?d 0) = 0"
    by (simp_all add: StagePackets_def zero_Device_def hs_of_def upd_peer_def new_Peer_def new_Handshake_def)
  moreover from retransmissions_return [OF this(1), of toy_crypto some_net 20]
  obtain d' where d': "retransmissions toy_crypto some_net 0 (replicate 20 0) ?d = Some d'" by blast
  ultimately show ?thesis using retransmission_gives_up [OF d'] by (auto simp: MaxTimerHandshakes_def)
qed

section \<open>The rate of initiations\<close>

text \<open>Attempts to send an initiation, each after a delay; \<open>isRetry\<close> as the caller says.\<close>

fun initiations :: "crypto \<Rightarrow> Net \<Rightarrow> pid \<Rightarrow> (Duration \<times> bool) list \<Rightarrow> Device \<Rightarrow> Device option" where
  "initiations C N p [] d = Some d"
| "initiations C N p ((dt, rt) # as) d =
     do { (ok, d) \<leftarrow> SendHandshakeInitiation C N p rt (d\<lparr>now := now d + dt\<rparr>); initiations C N p as d }"

lemma initiations_bound:
  assumes "initiations C N p as d = Some d'" "\<forall>(dt, rt) \<in> set as. 0 \<le> dt"
    "0 \<le> now d - lastSentHandshake (hs_of d p)" "now d - lastSentHandshake (hs_of d p) + sum_list (map fst as) < 2 ^ 62"
  shows "int (length (wire d')) \<le> int (length (wire d))
    + (now d - lastSentHandshake (hs_of d p) + sum_list (map fst as)) div RekeyTimeout"
  using assms
proof (induction as arbitrary: d)
  case Nil
  then show ?case by (simp add: RekeyTimeout_def Second_def pos_imp_zdiv_nonneg_iff)
next
  case (Cons a as)
  obtain dt rt where a: "a = (dt, rt)" by (cases a)
  let ?d = "d\<lparr>now := now d + dt\<rparr>" and ?e = "now d - lastSentHandshake (hs_of d p)" and ?s = "sum_list (map fst as)"
  obtain ok d1 where s: "SendHandshakeInitiation C N p rt ?d = Some (ok, d1)" "initiations C N p as d1 = Some d'"
    using Cons.prems(1) a by (auto simp: bind_eq_Some_conv)
  have dt: "0 \<le> dt" "\<forall>(dt, rt) \<in> set as. 0 \<le> dt" using Cons.prems(2) a by auto
  then have s0: "0 \<le> ?s" by (intro sum_list_nonneg) auto
  have hs: "hs_of ?d p = hs_of d p" by (simp add: hs_of_def)
  have el: "since ?d (lastSentHandshake (hs_of ?d p)) = ?e + dt"
    using Cons.prems(3,4) dt s0 a by (auto simp: since_def time_sub_def hs)
  from s(1) show ?case
  proof (cases rule: SendHandshakeInitiation_cases)
    case limited
    have "wire d1 = wire d" "now d1 = now d + dt" "lastSentHandshake (hs_of d1 p) = lastSentHandshake (hs_of d p)"
      using limited by (auto simp: begin_attempt_def hs_of_def upd_peer_def)
    then show ?thesis using Cons.IH [OF s(2) dt(2)] Cons.prems(3,4) dt(1) a by (simp add: algebra_simps)
  next
    case (failed e)
    note E = CreateMessageInitiation_env [OF failed(3)]
    have f: "wire d1 = wire d" "now d1 = now d + dt" "lastSentHandshake (hs_of d1 p) = now d + dt"
      unfolding E by (simp_all add: begin_attempt_def upd_hs_def upd_peer_def hs_of_def)
    have "int (length (wire d')) \<le> int (length (wire d)) + ?s div RekeyTimeout"
      using Cons.IH [OF s(2) dt(2)] f Cons.prems(3,4) dt(1) a by simp
    also have "?s div RekeyTimeout \<le> (?e + (dt + ?s)) div RekeyTimeout"
      using Cons.prems(3) dt(1) by (intro zdiv_mono1) (auto simp: RekeyTimeout_def Second_def)
    finally show ?thesis using a by simp
  next
    case (sent m d2 signatures junk rnd)
    have w: "length (wire d1) \<le> length (wire d) + 1" using SendHandshakeInitiation_wire [OF s(1)] by simp
    have "int (length (wire d')) \<le> int (length (wire d1)) + ?s div RekeyTimeout"
      using Cons.IH [OF s(2) dt(2)] sent(3,4) Cons.prems(3,4) dt(1) a by simp
    also have "\<dots> \<le> int (length (wire d)) + (1 + ?s div RekeyTimeout)" using w by simp
    also have "1 + ?s div RekeyTimeout = (RekeyTimeout + ?s) div RekeyTimeout"
      by (simp add: RekeyTimeout_def Second_def)
    also have "(RekeyTimeout + ?s) div RekeyTimeout \<le> (?e + (dt + ?s)) div RekeyTimeout"
      using sent(1) el by (intro zdiv_mono1) (auto simp: RekeyTimeout_def Second_def)
    finally show ?thesis using a by simp
  qed
qed



end
