(* ===== verification/Receive_Facts.thy ===== *)
theory Receive_Facts
  imports Receive Sending
begin

text \<open>
  How the frames that \<open>Send\<close> builds look to the receiver of \<open>Receive\<close>: the classification of handshake
  messages by size and header, and the way of a transport message from the sender's queue to the receiver's
  decrypted element.
\<close>


section \<open>Classification\<close>

text \<open>The framing a device expects: the padding and header of each type, and the sizes of the handshake
  messages.\<close>

definition framing_ok :: "Device \<Rightarrow> bool" where
  "framing_ok d \<longleftrightarrow> 0 \<le> paddings_init d \<and> 0 \<le> paddings_response d \<and> 0 \<le> paddings_cookie d \<and> 0 \<le> paddings_transport d"

definition distinct_sizes :: "Device \<Rightarrow> bool" where
  "distinct_sizes d \<longleftrightarrow> distinct [paddings_init d + 148, paddings_response d + 92, paddings_cookie d + 64]"

lemma try_type_skip: "\<not> sizeOk \<Longrightarrow> try_type MessageUnknownType b t p h sizeOk r = r"
  by (simp add: try_type_def)

lemma try_type_hit:
  "sizeOk \<Longrightarrow> p = int (length pad) \<Longrightarrow> try_type MessageUnknownType (pad @ b) t p h sizeOk r
    = (if Validate h (get_u32_le b) then Some (t, p) else r)"
  by (simp add: try_type_def)

lemma classify_initiation:
  assumes "paddings_init d = int (length rnd)" "length m = MessageInitiationSize" "Validate (headers_init d) (get_u32_le m)"
  shows "DeterminePacketTypeAndPadding (rnd @ m) MessageUnknownType d = Some (MessageInitiationType, paddings_init d)"
  using assms by (simp add: DeterminePacketTypeAndPadding_def Let_def try_type_def)

lemma classify_response:
  assumes "framing_ok d" "distinct_sizes d"
    "paddings_response d = int (length rnd)" "length m = MessageResponseSize" "Validate (headers_response d) (get_u32_le m)"
  shows "DeterminePacketTypeAndPadding (rnd @ m) MessageUnknownType d = Some (MessageResponseType, paddings_response d)"
  using assms by (simp add: DeterminePacketTypeAndPadding_def Let_def try_type_def distinct_sizes_def message_sizes)

lemma classify_cookie:
  assumes "framing_ok d" "distinct_sizes d"
    "paddings_cookie d = int (length rnd)" "length m = MessageCookieReplySize" "Validate (headers_cookie d) (get_u32_le m)"
  shows "DeterminePacketTypeAndPadding (rnd @ m) MessageUnknownType d = Some (MessageCookieReplyType, paddings_cookie d)"
  using assms by (simp add: DeterminePacketTypeAndPadding_def Let_def try_type_def distinct_sizes_def message_sizes)

text \<open>A transport message is taken for a handshake message only if its size is that of one and the header
  there matches by chance; with equal paddings the headers tell the types apart.\<close>

definition apart :: "Device \<Rightarrow> nat \<Rightarrow> bool" where
  "apart d n \<longleftrightarrow>
     (int n \<noteq> paddings_init d + 148 \<or> paddings_init d = paddings_transport d \<and> \<not> overlaps (headers_init d) (headers_transport d)) \<and>
     (int n \<noteq> paddings_response d + 92 \<or> paddings_response d = paddings_transport d \<and> \<not> overlaps (headers_response d) (headers_transport d)) \<and>
     (int n \<noteq> paddings_cookie d + 64 \<or> paddings_cookie d = paddings_transport d \<and> \<not> overlaps (headers_cookie d) (headers_transport d))"

lemma not_both: "\<not> overlaps h g \<Longrightarrow> Validate g v \<Longrightarrow> \<not> Validate h v"
  by (auto simp: overlaps_def Validate_def)

lemma try_type_apart:
  assumes "int (length (rnd @ m)) = q + n \<Longrightarrow> q = int (length rnd) \<and> \<not> overlaps h g" "Validate g (get_u32_le m)"
  shows "try_type MessageUnknownType (rnd @ m) t q h (int (length (rnd @ m)) = q + n) r = r"
  using assms not_both [of h g "get_u32_le m"] by (cases "int (length (rnd @ m)) = q + n") (auto simp: try_type_def)

lemma classify_transport:
  assumes "paddings_transport d = int (length rnd)" "MessageTransportHeaderSize \<le> length m"
    "Validate (headers_transport d) (get_u32_le m)" "apart d (length (rnd @ m))"
  shows "DeterminePacketTypeAndPadding (rnd @ m) MessageUnknownType d = Some (MessageTransportType, paddings_transport d)"
proof -
  have a: "int (length (rnd @ m)) = paddings_init d + int MessageInitiationSize \<Longrightarrow>
      paddings_init d = int (length rnd) \<and> \<not> overlaps (headers_init d) (headers_transport d)"
    "int (length (rnd @ m)) = paddings_response d + int MessageResponseSize \<Longrightarrow>
      paddings_response d = int (length rnd) \<and> \<not> overlaps (headers_response d) (headers_transport d)"
    "int (length (rnd @ m)) = paddings_cookie d + int MessageCookieReplySize \<Longrightarrow>
      paddings_cookie d = int (length rnd) \<and> \<not> overlaps (headers_cookie d) (headers_transport d)"
    using assms(4) unfolding apart_def message_sizes of_nat_numeral assms(1) by blast+
  note t = a [THEN try_type_apart, OF _ assms(3)]
  have "try_type MessageUnknownType (rnd @ m) MessageTransportType (paddings_transport d) (headers_transport d)
      (paddings_transport d + int MessageTransportHeaderSize \<le> int (length (rnd @ m))) r
    = Some (MessageTransportType, paddings_transport d)" for r
    using assms(1-3) by (simp add: try_type_def)
  then show ?thesis unfolding DeterminePacketTypeAndPadding_def Let_def
    using t by simp
qed

section \<open>Transport messages\<close>

lemma go_slice_0: "go_slice 0 n (xs @ ys) = xs" if "length xs = n"
  using that by (simp add: go_slice_def)

lemma transport_header_fields:
  "get_u32_le (transport_header t r n @ b) = t" "get_u32_le (go_slice 4 8 (transport_header t r n @ b)) = r"
  "get_u64_le (go_slice 8 16 (transport_header t r n @ b)) = n" "drop 16 (transport_header t r n @ b) = b"
  "length (transport_header t r n) = 16"
proof -
  show "get_u32_le (transport_header t r n @ b) = t" by (simp add: transport_header_def)
  have "go_slice 4 8 (transport_header t r n @ b) = put_u32_le r"
    by (simp add: transport_header_def go_slice_def)
  then show "get_u32_le (go_slice 4 8 (transport_header t r n @ b)) = r"
    using get_put_u32_le [of r "[]"] by simp
  have "go_slice 8 16 (transport_header t r n @ b) = put_u64_le n"
    by (simp add: transport_header_def go_slice_def)
  then show "get_u64_le (go_slice 8 16 (transport_header t r n @ b)) = n"
    using get_put_u64_le [of n "[]"] by simp
qed (simp_all add: transport_header_def)

lemma encrypt_element_spec:
  assumes "encrypt_element C e d = Some (b, d')" "mh_start (headers_transport d) \<le> mh_end (headers_transport d)"
  shows "\<exists>t k pad. oe_keypair e = Some k \<and> Validate (headers_transport d) t \<and>
    int pad = calculatePaddingSize (int (length (oe_packet e))) (tun_mtu d) \<and>
    b = transport_header t (kp_remoteIndex (keypairs d k)) (oe_nonce e)
      @ seal C (kp_send (keypairs d k)) (transport_nonce (oe_nonce e)) (oe_packet e @ replicate pad 0) [] \<and>
    d' = d\<lparr>dice := \<lambda>i. dice d (Suc i)\<rparr>"
proof -
  obtain t d1 where g: "gen_header (headers_transport d) d = Some (t, d1)"
    using assms(1) by (auto simp: encrypt_element_def bind_eq_Some_conv)
  obtain k where k: "oe_keypair e = Some k"
    using assms(1) by (auto simp: encrypt_element_def bind_eq_Some_conv)
  have d1: "d1 = d\<lparr>dice := \<lambda>i. dice d (Suc i)\<rparr>" by (rule gen_header_frame [OF g])
  have v: "Validate (headers_transport d) t" by (rule gen_header_valid [OF g assms(2)])
  let ?p = "calculatePaddingSize (int (length (oe_packet e))) (tun_mtu d)"
  have p: "\<not> (?p < 0 \<or> PaddingMultiple < ?p)" "b = transport_header t (kp_remoteIndex (keypairs d k)) (oe_nonce e)
      @ seal C (kp_send (keypairs d k)) (transport_nonce (oe_nonce e)) (oe_packet e @ replicate (nat ?p) 0) []" "d' = d1"
    using assms(1) g k d1 by (auto simp: encrypt_element_def Let_def split: if_splits)
  show ?thesis
    by (rule exI [of _ t], rule exI [of _ k], rule exI [of _ "nat ?p"]) (use p d1 v k in auto)
qed

lemma frame_packet_spec:
  assumes "frame_packet b d = Some (isData, frame, d')" "0 \<le> paddings_transport d" "isData \<or> paddings_transport d = 0"
  shows "\<exists>rnd. frame = rnd @ b \<and> int (length rnd) = paddings_transport d"
  using assms by (cases "0 < paddings_transport d") (auto simp: frame_packet_def Let_def read_rand_def rand_read_def split: if_splits)

lemma dispatch_transport:
  assumes cl: "DeterminePacketTypeAndPadding (rnd @ b) MessageUnknownType d = Some (MessageTransportType, paddings_transport d)"
    and rnd: "int (length rnd) = paddings_transport d" and b: "MessageTransportSize \<le> length b"
    and key: "indexTable d (get_u32_le (go_slice 4 8 b)) = Some entry" "ite_keypair entry = Some j" "ite_peer entry = Some p"
    and fresh: "now d \<le> created (keypairs d j) + RejectAfterTime"
  shows "dispatch_datagram (rnd @ b) ep d =
    Some (To_Peer p \<lparr>ie_packet = Some b, ie_counter = 0, ie_keypair = j, ie_endpoint = ep\<rparr>)"
proof -
  have dr: "(if paddings_transport d > 0 then drop (nat (paddings_transport d)) (rnd @ b) else rnd @ b) = b"
    using rnd [symmetric] by simp
  have l: "\<not> length (rnd @ b) < MinMessageSize" "\<not> length b < MessageTransportSize"
    using b by (auto simp: MinMessageSize_def message_sizes)
  have ix: "IndexTable_Lookup (indexTable d) (get_u32_le (go_slice 4 8 b)) = entry"
    using key(1) by (simp add: IndexTable_Lookup_def)
  show ?thesis
    unfolding dispatch_datagram_def cl using l ix key(2,3) fresh dr by (simp add: Let_def)
qed

text \<open>C6. A transport message arrives. An element with a nonce and a key pair is encrypted and framed by one
  device and received by another that has the same transport padding and header, no handshake type of which
  fits the datagram, and whose index table leads the sender's remote index to an unexpired key pair that
  receives with the key the sender sends with. Unless it is a bare keepalive of a device with a transport
  padding, the datagram becomes an element for the peer of that key pair, and decryption gives back the
  packet, followed by fewer than 16 zero bytes, with the counter the sender assigned.\<close>

theorem transport_roundtrip:
  assumes C: "crypto_ok C" and e: "encrypt_element C e A = Some (b, A1)" and f: "frame_packet b A1 = Some (isData, frame, A2)"
    and mtu: "0 \<le> tun_mtu A"
    and same: "headers_transport B = headers_transport A" "paddings_transport B = paddings_transport A"
    and hdr: "mh_start (headers_transport A) \<le> mh_end (headers_transport A)"
    and pads: "0 \<le> paddings_transport A" "isData \<or> paddings_transport A = 0"
    and apart: "apart B (length frame)"
    and key: "oe_keypair e = Some k" "indexTable B (kp_remoteIndex (keypairs A k)) = Some entry" "ite_keypair entry = Some j"
      "ite_peer entry = Some p" "kp_receive (keypairs B j) = kp_send (keypairs A k)"
    and fresh: "now B \<le> created (keypairs B j) + RejectAfterTime"
  shows "\<exists>ie n. dispatch_datagram frame ep B = Some (To_Peer p ie) \<and> ie_keypair ie = j \<and> ie_endpoint ie = ep \<and> n < 16 \<and>
    ie_packet (decrypt_element C B ie) = Some (oe_packet e @ replicate n 0) \<and> ie_counter (decrypt_element C B ie) = oe_nonce e"
proof -
  obtain t pad where E: "Validate (headers_transport A) t"
    "int pad = calculatePaddingSize (int (length (oe_packet e))) (tun_mtu A)"
    "b = transport_header t (kp_remoteIndex (keypairs A k)) (oe_nonce e)
      @ seal C (kp_send (keypairs A k)) (transport_nonce (oe_nonce e)) (oe_packet e @ replicate pad 0) []"
    "A1 = A\<lparr>dice := \<lambda>i. dice A (Suc i)\<rparr>"
    using encrypt_element_spec [OF e hdr] key(1) by auto
  let ?s = "seal C (kp_send (keypairs A k)) (transport_nonce (oe_nonce e)) (oe_packet e @ replicate pad 0) []"
  have ls: "length ?s = length (oe_packet e) + pad + 16" using C by (simp add: crypto_ok_def)
  have lb: "32 \<le> length b" unfolding E(3) using ls transport_header_fields(5) by simp
  have fields: "get_u32_le b = t" "get_u32_le (go_slice 4 8 b) = kp_remoteIndex (keypairs A k)"
    "get_u64_le (go_slice 8 16 b) = oe_nonce e" "drop 16 b = ?s"
    unfolding E(3) by (simp_all only: transport_header_fields)
  obtain rnd where fr: "frame = rnd @ b" "int (length rnd) = paddings_transport B"
    using frame_packet_spec [OF f] pads same(2) E(4) by auto
  have cl: "DeterminePacketTypeAndPadding (rnd @ b) MessageUnknownType B = Some (MessageTransportType, paddings_transport B)"
    using fr apart E(1) same lb fields(1) by (intro classify_transport) (auto simp: message_sizes)
  let ?ie = "\<lparr>ie_packet = Some b, ie_counter = 0, ie_keypair = j, ie_endpoint = ep\<rparr>"
  have d: "dispatch_datagram frame ep B = Some (To_Peer p ?ie)"
    unfolding fr(1) by (rule dispatch_transport [OF cl fr(2) _ _ key(3,4) fresh]) (use lb fields(2) key(2) in \<open>simp_all add: message_sizes\<close>)
  have dec: "ie_packet (decrypt_element C B ?ie) = Some (oe_packet e @ replicate pad 0)" "ie_counter (decrypt_element C B ?ie) = oe_nonce e"
    using fields(3,4) C key(5) by (simp_all add: decrypt_element_def Let_def crypto_ok_def)
  have "pad < 16" using calculatePaddingSize_spec [of "int (length (oe_packet e))" "tun_mtu A"] mtu E(2)
    by (simp add: PaddingMultiple_def)
  with d dec show ?thesis by auto
qed

text \<open>A sender of one packet and its receiver, with three bytes of padding.\<close>

definition receiver :: Device where
  "receiver = zero_Device\<lparr>paddings_transport := 3,
     indexTable := [7 \<mapsto> \<lparr>ite_peer = Some 1, ite_handshake = None, ite_keypair = Some 0\<rparr>]\<rparr>"

definition sending_device :: Device where
  "sending_device = zero_Device\<lparr>paddings_transport := 3, keypairs := (\<lambda>_. new_Keypair\<lparr>kp_remoteIndex := 7\<rparr>)\<rparr>"

lemma toy_transport:
  "\<exists>b A1 frame A2. encrypt_element toy_crypto \<lparr>oe_packet = [69, 1], oe_nonce = 5, oe_keypair = Some 0\<rparr> sending_device = Some (b, A1) \<and>
     frame_packet b A1 = Some (True, frame, A2) \<and> length frame = 51"
  by (simp add: encrypt_element_def gen_header_def Generate_def sending_device_def zero_Device_def header_for_def
      calculatePaddingSize_def round_up_eq Let_def PaddingMultiple_def toy_crypto_def frame_packet_def transport_header_def
      read_rand_def rand_read_def MaxMessageSize_def message_sizes new_Keypair_def zero32_def)

theorem transport_roundtrip_witness:
  "\<exists>b A1 frame A2 ie n. encrypt_element toy_crypto \<lparr>oe_packet = [69, 1], oe_nonce = 5, oe_keypair = Some 0\<rparr> sending_device = Some (b, A1) \<and>
     frame_packet b A1 = Some (True, frame, A2) \<and>
     dispatch_datagram frame \<lparr>ep_addr = [10, 0, 0, 1], ep_port = 51820, ep_src = []\<rparr> receiver = Some (To_Peer 1 ie) \<and>
     ie_packet (decrypt_element toy_crypto receiver ie) = Some ([69, 1] @ replicate n 0) \<and>
     ie_counter (decrypt_element toy_crypto receiver ie) = 5"
proof -
  let ?e = "\<lparr>oe_packet = [69, 1], oe_nonce = 5, oe_keypair = Some 0\<rparr>"
  obtain b A1 frame A2 where t: "encrypt_element toy_crypto ?e sending_device = Some (b, A1)"
    "frame_packet b A1 = Some (True, frame, A2)" "length frame = 51"
    using toy_transport by blast
  have "apart receiver (length frame)" unfolding t(3) by (simp add: apart_def receiver_def zero_Device_def)
  moreover have "headers_transport receiver = headers_transport sending_device" "paddings_transport receiver = paddings_transport sending_device"
    "mh_start (headers_transport sending_device) \<le> mh_end (headers_transport sending_device)"
    "0 \<le> paddings_transport sending_device" "0 \<le> tun_mtu sending_device"
    "indexTable receiver (kp_remoteIndex (keypairs sending_device 0)) = Some \<lparr>ite_peer = Some 1, ite_handshake = None, ite_keypair = Some 0\<rparr>"
    "kp_receive (keypairs receiver 0) = kp_send (keypairs sending_device 0)"
    "now receiver \<le> created (keypairs receiver 0) + RejectAfterTime"
    by (simp_all add: receiver_def sending_device_def zero_Device_def header_for_def new_Keypair_def time_consts)
  ultimately show ?thesis
    using transport_roundtrip [OF toy_crypto_ok t(1,2), where B = receiver and k = 0 and j = 0 and p = 1 and ep = "\<lparr>ep_addr = [10, 0, 0, 1], ep_port = 51820, ep_src = []\<rparr>"] t(1,2) by auto
qed

section \<open>Handshake messages\<close>

lemma dispatch_initiation:
  assumes "paddings_init d = int (length rnd)" "length m = MessageInitiationSize" "Validate (headers_init d) (get_u32_le m)"
  shows "dispatch_datagram (rnd @ m) ep d =
    Some (To_Handshake \<lparr>he_msgType = MessageInitiationType, he_packet = m, he_endpoint = ep\<rparr>)"
proof -
  have dr: "(if paddings_init d > 0 then drop (nat (paddings_init d)) (rnd @ m) else rnd @ m) = m"
    using assms(1) by simp
  have l: "\<not> length (rnd @ m) < MinMessageSize" using assms(2) by (simp add: MinMessageSize_def message_sizes)
  show ?thesis
    unfolding dispatch_datagram_def classify_initiation [OF assms] using l dr assms(2) by (simp add: message_types)
qed

lemma CheckMAC1_AddMacs:
  assumes "crypto_ok C" "32 \<le> length msg" "cg_mac1_key g = ck_mac1_key c"
  shows "CheckMAC1 C c (fst (AddMacs C t msg g))"
proof -
  obtain msg' g' where a: "AddMacs C t msg g = (msg', g')" by force
  note p = AddMacs_parts [OF assms(1,2) a]
  show ?thesis unfolding a fst_conv CheckMAC1_def Let_def p(3) p(4) using p(2,6) assms(3) by simp
qed

lemma AddMacs_body:
  assumes "crypto_ok C" "32 \<le> length msg"
  shows "length (fst (AddMacs C t msg g)) = length msg"
    "j + 32 \<le> length msg \<Longrightarrow> go_slice i j (fst (AddMacs C t msg g)) = go_slice i j msg"
proof -
  obtain msg' g' where a: "AddMacs C t msg g = (msg', g')" by force
  note p = AddMacs_parts [OF assms a]
  show "length (fst (AddMacs C t msg g)) = length msg" using a p(1) by simp
  assume "j + 32 \<le> length msg"
  then have j: "min j (smac1 msg) = j" by (simp add: smac1_def smac2_def)
  have "take j (take (smac1 msg) msg') = take j (take (smac1 msg) msg)" by (simp only: p(2))
  then have "take j msg' = take j msg" unfolding take_take j .
  then show "go_slice i j (fst (AddMacs C t msg g)) = go_slice i j msg"
    unfolding a fst_conv go_slice_def by (metis drop_take)
qed

text \<open>C7. An initiation arrives. When a call of \<open>SendHandshakeInitiation\<close> puts something on the wire, it is one
  batch to the peer's endpoint: as many packets as there are signature chains and junk packets, and then the
  initiation. A device with the same padding and header of initiations takes that last packet, whatever the
  random padding and header drawn, for an initiation of 148 bytes; it passes the first MAC check, and its
  fields other than the codes are those of the message that was created.\<close>

theorem initiation_arrives:
  assumes C: "crypto_ok C" and s: "SendHandshakeInitiation C N p rt A = Some (ok, A')" and sent: "wire A' \<noteq> wire A"
    and key: "cg_mac1_key (cookieGenerator (peers A p)) = ck_mac1_key (cookieChecker B)"
    and same: "headers_init B = headers_init A" "paddings_init B = paddings_init A" "0 \<le> paddings_init A"
      "mh_start (headers_init A) \<le> mh_end (headers_init A)"
    and pk: "length (publicKey A) = 32"
  shows "\<exists>before frame to packet m.
      wire A' = wire A @ [(before @ [frame], to)] \<and> target p A = Some to \<and>
      length before = length (concat (map opt_list (ipackets A))) + nat (junk_count A) \<and>
      dispatch_datagram frame from B =
        Some (To_Handshake \<lparr>he_msgType = MessageInitiationType, he_packet = packet, he_endpoint = from\<rparr>) \<and>
      CheckMAC1 C (cookieChecker B) packet \<and>
      (\<exists>A1. CreateMessageInitiation C p (upd_hs p (\<lambda>H. H\<lparr>lastSentHandshake := now A\<rparr>) (begin_attempt p rt A)) = Some (Inr m, A1)) \<and>
      (unmarshal_initiation packet)\<lparr>mi_Type := MessageInitiationType, mi_MAC1 := [], mi_MAC2 := []\<rparr> =
        m\<lparr>mi_Type := MessageInitiationType, mi_MAC1 := [], mi_MAC2 := []\<rparr>"
  using s
proof (cases rule: SendHandshakeInitiation_cases)
  case limited
  then have "wire A' = wire A" by (auto simp: begin_attempt_def upd_hs_def upd_peer_def)
  with sent show ?thesis by blast
next
  case (failed e)
  from CreateMessageInitiation_env(8) [OF failed(3)] have "wire A' = wire A" by (auto simp: begin_attempt_def upd_hs_def upd_peer_def)
  with sent show ?thesis by blast
next
  case (sent m d1 signatures junk rnd)
  obtain to where t: "target p A = Some to" using sent(9) assms(3) by (cases "target p A") auto
  have h: "headers_init (upd_hs p (\<lambda>H. H\<lparr>lastSentHandshake := now A\<rparr>) (begin_attempt p rt A)) = headers_init A"
    "publicKey (upd_hs p (\<lambda>H. H\<lparr>lastSentHandshake := now A\<rparr>) (begin_attempt p rt A)) = publicKey A"
    by (simp_all add: begin_attempt_def upd_hs_def upd_peer_def)
  have m: "initiation_ok m" "Validate (headers_init A) (mi_Type m)"
    using CreateMessageInitiation_Inr [OF sent(2)] same(4) unfolding h
    by (elim exE conjE; simp add: initiation_ok_def crypto_okD [OF C] pk length_stamp)+
  let ?b = "marshal_initiation m"
  let ?pk = "fst (AddMacs C (now A) ?b (cookieGenerator (peers A p)))"
  have lb: "length ?b = MessageInitiationSize" by (rule marshal_lengths(1) [OF m(1)])
  then have l32: "32 \<le> length ?b" by (simp add: message_sizes)
  note body = AddMacs_body [OF C l32, where t = "now A" and g = "cookieGenerator (peers A p)"]
  have sl: "go_slice i j ?pk = go_slice i j ?b" if "j \<le> 116" for i j
    using body(2) [of j i] that lb by (simp add: message_sizes)
  have u: "(unmarshal_initiation ?pk)\<lparr>mi_Type := MessageInitiationType, mi_MAC1 := [], mi_MAC2 := []\<rparr> =
      (unmarshal_initiation ?b)\<lparr>mi_Type := MessageInitiationType, mi_MAC1 := [], mi_MAC2 := []\<rparr>"
    by (simp add: unmarshal_initiation_def sl)
  have ty: "get_u32_le ?pk = mi_Type m"
  proof -
    have "take 4 ?pk = take 4 ?b" using sl [of 4 0] by (simp add: go_slice_def)
    then have "get_u32_le ?pk = get_u32_le ?b" by (simp only: get_u32_le_def)
    then show ?thesis by (simp add: marshal_initiation_def)
  qed
  show ?thesis
  proof (intro exI conjI)
    show "wire A' = wire A @ [((signatures @ junk) @ [rnd @ ?pk], to)]" using sent(9) t by simp
    show "dispatch_datagram (rnd @ ?pk) from B =
        Some (To_Handshake \<lparr>he_msgType = MessageInitiationType, he_packet = ?pk, he_endpoint = from\<rparr>)"
      by (rule dispatch_initiation) (use sent(8) same body(1) lb ty m(2) in simp_all)
    show "length (signatures @ junk) = length (concat (map opt_list (ipackets A))) + nat (junk_count A)"
      using sent(6) list_all2_lengthD [OF sent(5)] by simp
    show "CheckMAC1 C (cookieChecker B) ?pk" by (rule CheckMAC1_AddMacs [OF C l32 key])
  qed (use t sent(2) u m(1) unmarshal_marshal_initiation in simp_all)
qed

text \<open>The devices of the handshake runs, the first with an endpoint for its peer.\<close>

definition far_end :: Endpoint where "far_end = \<lparr>ep_addr = [192, 0, 2, 9], ep_port = 51820, ep_src = []\<rparr>"

definition initiating_device :: Device where
  "initiating_device = upd_peer 0 (\<lambda>P. P\<lparr>ep_val := Some far_end\<rparr>) (toy_device 1 2 0)\<lparr>dev_state := deviceStateUp\<rparr>"

lemma SendHandshakeInitiation_runs:
  assumes "since d (lastSentHandshake (hs_of d p)) \<ge> RekeyTimeout"
    "CreateMessageInitiation C p (upd_hs p (\<lambda>H. H\<lparr>lastSentHandshake := now d\<rparr>) (begin_attempt p True d)) = Some (Inr m, d1)"
    "concat (map opt_list (ipackets d)) = []" "junk_count d = 0" "target p d = Some ep"
  shows "\<exists>ok d'. SendHandshakeInitiation C N p True d = Some (ok, d') \<and> wire d' \<noteq> wire d"
proof -
  note E = CreateMessageInitiation_env [OF assms(2)]
  have b: "begin_attempt p True d = d" by (simp add: begin_attempt_def)
  have sp: "signature_packets cs d2 = Some ([], d2)" if "concat (map opt_list cs) = []" for cs d2
    using that by (induction cs) (auto split: option.splits simp: opt_list_def)
  have "ipackets d1 = ipackets d" "junk_count d1 = 0" using E assms(4) b by (simp_all add: upd_hs_def upd_peer_def)
  then have "\<exists>ok d'. SendHandshakeInitiation C N p True d = Some (ok, d')"
    using assms(1-3) sp [of "ipackets d" d1] b by (simp add: SendHandshakeInitiation_def Let_def case_prod_beta)
  then obtain ok d' where s: "SendHandshakeInitiation C N p True d = Some (ok, d')" by blast
  moreover have "wire d' \<noteq> wire d"
    using s
  proof (cases rule: SendHandshakeInitiation_cases)
    case limited
    with assms(1) show ?thesis by simp
  next
    case (failed e)
    with assms(2) show ?thesis by simp
  next
    case (sent m' d2 sigs junk rnd)
    with assms(5) show ?thesis by simp
  qed
  ultimately show ?thesis by blast
qed

lemma initiating_device_facts:
  "target 0 initiating_device = Some far_end" "concat (map opt_list (ipackets initiating_device)) = []"
  "junk_count initiating_device = 0" "wire initiating_device = []"
  "RekeyTimeout \<le> since initiating_device (lastSentHandshake (hs_of initiating_device 0))"
  by (simp_all add: initiating_device_def upd_peer_def toy_device_def zero_Device_def hs_of_def target_def isClosed_def
      new_Peer_def new_Handshake_def since_def time_sub_def time_consts)

theorem initiation_arrives_witness:
  "\<exists>ok A' frame packet. SendHandshakeInitiation toy_crypto some_net 0 True initiating_device = Some (ok, A') \<and>
     wire A' = [([frame], far_end)] \<and>
     dispatch_datagram frame far_end (toy_device 2 1 0) =
       Some (To_Handshake \<lparr>he_msgType = MessageInitiationType, he_packet = packet, he_endpoint = far_end\<rparr>) \<and>
     CheckMAC1 toy_crypto (cookieChecker (toy_device 2 1 0)) packet"
proof -
  let ?A = initiating_device and ?B = "toy_device 2 1 0" and ?e = "(0 :: byte) # replicate 30 1 @ [65]"
  let ?st = "upd_hs 0 (\<lambda>H. H\<lparr>lastSentHandshake := now ?A\<rparr>) (begin_attempt 0 True ?A)"
  note defs = initiating_device_def begin_attempt_def upd_hs_def upd_peer_def toy_device_def zero_Device_def hs_of_def
  have e: "length ?e = 32" "?e ! 1 = 1" by (simp_all add: nth_append)
  have "\<exists>m d'. CreateMessageInitiation toy_crypto 0 ?st = Some (Inr m, d')"
    by (rule CreateMessageInitiation_succeeds [of _ _ _ 0])
      (simp_all add: defs not_full toy_eph new_Handshake_def IndexTable_Delete_def toy_nonzero [OF e] nonzero_nth [of 0])
  then obtain m d1 where m: "CreateMessageInitiation toy_crypto 0 ?st = Some (Inr m, d1)" by blast
  have t: "target 0 ?A = Some far_end" "concat (map opt_list (ipackets ?A)) = []" "junk_count ?A = 0" "wire ?A = []"
    "RekeyTimeout \<le> since ?A (lastSentHandshake (hs_of ?A 0))"
    by (fact initiating_device_facts)+
  obtain ok A' where s: "SendHandshakeInitiation toy_crypto some_net 0 True ?A = Some (ok, A')" "wire A' \<noteq> wire ?A"
    using SendHandshakeInitiation_runs [OF t(5) m t(2,3,1)] by blast
  have "cg_mac1_key (cookieGenerator (peers ?A 0)) = ck_mac1_key (cookieChecker ?B)" "headers_init ?B = headers_init ?A"
    "paddings_init ?B = paddings_init ?A" "0 \<le> paddings_init ?A" "mh_start (headers_init ?A) \<le> mh_end (headers_init ?A)"
    "length (publicKey ?A) = 32"
    by (simp_all add: defs new_Peer_def new_CookieGenerator_def new_CookieChecker_def header_for_def)
  from initiation_arrives [OF toy_crypto_ok s this, of far_end] obtain before frame to packet where
    "wire A' = wire ?A @ [(before @ [frame], to)]" "target 0 ?A = Some to"
    "length before = length (concat (map opt_list (ipackets ?A))) + nat (junk_count ?A)"
    "dispatch_datagram frame far_end ?B = Some (To_Handshake \<lparr>he_msgType = MessageInitiationType, he_packet = packet, he_endpoint = far_end\<rparr>)"
    "CheckMAC1 toy_crypto (cookieChecker ?B) packet"
    by blast
  then have "wire A' = [([frame], far_end)]" unfolding t(2,3,4) using t(1) by simp
  with s(1) show ?thesis using \<open>dispatch_datagram frame far_end ?B = _\<close> \<open>CheckMAC1 _ _ packet\<close> by blast
qed

section \<open>Keepalives\<close>

text \<open>C22. With a transport padding, keepalives are lost. The message of an empty packet has 32 bytes, and the
  sender leaves it without padding; a receiver with any transport padding drops a datagram of that size,
  whatever its key pairs, so a keepalive never arrives.\<close>

theorem keepalive_lost:
  assumes C: "crypto_ok C" and e: "encrypt_element C e A = Some (b, A1)" and f: "frame_packet b A1 = Some (isData, frame, A2)"
    and empty: "oe_packet e = []" and hdr: "mh_start (headers_transport A) \<le> mh_end (headers_transport A)" "0 \<le> tun_mtu A"
    and B: "framing_ok B" "0 < paddings_transport B"
  shows "\<not> isData \<and> frame = b \<and> length frame = MessageKeepaliveSize \<and> dispatch_datagram frame ep B = Some Dropped"
proof -
  obtain t k pad where E: "int pad = calculatePaddingSize 0 (tun_mtu A)"
    "b = transport_header t (kp_remoteIndex (keypairs A k)) (oe_nonce e)
      @ seal C (kp_send (keypairs A k)) (transport_nonce (oe_nonce e)) (replicate pad 0) []"
    using encrypt_element_spec [OF e hdr(1)] empty by auto
  have "calculatePaddingSize 0 (tun_mtu A) = 0"
    using hdr(2) by (simp add: calculatePaddingSize_def round_up_eq Let_def PaddingMultiple_def)
  then have lb: "length b = 32" using E C transport_header_fields(5) by (simp add: crypto_ok_def)
  have fr: "\<not> isData" "frame = b" using f lb by (simp_all add: frame_packet_def message_sizes)
  have skip: "int 32 \<noteq> paddings_init B + int MessageInitiationSize" "int 32 \<noteq> paddings_response B + int MessageResponseSize"
    "int 32 \<noteq> paddings_cookie B + int MessageCookieReplySize"
    using B(1) by (simp_all add: framing_ok_def message_sizes)
  have "DeterminePacketTypeAndPadding b MessageUnknownType B \<in>
      {Some (MessageTransportType, paddings_transport B), Some (MessageUnknownType, 0)}"
    unfolding DeterminePacketTypeAndPadding_def Let_def lb try_type_def using skip B(2) by simp
  then have "dispatch_datagram b ep B = Some Dropped"
    using B(2) by (elim insertE) (simp_all add: dispatch_datagram_def lb MinMessageSize_def message_sizes message_types)
  with fr lb show ?thesis by (simp add: message_sizes)
qed

lemma toy_keepalive:
  "\<exists>b A1. encrypt_element toy_crypto \<lparr>oe_packet = [], oe_nonce = 5, oe_keypair = Some 0\<rparr> sending_device = Some (b, A1) \<and>
     frame_packet b A1 = Some (False, b, A1)"
  by (simp add: encrypt_element_def gen_header_def Generate_def sending_device_def zero_Device_def header_for_def
      calculatePaddingSize_def round_up_eq Let_def PaddingMultiple_def toy_crypto_def frame_packet_def transport_header_def
      read_rand_def rand_read_def MaxMessageSize_def message_sizes new_Keypair_def zero32_def)

theorem keepalive_lost_witness:
  "\<exists>b A1. encrypt_element toy_crypto \<lparr>oe_packet = [], oe_nonce = 5, oe_keypair = Some 0\<rparr> sending_device = Some (b, A1) \<and>
     frame_packet b A1 = Some (False, b, A1) \<and>
     dispatch_datagram b \<lparr>ep_addr = [10, 0, 0, 1], ep_port = 51820, ep_src = []\<rparr> receiver = Some Dropped"
proof -
  obtain b A1 where t: "encrypt_element toy_crypto \<lparr>oe_packet = [], oe_nonce = 5, oe_keypair = Some 0\<rparr> sending_device = Some (b, A1)"
    "frame_packet b A1 = Some (False, b, A1)"
    using toy_keepalive by blast
  then show ?thesis
    using keepalive_lost [OF toy_crypto_ok t, of receiver] by (simp add: framing_ok_def receiver_def sending_device_def zero_Device_def header_for_def)
qed

section \<open>Load shedding\<close>

lemma CreateReply_shape:
  assumes "crypto_ok C" "CreateReply C t msg recv src ty r ck = (reply, ck', r')"
  shows "cookie_reply_ok reply"
  using assms by (auto simp: CreateReply_def Let_def cookie_reply_ok_def crypto_ok_def rand_read_def split: if_splits prod.splits)

lemma SendHandshakeCookie_spec:
  assumes "crypto_ok C" "SendHandshakeCookie C e d = Some d'"
  shows "\<exists>reply ck r dc. d' = d\<lparr>dice := dc, cookieChecker := ck, rng_state := r, wire := wire d @ [([reply], he_endpoint e)]\<rparr> \<and>
    length reply = nat (paddings_cookie d) + MessageCookieReplySize"
proof -
  obtain ty d1 where g: "gen_header (headers_cookie d) d = Some (ty, d1)"
    using assms(2) by (auto simp: SendHandshakeCookie_def bind_eq_Some_conv)
  have d1: "d1 = d\<lparr>dice := \<lambda>i. dice d (Suc i)\<rparr>" by (rule gen_header_frame [OF g])
  obtain reply ck r where c: "CreateReply C (now d1) (he_packet e) (get_u32_le (go_slice 4 8 (he_packet e))) (DstToBytes (he_endpoint e)) ty
      (rng_state d1) (cookieChecker d1) = (reply, ck, r)" by (metis prod_cases3)
  let ?d2 = "d1\<lparr>cookieChecker := ck, rng_state := r\<rparr>"
  obtain rnd r2 where p: "pad_front (paddings_cookie ?d2) (marshal_cookie_reply reply) ?d2 =
      (rnd @ marshal_cookie_reply reply, ?d2\<lparr>rng_state := r2\<rparr>)" "length rnd = nat (paddings_cookie ?d2)"
    using pad_front_frame by blast
  have "d' = ?d2\<lparr>rng_state := r2, wire := wire d @ [([rnd @ marshal_cookie_reply reply], he_endpoint e)]\<rparr>"
    using assms(2) g c p(1) d1 by (simp add: SendHandshakeCookie_def Let_def)
  moreover have "length (rnd @ marshal_cookie_reply reply) = nat (paddings_cookie d) + MessageCookieReplySize"
    using p(2) marshal_lengths(3) [OF CreateReply_shape [OF assms(1) c]] d1 by simp
  ultimately show ?thesis
    by (intro exI [of _ "rnd @ marshal_cookie_reply reply"] exI [of _ ck] exI [of _ r2] exI [of _ "\<lambda>i. dice d (Suc i)"]) (simp add: d1)
qed

lemma IsUnderLoad_frame: "\<exists>u. snd (IsUnderLoad d) = d\<lparr>underLoadUntil := u\<rparr>"
  by (cases "QueueHandshakeSize div 8 \<le> length (q_handshake d)") (auto simp: IsUnderLoad_def intro: exI [of _ "underLoadUntil d"])

text \<open>C13. Under load the device does no work for strangers. A handshake message whose first code is wrong changes
  nothing at all; one without a valid cookie, while the device is under load, gets a cookie reply of 64
  bytes and the padding, sent to where it came from, and no peer, key pair or index is touched.\<close>

theorem load_shedding:
  assumes C: "crypto_ok C" and ty: "he_msgType e \<in> {MessageInitiationType, MessageResponseType}"
    and h: "handle_handshake C N e d = Some d'"
    and refused: "\<not> CheckMAC1 C (cookieChecker d) (he_packet e) \<or>
      fst (IsUnderLoad d) \<and> \<not> CheckMAC2 C (now d) (cookieChecker d) (he_packet e) (DstToBytes (he_endpoint e))"
  shows "peers d' = peers d \<and> keypairs d' = keypairs d \<and> indexTable d' = indexTable d \<and> tun_out d' = tun_out d \<and>
    (if CheckMAC1 C (cookieChecker d) (he_packet e)
     then \<exists>reply. wire d' = wire d @ [([reply], he_endpoint e)] \<and> length reply = nat (paddings_cookie d) + MessageCookieReplySize
     else d' = d)"
proof -
  have h': "(do { (ok, d) \<leftarrow> admit_handshake C e d;
      if \<not> ok then Some d
      else if he_msgType e = MessageInitiationType then handle_initiation C N e d
      else handle_response C N e d }) = Some d'"
    using h ty by (auto simp: handle_handshake_def message_types)
  show ?thesis
  proof (cases "CheckMAC1 C (cookieChecker d) (he_packet e)")
    case False
    then have "d' = d" using h' by (simp add: admit_handshake_def)
    with False show ?thesis by simp
  next
    case True
    obtain u where u: "IsUnderLoad d = (True, d\<lparr>underLoadUntil := u\<rparr>)"
      using refused True IsUnderLoad_frame [of d] by (metis prod.collapse)
    let ?d = "d\<lparr>underLoadUntil := u\<rparr>"
    have s: "SendHandshakeCookie C e ?d = Some d'"
      using h' True refused u by (cases "SendHandshakeCookie C e ?d") (simp_all add: admit_handshake_def)
    from SendHandshakeCookie_spec [OF C s] True show ?thesis by auto
  qed
qed

definition knocking :: QueueHandshakeElement where
  "knocking = \<lparr>he_msgType = MessageInitiationType, he_packet = fst (AddMacs toy_crypto 5 (replicate 148 3) new_CookieGenerator),
     he_endpoint = far_end\<rparr>"

definition loaded_device :: Device where
  "loaded_device = zero_Device\<lparr>now := 10 ^ 18, q_handshake := replicate 128 knocking\<rparr>"

lemma knocking_refused:
  "CheckMAC1 toy_crypto (cookieChecker loaded_device) (he_packet knocking)" "fst (IsUnderLoad loaded_device)"
  "\<not> CheckMAC2 toy_crypto (now loaded_device) (cookieChecker loaded_device) (he_packet knocking) src"
proof -
  show "CheckMAC1 toy_crypto (cookieChecker loaded_device) (he_packet knocking)"
    unfolding knocking_def QueueHandshakeElement.simps
    by (rule CheckMAC1_AddMacs [OF toy_crypto_ok]) (simp_all add: loaded_device_def zero_Device_def new_CookieGenerator_def new_CookieChecker_def)
qed (simp_all add: loaded_device_def zero_Device_def IsUnderLoad_def QueueHandshakeSize_def UnixNano_def CheckMAC2_def time_sub_def
    CookieRefreshTime_def Second_def new_CookieChecker_def)

theorem load_shedding_witness:
  "\<exists>d' reply. handle_handshake toy_crypto some_net knocking loaded_device = Some d' \<and> wire d' = [([reply], far_end)] \<and> length reply = 64"
proof -
  obtain u where u: "IsUnderLoad loaded_device = (True, loaded_device\<lparr>underLoadUntil := u\<rparr>)"
    using knocking_refused(2) IsUnderLoad_frame [of loaded_device] by (metis prod.collapse)
  let ?d = "loaded_device\<lparr>underLoadUntil := u\<rparr>"
  have "\<exists>d'. SendHandshakeCookie toy_crypto knocking d = Some d'" if "headers_cookie d = header_for 3" for d
    using gen_header_returns [of "header_for 3" d] that not_full by (fastforce simp: SendHandshakeCookie_def case_prod_beta Let_def header_for_def)
  moreover have "headers_cookie ?d = header_for 3" by (simp add: loaded_device_def zero_Device_def)
  ultimately obtain d' where c: "SendHandshakeCookie toy_crypto knocking ?d = Some d'" by blast
  have m: "CheckMAC1 toy_crypto (cookieChecker loaded_device) (he_packet knocking)"
    "\<not> CheckMAC2 toy_crypto (now ?d) (cookieChecker ?d) (he_packet knocking) (DstToBytes (he_endpoint knocking))"
    using knocking_refused by simp_all
  have "admit_handshake toy_crypto knocking loaded_device = Some (False, d')"
    using m u c by (simp add: admit_handshake_def)
  then have h: "handle_handshake toy_crypto some_net knocking loaded_device = Some d'"
    by (simp add: handle_handshake_def knocking_def message_types)
  have ty: "he_msgType knocking \<in> {MessageInitiationType, MessageResponseType}" by (simp add: knocking_def)
  from load_shedding [OF toy_crypto_ok ty h] knocking_refused h show ?thesis
    by (auto simp: loaded_device_def zero_Device_def message_sizes knocking_def)
qed
section \<open>Stated lengths\<close>

lemma unat_plus_40: "unat (w + 40 :: u16) = (unat w + 40) mod 65536"
  by (simp add: unat_word_ariths)

text \<open>A delivered packet has the length its header states, and is the beginning of what was decrypted; an
  IPv4 packet is never cut into its header. The IPv6 length is added up in 16 bits: a stated payload of
  65496 bytes or more is accepted, and the packet is cut inside its header.\<close>

theorem inbound_ip_cut:
  assumes "inbound_ip packet = Some (out, src)"
  shows "out = take (length out) packet \<and>
    (if drop_bit 4 (packet ! 0) = 4
     then 20 \<le> length out \<and> length out = unat (get_u16_be (go_slice 2 4 packet)) \<and> src = go_slice 12 16 packet
     else drop_bit 4 (packet ! 0) = 6 \<and> 40 \<le> length packet \<and> src = go_slice 8 24 packet \<and>
       (let payload = unat (get_u16_be (go_slice 4 6 packet))
        in length out = (if payload < 65496 then payload + 40 else payload - 65496) \<and> (65496 \<le> payload \<longleftrightarrow> length out < 40)))"
proof (cases "drop_bit 4 (packet ! 0) = 4")
  case True
  with assms show ?thesis by (auto simp: inbound_ip_def Let_def split: if_splits)
next
  case False
  let ?w = "get_u16_be (go_slice 4 6 packet)"
  have p: "drop_bit 4 (packet ! 0) = 6" "40 \<le> length packet" "unat (?w + 40) \<le> length packet"
    "out = take (unat (?w + 40)) packet" "src = go_slice 8 24 packet"
    using assms False by (auto simp: inbound_ip_def Let_def split: if_splits)
  then have l: "length out = (unat ?w + 40) mod 65536" by (simp add: unat_plus_40)
  have "unat ?w < 65536" using unat_u16_less [of ?w] by simp
  then have "(unat ?w + 40) mod 65536 = (if unat ?w < 65496 then unat ?w + 40 else unat ?w - 65496)"
    by (simp add: mod_if)
  moreover have "unat ?w - 65496 < 40" using \<open>unat ?w < 65536\<close> by simp
  ultimately show ?thesis using False p l by (auto simp: Let_def)
qed

theorem inbound_ip_cut_witness:
  "\<exists>out src. inbound_ip ([96, 0, 0, 0, 255, 255, 17, 64] @ replicate 32 1) = Some (out, src) \<and> length out = 39"
proof -
  let ?p = "[96, 0, 0, 0, 255, 255, 17, 64] @ replicate 32 (1 :: byte)"
  have w: "get_u16_be (go_slice 4 6 ?p) = 65535" by (simp add: get_u16_be_def go_slice_def be_nat_def)
  have v: "drop_bit 4 (?p ! 0) = (6 :: byte)" by (simp add: drop_bit_eq_div)
  obtain out src where o: "inbound_ip ?p = Some (out, src)" using w v by (simp add: inbound_ip_def Let_def)
  from inbound_ip_cut [OF o] o show ?thesis unfolding w v by (auto simp: Let_def)
qed

section \<open>Failing reads\<close>

text \<open>The receiver of a socket goes on after at most ten reads in a row that fail, and stops at the eleventh.\<close>

lemma receiver_goes_on:
  "n + k \<le> 10 \<Longrightarrow>
    RoutineReceiveIncoming (replicate n (Recv_Failed False) @ rs) k d = RoutineReceiveIncoming rs (n + k) d"
  by (induction n arbitrary: k) simp_all

theorem receiver_gives_up:
  "RoutineReceiveIncoming (replicate 11 (Recv_Failed False) @ rs) 0 d = Some (rs, d)"
proof -
  have "replicate 11 (Recv_Failed False) @ rs = replicate 10 (Recv_Failed False) @ Recv_Failed False # rs"
    by (simp add: numeral_eq_Suc)
  then show ?thesis using receiver_goes_on [of 10 0] by simp
qed

end
