(* ===== verification/Device_Life.thy ===== *)
theory Device_Life
  imports Receive
begin

text \<open>
  \<open>device/device.go\<close>, the rest of \<open>device/peer.go\<close>, \<open>device/tun.go\<close> and \<open>device/devicestate_string.go\<close>: the life of a
  device and of its peers. A device goes up and down and is closed once; peers are added, started, stopped
  and removed; the private key is replaced; the bind is opened and closed with the state. Where the code
  ranges over its map of peers the model goes through the list \<open>keyMap\<close>; Go's order is unspecified.
\<close>

definition MaxPeers :: nat where "MaxPeers = 2 ^ 16"
definition DefaultMTU :: int where "DefaultMTU = 1420"
definition MaxContentSize :: int where "MaxContentSize = int MaxMessageSize - int MessageTransportSize"

datatype device_error = Device_Closed | Too_Many_Peers | Adding_Existing_Peer
  | Bind_Close_Failed | Bind_Open_Failed | Route_Listener_Failed | Set_Mark_Failed

text \<open>A loop whose body may panic.\<close>

fun each :: "('a \<Rightarrow> 'b \<Rightarrow> 'b option) \<Rightarrow> 'a list \<Rightarrow> 'b \<Rightarrow> 'b option" where
  "each f [] d = Some d"
| "each f (x # xs) d = do { d \<leftarrow> f x d; each f xs d }"

section \<open>Peers\<close>

definition NewPeer :: "crypto \<Rightarrow> bytes \<Rightarrow> Device \<Rightarrow> (device_error + pid) \<times> Device" where
  "NewPeer C pk d =
     (if isClosed d then (Inl Device_Closed, d)
      else if MaxPeers \<le> length (keyMap d) then (Inl Too_Many_Peers, d)
      else if LookupPeer d pk \<noteq> None then (Inl Adding_Existing_Peer, d)
      else
        let p = peer_count d;
            P = new_Peer\<lparr>cookieGenerator := CookieGenerator_Init C pk new_CookieGenerator\<rparr>;
            P = P\<lparr>handshake := (handshake P)
                   \<lparr>precomputedStaticStatic := fst (sharedSecret C (privateKey d) pk), remoteStatic := pk\<rparr>\<rparr>;
            P = P\<lparr>ep_val := None, disableRoaming := False, clearSrcOnTx := False\<rparr>;
            d = timersInit p (d\<lparr>peers := (peers d)(p := P), peer_count := Suc p\<rparr>)
        in (Inr p, d\<lparr>keyMap := keyMap d @ [(pk, p)]\<rparr>))"

definition Start :: "pid \<Rightarrow> Device \<Rightarrow> Device" where
  "Start p d =
     (if isClosed d then d
      else if isRunning (peers d p) then d
      else
        let d = upd_hs p (\<lambda>H. H\<lparr>lastSentHandshake := now d - (RekeyTimeout + Second)\<rparr>) d;
            d = timersStart p d;
            d = upd_peer p (\<lambda>P. P\<lparr>q_inbound := [], q_outbound := []\<rparr>) d
        in upd_peer p (\<lambda>P. P\<lparr>isRunning := True\<rparr>) d)"

text \<open>Stopping a peer: its receiver still handles the containers that are queued before the signal to exit,
  its sender drops them because the peer is not running.\<close>

definition Stop :: "crypto \<Rightarrow> Net \<Rightarrow> pid \<Rightarrow> Device \<Rightarrow> Device option" where
  "Stop C N p d =
     (if \<not> isRunning (peers d p) then Some d
      else do {
        let d = timersStop p (upd_peer p (\<lambda>P. P\<lparr>isRunning := False\<rparr>) d);
        let queued = q_inbound (peers d p);
        d \<leftarrow> each (\<lambda>es d. RoutineSequentialReceiver C N p (map (decrypt_element C d) es) d) queued
               (upd_peer p (\<lambda>P. P\<lparr>q_inbound := [], q_outbound := []\<rparr>) d);
        Some (ZeroAndFlushAll p d)
      })"

text \<open>\<open>peer(AbCd...wXyZ)\<close>: the arithmetic is that of bytes and of \<open>int\<close>, whose shift is arithmetic.\<close>

definition b64 :: "byte \<Rightarrow> byte" where
  "b64 input =
     (let v = int (unat input) in
      input + 65 + word_of_int (drop_bit 8 (25 - v) AND 6) - word_of_int (drop_bit 8 (51 - v) AND 75)
        - word_of_int (drop_bit 8 (61 - v) AND 15) + word_of_int (drop_bit 8 (62 - v) AND 3))"

definition peer_String :: "bytes \<Rightarrow> bytes" where
  "peer_String src =
     ascii ''peer('' @
     [b64 (drop_bit 2 (src ! 0) AND 63), b64 ((push_bit 4 (src ! 0) OR drop_bit 4 (src ! 1)) AND 63),
      b64 ((push_bit 2 (src ! 1) OR drop_bit 6 (src ! 2)) AND 63), b64 (src ! 2 AND 63)] @ [0xE2, 0x80, 0xA6] @
     [b64 (src ! 29 AND 63), b64 (drop_bit 2 (src ! 30) AND 63),
      b64 ((push_bit 4 (src ! 30) OR drop_bit 4 (src ! 31)) AND 63), b64 (push_bit 2 (src ! 31) AND 63)] @ ascii '')''"

definition removePeerLocked :: "crypto \<Rightarrow> Net \<Rightarrow> pid \<Rightarrow> bytes \<Rightarrow> Device \<Rightarrow> Device option" where
  "removePeerLocked C N p key d =
     do { d \<leftarrow> Stop C N p (d\<lparr>allowedips := RemoveByPeer p (allowedips d)\<rparr>);
          Some (d\<lparr>keyMap := filter (\<lambda>(k, q). k \<noteq> key) (keyMap d)\<rparr>) }"

definition RemovePeer :: "crypto \<Rightarrow> Net \<Rightarrow> bytes \<Rightarrow> Device \<Rightarrow> Device option" where
  "RemovePeer C N key d =
     (case LookupPeer d key of None \<Rightarrow> Some d | Some p \<Rightarrow> removePeerLocked C N p key d)"

definition RemoveAllPeers :: "crypto \<Rightarrow> Net \<Rightarrow> Device \<Rightarrow> Device option" where
  "RemoveAllPeers C N d =
     do { d \<leftarrow> each (\<lambda>(key, p) d. removePeerLocked C N p key d) (keyMap d) d; Some (d\<lparr>keyMap := []\<rparr>) }"

section \<open>The bind\<close>

text \<open>\<open>net_open\<close> says that the bind was opened since it was closed last.\<close>

definition closeBindLocked :: "Net \<Rightarrow> Device \<Rightarrow> device_error option \<times> Device" where
  "closeBindLocked N d = ((if net_close N then None else Some Bind_Close_Failed), d\<lparr>net_open := False\<rparr>)"

definition BindClose :: "Net \<Rightarrow> Device \<Rightarrow> device_error option \<times> Device" where
  "BindClose N d = closeBindLocked N d"

definition clear_cached_sources :: "Device \<Rightarrow> Device" where
  "clear_cached_sources d = foldl (\<lambda>d (key, p). markEndpointSrcForClearing p d) d (keyMap d)"

definition BindSetMark :: "Net \<Rightarrow> u32 \<Rightarrow> Device \<Rightarrow> device_error option \<times> Device" where
  "BindSetMark N mark d =
     (if net_fwmark d = mark then (None, d)
      else
        let d = d\<lparr>net_fwmark := mark\<rparr> in
        if isUp d \<and> \<not> net_setmark N mark then (Some Set_Mark_Failed, d)
        else (None, clear_cached_sources d))"

definition BindUpdate :: "Net \<Rightarrow> Device \<Rightarrow> device_error option \<times> Device" where
  "BindUpdate N d =
     (let (err, d) = closeBindLocked N d in
      if err \<noteq> None then (err, d)
      else if \<not> isUp d then (None, d)
      else case net_open_port N (net_port d) of
        None \<Rightarrow> (Some Bind_Open_Failed, d\<lparr>net_port := 0\<rparr>)
      | Some port \<Rightarrow>
          let d = d\<lparr>net_port := port, net_open := True\<rparr> in
          if \<not> net_listener N then (Some Route_Listener_Failed, d\<lparr>net_open := False, net_port := 0\<rparr>)
          else if net_fwmark d \<noteq> 0 \<and> \<not> net_setmark N (net_fwmark d) then (Some Set_Mark_Failed, d)
          else (None, clear_cached_sources d))"

section \<open>The state of the device\<close>

definition upLocked :: "crypto \<Rightarrow> Net \<Rightarrow> Device \<Rightarrow> (device_error option \<times> Device) option" where
  "upLocked C N d =
     (let (err, d) = BindUpdate N d in
      if err \<noteq> None then Some (err, d)
      else do {
        d \<leftarrow> each (\<lambda>(key, p) d.
                 let d = Start p d in
                 if 0 < persistentKeepaliveInterval (peers d p) then SendKeepalive C N p d else Some d) (keyMap d) d;
        Some (None, d)
      })"

definition downLocked :: "crypto \<Rightarrow> Net \<Rightarrow> Device \<Rightarrow> (device_error option \<times> Device) option" where
  "downLocked C N d =
     (let (err, d) = BindClose N d in
      do { d \<leftarrow> each (\<lambda>(key, p) d. Stop C N p d) (keyMap d) d; Some (err, d) })"

text \<open>A failed \<open>Up\<close> falls through to the branch of \<open>Down\<close>.\<close>

definition bring_down :: "crypto \<Rightarrow> Net \<Rightarrow> device_error option \<Rightarrow> Device \<Rightarrow> (device_error option \<times> Device) option" where
  "bring_down C N err d =
     do { (errDown, d) \<leftarrow> downLocked C N (d\<lparr>dev_state := deviceStateDown\<rparr>);
          Some (if err = None then errDown else err, d) }"

definition changeState :: "crypto \<Rightarrow> Net \<Rightarrow> deviceState \<Rightarrow> Device \<Rightarrow> (device_error option \<times> Device) option" where
  "changeState C N want d =
     (let old = dev_state d in
      if old = deviceStateClosed then Some (None, d)
      else if want = old then Some (None, d)
      else case want of
        deviceStateUp \<Rightarrow>
          do { (err, d) \<leftarrow> upLocked C N (d\<lparr>dev_state := deviceStateUp\<rparr>);
               if err = None then Some (None, d) else bring_down C N err d }
      | deviceStateDown \<Rightarrow> bring_down C N None d
      | deviceStateClosed \<Rightarrow> Some (None, d))"

definition Up :: "crypto \<Rightarrow> Net \<Rightarrow> Device \<Rightarrow> (device_error option \<times> Device) option" where
  "Up C N d = changeState C N deviceStateUp d"

definition Down :: "crypto \<Rightarrow> Net \<Rightarrow> Device \<Rightarrow> (device_error option \<times> Device) option" where
  "Down C N d = changeState C N deviceStateDown d"

definition Device_Close :: "crypto \<Rightarrow> Net \<Rightarrow> Device \<Rightarrow> Device option" where
  "Device_Close C N d =
     (if isClosed d then Some d
      else do {
        (err, d) \<leftarrow> downLocked C N (d\<lparr>dev_state := deviceStateClosed\<rparr>);
        d \<leftarrow> RemoveAllPeers C N d;
        Some (d\<lparr>limiter := Close (limiter d), dev_closed := True\<rparr>)
      })"

definition SendKeepalivesToPeersWithCurrentKeypair :: "crypto \<Rightarrow> Net \<Rightarrow> Device \<Rightarrow> Device option" where
  "SendKeepalivesToPeersWithCurrentKeypair C N d =
     (if \<not> isUp d then Some d
      else each (\<lambda>(key, p) d.
             case kp_current (peers d p) of
               None \<Rightarrow> Some d
             | Some k \<Rightarrow>
                 if \<not> created (keypairs d k) + RejectAfterTime < now d then SendKeepalive C N p d else Some d)
           (keyMap d) d)"

text \<open>Setting the private key. A peer whose static key is the new public key is removed.\<close>

definition SetPrivateKey :: "crypto \<Rightarrow> Net \<Rightarrow> bytes \<Rightarrow> Device \<Rightarrow> Device option" where
  "SetPrivateKey C N sk d =
     (if sk = privateKey d then Some d
      else do {
        let pk = publicKey_of C sk;
        d \<leftarrow> each (\<lambda>(key, p) d. if remoteStatic (hs_of d p) = pk then removePeerLocked C N p key d else Some d) (keyMap d) d;
        let d = d\<lparr>privateKey := sk, publicKey := pk, cookieChecker := CookieChecker_Init C pk (cookieChecker d)\<rparr>;
        let expiredPeers = map snd (keyMap d);
        let d = foldl (\<lambda>d p. upd_hs p (\<lambda>H. H\<lparr>precomputedStaticStatic := fst (sharedSecret C sk (remoteStatic H))\<rparr>) d) d expiredPeers;
        Some (foldl (\<lambda>d p. ExpireCurrentKeypairs p d) d expiredPeers)
      })"

text \<open>A new device, over a TUN device whose MTU is \<open>mtu\<close> (\<open>None\<close> when it cannot be read), at a time, with what
  random input is to come.\<close>

definition NewDevice :: "int option \<Rightarrow> Time \<Rightarrow> rng \<Rightarrow> (nat \<Rightarrow> nat) \<Rightarrow> Device" where
  "NewDevice mtu t r c = zero_Device
     \<lparr>dev_state := deviceStateDown, tun_mtu := (case mtu of None \<Rightarrow> DefaultMTU | Some m \<Rightarrow> m), keyMap := [],
      limiter := Init, indexTable := Map.empty,
      headers_init := header_for MessageInitiationType, headers_response := header_for MessageResponseType,
      headers_cookie := header_for MessageCookieReplyType, headers_transport := header_for MessageTransportType,
      now := t, rng_state := r, dice := c\<rparr>"

section \<open>Events of the TUN device\<close>

record TunEvent =
  ev_mtu_event :: bool
  ev_mtu :: "int option"
  ev_up :: bool
  ev_down :: bool

definition update_mtu :: "TunEvent \<Rightarrow> Device \<Rightarrow> (bool \<times> Device)" where
  "update_mtu ev d =
     (if \<not> ev_mtu_event ev then (True, d)
      else case ev_mtu ev of
        None \<Rightarrow> (False, d)
      | Some mtu \<Rightarrow> if mtu < 0 then (False, d)
                    else (True, d\<lparr>tun_mtu := (if mtu > MaxContentSize then MaxContentSize else mtu)\<rparr>))"

definition RoutineTUNEventReader :: "crypto \<Rightarrow> Net \<Rightarrow> TunEvent \<Rightarrow> Device \<Rightarrow> Device option" where
  "RoutineTUNEventReader C N ev d =
     (let (continue_handling, d) = update_mtu ev d in
      if \<not> continue_handling then Some d
      else do {
        d \<leftarrow> (if ev_up ev then map_option snd (Up C N d) else Some d);
        if ev_down ev then map_option snd (Down C N d) else Some d
      })"

definition deviceState_String :: "nat \<Rightarrow> string" where
  "deviceState_String i =
     (let names = ''DownUpClosed''; index = [0, 4, 6, 12 :: nat] in
      if length index - 1 \<le> i then ''deviceState('' @ show_nat i @ '')'' else go_slice (index ! i) (index ! (i + 1)) names)"

end
