(* ===== verification/Netip.thy ===== *)
theory Netip
  imports Go_Text
begin

text \<open>
  The functions of \<open>net/netip\<close> and of \<open>bufio\<close> that the configuration code calls: parsing and printing IP
  addresses and prefixes, and splitting text into lines. An address is its 4 or 16 bytes.
\<close>

section \<open>Parsing addresses\<close>

text \<open>The dotted form. The state is the value and the number of digits of the field under way and the
  fields before it.\<close>

fun parseIPv4Fields :: "string \<Rightarrow> nat \<Rightarrow> nat \<Rightarrow> bytes \<Rightarrow> bytes option" where
  "parseIPv4Fields [] val digLen fields =
     (if digLen = 0 \<or> length fields < 3 then None else Some (fields @ [word_of_nat val]))"
| "parseIPv4Fields (c # cs) val digLen fields =
     (case digit_of c of
        Some d \<Rightarrow>
          if digLen = 1 \<and> val = 0 then None
          else if 255 < 10 * val + d then None
          else parseIPv4Fields cs (10 * val + d) (Suc digLen) fields
      | None \<Rightarrow>
          if c \<noteq> CHR ''.'' \<or> digLen = 0 \<or> cs = [] \<or> length fields = 3 then None
          else parseIPv4Fields cs 0 0 (fields @ [word_of_nat val]))"

text \<open>Up to four hexadecimal digits: the digits' value, how many there were, and the rest. A fifth digit
  is an error.\<close>

fun hex_group :: "string \<Rightarrow> nat \<Rightarrow> nat \<Rightarrow> (nat \<times> nat \<times> string) option" where
  "hex_group [] acc off = Some (acc, off, [])"
| "hex_group (c # cs) acc off =
     (case hex_val c of
        None \<Rightarrow> Some (acc, off, c # cs)
      | Some v \<Rightarrow> if 3 < off then None else hex_group cs (16 * acc + v) (Suc off))"

text \<open>The loop over the groups of an IPv6 address: the bytes so far, the place of the ellipsis. It ends with
  the bytes, the ellipsis and what is left of the string.\<close>

function parse_groups :: "string \<Rightarrow> bytes \<Rightarrow> nat option \<Rightarrow> (bytes \<times> nat option \<times> string) option" where
  "parse_groups s ip ellipsis =
     (if 16 \<le> length ip then Some (ip, ellipsis, s)
      else case hex_group s 0 0 of
        None \<Rightarrow> None
      | Some (acc, off, rest) \<Rightarrow>
          if off = 0 then None
          else if rest \<noteq> [] \<and> hd rest = CHR ''.'' then
            (if ellipsis = None \<and> length ip \<noteq> 12 then None
             else if 16 < length ip + 4 then None
             else case parseIPv4Fields s 0 0 [] of
               None \<Rightarrow> None
             | Some v4 \<Rightarrow> Some (ip @ v4, ellipsis, []))
          else
            (let ip' = ip @ [word_of_nat (acc div 256), word_of_nat (acc mod 256)] in
             case rest of
               [] \<Rightarrow> Some (ip', ellipsis, [])
             | [c] \<Rightarrow> None
             | c # c' # cs \<Rightarrow>
                 if c \<noteq> CHR '':'' then None
                 else if c' = CHR '':'' then
                   (if ellipsis \<noteq> None then None
                    else if cs = [] then Some (ip', Some (length ip'), [])
                    else parse_groups cs ip' (Some (length ip')))
                 else parse_groups (c' # cs) ip' ellipsis))"
  by pat_completeness auto
termination
  by (relation "measure (\<lambda>(s, ip, e). 16 - length ip)") auto

declare parse_groups.simps [simp del]

definition expand_ellipsis :: "bytes \<Rightarrow> nat \<Rightarrow> bytes" where
  "expand_ellipsis ip e = take e ip @ replicate (16 - length ip) 0 @ drop e ip"

text \<open>The address and whether it has a zone; a zone is kept by the code only to refuse it in prefixes.\<close>

definition parseIPv6 :: "string \<Rightarrow> (bytes \<times> bool) option" where
  "parseIPv6 str =
     (let (s, zone) = (case Cut str (CHR ''%'') of None \<Rightarrow> (str, None) | Some (s, z) \<Rightarrow> (s, Some z)) in
      if zone = Some [] then None
      else
        let lead = take 2 s = ''::'';
            s = (if lead then drop 2 s else s);
            zoned = (zone \<noteq> None)
        in if lead \<and> s = [] then Some (replicate 16 0, zoned)
           else case parse_groups s [] (if lead then Some 0 else None) of
             None \<Rightarrow> None
           | Some (ip, ellipsis, rest) \<Rightarrow>
               if rest \<noteq> [] then None
               else if length ip < 16 then
                 (case ellipsis of None \<Rightarrow> None | Some e \<Rightarrow> Some (expand_ellipsis ip e, zoned))
               else if ellipsis \<noteq> None then None
               else Some (ip, zoned))"

text \<open>The first of \<open>.\<close>, \<open>:\<close> and \<open>%\<close> decides the form.\<close>

definition ParseAddr :: "string \<Rightarrow> (bytes \<times> bool) option" where
  "ParseAddr s =
     (case dropWhile (\<lambda>c. c \<noteq> CHR ''.'' \<and> c \<noteq> CHR '':'' \<and> c \<noteq> CHR ''%'') s of
        [] \<Rightarrow> None
      | c # _ \<Rightarrow>
          if c = CHR ''.'' then map_option (\<lambda>ip. (ip, False)) (parseIPv4Fields s 0 0 [])
          else if c = CHR '':'' then parseIPv6 s
          else None)"

definition LastCut :: "string \<Rightarrow> char \<Rightarrow> (string \<times> string) option" where
  "LastCut s c = (case Cut (rev s) c of None \<Rightarrow> None | Some (b, a) \<Rightarrow> Some (rev a, rev b))"

definition ParsePrefix :: "string \<Rightarrow> (bytes \<times> nat) option" where
  "ParsePrefix s =
     (case LastCut s (CHR ''/'') of
        None \<Rightarrow> None
      | Some (addr, bitsStr) \<Rightarrow>
          (case ParseAddr addr of
             None \<Rightarrow> None
           | Some (ip, zoned) \<Rightarrow>
               if zoned then None
               else if 1 < length bitsStr \<and> (case digit_of (hd bitsStr) of None \<Rightarrow> True | Some d \<Rightarrow> d = 0) then None
               else case Atoi bitsStr of
                 None \<Rightarrow> None
               | Some bits \<Rightarrow>
                   if bits < 0 \<or> int (8 * length ip) < bits then None else Some (ip, nat bits)))"

section \<open>Printing addresses\<close>

definition string4 :: "bytes \<Rightarrow> string" where
  "string4 ip = show_nat (unat (ip ! 0)) @ ''.'' @ show_nat (unat (ip ! 1)) @ ''.'' @ show_nat (unat (ip ! 2))
     @ ''.'' @ show_nat (unat (ip ! 3))"

fun groups_of :: "bytes \<Rightarrow> nat list" where
  "groups_of (a # b # bs) = (unat a * 256 + unat b) # groups_of bs"
| "groups_of _ = []"

text \<open>The first longest run of at least two zero groups: where it starts and ends; 255 when there is none.\<close>

definition zero_run :: "nat list \<Rightarrow> nat \<Rightarrow> nat" where
  "zero_run gs i = i + length (takeWhile (\<lambda>g. g = 0) (drop i gs))"

definition longest_run :: "nat list \<Rightarrow> nat \<times> nat" where
  "longest_run gs =
     foldl (\<lambda>(s, e) i. let j = zero_run gs i in if 2 \<le> j - i \<and> e - s < j - i then (i, j) else (s, e)) (255, 255) [0..<8]"

fun show_hex :: "nat \<Rightarrow> string" where
  "show_hex n = (if n < 16 then [hex_char n] else show_hex (n div 16) @ [hex_char (n mod 16)])"

declare show_hex.simps [simp del]

function print_groups :: "nat list \<Rightarrow> nat \<Rightarrow> nat \<Rightarrow> nat \<Rightarrow> string" where
  "print_groups gs zs ze i =
     (if 8 \<le> i then []
      else if i = zs \<and> zs < ze then
        ''::'' @ (if 8 \<le> ze then [] else show_hex (gs ! ze) @ print_groups gs zs ze (Suc ze))
      else (if 0 < i then '':'' else []) @ show_hex (gs ! i) @ print_groups gs zs ze (Suc i))"
  by pat_completeness auto
termination by (relation "measure (\<lambda>(gs, zs, ze, i). 8 - i)") auto

declare print_groups.simps [simp del]

definition string6 :: "bytes \<Rightarrow> string" where
  "string6 ip = (let gs = groups_of ip; (zs, ze) = longest_run gs in print_groups gs zs ze 0)"

definition is4in6 :: "bytes \<Rightarrow> bool" where
  "is4in6 ip \<longleftrightarrow> take 12 ip = replicate 10 0 @ [0xFF, 0xFF]"

definition addr_String :: "bytes \<Rightarrow> string" where
  "addr_String ip =
     (if length ip = 4 then string4 ip
      else if is4in6 ip then ''::ffff:'' @ string4 (drop 12 ip)
      else string6 ip)"

definition prefix_String :: "bytes \<times> nat \<Rightarrow> string" where
  "prefix_String p = addr_String (fst p) @ ''/'' @ show_nat (snd p)"

section \<open>Lines of text\<close>

text \<open>\<open>bufio.Scanner\<close> with \<open>ScanLines\<close>: the lines, without their ends, and whether the scan stopped at a line
  too long for the scanner's buffer of 64 KiB.\<close>

definition MaxScanTokenSize :: nat where "MaxScanTokenSize = 65536"

definition dropCR :: "string \<Rightarrow> string" where
  "dropCR s = (if s \<noteq> [] \<and> last s = char_of (13 :: nat) then butlast s else s)"

fun scan_pieces :: "string list \<Rightarrow> string list \<times> bool" where
  "scan_pieces [] = ([], False)"
| "scan_pieces (p # ps) =
     (if MaxScanTokenSize \<le> length p then ([], True)
      else if ps = [] \<and> p = [] then ([], False)
      else let (ls, e) = scan_pieces ps in (dropCR p # ls, e))"

definition newline :: char where "newline = char_of (10 :: nat)"

definition scan_lines :: "string \<Rightarrow> string list \<times> bool" where
  "scan_lines s = scan_pieces (Split s newline)"

section \<open>What the parser accepts\<close>

lemma parseIPv4Fields_length: "parseIPv4Fields s val n fs = Some ip \<Longrightarrow> length fs \<le> 3 \<Longrightarrow> length ip = 4"
  by (induction s val n fs rule: parseIPv4Fields.induct) (auto split: option.splits if_splits)

lemma parse_groups_length:
  "parse_groups s ip e = Some (ip', e', rest) \<Longrightarrow> length ip \<le> 16 \<Longrightarrow> even (length ip) \<Longrightarrow> length ip' \<le> 16"
proof (induction s ip e rule: parse_groups.induct)
  case (1 s ip e)
  show ?case
  proof (cases "16 \<le> length ip")
    case True
    then show ?thesis using 1 by (simp add: parse_groups.simps [of s ip e])
  next
    case False
    then have b: "Suc (Suc (length ip)) \<le> 16" using 1(5) by presburger
    obtain acc off rs where h: "hex_group s 0 0 = Some (acc, off, rs)" "off \<noteq> 0"
      using 1(3) False by (auto simp: parse_groups.simps [of s ip e] split: option.splits if_splits)
    show ?thesis
    proof (cases "rs \<noteq> [] \<and> hd rs = CHR ''.''")
      case True
      then show ?thesis using 1(3) False h
        by (auto simp: parse_groups.simps [of s ip e] split: option.splits if_splits dest: parseIPv4Fields_length)
    next
      case d: False
      let ?ip = "ip @ [word_of_nat (acc div 256), word_of_nat (acc mod 256)]"
      show ?thesis
      proof (cases rs)
        case Nil
        then show ?thesis using 1(3) False h d b by (auto simp: parse_groups.simps [of s ip e] Let_def)
      next
        case (Cons c cs)
        show ?thesis
        proof (cases cs)
          case Nil
          then show ?thesis using 1(3) False h d Cons by (simp add: parse_groups.simps [of s ip e] Let_def)
        next
          case c2: (Cons c' cs')
          note ih = 1(1) [OF False h(1) refl refl h(2) d refl Cons [unfolded c2] refl] 1(2) [OF False h(1) refl refl h(2) d refl Cons [unfolded c2] refl]
          show ?thesis using 1(3) False h d Cons c2 b 1(5) ih
            by (auto simp: parse_groups.simps [of s ip e] Let_def split: if_splits)
        qed
      qed
    qed
  qed
qed

lemma expand_ellipsis_length: "length ip \<le> 16 \<Longrightarrow> length (expand_ellipsis ip e) = 16"
  by (simp add: expand_ellipsis_def)

lemma ParseAddr_length: "ParseAddr s = Some (ip, z) \<Longrightarrow> length ip = 4 \<or> length ip = 16"
proof -
  assume p: "ParseAddr s = Some (ip, z)"
  have six: "length ip = 16" if p6: "parseIPv6 s = Some (ip, z)"
  proof -
    obtain t zo where c: "(case Cut s (CHR ''%'') of None \<Rightarrow> (s, None) | Some (s, z) \<Rightarrow> (s, Some z)) = (t, zo)" by force
    let ?lead = "take 2 t = ''::''"
    let ?t = "if ?lead then drop 2 t else t"
    show ?thesis
    proof (cases "?lead \<and> ?t = []")
      case True
      with p6 c show ?thesis by (auto simp: parseIPv6_def Let_def split: if_splits)
    next
      case False
      obtain i e r where g: "parse_groups ?t [] (if ?lead then Some 0 else None) = Some (i, e, r)"
        using p6 c False by (auto simp: parseIPv6_def Let_def split: if_splits option.splits)
      have "length i \<le> 16" using parse_groups_length [OF g] by simp
      with p6 c False g show ?thesis
        by (auto simp: parseIPv6_def Let_def expand_ellipsis_length split: if_splits option.splits)
    qed
  qed
  from p show ?thesis
    by (auto simp: ParseAddr_def split: list.splits if_splits dest: six parseIPv4Fields_length)
qed

lemma ParsePrefix_ok: "ParsePrefix s = Some (ip, n) \<Longrightarrow> (length ip = 4 \<or> length ip = 16) \<and> n \<le> 8 * length ip"
  by (auto simp: ParsePrefix_def split: option.splits prod.splits if_splits dest: ParseAddr_length)

end
