(* ===== verification/Uapi.thy ===== *)
theory Uapi
  imports Device_Life Netip
begin

text \<open>
  \<open>device/uapi.go\<close>: the configuration protocol. A set operation is a text of lines \<open>key=value\<close>, applied one by
  one as they are read; what was applied before an erroneous line stays. A get operation prints the
  configuration in the same form. The peer under configuration is a peer of the device or a placeholder
  that belongs to nobody.
\<close>

datatype ipc_error = IpcErrorIO | IpcErrorProtocol | IpcErrorInvalid | IpcErrorPortInUse

type_synonym ipc_result = "(ipc_error option \<times> Device) option"

definition ipc_ok :: "Device \<Rightarrow> ipc_result" where "ipc_ok d = Some (None, d)"
definition ipc_fail :: "ipc_error \<Rightarrow> Device \<Rightarrow> ipc_result" where "ipc_fail e d = Some (Some e, d)"

section \<open>Lines for the device\<close>

definition set_headers_init :: "magicHeader \<Rightarrow> Device \<Rightarrow> Device" where "set_headers_init h d = d\<lparr>headers_init := h\<rparr>"
definition set_headers_response :: "magicHeader \<Rightarrow> Device \<Rightarrow> Device" where "set_headers_response h d = d\<lparr>headers_response := h\<rparr>"
definition set_headers_cookie :: "magicHeader \<Rightarrow> Device \<Rightarrow> Device" where "set_headers_cookie h d = d\<lparr>headers_cookie := h\<rparr>"
definition set_headers_transport :: "magicHeader \<Rightarrow> Device \<Rightarrow> Device" where "set_headers_transport h d = d\<lparr>headers_transport := h\<rparr>"

text \<open>The common shape of the cases that parse a number, a header or a chain.\<close>

definition with_int :: "string \<Rightarrow> (int \<Rightarrow> bool) \<Rightarrow> (int \<Rightarrow> Device \<Rightarrow> Device) \<Rightarrow> Device \<Rightarrow> ipc_result" where
  "with_int v ok f d =
     (case Atoi v of None \<Rightarrow> ipc_fail IpcErrorInvalid d
      | Some i \<Rightarrow> if ok i then ipc_ok (f i d) else ipc_fail IpcErrorInvalid d)"

definition with_header :: "string \<Rightarrow> (magicHeader \<Rightarrow> Device \<Rightarrow> Device) \<Rightarrow> Device \<Rightarrow> ipc_result" where
  "with_header v f d =
     (case newMagicHeader v of Inl _ \<Rightarrow> ipc_fail IpcErrorInvalid d | Inr h \<Rightarrow> ipc_ok (f h d))"

definition with_chain :: "string \<Rightarrow> nat \<Rightarrow> Device \<Rightarrow> ipc_result" where
  "with_chain v i d =
     (case newObfChain v of Inl _ \<Rightarrow> ipc_fail IpcErrorInvalid d
      | Inr c \<Rightarrow> ipc_ok (d\<lparr>ipackets := (ipackets d)[i := Some c]\<rparr>))"

definition set_listen_port :: "Net \<Rightarrow> string \<Rightarrow> Device \<Rightarrow> ipc_result" where
  "set_listen_port N value d =
     (case ParseUint value 16 of
        None \<Rightarrow> ipc_fail IpcErrorInvalid d
      | Some port \<Rightarrow>
          let (err, d) = BindUpdate N (d\<lparr>net_port := word_of_nat port\<rparr>)
          in if err \<noteq> None then ipc_fail IpcErrorPortInUse d else ipc_ok d)"

definition set_fwmark :: "Net \<Rightarrow> string \<Rightarrow> Device \<Rightarrow> ipc_result" where
  "set_fwmark N value d =
     (case ParseUint value 32 of
        None \<Rightarrow> ipc_fail IpcErrorInvalid d
      | Some mark \<Rightarrow>
          let (err, d) = BindSetMark N (word_of_nat mark) d
          in if err \<noteq> None then ipc_fail IpcErrorPortInUse d else ipc_ok d)"

definition set_private_key :: "crypto \<Rightarrow> Net \<Rightarrow> string \<Rightarrow> Device \<Rightarrow> ipc_result" where
  "set_private_key C N value d =
     (let (ok, sk) = PrivateKey_FromMaybeZeroHex zero32 value in
      if \<not> ok then ipc_fail IpcErrorInvalid d
      else do { d \<leftarrow> SetPrivateKey C N sk d; ipc_ok d })"

definition handleDeviceLine :: "crypto \<Rightarrow> Net \<Rightarrow> string \<Rightarrow> string \<Rightarrow> Device \<Rightarrow> ipc_result" where
  "handleDeviceLine C N key value d =
     (if key = ''private_key'' then set_private_key C N value d
      else if key = ''listen_port'' then set_listen_port N value d
      else if key = ''fwmark'' then set_fwmark N value d
      else if key = ''replace_peers'' then
        (if value \<noteq> ''true'' then ipc_fail IpcErrorInvalid d
         else do { d \<leftarrow> RemoveAllPeers C N d; ipc_ok d })
      else if key = ''jc'' then with_int value (\<lambda>i. \<not> i \<le> 0) (\<lambda>i d. d\<lparr>junk_count := i\<rparr>) d
      else if key = ''jmin'' then with_int value (\<lambda>i. \<not> i \<le> 0) (\<lambda>i d. d\<lparr>junk_min := i\<rparr>) d
      else if key = ''jmax'' then with_int value (\<lambda>i. \<not> i \<le> 0) (\<lambda>i d. d\<lparr>junk_max := i\<rparr>) d
      else if key = ''s1'' then with_int value (\<lambda>i. \<not> i < 0) (\<lambda>i d. d\<lparr>paddings_init := i\<rparr>) d
      else if key = ''s2'' then with_int value (\<lambda>i. \<not> i < 0) (\<lambda>i d. d\<lparr>paddings_response := i\<rparr>) d
      else if key = ''s3'' then with_int value (\<lambda>i. \<not> i < 0) (\<lambda>i d. d\<lparr>paddings_cookie := i\<rparr>) d
      else if key = ''s4'' then with_int value (\<lambda>i. \<not> i < 0) (\<lambda>i d. d\<lparr>paddings_transport := i\<rparr>) d
      else if key = ''h1'' then with_header value set_headers_init d
      else if key = ''h2'' then with_header value set_headers_response d
      else if key = ''h3'' then with_header value set_headers_cookie d
      else if key = ''h4'' then with_header value set_headers_transport d
      else if key = ''i1'' then with_chain value 0 d
      else if key = ''i2'' then with_chain value 1 d
      else if key = ''i3'' then with_chain value 2 d
      else if key = ''i4'' then with_chain value 3 d
      else if key = ''i5'' then with_chain value 4 d
      else ipc_fail IpcErrorInvalid d)"

section \<open>Lines for a peer\<close>

datatype peer_ref = Known pid | Placeholder Peer

record ipcSetPeer =
  sp_peer :: "peer_ref option"
  sp_dummy :: bool
  sp_created :: bool
  sp_pkaOn :: bool

definition new_ipcSetPeer :: ipcSetPeer where
  "new_ipcSetPeer = \<lparr>sp_peer = None, sp_dummy = False, sp_created = False, sp_pkaOn = False\<rparr>"

text \<open>The zero value \<open>Peer{}\<close>.\<close>

definition zero_Peer :: Peer where
  "zero_Peer = new_Peer"

text \<open>\<open>handlePostConfig\<close>: the peer that was configured is started on a device that is up.\<close>

definition handlePostConfig :: "crypto \<Rightarrow> Net \<Rightarrow> ipcSetPeer \<Rightarrow> Device \<Rightarrow> Device option" where
  "handlePostConfig C N sp d =
     (case sp_peer sp of
        Some (Known p) \<Rightarrow>
          if sp_dummy sp then Some d
          else
            let d = (if sp_created sp then
                       upd_peer p (\<lambda>P. P\<lparr>disableRoaming := (brokenRoaming d \<and> ep_val P \<noteq> None)\<rparr>) d else d)
            in if isUp d then
                 do { let d = Start p d;
                      d \<leftarrow> (if sp_pkaOn sp then SendKeepalive C N p d else Some d);
                      SendStagedPackets C N p d }
               else Some d
      | _ \<Rightarrow> Some d)"

definition handlePublicKeyLine ::
  "crypto \<Rightarrow> ipcSetPeer \<Rightarrow> string \<Rightarrow> Device \<Rightarrow> ipc_error option \<times> ipcSetPeer \<times> Device" where
  "handlePublicKeyLine C sp value d =
     (let (ok, pk) = PublicKey_FromHex zero32 value in
      if \<not> ok then (Some IpcErrorInvalid, sp, d)
      else
        let dummy = (publicKey d = pk);
            found = (if dummy then Some (Placeholder zero_Peer) else map_option Known (LookupPeer d pk));
            sp = sp\<lparr>sp_dummy := dummy, sp_peer := found, sp_created := (found = None)\<rparr>
        in if found = None then
             (case NewPeer C pk d of
                (Inl _, d) \<Rightarrow> (Some IpcErrorInvalid, sp, d)
              | (Inr p, d) \<Rightarrow> (None, sp\<lparr>sp_peer := Some (Known p)\<rparr>, d))
           else (None, sp, d))"

text \<open>Reading and writing the peer under configuration. With no peer at all the code dereferences \<open>nil\<close>; the
  lines of a peer come after a line that loads one.\<close>

definition ref_peer :: "peer_ref \<Rightarrow> Device \<Rightarrow> Peer" where
  "ref_peer r d = (case r of Known p \<Rightarrow> peers d p | Placeholder P \<Rightarrow> P)"

definition upd_ref :: "peer_ref \<Rightarrow> (Peer \<Rightarrow> Peer) \<Rightarrow> ipcSetPeer \<Rightarrow> Device \<Rightarrow> ipcSetPeer \<times> Device" where
  "upd_ref r f sp d =
     (case r of
        Known p \<Rightarrow> (sp, upd_peer p f d)
      | Placeholder P \<Rightarrow> (sp\<lparr>sp_peer := Some (Placeholder (f P))\<rparr>, d))"

type_synonym peer_result = "(ipc_error option \<times> ipcSetPeer \<times> Device) option"

definition make_placeholder :: "ipcSetPeer \<Rightarrow> ipcSetPeer" where
  "make_placeholder sp = sp\<lparr>sp_peer := Some (Placeholder zero_Peer), sp_dummy := True\<rparr>"

definition set_preshared_key :: "peer_ref \<Rightarrow> string \<Rightarrow> ipcSetPeer \<Rightarrow> Device \<Rightarrow> peer_result" where
  "set_preshared_key r value sp d =
     (let (ok, psk) = PresharedKey_FromHex (presharedKey (handshake (ref_peer r d))) value;
          (sp, d) = upd_ref r (\<lambda>P. P\<lparr>handshake := (handshake P)\<lparr>presharedKey := psk\<rparr>\<rparr>) sp d
      in Some (if ok then None else Some IpcErrorInvalid, sp, d))"

definition set_endpoint :: "Net \<Rightarrow> peer_ref \<Rightarrow> string \<Rightarrow> ipcSetPeer \<Rightarrow> Device \<Rightarrow> peer_result" where
  "set_endpoint N r value sp d =
     (case net_parse N value of
        None \<Rightarrow> Some (Some IpcErrorInvalid, sp, d)
      | Some ep \<Rightarrow> let (sp, d) = upd_ref r (\<lambda>P. P\<lparr>ep_val := Some ep\<rparr>) sp d in Some (None, sp, d))"

definition set_keepalive_interval :: "peer_ref \<Rightarrow> string \<Rightarrow> ipcSetPeer \<Rightarrow> Device \<Rightarrow> peer_result" where
  "set_keepalive_interval r value sp d =
     (case ParseUint value 16 of
        None \<Rightarrow> Some (Some IpcErrorInvalid, sp, d)
      | Some secs \<Rightarrow>
          let old = persistentKeepaliveInterval (ref_peer r d);
              (sp, d) = upd_ref r (\<lambda>P. P\<lparr>persistentKeepaliveInterval := word_of_nat secs\<rparr>) sp d
          in Some (None, sp\<lparr>sp_pkaOn := (old = 0 \<and> secs \<noteq> 0)\<rparr>, d))"

definition set_allowed_ip :: "peer_ref \<Rightarrow> string \<Rightarrow> ipcSetPeer \<Rightarrow> Device \<Rightarrow> peer_result" where
  "set_allowed_ip r value sp d =
     (let add = \<not> (value \<noteq> [] \<and> hd value = CHR ''-'');
          value = (if add then value else tl value)
      in case ParsePrefix value of
           None \<Rightarrow> Some (Some IpcErrorInvalid, sp, d)
         | Some (ip, nbits) \<Rightarrow>
             if sp_dummy sp then Some (None, sp, d)
             else case r of
               Placeholder _ \<Rightarrow> None
             | Known p \<Rightarrow>
                 do { T \<leftarrow> (if add then Insert ip nbits p (allowedips d) else Remove ip nbits p (allowedips d));
                      Some (None, sp, d\<lparr>allowedips := T\<rparr>) })"

definition handlePeerLine :: "crypto \<Rightarrow> Net \<Rightarrow> string \<Rightarrow> string \<Rightarrow> ipcSetPeer \<Rightarrow> Device \<Rightarrow> peer_result" where
  "handlePeerLine C N key value sp d =
     (case sp_peer sp of
        None \<Rightarrow> None
      | Some r \<Rightarrow>
          let key_of = remoteStatic (handshake (ref_peer r d)); err = Some (Some IpcErrorInvalid, sp, d) in
          if key = ''update_only'' then
            (if value \<noteq> ''true'' then err
             else if sp_created sp \<and> \<not> sp_dummy sp then
               do { d \<leftarrow> RemovePeer C N key_of d; Some (None, make_placeholder sp, d) }
             else Some (None, sp, d))
          else if key = ''remove'' then
            (if value \<noteq> ''true'' then err
             else do { d \<leftarrow> (if \<not> sp_dummy sp then RemovePeer C N key_of d else Some d);
                       Some (None, make_placeholder sp, d) })
          else if key = ''preshared_key'' then set_preshared_key r value sp d
          else if key = ''endpoint'' then set_endpoint N r value sp d
          else if key = ''persistent_keepalive_interval'' then set_keepalive_interval r value sp d
          else if key = ''replace_allowed_ips'' then
            (if value \<noteq> ''true'' then err
             else if sp_dummy sp then Some (None, sp, d)
             else case r of
               Placeholder _ \<Rightarrow> Some (None, sp, d)
             | Known p \<Rightarrow> Some (None, sp, d\<lparr>allowedips := RemoveByPeer p (allowedips d)\<rparr>))
          else if key = ''allowed_ip'' then set_allowed_ip r value sp d
          else if key = ''protocol_version'' then (if value \<noteq> ''1'' then err else Some (None, sp, d))
          else err)"

section \<open>The set operation\<close>

record ipcSetDevice =
  isd_init :: "magicHeader option"
  isd_response :: "magicHeader option"
  isd_cookie :: "magicHeader option"
  isd_transport :: "magicHeader option"

definition new_ipcSetDevice :: ipcSetDevice where
  "new_ipcSetDevice = \<lparr>isd_init = None, isd_response = None, isd_cookie = None, isd_transport = None\<rparr>"

definition or_else :: "'a option \<Rightarrow> 'a \<Rightarrow> 'a" where
  "or_else x y = (case x of None \<Rightarrow> y | Some v \<Rightarrow> v)"

definition mergeWithDevice :: "ipcSetDevice \<Rightarrow> Device \<Rightarrow> bool \<times> Device" where
  "mergeWithDevice s d =
     (let hi = or_else (isd_init s) (headers_init d); hr = or_else (isd_response s) (headers_response d);
          hc = or_else (isd_cookie s) (headers_cookie d); ht = or_else (isd_transport s) (headers_transport d)
      in if any_overlap [hi, hr, hc, ht] then (False, d)
         else (True, d\<lparr>headers_init := hi, headers_response := hr, headers_cookie := hc, headers_transport := ht\<rparr>))"

text \<open>The end of an operation. The device's own record of it is never written to by the lines before.\<close>

definition finish_set :: "crypto \<Rightarrow> Net \<Rightarrow> ipcSetPeer \<Rightarrow> Device \<Rightarrow> ipc_result" where
  "finish_set C N sp d =
     (let (ok, d) = mergeWithDevice new_ipcSetDevice d in
      if \<not> ok then ipc_fail IpcErrorInvalid d
      else do { d \<leftarrow> handlePostConfig C N sp d; ipc_ok d })"

fun set_lines :: "crypto \<Rightarrow> Net \<Rightarrow> bool \<Rightarrow> string list \<Rightarrow> bool \<Rightarrow> ipcSetPeer \<Rightarrow> Device \<Rightarrow> ipc_result" where
  "set_lines C N tooLong [] deviceConfig sp d =
     do { (err, d) \<leftarrow> finish_set C N sp d;
          Some (if err = None \<and> tooLong then Some IpcErrorIO else err, d) }"
| "set_lines C N tooLong (line # ls) deviceConfig sp d =
     (if line = [] then finish_set C N sp d
      else case Cut line (CHR ''='') of
        None \<Rightarrow> ipc_fail IpcErrorProtocol d
      | Some (key, value) \<Rightarrow>
          if key = ''public_key'' then
            do { d \<leftarrow> handlePostConfig C N sp d;
                 let (err, sp, d) = handlePublicKeyLine C sp value d;
                 if err \<noteq> None then Some (err, d) else set_lines C N tooLong ls False sp d }
          else if deviceConfig then
            do { (err, d) \<leftarrow> handleDeviceLine C N key value d;
                 if err \<noteq> None then Some (err, d) else set_lines C N tooLong ls True sp d }
          else
            do { (err, sp, d) \<leftarrow> handlePeerLine C N key value sp d;
                 if err \<noteq> None then Some (err, d) else set_lines C N tooLong ls False sp d })"

definition IpcSet :: "crypto \<Rightarrow> Net \<Rightarrow> string \<Rightarrow> Device \<Rightarrow> ipc_result" where
  "IpcSet C N uapiConf d =
     (let (ls, tooLong) = scan_lines uapiConf in set_lines C N tooLong ls True new_ipcSetPeer d)"

section \<open>The get operation\<close>

definition line_of :: "string \<Rightarrow> string \<Rightarrow> string" where
  "line_of key value = key @ ''='' @ value @ [newline]"

definition line_unless :: "bool \<Rightarrow> string \<Rightarrow> string \<Rightarrow> string" where
  "line_unless b key value = (if b then [] else line_of key value)"

definition get_device :: "Device \<Rightarrow> string" where
  "get_device d =
     line_unless (isZero (privateKey d)) ''private_key'' (hex_encode (privateKey d))
     @ line_unless (net_port d = 0) ''listen_port'' (show_nat (unat (net_port d)))
     @ line_unless (net_fwmark d = 0) ''fwmark'' (show_nat (unat (net_fwmark d)))
     @ line_unless (junk_count d = 0) ''jc'' (Itoa (junk_count d))
     @ line_unless (junk_min d = 0) ''jmin'' (Itoa (junk_min d))
     @ line_unless (junk_max d = 0) ''jmax'' (Itoa (junk_max d))
     @ line_unless (paddings_init d = 0) ''s1'' (Itoa (paddings_init d))
     @ line_unless (paddings_response d = 0) ''s2'' (Itoa (paddings_response d))
     @ line_unless (paddings_cookie d = 0) ''s3'' (Itoa (paddings_cookie d))
     @ line_unless (paddings_transport d = 0) ''s4'' (Itoa (paddings_transport d))
     @ line_of ''h1'' (GenSpec (headers_init d))
     @ line_of ''h2'' (GenSpec (headers_response d))
     @ line_of ''h3'' (GenSpec (headers_cookie d))
     @ line_of ''h4'' (GenSpec (headers_transport d))
     @ concat (map (\<lambda>(i, c). case c of None \<Rightarrow> [] | Some chain \<Rightarrow> line_of (''i'' @ show_nat (i + 1)) (chainSpec chain))
         (enumerate 0 (ipackets d)))"

definition get_peer :: "Net \<Rightarrow> Device \<Rightarrow> pid \<Rightarrow> string" where
  "get_peer N d p =
     (let P = peers d p; nano = lastHandshakeNano P in
      line_of ''public_key'' (hex_encode (remoteStatic (handshake P)))
      @ line_of ''preshared_key'' (hex_encode (presharedKey (handshake P)))
      @ line_of ''protocol_version'' ''1''
      @ (case ep_val P of None \<Rightarrow> [] | Some ep \<Rightarrow> line_of ''endpoint'' (net_print N ep))
      @ line_of ''last_handshake_time_sec'' (Itoa (go_div nano Second))
      @ line_of ''last_handshake_time_nsec'' (Itoa (go_mod nano Second))
      @ line_of ''tx_bytes'' (show_nat (unat (txBytes P)))
      @ line_of ''rx_bytes'' (show_nat (unat (rxBytes P)))
      @ line_of ''persistent_keepalive_interval'' (show_nat (unat (persistentKeepaliveInterval P)))
      @ concat (map (\<lambda>k. line_of ''allowed_ip'' (prefix_String k)) (EntriesForPeer (allowedips d) p (\<lambda>_. True))))"

definition IpcGet :: "Net \<Rightarrow> Device \<Rightarrow> string" where
  "IpcGet N d = get_device d @ concat (map (\<lambda>(key, p). get_peer N d p) (keyMap d))"

end
