(* ===== verification/Nonces.thy ===== *)
theory Nonces
  imports Send_Facts
begin

text \<open>
  The nonces of transport messages over any history of a device: counters only grow, and no nonce is used
  twice with a key.
\<close>

section \<open>Counters only grow\<close>

text \<open>A good state: no counter is past the limit, the key pairs that peers hold have been made, and no staged
  queue is longer than its channel.\<close>

definition counters_ok :: "Device \<Rightarrow> bool" where
  "counters_ok d \<longleftrightarrow> (\<forall>k. sendNonce (keypairs d k) \<le> RejectAfterMessages) \<and>
     (\<forall>q. \<forall>k \<in> set (held d q). k < keypair_count d) \<and> (\<forall>q. length (q_staged (peers d q)) \<le> QueueStagedSize)"

definition advances :: "Device \<Rightarrow> Device \<Rightarrow> bool" where
  "advances d d' \<longleftrightarrow> counters_ok d' \<and> keypair_count d \<le> keypair_count d' \<and>
     (\<forall>k < keypair_count d. sendNonce (keypairs d k) \<le> sendNonce (keypairs d' k))"

lemma advances_trans: "advances d d1 \<Longrightarrow> advances d1 d2 \<Longrightarrow> advances d d2"
  unfolding advances_def by (meson order_trans order_less_le_trans)

lemma advances_refl: "counters_ok d \<Longrightarrow> advances d d"
  by (simp add: advances_def)

lemma trafficD:
  assumes "traffic d' = traffic d"
  shows "keypairs d' = keypairs d" "keypair_count d' = keypair_count d" "dev_state d' = dev_state d" "allowedips d' = allowedips d"
    "tun_out d' = tun_out d"
    "kp_current (peers d' q) = kp_current (peers d q)" "kp_previous (peers d' q) = kp_previous (peers d q)"
    "kp_next (peers d' q) = kp_next (peers d q)" "q_staged (peers d' q) = q_staged (peers d q)"
    "q_outbound (peers d' q) = q_outbound (peers d q)" "q_inbound (peers d' q) = q_inbound (peers d q)"
    "isRunning (peers d' q) = isRunning (peers d q)" "held d' q = held d q"
  using assms by (simp_all add: traffic_def Let_def fun_eq_iff held_def)

lemma advances_traffic: "counters_ok d \<Longrightarrow> traffic d' = traffic d \<Longrightarrow> advances d d'"
  using trafficD [of d' d] by (simp add: advances_def counters_ok_def)

lemma CreateMessageResponse_traffic: "CreateMessageResponse C p d = Some (res, d') \<Longrightarrow> traffic d' = traffic d"
proof (cases res)
  case (Inl e)
  assume "CreateMessageResponse C p d = Some (res, d')"
  from CreateMessageResponse_Inl [OF this [unfolded Inl]] show ?thesis by (elim disjE exE conjE) simp_all
next
  case (Inr m)
  assume "CreateMessageResponse C p d = Some (res, d')"
  from CreateMessageResponse_Inr [OF this [unfolded Inr]] show ?thesis by (elim exE conjE) simp
qed

lemma ConsumeMessageResponse_traffic: "ConsumeMessageResponse C r d = (who, d') \<Longrightarrow> traffic d' = traffic d"
  by (auto simp: ConsumeMessageResponse_def Let_def split: if_splits option.splits)

lemma ConsumeMessageInitiation_traffic: "ConsumeMessageInitiation C m d = (who, d') \<Longrightarrow> traffic d' = traffic d"
  by (drule ConsumeMessageInitiation_cases) auto

lemma rotate_counters:
  "set (held (rotate_keypairs i p k e) q) \<subseteq> insert k (set (held e q))"
  "q_staged (peers (rotate_keypairs i p k e) q) = q_staged (peers e q)"
proof -
  show "set (held (rotate_keypairs i p k e) q) \<subseteq> insert k (set (held e q))"
  proof (cases "q = p")
    case True
    show ?thesis unfolding True rotate_view(2) Let_def by (auto simp: held_def)
  next
    case False
    show ?thesis unfolding rotate_view(3) [OF False] by auto
  qed
  show "q_staged (peers (rotate_keypairs i p k e) q) = q_staged (peers e q)"
    by (simp add: rotate_keypairs_def Let_def upd_peer_def)
qed

lemma BeginSymmetricSession_advances:
  assumes ok: "counters_ok d" and b: "BeginSymmetricSession C p d = (err, d')"
  shows "advances d d'"
proof (cases "hs_state (hs_of d p) = handshakeResponseConsumed \<or> hs_state (hs_of d p) = handshakeResponseCreated")
  case False
  with assms show ?thesis by (simp add: BeginSymmetricSession_def advances_refl)
next
  case True
  let ?n = "keypair_count d"
  note new = BeginSymmetricSession_new [OF True b]
  have "\<exists>i e. d' = rotate_keypairs i p ?n e \<and> held e = held d \<and> (\<forall>q. q_staged (peers e q) = q_staged (peers d q))"
  proof (cases "hs_state (hs_of d p) = handshakeResponseConsumed")
    case init: True
    then show ?thesis
      using b by (cases "KDF2 C (hs_chainKey (hs_of d p)) []", intro exI [of _ True])
        (auto simp: BeginSymmetricSession_def Let_def upd_hs_def upd_peer_def held_def fun_eq_iff intro!: exI)
  next
    case resp: False
    with True have "hs_state (hs_of d p) = handshakeResponseCreated" by simp
    then show ?thesis
      using b by (cases "KDF2 C (hs_chainKey (hs_of d p)) []", intro exI [of _ False])
        (auto simp: BeginSymmetricSession_def Let_def upd_hs_def upd_peer_def held_def fun_eq_iff intro!: exI)
  qed
  then obtain i e where e: "d' = rotate_keypairs i p ?n e" "held e = held d" "\<And>q. q_staged (peers e q) = q_staged (peers d q)"
    by blast
  have "k < Suc ?n" if "k \<in> set (held d' q)" for k q
    using that rotate_counters(1) [of i p ?n e q] ok e(1,2) by (fastforce simp: counters_ok_def)
  moreover have "sendNonce (keypairs d' k) \<le> RejectAfterMessages" for k
    using new ok by (simp add: counters_ok_def)
  ultimately show ?thesis
    using new ok e rotate_counters(2) [of i p ?n e] by (simp add: advances_def counters_ok_def)
qed

lemma noise_step_advances: "noise_step C d d' \<Longrightarrow> counters_ok d \<Longrightarrow> advances d d'"
proof (induction rule: noise_step.induct)
  case (create_initiation p d res d')
  then show ?case using CreateMessageInitiation_env(1) advances_traffic by blast
next
  case (consume_initiation m d who d')
  then show ?case using ConsumeMessageInitiation_traffic advances_traffic by blast
next
  case (create_response p d rsp d')
  then show ?case using CreateMessageResponse_traffic advances_traffic by blast
next
  case (consume_response r d who d')
  then show ?case using ConsumeMessageResponse_traffic advances_traffic by blast
next
  case (begin_session p d err d')
  then show ?case using BeginSymmetricSession_advances by blast
next
  case (received p k d b d')
  have "held d' q \<noteq> [] \<longrightarrow> set (held d' q) \<subseteq> set (held d q)" "q_staged (peers d' q) = q_staged (peers d q)"
    "keypairs d' = keypairs d" "keypair_count d' = keypair_count d" for q
    using received(1) by (auto simp: ReceivedWithKeypair_def Let_def held_def upd_peer_def split: if_splits)
  then show ?case using received(2) unfolding advances_def counters_ok_def
    by (metis empty_iff list.set(1) order_refl subsetD)
next
  case (zero d p)
  have "q_staged (peers (ZeroAndFlushAll p d) q) = (if q = p then [] else q_staged (peers d q))" for q
    by (simp add: ZeroAndFlushAll_def FlushStagedPackets_def Let_def upd_peer_def upd_hs_def)
  then show ?case using zero by (simp add: advances_def counters_ok_def ZeroAndFlushAll_view)
next
  case (expire d p)
  have "q_staged (peers (ExpireCurrentKeypairs p d) q) = q_staged (peers d q)" for q
    by (simp add: ExpireCurrentKeypairs_def Let_def upd_peer_def upd_hs_def upd_keypair_def split: option.split)
  moreover have "sendNonce (keypairs (ExpireCurrentKeypairs p d) k) \<in> {sendNonce (keypairs d k), RejectAfterMessages}" for k
    by (auto simp: ExpireCurrentKeypairs_def Let_def upd_peer_def upd_hs_def upd_keypair_def split: option.split)
  ultimately show ?case using expire unfolding advances_def counters_ok_def Expire_view
    by (metis insert_iff order_refl singletonD)
next
  case (tick d t)
  then show ?case by (simp add: advances_traffic)
qed

section \<open>Sending staged packets\<close>

lemma mset_staged: "StagePackets p es d = upd_peer p (\<lambda>P. P\<lparr>q_staged := stage_loop es (q_staged P)\<rparr>) d"
  by (simp add: StagePackets_def)

lemma stage_loop_bound: "length q \<le> QueueStagedSize \<Longrightarrow> length (stage_loop es q) \<le> QueueStagedSize"
  by (cases "length q = QueueStagedSize") (auto simp: stage_loop_drops stage_loop_room QueueStagedSize_def)

text \<open>What one call queues for peer \<open>p\<close>: either nothing, and only a handshake may have been started, or the
  packets it assigned nonces to.\<close>

lemma SendStagedPackets_cases:
  assumes "SendStagedPackets C N p d = Some d'"
  obtains (idle) "traffic d' = traffic d"
  | (sent) k rest out n ex where "kp_current (peers d p) = Some k" "isUp d" "sendNonce (keypairs d k) < RejectAfterMessages"
    "since d (created (keypairs d k)) < RejectAfterTime"
    "send_loop k (sendNonce (keypairs d k)) (q_staged (peers d p)) = (rest, out, n, ex)"
    "traffic d' = traffic (upd_peer p (\<lambda>P. P\<lparr>q_staged := rest, q_outbound := q_outbound P @ (if isRunning P then out else [])\<rparr>)
       (upd_keypair k (\<lambda>K. K\<lparr>sendNonce := n\<rparr>) d))"
proof -
  have h: "traffic d2 = traffic d1" if "map_option snd (SendHandshakeInitiation C N p False d1) = Some d2" for d1 d2
    using that SendHandshakeInitiation_spec [of C N p False d1] by fastforce
  show thesis
  proof (cases "q_staged (peers d p) = [] \<or> \<not> isUp d")
    case True
    with assms show thesis by (intro idle) (auto simp: SendStagedPackets_def)
  next
    case up: False
    show thesis
    proof (cases "kp_current (peers d p)")
      case None
      with assms up show thesis by (intro idle h) (simp add: SendStagedPackets_def)
    next
      case (Some k)
      show thesis
      proof (cases "RejectAfterMessages \<le> sendNonce (keypairs d k) \<or> RejectAfterTime \<le> since d (created (keypairs d k))")
        case True
        with assms up Some show thesis by (intro idle h) (simp add: SendStagedPackets_def)
      next
        case False
        obtain rest out n ex where l: "send_loop k (sendNonce (keypairs d k)) (q_staged (peers d p)) = (rest, out, n, ex)"
          by (cases "send_loop k (sendNonce (keypairs d k)) (q_staged (peers d p))")
        let ?d = "upd_peer p (\<lambda>P. P\<lparr>q_staged := rest, q_outbound := q_outbound P @ (if isRunning P then out else [])\<rparr>)
           (upd_keypair k (\<lambda>K. K\<lparr>sendNonce := n\<rparr>) d)"
        have "(if ex then map_option snd (SendHandshakeInitiation C N p False ?d) else Some ?d) = Some d'"
          using assms up Some False l by (simp add: SendStagedPackets_def Let_def)
        then have "traffic d' = traffic ?d" using h by (auto split: if_splits)
        then show thesis using Some up False l by (intro sent) auto
      qed
    qed
  qed
qed


text \<open>The elements one operation adds to the outbound queue of a peer.\<close>

definition queued :: "pid \<Rightarrow> Device \<Rightarrow> Device \<Rightarrow> QueueOutboundElement list" where
  "queued p d d' = concat (drop (length (q_outbound (peers d p))) (q_outbound (peers d' p)))"

lemma held_current: "kp_current (peers d p) = Some k \<Longrightarrow> k \<in> set (held d p)"
  by (simp add: held_def)

lemma SendStagedPackets_queued:
  assumes s: "SendStagedPackets C N p d = Some d'" and ok: "counters_ok d"
  shows "advances d d' \<and> (queued p d d' = [] \<or> (\<exists>k < keypair_count d.
    map (\<lambda>e. unat (oe_nonce e)) (queued p d d') = [unat (sendNonce (keypairs d k)) ..< unat (sendNonce (keypairs d' k))] \<and>
    (\<forall>e \<in> set (queued p d d'). oe_keypair e = Some k)))"
  using s
proof (cases rule: SendStagedPackets_cases)
  case idle
  then show ?thesis using advances_traffic [OF ok] trafficD(10) [OF idle] by (simp add: queued_def)
next
  case (sent k rest out n ex)
  let ?d = "upd_peer p (\<lambda>P. P\<lparr>q_staged := rest, q_outbound := q_outbound P @ (if isRunning P then out else [])\<rparr>)
       (upd_keypair k (\<lambda>K. K\<lparr>sendNonce := n\<rparr>) d)"
  have b: "sendNonce (keypairs d k) \<le> RejectAfterMessages" "length (q_staged (peers d p)) \<le> QueueStagedSize"
    and k: "k < keypair_count d"
    using ok held_current [OF sent(1)] unfolding counters_ok_def by blast+
  note S = send_loop_spec [OF b sent(5)]
  note T = trafficD [OF sent(6)]
  have kp: "sendNonce (keypairs d' j) = (if j = k then n else sendNonce (keypairs d j))" "keypair_count d' = keypair_count d"
    "held d' q = held d q" "q_staged (peers d' q) = (if q = p then rest else q_staged (peers d q))" for j q
    unfolding T by (auto simp: upd_keypair_def upd_peer_def held_def)
  have le: "sendNonce (keypairs d k) \<le> n" using S by (simp add: word_le_nat_alt)
  have q: "queued p d d' = (if isRunning (peers d p) then concat out else [])"
    unfolding queued_def T by (simp add: upd_keypair_def upd_peer_def)
  have "advances d d'" using ok S le by (auto simp: advances_def counters_ok_def kp)
  moreover have "\<exists>k < keypair_count d. map (\<lambda>e. unat (oe_nonce e)) (queued p d d') = [unat (sendNonce (keypairs d k)) ..< unat (sendNonce (keypairs d' k))] \<and>
      (\<forall>e \<in> set (queued p d d'). oe_keypair e = Some k)" if "isRunning (peers d p)"
    using S k that by (intro exI [of _ k]) (simp add: q kp)
  moreover have "queued p d d' = []" if "\<not> isRunning (peers d p)" using that by (simp add: q)
  ultimately show ?thesis by blast
qed

lemma SendKeepalive_queued:
  assumes s: "SendKeepalive C N p d = Some d'" and ok: "counters_ok d"
  shows "advances d d' \<and> (queued p d d' = [] \<or> (\<exists>k < keypair_count d.
    map (\<lambda>e. unat (oe_nonce e)) (queued p d d') = [unat (sendNonce (keypairs d k)) ..< unat (sendNonce (keypairs d' k))] \<and>
    (\<forall>e \<in> set (queued p d d'). oe_keypair e = Some k)))"
proof -
  obtain d1 where d1: "SendStagedPackets C N p d1 = Some d'" "keypairs d1 = keypairs d" "keypair_count d1 = keypair_count d"
    "held d1 = held d" "q_outbound (peers d1 p) = q_outbound (peers d p)" "\<And>q. length (q_staged (peers d1 q)) \<le> max 1 (length (q_staged (peers d q)))"
  proof (cases "q_staged (peers d p) = [] \<and> isRunning (peers d p)")
    case True
    then show ?thesis using s by (intro that [of "upd_peer p (\<lambda>P. P\<lparr>q_staged := [[new_elem []]]\<rparr>) d"])
        (auto simp: SendKeepalive_def upd_peer_def held_def fun_eq_iff)
  next
    case False
    then show ?thesis using s by (intro that [of d]) (auto simp: SendKeepalive_def)
  qed
  have "length (q_staged (peers d1 q)) \<le> QueueStagedSize" for q
    using d1(6) [of q] ok by (auto simp: counters_ok_def QueueStagedSize_def max_def split: if_splits intro: order_trans)
  then have "counters_ok d1" using ok d1(2,3,4) by (simp add: counters_ok_def)
  from SendStagedPackets_queued [OF d1(1) this] show ?thesis
    by (simp add: queued_def advances_def d1(2,3,5))
qed

lemma encrypt_container_frame: "encrypt_container C es d = Some (bs, d') \<Longrightarrow> \<exists>c. d' = d\<lparr>dice := c\<rparr>"
proof (induction es arbitrary: d bs d')
  case Nil
  then have "d' = d\<lparr>dice := dice d\<rparr>" by simp
  then show ?case by blast
next
  case (Cons e es)
  then obtain b d1 bs1 where "encrypt_element C e d = Some (b, d1)" "encrypt_container C es d1 = Some (bs1, d')"
    by (auto simp: bind_eq_Some_conv)
  moreover from this(1) have "\<exists>c. d1 = d\<lparr>dice := c\<rparr>"
    by (auto simp: encrypt_element_def bind_eq_Some_conv Let_def dest!: gen_header_frame split: if_splits)
  ultimately show ?case using Cons.IH by fastforce
qed

lemma frame_packets_frame: "frame_packets bs d = Some (s, bs', d') \<Longrightarrow> \<exists>r. d' = d\<lparr>rng_state := r\<rparr>"
proof (induction bs arbitrary: d s bs' d')
  case Nil
  then have "d' = d\<lparr>rng_state := rng_state d\<rparr>" by simp
  then show ?case by blast
next
  case (Cons b bs)
  then obtain s1 b1 d1 s2 bs2 where "frame_packet b d = Some (s1, b1, d1)" "frame_packets bs d1 = Some (s2, bs2, d')"
    using that by (cases "frame_packet b d") (force simp: bind_eq_Some_conv)+
  moreover from this(1) have "\<exists>r. d1 = d\<lparr>rng_state := r\<rparr>"
    by (auto simp: frame_packet_def Let_def read_rand_def rand_read_def split: if_splits)
      (metis (no_types) Device.surjective Device.update_convs(34))+
  ultimately show ?case using Cons.IH by fastforce
qed

lemma sequential_send_traffic: "sequential_send C N p bs d = Some d' \<Longrightarrow> traffic d' = traffic d"
proof (cases "isRunning (peers d p)")
  case False
  assume "sequential_send C N p bs d = Some d'"
  with False show ?thesis by (simp add: sequential_send_def)
next
  case True
  assume s: "sequential_send C N p bs d = Some d'"
  have k: "traffic d2 = traffic d1" if "keepKeyFreshSending C N p d1 = Some d2" for d1 d2
    using that SendHandshakeInitiation_spec [of C N p False d1]
    by (fastforce simp: keepKeyFreshSending_def Let_def split: option.splits if_splits)
  obtain ds bufs d1 where f: "frame_packets bs d = Some (ds, bufs, d1)"
    using s True by (auto simp: sequential_send_def bind_eq_Some_conv)
  then have d1: "traffic d1 = traffic d" using frame_packets_frame by fastforce
  let ?d2 = "snd (SendBuffers N p bufs (timersAnyAuthenticatedPacketSent p (timersAnyAuthenticatedPacketTraversal p d1)))"
  let ?d3 = "if ds then timersDataSent p ?d2 else ?d2"
  have "d' = ?d3 \<or> keepKeyFreshSending C N p ?d3 = Some d'"
    using s True f by (auto simp: sequential_send_def Let_def case_prod_beta split: if_splits)
  moreover have "traffic ?d3 = traffic d" using d1 by simp
  ultimately show ?thesis using k by metis
qed

lemma transmit_next_advances: "transmit_next C N p d = Some d' \<Longrightarrow> counters_ok d \<Longrightarrow> advances d d'"
proof (cases "q_outbound (peers d p)")
  case Nil
  assume "transmit_next C N p d = Some d'" "counters_ok d"
  with Nil show ?thesis by (simp add: transmit_next_def advances_refl)
next
  case (Cons c cs)
  assume t: "transmit_next C N p d = Some d'" and ok: "counters_ok d"
  let ?d = "upd_peer p (\<lambda>P. P\<lparr>q_outbound := cs\<rparr>) d"
  obtain bs d1 where e: "encrypt_container C c ?d = Some (bs, d1)" "sequential_send C N p bs d1 = Some d'"
    using t Cons by (auto simp: transmit_next_def bind_eq_Some_conv)
  have tr: "traffic d' = traffic ?d" using encrypt_container_frame [OF e(1)] sequential_send_traffic [OF e(2)] by auto
  have ok2: "counters_ok ?d" using ok by (simp add: counters_ok_def held_def upd_peer_def)
  from advances_traffic [OF ok2 tr] show ?thesis by (simp add: advances_def upd_peer_def)
qed

section \<open>Every nonce is used once\<close>

text \<open>A step of anything that touches counters or queues, with the elements it queues for sending.\<close>

inductive out_step :: "crypto \<Rightarrow> Net \<Rightarrow> Device \<Rightarrow> QueueOutboundElement list \<Rightarrow> Device \<Rightarrow> bool" for C N where
  stage: "out_step C N d [] (StagePackets p es d)"
| send: "SendStagedPackets C N p d = Some d' \<Longrightarrow> out_step C N d (queued p d d') d'"
| keepalive: "SendKeepalive C N p d = Some d' \<Longrightarrow> out_step C N d (queued p d d') d'"
| handshake: "SendHandshakeInitiation C N p rt d = Some (ok, d') \<Longrightarrow> out_step C N d [] d'"
| transmit: "transmit_next C N p d = Some d' \<Longrightarrow> out_step C N d [] d'"
| noise: "noise_step C d d' \<Longrightarrow> out_step C N d [] d'"

inductive out_run :: "crypto \<Rightarrow> Net \<Rightarrow> Device \<Rightarrow> QueueOutboundElement list \<Rightarrow> Device \<Rightarrow> bool" for C N where
  start: "out_run C N d [] d"
| more: "out_run C N d es d1 \<Longrightarrow> out_step C N d1 fs d2 \<Longrightarrow> out_run C N d (es @ fs) d2"

lemma out_step_spec:
  assumes "out_step C N d fs d'" "counters_ok d"
  shows "advances d d' \<and> (fs = [] \<or> (\<exists>k < keypair_count d.
    map (\<lambda>e. unat (oe_nonce e)) fs = [unat (sendNonce (keypairs d k)) ..< unat (sendNonce (keypairs d' k))] \<and>
    (\<forall>e \<in> set fs. oe_keypair e = Some k)))"
  using assms
proof (induction rule: out_step.induct)
  case (stage d p es)
  have "q_staged (peers (StagePackets p es d) q) = (if q = p then stage_loop es (q_staged (peers d p)) else q_staged (peers d q))"
    "held (StagePackets p es d) q = held d q" "keypairs (StagePackets p es d) = keypairs d"
    "keypair_count (StagePackets p es d) = keypair_count d" for q
    by (simp_all add: StagePackets_def upd_peer_def held_def)
  with stage show ?case using stage_loop_bound [of "q_staged (peers d p)" es]
    by (auto simp: advances_def counters_ok_def)
next
  case (send p d d')
  then show ?case using SendStagedPackets_queued by blast
next
  case (keepalive p d d')
  then show ?case using SendKeepalive_queued by blast
next
  case (handshake p rt d ok d')
  then show ?case using SendHandshakeInitiation_spec advances_traffic by blast
next
  case (transmit p d d')
  then show ?case using transmit_next_advances by blast
next
  case (noise d d')
  then show ?case using noise_step_advances by blast
qed

lemma out_run_spec:
  assumes "out_run C N d es d'" "counters_ok d"
  shows "counters_ok d' \<and> distinct (map (\<lambda>e. (oe_keypair e, unat (oe_nonce e))) es) \<and>
    (\<forall>e \<in> set es. \<exists>k < keypair_count d'. oe_keypair e = Some k \<and> oe_nonce e < sendNonce (keypairs d' k))"
  using assms
proof (induction rule: out_run.induct)
  case (start d)
  then show ?case by simp
next
  case (more d es d1 fs d2)
  note IH = more.IH [OF more.prems]
  note S = out_step_spec [OF more.hyps(2) conjunct1 [OF IH]]
  have adv: "keypair_count d1 \<le> keypair_count d2" "\<And>k. k < keypair_count d1 \<Longrightarrow> sendNonce (keypairs d1 k) \<le> sendNonce (keypairs d2 k)"
    using S by (auto simp: advances_def)
  have old: "\<exists>k < keypair_count d2. oe_keypair e = Some k \<and> oe_nonce e < sendNonce (keypairs d2 k)" if "e \<in> set es" for e
    using IH that adv by (meson order_less_le_trans)
  show ?case
  proof (cases "fs = []")
    case True
    then show ?thesis using IH S old by (auto simp: advances_def)
  next
    case False
    then obtain k where k: "k < keypair_count d1" "map (\<lambda>e. unat (oe_nonce e)) fs = [unat (sendNonce (keypairs d1 k)) ..< unat (sendNonce (keypairs d2 k))]"
      "\<And>e. e \<in> set fs \<Longrightarrow> oe_keypair e = Some k" using S by blast
    have new: "unat (sendNonce (keypairs d1 k)) \<le> unat (oe_nonce e) \<and> unat (oe_nonce e) < unat (sendNonce (keypairs d2 k))" if "e \<in> set fs" for e
    proof -
      have "unat (oe_nonce e) \<in> set (map (\<lambda>e. unat (oe_nonce e)) fs)" using that by auto
      then show ?thesis unfolding k(2) by simp
    qed
    have dfs: "distinct (map (\<lambda>e. (oe_keypair e, unat (oe_nonce e))) fs)"
    proof -
      have "distinct (map (\<lambda>e. unat (oe_nonce e)) fs)" unfolding k(2) by simp
      then show ?thesis by (auto simp: distinct_map inj_on_def)
    qed
    have "(oe_keypair e, unat (oe_nonce e)) \<noteq> (oe_keypair f, unat (oe_nonce f))" if "e \<in> set es" "f \<in> set fs" for e f
    proof
      assume eq: "(oe_keypair e, unat (oe_nonce e)) = (oe_keypair f, unat (oe_nonce f))"
      then have "oe_nonce e < sendNonce (keypairs d1 k)" using IH that k(3) by fastforce
      with new [OF that(2)] eq show False by (simp add: word_less_nat_alt)
    qed
    then have "distinct (map (\<lambda>e. (oe_keypair e, unat (oe_nonce e))) (es @ fs))"
      using IH dfs by (auto simp: image_iff)
    moreover have "\<exists>k < keypair_count d2. oe_keypair e = Some k \<and> oe_nonce e < sendNonce (keypairs d2 k)" if "e \<in> set fs" for e
      using k(1,3) new that adv(1) by (auto simp: word_less_nat_alt)
    ultimately show ?thesis using S old by (auto simp: advances_def)
  qed
qed

lemma transport_nonce_inject: "transport_nonce m = transport_nonce n \<longleftrightarrow> m = n"
proof
  assume "transport_nonce m = transport_nonce n"
  then have "get_u64_le (put_u64_le m @ []) = get_u64_le (put_u64_le n @ [])" by (simp add: transport_nonce_def)
  then show "m = n" by (simp only: get_put_u64_le)
qed simp

lemma distinct_map_finer:
  assumes "distinct (map f xs)" and finer: "\<And>x y. g x = g y \<Longrightarrow> f x = f y"
  shows "distinct (map g xs)"
  using assms(1)
proof (induction xs)
  case (Cons a xs)
  have "g a \<notin> g ` set xs"
  proof
    assume "g a \<in> g ` set xs"
    then obtain x where "x \<in> set xs" "g a = g x" by blast
    then have "f a \<in> f ` set xs" using finer [of a x] by simp
    then show False using Cons.prems by simp
  qed
  then show ?case using Cons by simp
qed simp

lemma counters_ok_new: "counters_ok zero_Device"
  by (simp add: counters_ok_def zero_Device_def new_Keypair_def held_def new_Peer_def)

text \<open>C2. No nonce is used twice. In any history of staging, sending, keepalives, handshakes, transmission,
  sessions, expiry and the passing of time, of any peers and in any order, the elements handed to the
  outbound queues carry pairwise different pairs of key pair and nonce; every one has a key pair, and its
  nonce is below \<open>RejectAfterMessages\<close>.\<close>

theorem nonces_used_once:
  assumes "out_run C N d es d'" "counters_ok d"
  shows "distinct (map (\<lambda>e. (oe_keypair e, transport_nonce (oe_nonce e))) es) \<and>
    (\<forall>e \<in> set es. oe_keypair e \<noteq> None \<and> oe_nonce e < RejectAfterMessages)"
proof -
  note S = out_run_spec [OF assms]
  have "distinct (map (\<lambda>e. (oe_keypair e, transport_nonce (oe_nonce e))) es)"
  proof (rule distinct_map_finer [OF conjunct1 [OF conjunct2 [OF S]]])
    fix x y :: QueueOutboundElement
    assume "(oe_keypair x, transport_nonce (oe_nonce x)) = (oe_keypair y, transport_nonce (oe_nonce y))"
    then show "(oe_keypair x, unat (oe_nonce x)) = (oe_keypair y, unat (oe_nonce y))" unfolding prod.inject transport_nonce_inject by (elim conjE) (intro conjI, assumption, erule arg_cong)
  qed
  moreover have "oe_nonce e < RejectAfterMessages" if "e \<in> set es" for e
  proof -
    from S that obtain k where "oe_nonce e < sendNonce (keypairs d' k)" by (elim conjE ballE) blast+
    moreover have "sendNonce (keypairs d' k) \<le> RejectAfterMessages" using S by (simp add: counters_ok_def)
    ultimately show ?thesis by (rule order_less_le_trans)
  qed
  moreover have "oe_keypair e \<noteq> None" if "e \<in> set es" for e using S that by blast
  ultimately show ?thesis by blast
qed

text \<open>A device with a key pair, on which a packet is staged and sent.\<close>

definition sender :: Device where
  "sender = zero_Device\<lparr>dev_state := deviceStateUp, now := 10, peers := (\<lambda>_. new_Peer\<lparr>isRunning := True, kp_current := Some 0\<rparr>),
     keypair_count := 1, keypairs := (\<lambda>_. new_Keypair\<lparr>created := 9\<rparr>)\<rparr>"

theorem nonces_used_once_witness:
  "\<exists>es d. out_run toy_crypto some_net sender es d \<and> map oe_packet es = [[1], [2]] \<and>
     distinct (map (\<lambda>e. (oe_keypair e, transport_nonce (oe_nonce e))) es)"
proof -
  let ?d1 = "StagePackets 0 [new_elem [1], new_elem [2]] sender"
  have r: "RejectAfterMessages \<noteq> 0" "\<not> RejectAfterMessages \<le> 0" "\<not> RejectAfterMessages \<le> 1" by (simp_all add: word_le_nat_alt word_unat_eq_iff unat_Reject)
  have "SendStagedPackets toy_crypto some_net 0 ?d1 = Some (upd_peer 0 (\<lambda>P. P\<lparr>q_staged := [],
      q_outbound := [[\<lparr>oe_packet = [1], oe_nonce = 0, oe_keypair = Some 0\<rparr>, \<lparr>oe_packet = [2], oe_nonce = 1, oe_keypair = Some 0\<rparr>]]\<rparr>)
      (upd_keypair 0 (\<lambda>K. K\<lparr>sendNonce := 2\<rparr>) ?d1))" (is "_ = Some ?d2")
    using r by (simp add: SendStagedPackets_def StagePackets_def sender_def zero_Device_def isUp_def new_Peer_def new_Keypair_def
      stage_loop.simps QueueStagedSize_def new_elem_def since_def time_sub_def time_consts upd_peer_def upd_keypair_def Let_def)
  from out_step.send [OF this] have s: "out_step toy_crypto some_net ?d1 (queued 0 ?d1 ?d2) ?d2" .
  have q: "map oe_packet (queued 0 ?d1 ?d2) = [[1], [2]]"
    by (simp add: queued_def StagePackets_def sender_def new_Peer_def)
  have run: "out_run toy_crypto some_net sender (([] @ []) @ queued 0 ?d1 ?d2) ?d2"
    by (intro out_run.more [OF out_run.more [OF out_run.start out_step.stage] s])
  have ok: "counters_ok sender"
    by (simp add: counters_ok_def sender_def new_Keypair_def held_def new_Peer_def)
  from nonces_used_once [OF run ok] run q show ?thesis by auto
qed

end
