(* ===== verification/Source_Filter.thy ===== *)
theory Source_Filter
  imports Receive Nonces "HOL-Library.Sublist"
begin

text \<open>
  What reaches the TUN device: the sequential receivers of \<open>Receive\<close>, with the replay filters of \<open>Replay\<close>
  and the routes of \<open>Allowed_IPs\<close>, deliver decrypted packets only, each once, and only from sources routed
  to the peer.
\<close>


section \<open>What reception alone changes\<close>

text \<open>The part of the device the receiver's guarantee is about: the packets given to the TUN device, the
  routes, and the filters of the key pairs.\<close>

definition inbound_view :: "Device \<Rightarrow> bytes list \<times> AllowedIPs \<times> (kpid \<Rightarrow> Filter)" where
  "inbound_view d = (tun_out d, allowedips d, \<lambda>k. replayFilter (keypairs d k))"

lemma inbound_viewD:
  assumes "inbound_view d' = inbound_view d"
  shows "tun_out d' = tun_out d" "allowedips d' = allowedips d" "replayFilter (keypairs d' k) = replayFilter (keypairs d k)"
  using assms by (simp_all add: inbound_view_def fun_eq_iff)

lemma inbound_view_upd_peer [simp]: "inbound_view (upd_peer p f d) = inbound_view d"
  by (simp add: inbound_view_def upd_peer_def)

lemma inbound_view_traffic: "traffic d' = traffic d \<Longrightarrow> inbound_view d' = inbound_view d"
  using trafficD(1,4,5) [of d' d] by (simp add: inbound_view_def)

lemma SendStagedPackets_inbound_view:
  assumes "SendStagedPackets C N p d = Some d'"
  shows "inbound_view d' = inbound_view d"
  using assms
proof (cases rule: SendStagedPackets_cases)
  case idle
  then show ?thesis by (rule inbound_view_traffic)
next
  case (sent k rest out n ex)
  from inbound_view_traffic [OF sent(6)] show ?thesis
    by (simp add: inbound_view_def upd_peer_def upd_keypair_def fun_eq_iff)
qed

lemma SendHandshakeInitiation_traffic: "SendHandshakeInitiation C N p rt d = Some (ok, d') \<Longrightarrow> traffic d' = traffic d"
  using SendHandshakeInitiation_spec [of C N p rt d] by simp

lemma ReceivedWithKeypair_inbound_view: "ReceivedWithKeypair p k d = (first, d') \<Longrightarrow> inbound_view d' = inbound_view d"
  by (auto simp: ReceivedWithKeypair_def Let_def DeleteKeypair_def inbound_view_def upd_peer_def split: if_splits option.splits)

lemma SetEndpointFromPacket_inbound_view [simp]: "inbound_view (SetEndpointFromPacket p ep d) = inbound_view d"
  by (simp add: SetEndpointFromPacket_def)

lemma keepKeyFreshReceiving_inbound_view: "keepKeyFreshReceiving C N p d = Some d' \<Longrightarrow> inbound_view d' = inbound_view d"
  by (auto simp: keepKeyFreshReceiving_def Let_def split: if_splits option.splits
      dest!: SendHandshakeInitiation_traffic inbound_view_traffic)

section \<open>One element\<close>

text \<open>Element \<open>e\<close> is delivered to the TUN device as \<open>b\<close>: its decrypted packet, cut to its stated length, with
  a source that the routes of \<open>d\<close> give to peer \<open>p\<close>.\<close>

definition delivers :: "Device \<Rightarrow> pid \<Rightarrow> QueueInboundElement \<Rightarrow> bytes \<Rightarrow> bool" where
  "delivers d p e b \<longleftrightarrow> (\<exists>packet src. ie_packet e = Some packet \<and> inbound_ip packet = Some (b, src) \<and>
     Lookup (allowedips d) src = Some (Some p))"

definition seen_by :: "Device \<Rightarrow> (kpid \<times> nat) set \<Rightarrow> bool" where
  "seen_by d S \<longleftrightarrow> (\<forall>k. represents (replayFilter (keypairs d k)) {c. (k, c) \<in> S})"

definition number :: "QueueInboundElement \<Rightarrow> kpid \<times> nat" where
  "number e = (ie_keypair e, unat (ie_counter e))"

text \<open>The end of \<open>receive_elem\<close> for an accepted counter.\<close>

definition deliver :: "pid \<Rightarrow> bytes \<Rightarrow> Inbound \<Rightarrow> Device \<Rightarrow> Inbound" where
  "deliver p packet I d =
     (let I = I\<lparr>in_rx := in_rx I + word_of_nat (length packet + MinMessageSize)\<rparr> in
      if packet = [] then I
      else let I = I\<lparr>in_data := True\<rparr> in
        case inbound_ip packet of
          None \<Rightarrow> I
        | Some (trimmed, src) \<Rightarrow>
            if Lookup (allowedips d) src \<noteq> Some (Some p) then I else I\<lparr>in_bufs := in_bufs I @ [trimmed]\<rparr>)"

lemma deliver_bufs:
  "in_bufs (deliver p packet I d) = in_bufs I \<or> (\<exists>b src. inbound_ip packet = Some (b, src) \<and>
     in_bufs (deliver p packet I d) = in_bufs I @ [b] \<and> Lookup (allowedips d) src = Some (Some p))"
  by (auto simp: deliver_def Let_def split: option.splits)

lemma receive_elem_accepted:
  assumes "ie_packet e = Some packet"
    "ValidateCounter (replayFilter (keypairs d (ie_keypair e))) (ie_counter e) RejectAfterMessages = (True, f)"
    "ReceivedWithKeypair p (ie_keypair e) (upd_keypair (ie_keypair e) (\<lambda>K. K\<lparr>replayFilter := f\<rparr>) d) = (first, d1)"
  shows "receive_elem C N p e I d =
    map_option (\<lambda>d. (deliver p packet (I\<lparr>in_tail := Some (ie_endpoint e)\<rparr>) d, d))
      (if first then SendStagedPackets C N p (timersHandshakeComplete p (SetEndpointFromPacket p (ie_endpoint e) d1)) else Some d1)"
proof -
  have tail: "(let I = I1\<lparr>in_rx := in_rx I1 + word_of_nat (length packet + MinMessageSize)\<rparr> in
      if packet = [] then Some (I, d2)
      else let I = I\<lparr>in_data := True\<rparr> in
        case inbound_ip packet of None \<Rightarrow> Some (I, d2)
        | Some (trimmed, src) \<Rightarrow> if Lookup (allowedips d2) src \<noteq> Some (Some p) then Some (I, d2)
            else Some (I\<lparr>in_bufs := in_bufs I @ [trimmed]\<rparr>, d2)) = Some (deliver p packet I1 d2, d2)" for I1 d2
    by (simp add: deliver_def Let_def split: option.split)
  show ?thesis
    unfolding receive_elem_def assms option.case Let_def [of "ie_keypair e"] prod.case
    unfolding Let_def [of "(True, f)"] Let_def [of "upd_keypair _ _ _"] Let_def [of "(first, d1)"] prod.case assms
    unfolding Let_def [of "I\<lparr>in_tail := Some (ie_endpoint e)\<rparr>"] tail
    by (cases "if first then SendStagedPackets C N p (timersHandshakeComplete p (SetEndpointFromPacket p (ie_endpoint e) d1)) else Some d1")
      simp_all
qed

lemma receive_elem_spec:
  assumes r: "receive_elem C N p e I d = Some (I', d')" and S: "seen_by d S"
  shows "tun_out d' = tun_out d \<and> allowedips d' = allowedips d \<and>
    (in_bufs I' = in_bufs I \<and> (seen_by d' S \<or> seen_by d' (insert (number e) S)) \<or>
     (\<exists>b. in_bufs I' = in_bufs I @ [b] \<and> delivers d p e b \<and> number e \<notin> S \<and> seen_by d' (insert (number e) S)))"
proof (cases "ie_packet e")
  case None
  with r S show ?thesis by (simp add: receive_elem_def)
next
  case (Some packet)
  let ?k = "ie_keypair e"
  obtain ok f where v: "ValidateCounter (replayFilter (keypairs d ?k)) (ie_counter e) RejectAfterMessages = (ok, f)" by force
  let ?d = "upd_keypair ?k (\<lambda>K. K\<lparr>replayFilter := f\<rparr>) d"
  have rep: "represents (replayFilter (keypairs d ?k)) {c. (?k, c) \<in> S}" using S by (simp add: seen_by_def)
  note W = ValidateCounter_step [OF rep v]
  have S': "seen_by ?d (if ok then insert (number e) S else S)"
    unfolding seen_by_def
  proof
    fix k
    have "{c. (?k, c) \<in> (if ok then insert (number e) S else S)} =
      (if ok then insert (unat (ie_counter e)) {c. (?k, c) \<in> S} else {c. (?k, c) \<in> S})"
      by (auto simp: number_def)
    with W S show "represents (replayFilter (keypairs ?d k)) {c. (k, c) \<in> (if ok then insert (number e) S else S)}"
      by (cases "k = ?k") (auto simp: upd_keypair_def seen_by_def number_def)
  qed
  show ?thesis
  proof (cases ok)
    case False
    with r Some v S' show ?thesis by (auto simp: receive_elem_def Let_def upd_keypair_def)
  next
    case True
    have new: "number e \<notin> S" using W True by (simp add: accepts_def number_def)
    obtain first d1 where f: "ReceivedWithKeypair p ?k ?d = (first, d1)" by force
    let ?send = "if first then SendStagedPackets C N p (timersHandshakeComplete p (SetEndpointFromPacket p (ie_endpoint e) d1)) else Some d1"
    have v': "ValidateCounter (replayFilter (keypairs d ?k)) (ie_counter e) RejectAfterMessages = (True, f)" using v True by simp
    note A = receive_elem_accepted [OF Some v' f, of C N I, unfolded r]
    obtain d2 where s: "?send = Some d2" using A by (cases ?send) (simp_all split: if_splits)
    have I': "I' = deliver p packet (I\<lparr>in_tail := Some (ie_endpoint e)\<rparr>) d2" "d' = d2"
      using A unfolding s by simp_all
    have "d' = d2 \<and> (in_bufs I' = in_bufs I \<or> (\<exists>b src. inbound_ip packet = Some (b, src) \<and> in_bufs I' = in_bufs I @ [b] \<and>
        Lookup (allowedips d2) src = Some (Some p)))"
      using deliver_bufs [of p packet "I\<lparr>in_tail := Some (ie_endpoint e)\<rparr>" d2] by (simp add: I')
    moreover have "inbound_view d2 = inbound_view ?d"
    proof -
      have t: "inbound_view (timersHandshakeComplete p (SetEndpointFromPacket p (ie_endpoint e) d1)) = inbound_view d1"
        by (rule trans [OF inbound_view_traffic SetEndpointFromPacket_inbound_view]) simp
      show ?thesis
      proof (cases first)
        case True
        with s have "SendStagedPackets C N p (timersHandshakeComplete p (SetEndpointFromPacket p (ie_endpoint e) d1)) = Some d2" by simp
        from SendStagedPackets_inbound_view [OF this] t ReceivedWithKeypair_inbound_view [OF f] show ?thesis by simp
      next
        case False
        with s ReceivedWithKeypair_inbound_view [OF f] show ?thesis by simp
      qed
    qed
    note V = inbound_viewD [OF this]
    have "tun_out d2 = tun_out d" "allowedips d2 = allowedips d" "seen_by d2 (insert (number e) S)"
      using S' True by (simp_all add: V seen_by_def upd_keypair_def)
    ultimately show ?thesis unfolding delivers_def Some I'(2) using new by auto
  qed
qed

section \<open>Batches\<close>

lemma receive_elems_spec:
  "receive_elems C N p es I d = Some (I', d') \<Longrightarrow> seen_by d S \<Longrightarrow>
    tun_out d' = tun_out d \<and> allowedips d' = allowedips d \<and>
    (\<exists>del bufs S'. in_bufs I' = in_bufs I @ bufs \<and> subseq del es \<and> list_all2 (delivers d p) del bufs \<and>
      distinct (map number del) \<and> S \<inter> set (map number del) = {} \<and> seen_by d' S' \<and> S \<union> set (map number del) \<subseteq> S')"
proof (induction es arbitrary: I d S)
  case Nil
  then show ?case by auto
next
  case (Cons e es)
  obtain I1 d1 where r: "receive_elem C N p e I d = Some (I1, d1)" "receive_elems C N p es I1 d1 = Some (I', d')"
    using Cons.prems(1) by (auto simp: bind_eq_Some_conv)
  note E = receive_elem_spec [OF r(1) Cons.prems(2)]
  have del: "delivers d1 p = delivers d p" using E by (simp add: delivers_def fun_eq_iff)
  obtain S1 where S1: "seen_by d1 S1" "S \<subseteq> S1"
    "in_bufs I1 = in_bufs I \<or> (\<exists>b. in_bufs I1 = in_bufs I @ [b] \<and> delivers d p e b \<and> number e \<notin> S \<and> S1 = insert (number e) S)"
    using E by blast
  obtain del bufs S' where D: "in_bufs I' = in_bufs I1 @ bufs" "subseq del es" "list_all2 (delivers d p) del bufs"
    "distinct (map number del)" "S1 \<inter> set (map number del) = {}" "seen_by d' S'" "S1 \<union> set (map number del) \<subseteq> S'"
    and f: "tun_out d' = tun_out d1" "allowedips d' = allowedips d1"
    using Cons.IH [OF r(2) S1(1)] del by auto
  from S1(3) show ?case
  proof
    assume "in_bufs I1 = in_bufs I"
    with D f E S1(2) show ?thesis by (intro conjI exI [of _ del] exI [of _ bufs] exI [of _ S']) auto
  next
    assume "\<exists>b. in_bufs I1 = in_bufs I @ [b] \<and> delivers d p e b \<and> number e \<notin> S \<and> S1 = insert (number e) S"
    then obtain b where b: "in_bufs I1 = in_bufs I @ [b]" "delivers d p e b" "number e \<notin> S" "S1 = insert (number e) S" by blast
    with D f E show ?thesis by (intro conjI exI [of _ "e # del"] exI [of _ "b # bufs"] exI [of _ S']) auto
  qed
qed

text \<open>The parts of \<open>RoutineSequentialReceiver\<close> after the loop.\<close>

definition after_batch :: "crypto \<Rightarrow> Net \<Rightarrow> pid \<Rightarrow> Inbound \<Rightarrow> Device \<Rightarrow> Device option" where
  "after_batch C N p I d =
     (case in_tail I of
        None \<Rightarrow> Some d
      | Some ep \<Rightarrow>
          do { d \<leftarrow> keepKeyFreshReceiving C N p (SetEndpointFromPacket p ep d);
               Some (timersAnyAuthenticatedPacketReceived p (timersAnyAuthenticatedPacketTraversal p d)) })"

definition write_batch :: "pid \<Rightarrow> Inbound \<Rightarrow> Device \<Rightarrow> Device" where
  "write_batch p I d =
     (let d = (if in_data I then timersDataReceived p d else d)
      in if in_bufs I \<noteq> [] then d\<lparr>tun_out := tun_out d @ in_bufs I\<rparr> else d)"

lemma RoutineSequentialReceiver_parts:
  "RoutineSequentialReceiver C N p es d =
     do { (I, d) \<leftarrow> receive_elems C N p es no_inbound d;
          d \<leftarrow> after_batch C N p I (upd_peer p (\<lambda>P. P\<lparr>rxBytes := rxBytes P + in_rx I\<rparr>) d);
          Some (write_batch p I d) }"
  unfolding RoutineSequentialReceiver_def after_batch_def write_batch_def Let_def ..

lemma after_batch_inbound_view:
  assumes "after_batch C N p I d = Some d'"
  shows "inbound_view d' = inbound_view d"
proof (cases "in_tail I")
  case None
  with assms show ?thesis by (simp add: after_batch_def)
next
  case (Some ep)
  obtain d1 where k: "keepKeyFreshReceiving C N p (SetEndpointFromPacket p ep d) = Some d1"
    and d': "d' = timersAnyAuthenticatedPacketReceived p (timersAnyAuthenticatedPacketTraversal p d1)"
    using assms Some by (auto simp: after_batch_def bind_eq_Some_conv)
  have "inbound_view d' = inbound_view d1" unfolding d' by (rule inbound_view_traffic) simp
  then show ?thesis using keepKeyFreshReceiving_inbound_view [OF k] by simp
qed

lemma write_batch_spec:
  "tun_out (write_batch p I d) = tun_out d @ in_bufs I" "allowedips (write_batch p I d) = allowedips d"
  "replayFilter (keypairs (write_batch p I d) k) = replayFilter (keypairs d k)"
proof -
  have "inbound_view (if in_data I then timersDataReceived p d else d) = inbound_view d"
    by (rule inbound_view_traffic) simp
  note V = inbound_viewD [OF this]
  show "tun_out (write_batch p I d) = tun_out d @ in_bufs I" "allowedips (write_batch p I d) = allowedips d"
    "replayFilter (keypairs (write_batch p I d) k) = replayFilter (keypairs d k)"
    using V by (simp_all add: write_batch_def Let_def)
qed

lemma sequential_receiver_spec:
  assumes "RoutineSequentialReceiver C N p es d = Some d'" "seen_by d S"
  shows "allowedips d' = allowedips d \<and>
    (\<exists>del bufs S'. tun_out d' = tun_out d @ bufs \<and> subseq del es \<and> list_all2 (delivers d p) del bufs \<and>
      distinct (map number del) \<and> S \<inter> set (map number del) = {} \<and> seen_by d' S' \<and> S \<union> set (map number del) \<subseteq> S')"
proof -
  obtain I d1 d2 where r: "receive_elems C N p es no_inbound d = Some (I, d1)"
    and a: "after_batch C N p I (upd_peer p (\<lambda>P. P\<lparr>rxBytes := rxBytes P + in_rx I\<rparr>) d1) = Some d2"
    and d': "d' = write_batch p I d2"
    using assms(1) by (auto simp: RoutineSequentialReceiver_parts bind_eq_Some_conv)
  note V = inbound_viewD [OF after_batch_inbound_view [OF a, simplified]]
  have "tun_out d' = tun_out d1 @ in_bufs I" "allowedips d' = allowedips d1" "\<And>T. seen_by d' T = seen_by d1 T"
    unfolding d' by (simp_all add: write_batch_spec V seen_by_def)
  with receive_elems_spec [OF r assms(2)] show ?thesis by (simp add: no_inbound_def)
qed

text \<open>The receivers of all peers, container after container, in any interleaving.\<close>

fun receive_containers :: "crypto \<Rightarrow> Net \<Rightarrow> (pid \<times> QueueInboundElement list) list \<Rightarrow> Device \<Rightarrow> Device option" where
  "receive_containers C N [] d = Some d"
| "receive_containers C N ((p, es) # cs) d =
     do { d \<leftarrow> RoutineSequentialReceiver C N p es d; receive_containers C N cs d }"

definition elements :: "(pid \<times> QueueInboundElement list) list \<Rightarrow> (pid \<times> QueueInboundElement) list" where
  "elements cs = concat (map (\<lambda>(p, es). map (Pair p) es) cs)"

lemma receive_containers_spec:
  "receive_containers C N cs d = Some d' \<Longrightarrow> seen_by d S \<Longrightarrow>
    \<exists>del bufs. tun_out d' = tun_out d @ bufs \<and> subseq del (elements cs) \<and>
      list_all2 (\<lambda>(p, e). delivers d p e) del bufs \<and> distinct (map (number \<circ> snd) del) \<and> S \<inter> set (map (number \<circ> snd) del) = {}"
proof (induction cs arbitrary: d S)
  case Nil
  then show ?case by simp
next
  case (Cons c cs)
  obtain p es where c: "c = (p, es)" by (cases c)
  obtain d1 where r: "RoutineSequentialReceiver C N p es d = Some d1" "receive_containers C N cs d1 = Some d'"
    using Cons.prems(1) c by (auto simp: bind_eq_Some_conv)
  obtain del bufs S' where D: "tun_out d1 = tun_out d @ bufs" "subseq del es" "list_all2 (delivers d p) del bufs"
    "distinct (map number del)" "S \<inter> set (map number del) = {}" "seen_by d1 S'" "S \<union> set (map number del) \<subseteq> S'"
    and routes: "allowedips d1 = allowedips d"
    using sequential_receiver_spec [OF r(1) Cons.prems(2)] by blast
  have same: "delivers d1 = delivers d" using routes by (simp add: delivers_def fun_eq_iff)
  note IH = Cons.IH [OF r(2) D(6), unfolded same]
  obtain del2 bufs2 where D2: "tun_out d' = tun_out d1 @ bufs2" "subseq del2 (elements cs)"
      "list_all2 (\<lambda>(p, e). delivers d p e) del2 bufs2" "distinct (map (number \<circ> snd) del2)" "S' \<inter> set (map (number \<circ> snd) del2) = {}"
    using IH by (elim exE conjE) (rule that)
  have e: "elements (c # cs) = map (Pair p) es @ elements cs" by (simp add: elements_def c)
  have m: "map (number \<circ> snd) (map (Pair p) del) = map number del" by simp
  show ?case
  proof (intro exI conjI)
    show "tun_out d' = tun_out d @ (bufs @ bufs2)" using D(1) D2(1) by simp
    show "subseq (map (Pair p) del @ del2) (elements (c # cs))"
      unfolding e using D(2) D2(2) by (intro list_emb_append_mono subseq_map)
    show "list_all2 (\<lambda>(p, e). delivers d p e) (map (Pair p) del @ del2) (bufs @ bufs2)"
      using D(3) D2(3) by (intro list_all2_appendI) (simp_all add: list_all2_map1)
    have "set (map number del) \<inter> set (map (number \<circ> snd) del2) = {}" using D(7) D2(5) by blast
    then show "distinct (map (number \<circ> snd) (map (Pair p) del @ del2))"
      using D(4) D2(4) unfolding map_append m distinct_append by blast
    show "S \<inter> set (map (number \<circ> snd) (map (Pair p) del @ del2)) = {}"
      using D(5,7) D2(5) unfolding map_append m set_append by blast
  qed
qed

text \<open>C3. Nothing is injected and nothing replayed: whatever containers the sequential receivers of the peers
  take, in whatever order, the packets they write to the TUN device are decrypted packets of the
  containers, in order, each cut to the length its IP header states and each with a source address that the
  cryptokey routing gives to the peer it came from; and no key pair delivers a counter twice, nor one that
  its filter has seen before.\<close>

theorem inbound_filtered:
  assumes "receive_containers C N cs d = Some d'" "seen_by d S"
  shows "\<exists>del bufs. tun_out d' = tun_out d @ bufs \<and> subseq del (elements cs) \<and>
      list_all2 (\<lambda>(p, e). delivers d p e) del bufs \<and> distinct (map (number \<circ> snd) del) \<and> S \<inter> set (map (number \<circ> snd) del) = {}"
  by (rule receive_containers_spec [OF assms])

section \<open>A run of the receivers\<close>

text \<open>A device whose peer 1 may send from anywhere, before any session.\<close>

definition filtering :: Device where
  "filtering = zero_Device\<lparr>allowedips := \<lparr>IPv4 = Node (Some 1) 0 [0, 0, 0, 0] Null Null, IPv6 = Null, trieEntries = (\<lambda>_. [])\<rparr>\<rparr>"

definition ip_packet :: bytes where
  "ip_packet = [69, 0, 0, 21] @ replicate 8 0 @ [10, 0, 0, 1] @ replicate 4 0 @ [255]"

definition inbound_element :: "u64 \<Rightarrow> QueueInboundElement" where
  "inbound_element n = \<lparr>ie_packet = Some ip_packet, ie_counter = n, ie_keypair = 0,
     ie_endpoint = \<lparr>ep_addr = [192, 0, 2, 1], ep_port = 51820, ep_src = []\<rparr>\<rparr>"

definition sessionless :: "Device \<Rightarrow> bool" where
  "sessionless d \<longleftrightarrow> (\<forall>q. kp_next (peers d q) = None \<and> kp_current (peers d q) = None)"

lemma sessionless_traffic: "traffic d' = traffic d \<Longrightarrow> sessionless d' = sessionless d"
  using trafficD(6,8) [of d' d] by (simp add: sessionless_def)

lemma sessionless_endpoint [simp]: "sessionless (SetEndpointFromPacket p ep d) = sessionless d"
  by (auto simp: sessionless_def SetEndpointFromPacket_def upd_peer_def)

lemma sessionless_elem:
  assumes "sessionless d"
  shows "\<exists>I' d'. receive_elem C N p e I d = Some (I', d') \<and> sessionless d'"
proof (cases "ie_packet e")
  case None
  with assms show ?thesis by (simp add: receive_elem_def)
next
  case (Some packet)
  let ?k = "ie_keypair e"
  obtain ok f where v: "ValidateCounter (replayFilter (keypairs d ?k)) (ie_counter e) RejectAfterMessages = (ok, f)" by force
  let ?d = "upd_keypair ?k (\<lambda>K. K\<lparr>replayFilter := f\<rparr>) d"
  have s: "sessionless ?d" using assms by (simp add: sessionless_def upd_keypair_def)
  show ?thesis
  proof (cases ok)
    case True
    with v have v': "ValidateCounter (replayFilter (keypairs d ?k)) (ie_counter e) RejectAfterMessages = (True, f)" by simp
    have r: "ReceivedWithKeypair p ?k ?d = (False, ?d)" using s by (simp add: ReceivedWithKeypair_def sessionless_def)
    show ?thesis using receive_elem_accepted [OF Some v' r] s by simp
  next
    case False
    with Some v s show ?thesis by (simp add: receive_elem_def Let_def)
  qed
qed

lemma sessionless_elems: "sessionless d \<Longrightarrow> \<exists>I' d'. receive_elems C N p es I d = Some (I', d') \<and> sessionless d'"
proof (induction es arbitrary: I d)
  case (Cons e es)
  obtain I1 d1 where "receive_elem C N p e I d = Some (I1, d1)" "sessionless d1"
    using sessionless_elem [OF Cons.prems] by blast
  then show ?case using Cons.IH by simp
qed simp

lemma sessionless_receiver:
  assumes "sessionless d"
  shows "\<exists>d'. RoutineSequentialReceiver C N p es d = Some d' \<and> sessionless d'"
proof -
  obtain I d1 where r: "receive_elems C N p es no_inbound d = Some (I, d1)" "sessionless d1"
    using sessionless_elems [OF assms] by blast
  let ?d = "upd_peer p (\<lambda>P. P\<lparr>rxBytes := rxBytes P + in_rx I\<rparr>) d1"
  have s: "sessionless ?d" using r(2) by (simp add: sessionless_def upd_peer_def)
  have k: "keepKeyFreshReceiving C N p d2 = Some d2" if "sessionless d2" for d2
    using that by (simp add: keepKeyFreshReceiving_def sessionless_def)
  have "\<exists>d2. after_batch C N p I ?d = Some d2 \<and> sessionless d2"
  proof (cases "in_tail I")
    case None
    with s show ?thesis by (simp add: after_batch_def)
  next
    case (Some ep)
    let ?d2 = "SetEndpointFromPacket p ep ?d"
    have "traffic (timersAnyAuthenticatedPacketReceived p (timersAnyAuthenticatedPacketTraversal p ?d2)) = traffic ?d2" by simp
    from sessionless_traffic [OF this] s k [of ?d2] Some show ?thesis by (simp add: after_batch_def)
  qed
  then obtain d2 where d2: "after_batch C N p I ?d = Some d2" "sessionless d2" by blast
  have "sessionless (write_batch p I d2)"
  proof -
    have "sessionless (if in_data I then timersDataReceived p d2 else d2)"
      using d2(2) sessionless_traffic [of "timersDataReceived p d2" d2] by simp
    then show ?thesis by (simp add: write_batch_def Let_def sessionless_def)
  qed
  then show ?thesis using r(1) d2(1) by (simp add: RoutineSequentialReceiver_parts)
qed

lemma sessionless_containers: "sessionless d \<Longrightarrow> \<exists>d'. receive_containers C N cs d = Some d'"
proof (induction cs arbitrary: d)
  case (Cons c cs)
  obtain p es where c: "c = (p, es)" by (cases c)
  obtain d1 where "RoutineSequentialReceiver C N p es d = Some d1" "sessionless d1"
    using sessionless_receiver [OF Cons.prems] by blast
  then show ?case using Cons.IH c by simp
qed simp

lemma Reset_zero: "Reset zero_filter = zero_filter"
  using list_update_id [of "replicate 128 0 :: u64 list" 0] by (simp add: Reset_def zero_filter_def)

lemma ip_packet_parts: "inbound_ip ip_packet = Some (ip_packet, [10, 0, 0, 1])"
  by code_simp

lemma filtering_delivers: "delivers filtering p (inbound_element n) b \<Longrightarrow> p = 1"
  by (auto simp: delivers_def inbound_element_def ip_packet_parts filtering_def Lookup_def Let_def split: if_splits)

theorem inbound_filtered_witness:
  "\<exists>d'. receive_containers toy_crypto some_net
       [(1, [inbound_element 3, inbound_element 3]), (2, [inbound_element 4])] filtering = Some d' \<and> length (tun_out d') \<le> 1"
proof -
  let ?cs = "[(1, [inbound_element 3, inbound_element 3]), (2, [inbound_element 4])]"
  have "sessionless filtering" by (simp add: sessionless_def filtering_def zero_Device_def new_Peer_def)
  then obtain d' where r: "receive_containers toy_crypto some_net ?cs filtering = Some d'" using sessionless_containers by blast
  have "seen_by filtering {}"
    using represents_Reset [of zero_filter] Reset_zero by (simp add: seen_by_def filtering_def zero_Device_def new_Keypair_def zero_filter_def)
  from inbound_filtered [OF r this] obtain del bufs where D: "tun_out d' = tun_out filtering @ bufs" "subseq del (elements ?cs)"
    "list_all2 (\<lambda>(p, e). delivers filtering p e) del bufs" "distinct (map (number \<circ> snd) del)"
    by blast
  have "set del \<subseteq> {(1, inbound_element 3)}"
  proof
    fix x assume x: "x \<in> set del"
    then have "x \<in> set (elements ?cs)" using list_emb_set [OF D(2)] by blast
    moreover have "fst x = 1"
    proof -
      obtain i where i: "i < length del" "x = del ! i" using x by (metis in_set_conv_nth)
      obtain p n b where "x = (p, inbound_element n)" "delivers filtering p (inbound_element n) b"
        using list_all2_nthD [OF D(3) i(1)] calculation i(2) by (auto simp: elements_def)
      then show ?thesis using filtering_delivers by simp
    qed
    ultimately show "x \<in> {(1, inbound_element 3)}" by (auto simp: elements_def)
  qed
  then have "card (set del) \<le> 1" using card_mono [of "{(1::pid, inbound_element 3)}" "set del"] by simp
  then have "length del \<le> 1" using distinct_card [of del] D(4) [unfolded distinct_map] by simp
  then show ?thesis using r D(1) list_all2_lengthD [OF D(3)] by (simp add: filtering_def zero_Device_def)
qed
end
