(* ===== verification/Device_Frames.thy ===== *)
theory Device_Frames
  imports Uapi Source_Filter
begin

text \<open>
  What every operation of the device does to its life: the state, the peers and their keys, who is running,
  and the routes. Most operations of sending and receiving leave it alone; the others are given as functions
  on it (\<open>start_peer\<close>, \<open>stop_peer\<close>, \<open>drop_peer\<close>, \<open>enlist_peer\<close>), which the detailed operations implement.
\<close>

section \<open>What most operations leave alone\<close>

text \<open>The state of the device, its peers and its routes: who there is, who is running, and where packets go.\<close>

record Life =
  lf_state :: deviceState
  lf_members :: "(bytes \<times> pid) list"
  lf_count :: nat
  lf_routes :: AllowedIPs
  lf_running :: "pid \<Rightarrow> bool"
  lf_key :: "pid \<Rightarrow> bytes"

definition life :: "Device \<Rightarrow> Life" where
  "life d = \<lparr>lf_state = dev_state d, lf_members = keyMap d, lf_count = peer_count d, lf_routes = allowedips d,
     lf_running = (\<lambda>p. isRunning (peers d p)), lf_key = (\<lambda>p. remoteStatic (hs_of d p))\<rparr>"

lemma life_upd_peer: "(\<And>P. isRunning (f P) = isRunning P \<and> remoteStatic (handshake (f P)) = remoteStatic (handshake P)) \<Longrightarrow> life (upd_peer p f d) = life d"
  by (simp add: life_def upd_peer_def hs_of_def fun_eq_iff)

lemma life_upd_hs: "(\<And>H. remoteStatic (f H) = remoteStatic H) \<Longrightarrow> life (upd_hs p f d) = life d"
  unfolding upd_hs_def by (rule life_upd_peer) simp

lemma life_upd_hs_simps [simp]: "life (upd_hs p (\<lambda>H. H\<lparr>lastSentHandshake := t\<rparr>) d) = life d"
  by (rule life_upd_hs) simp

lemma life_fields [simp]:
  "life (d\<lparr>rng_state := r\<rparr>) = life d" "life (d\<lparr>dice := c\<rparr>) = life d" "life (d\<lparr>wire := w\<rparr>) = life d"
  "life (d\<lparr>indexTable := t\<rparr>) = life d" "life (d\<lparr>cookieChecker := ck\<rparr>) = life d" "life (d\<lparr>limiter := l\<rparr>) = life d"
  "life (d\<lparr>underLoadUntil := u\<rparr>) = life d" "life (d\<lparr>now := t'\<rparr>) = life d" "life (d\<lparr>q_handshake := h\<rparr>) = life d"
  "life (d\<lparr>keypairs := ks\<rparr>) = life d" "life (d\<lparr>keypair_count := n\<rparr>) = life d" "life (d\<lparr>tun_out := o'\<rparr>) = life d"
  "life (d\<lparr>tun_mtu := m\<rparr>) = life d" "life (d\<lparr>net_open := b\<rparr>) = life d" "life (d\<lparr>net_port := np\<rparr>) = life d"
  "life (d\<lparr>net_fwmark := f\<rparr>) = life d" "life (d\<lparr>privateKey := sk\<rparr>) = life d" "life (d\<lparr>publicKey := pk\<rparr>) = life d"
  "life (d\<lparr>dev_closed := cl\<rparr>) = life d" "life (upd_keypair k g d) = life d"
  by (simp_all add: life_def hs_of_def upd_keypair_def)

lemma life_timer [simp]: "life (upd_timer p t f d) = life d"
  unfolding upd_timer_def by (rule life_upd_peer) simp

lemma life_timer_ops [simp]: "life (timer_mod p t dt d) = life d" "life (timer_del p t d) = life d"
  by (simp_all add: timer_mod_def timer_del_def)

lemma life_peer_simps [simp]:
  "life (upd_peer p (\<lambda>P. P\<lparr>needAnotherKeepalive := b\<rparr>) d) = life d" "life (upd_peer p (\<lambda>P. P\<lparr>handshakeAttempts := n\<rparr>) d) = life d"
  "life (upd_peer p (\<lambda>P. P\<lparr>handshakeAttempts := handshakeAttempts P + 1\<rparr>) d) = life d"
  "life (upd_peer p (\<lambda>P. P\<lparr>sentLastMinuteHandshake := b\<rparr>) d) = life d" "life (upd_peer p (\<lambda>P. P\<lparr>lastHandshakeNano := t\<rparr>) d) = life d"
  "life (upd_peer p (\<lambda>P. P\<lparr>cookieGenerator := g\<rparr>) d) = life d" "life (upd_peer p (\<lambda>P. P\<lparr>q_staged := q\<rparr>) d) = life d"
  "life (upd_peer p (\<lambda>P. P\<lparr>q_outbound := q\<rparr>) d) = life d" "life (upd_peer p (\<lambda>P. P\<lparr>q_inbound := qi\<rparr>) d) = life d"
  "life (upd_peer p (\<lambda>P. P\<lparr>q_inbound := q_inbound P @ qi\<rparr>) d) = life d"
  "life (upd_peer p (\<lambda>P. P\<lparr>rxBytes := rxBytes P + x\<rparr>) d) = life d"
  "life (upd_peer p (\<lambda>P. P\<lparr>clearSrcOnTx := b, ep_val := ep\<rparr>) d) = life d"
  by (rule life_upd_peer, simp)+

lemma life_timer_events [simp]:
  "life (timersDataSent p d) = life d" "life (timersDataReceived p d) = life d"
  "life (timersAnyAuthenticatedPacketSent p d) = life d" "life (timersAnyAuthenticatedPacketReceived p d) = life d"
  "life (timersHandshakeInitiated p d) = life d" "life (timersHandshakeComplete p d) = life d"
  "life (timersSessionDerived p d) = life d" "life (timersAnyAuthenticatedPacketTraversal p d) = life d"
  "life (timersInit p d) = life d" "life (timersStop p d) = life d" "life (timersStart p d) = life d"
  by (auto simp: timer_ops timersInit_def timersStop_def timersStart_def Let_def life_upd_peer)

lemma life_small [simp]:
  "life (SetEndpointFromPacket p ep d) = life d" "life (markEndpointSrcForClearing p d) = life d"
  "life (snd (SendBuffers N p bs d)) = life d" "life (StagePackets p es d) = life d" "life (FlushStagedPackets p d) = life d"
  "life (snd (add_macs C p b d)) = life d" "life (snd (pad_front n b d)) = life d" "life (snd (read_rand m d)) = life d"
  "life (snd (IsUnderLoad d)) = life d" "life (add_rx p k d) = life d" "life (DeleteKeypair kp d) = life d"
  by (auto simp: SetEndpointFromPacket_def markEndpointSrcForClearing_def SendBuffers_def StagePackets_def FlushStagedPackets_def
      add_macs_def pad_front_def read_rand_def IsUnderLoad_def add_rx_def DeleteKeypair_def Let_def case_prod_beta life_upd_peer
      split: option.split)

lemma life_ZeroAndFlushAll [simp]: "life (ZeroAndFlushAll p d) = life d"
  by (simp add: ZeroAndFlushAll_def Let_def life_upd_peer life_upd_hs Handshake_Clear_def)

lemma life_ExpireCurrentKeypairs [simp]: "life (ExpireCurrentKeypairs p d) = life d"
  by (auto simp: ExpireCurrentKeypairs_def Let_def life_upd_peer life_upd_hs Handshake_Clear_def split: option.split)

lemma life_ReceivedWithKeypair: "ReceivedWithKeypair p k d = (b, d') \<Longrightarrow> life d' = life d"
  by (auto simp: ReceivedWithKeypair_def Let_def life_upd_peer split: if_splits)

lemma life_gen_header: "gen_header h d = Some (v, d') \<Longrightarrow> life d' = life d"
  by (drule gen_header_frame) simp

lemma life_CreateMessageInitiation: "CreateMessageInitiation C p d = Some (res, d') \<Longrightarrow> life d' = life d"
proof (cases res)
  case (Inl e)
  assume "CreateMessageInitiation C p d = Some (res, d')"
  from CreateMessageInitiation_Inl [OF this [unfolded Inl]] show ?thesis by (elim exE) (simp add: life_upd_hs)
next
  case (Inr m)
  assume "CreateMessageInitiation C p d = Some (res, d')"
  from CreateMessageInitiation_Inr [OF this [unfolded Inr]] show ?thesis by (elim exE conjE) (simp add: life_upd_hs)
qed

lemma life_CreateMessageResponse: "CreateMessageResponse C p d = Some (res, d') \<Longrightarrow> life d' = life d"
proof (cases res)
  case (Inl e)
  assume "CreateMessageResponse C p d = Some (res, d')"
  from CreateMessageResponse_Inl [OF this [unfolded Inl]] show ?thesis by (elim disjE exE conjE) (simp_all add: life_upd_hs)
next
  case (Inr m)
  assume "CreateMessageResponse C p d = Some (res, d')"
  from CreateMessageResponse_Inr [OF this [unfolded Inr]] show ?thesis by (elim exE conjE) (simp add: life_upd_hs)
qed

lemma life_ConsumeMessageResponse: "ConsumeMessageResponse C r d = (who, d') \<Longrightarrow> life d' = life d"
  by (auto simp: ConsumeMessageResponse_def Let_def life_upd_hs split: if_splits option.splits)

lemma life_ConsumeMessageInitiation: "ConsumeMessageInitiation C m d = (who, d') \<Longrightarrow> life d' = life d"
  by (drule ConsumeMessageInitiation_cases) (auto simp: life_upd_hs)

lemma life_BeginSymmetricSession: "BeginSymmetricSession C p d = (err, d') \<Longrightarrow> life d' = life d"
  by (auto simp: BeginSymmetricSession_def rotate_keypairs_def Let_def case_prod_beta life_upd_peer life_upd_hs split: if_splits)

lemma life_signature_packets: "signature_packets cs d = Some (bs, d') \<Longrightarrow> life d' = life d"
  by (drule signature_packets_frame) auto

lemma life_junk_packets: "junk_packets n d = Some (bs, d') \<Longrightarrow> life d' = life d"
  by (drule junk_packets_frame) auto

lemma life_SendHandshakeInitiation: "SendHandshakeInitiation C N p rt d = Some (ok, d') \<Longrightarrow> life d' = life d"
  by (auto simp: SendHandshakeInitiation_def Let_def bind_eq_Some_conv case_prod_beta life_upd_hs split: if_splits sum.splits
      dest!: life_CreateMessageInitiation life_signature_packets life_junk_packets)

lemma life_SendHandshakeResponse: "SendHandshakeResponse C N p d = Some (ok, d') \<Longrightarrow> life d' = life d"
proof -
  assume s: "SendHandshakeResponse C N p d = Some (ok, d')"
  let ?d = "upd_hs p (\<lambda>H. H\<lparr>lastSentHandshake := now d\<rparr>) d"
  obtain res d1 where c: "CreateMessageResponse C p ?d = Some (res, d1)"
    using s by (auto simp: SendHandshakeResponse_def bind_eq_Some_conv)
  show ?thesis
  proof (cases res)
    case (Inl e)
    with s c life_CreateMessageResponse [OF c] show ?thesis by (simp add: SendHandshakeResponse_def)
  next
    case (Inr m)
    obtain pk d2 where a: "add_macs C p (marshal_response m) d1 = (pk, d2)" by force
    obtain err d3 where b: "BeginSymmetricSession C p d2 = (err, d3)" by force
    have "life d2 = life d1" using life_small(6) [of C p "marshal_response m" d1] a by simp
    then have "life d3 = life d" using life_BeginSymmetricSession [OF b] life_CreateMessageResponse [OF c] by simp
    then show ?thesis using s c Inr a b
      by (auto simp: SendHandshakeResponse_def Let_def case_prod_beta split: if_splits) (metis life_small(3) life_small(7) life_timer_events(3,7,8) snd_conv)
  qed
qed

lemma life_SendHandshakeCookie: "SendHandshakeCookie C e d = Some d' \<Longrightarrow> life d' = life d"
  by (auto simp: SendHandshakeCookie_def Let_def bind_eq_Some_conv case_prod_beta dest!: life_gen_header)

lemma life_keepKeyFresh:
  "keepKeyFreshSending C N p d = Some d' \<Longrightarrow> life d' = life d" "keepKeyFreshReceiving C N p d = Some d' \<Longrightarrow> life d' = life d"
  by (auto simp: keepKeyFreshSending_def keepKeyFreshReceiving_def Let_def split: option.splits if_splits dest!: life_SendHandshakeInitiation)

lemma life_SendStagedPackets: "SendStagedPackets C N p d = Some d' \<Longrightarrow> life d' = life d"
  by (auto simp: SendStagedPackets_def Let_def case_prod_beta life_upd_peer split: option.splits if_splits dest!: life_SendHandshakeInitiation)

lemma life_SendKeepalive: "SendKeepalive C N p d = Some d' \<Longrightarrow> life d' = life d"
  by (auto simp: SendKeepalive_def Let_def split: if_splits dest!: life_SendStagedPackets)

lemma life_encrypt_container: "encrypt_container C es d = Some (bs, d') \<Longrightarrow> life d' = life d"
  by (drule encrypt_container_frame) auto

lemma life_frame_packets: "frame_packets bs d = Some (s, bs', d') \<Longrightarrow> life d' = life d"
  by (drule frame_packets_frame) auto

lemma life_sequential_send: "sequential_send C N p bs d = Some d' \<Longrightarrow> life d' = life d"
  by (auto simp: sequential_send_def Let_def bind_eq_Some_conv case_prod_beta split: if_splits dest!: life_frame_packets life_keepKeyFresh(1))

lemma life_transmit_next: "transmit_next C N p d = Some d' \<Longrightarrow> life d' = life d"
  by (auto simp: transmit_next_def bind_eq_Some_conv split: list.splits dest!: life_encrypt_container life_sequential_send)

lemma life_fire_timer: "fire_timer C N p t d = Some d' \<Longrightarrow> life d' = life d"
  by (cases t) (auto simp: fire_timer_def expiredRetransmitHandshake_def expiredSendKeepalive_def expiredNewHandshake_def
      expiredZeroKeyMaterial_def expiredPersistentKeepalive_def Let_def bind_eq_Some_conv split: if_splits
      dest!: life_SendHandshakeInitiation life_SendKeepalive)

section \<open>Reception\<close>

lemma life_receive_packets: "receive_packets ps m d = Some (m', d') \<Longrightarrow> life d' = life d"
proof (induction ps arbitrary: m d)
  case (Cons x ps)
  obtain packet ep where x: "x = (packet, ep)" by (cases x)
  obtain what where w: "dispatch_datagram packet ep d = Some what"
    using Cons.prems by (auto simp: x bind_eq_Some_conv)
  show ?case
  proof (cases what)
    case (To_Handshake e)
    let ?d = "if length (q_handshake d) < QueueHandshakeSize then d\<lparr>q_handshake := q_handshake d @ [e]\<rparr> else d"
    have "life d' = life ?d" using Cons.prems w To_Handshake by (intro Cons.IH [of m]) (simp add: x)
    then show ?thesis by (simp split: if_splits)
  qed (use Cons.prems w Cons.IH in \<open>auto simp: x\<close>)
qed simp

lemma life_enqueue_inbound [simp]: "life (enqueue_inbound m d) = life d"
proof -
  have "life (foldl (\<lambda>d (p, es). if isRunning (peers d p) then upd_peer p (\<lambda>P. P\<lparr>q_inbound := q_inbound P @ [es]\<rparr>) d else d) d m) = life d"
    by (induction m arbitrary: d) auto
  then show ?thesis by (simp add: enqueue_inbound_def)
qed

lemma life_receive_batch: "receive_batch ps d = Some d' \<Longrightarrow> life d' = life d"
  by (auto simp: receive_batch_def bind_eq_Some_conv dest!: life_receive_packets)

lemma life_receive_elem: "receive_elem C N p e I d = Some (I', d') \<Longrightarrow> life d' = life d"
proof (cases "ie_packet e")
  case None
  assume "receive_elem C N p e I d = Some (I', d')"
  with None show ?thesis by (simp add: receive_elem_def)
next
  case (Some packet)
  assume r: "receive_elem C N p e I d = Some (I', d')"
  obtain ok f where v: "ValidateCounter (replayFilter (keypairs d (ie_keypair e))) (ie_counter e) RejectAfterMessages = (ok, f)" by force
  let ?d = "upd_keypair (ie_keypair e) (\<lambda>K. K\<lparr>replayFilter := f\<rparr>) d"
  show ?thesis
  proof (cases ok)
    case False
    with r Some v have "d' = ?d" by (simp add: receive_elem_def Let_def)
    then show ?thesis by simp
  next
    case True
    obtain first d1 where w: "ReceivedWithKeypair p (ie_keypair e) ?d = (first, d1)" by force
    have "(if first then SendStagedPackets C N p (timersHandshakeComplete p (SetEndpointFromPacket p (ie_endpoint e) d1)) else Some d1) = Some d'"
      using r receive_elem_accepted [OF Some _ w, of C N I] v True by auto
    then show ?thesis using life_ReceivedWithKeypair [OF w] by (auto split: if_splits dest!: life_SendStagedPackets)
  qed
qed

lemma life_receive_elems: "receive_elems C N p es I d = Some (I', d') \<Longrightarrow> life d' = life d"
  by (induction es arbitrary: I d) (auto simp: bind_eq_Some_conv dest: life_receive_elem)

lemma life_sequential_receiver: "RoutineSequentialReceiver C N p es d = Some d' \<Longrightarrow> life d' = life d"
  by (auto simp: RoutineSequentialReceiver_parts after_batch_def write_batch_def bind_eq_Some_conv Let_def split: option.splits if_splits
      dest!: life_receive_elems life_keepKeyFresh(2))

lemma life_receive_next: "receive_next C N p d = Some d' \<Longrightarrow> life d' = life d"
  by (auto simp: receive_next_def Let_def split: list.splits dest!: life_sequential_receiver)

lemma life_admit_handshake: "admit_handshake C e d = Some (ok, d') \<Longrightarrow> life d' = life d"
  using life_small(9) [of d]
  by (auto simp: admit_handshake_def Let_def bind_eq_Some_conv case_prod_beta split: if_splits dest!: life_SendHandshakeCookie)

lemma life_handle_initiation: "handle_initiation C N e d = Some d' \<Longrightarrow> life d' = life d"
  by (auto simp: handle_initiation_def Let_def split: if_splits option.splits prod.splits
      dest!: life_SendHandshakeResponse life_ConsumeMessageInitiation)

lemma life_handle_response: "handle_response C N e d = Some d' \<Longrightarrow> life d' = life d"
  by (auto simp: handle_response_def Let_def split: if_splits option.splits prod.splits
      dest!: life_BeginSymmetricSession life_ConsumeMessageResponse life_SendKeepalive)

lemma life_RoutineHandshake: "RoutineHandshake C N d = Some d' \<Longrightarrow> life d' = life d"
  by (auto simp: RoutineHandshake_def handle_handshake_def handle_cookie_reply_def Let_def bind_eq_Some_conv life_upd_peer
      split: list.splits if_splits option.splits dest!: life_admit_handshake life_handle_initiation life_handle_response)

section \<open>The abstract device\<close>

definition stop_peer :: "pid \<Rightarrow> Life \<Rightarrow> Life" where
  "stop_peer p L = L\<lparr>lf_running := (lf_running L)(p := False)\<rparr>"

definition start_peer :: "pid \<Rightarrow> Life \<Rightarrow> Life" where
  "start_peer p L = (if lf_state L = deviceStateClosed then L else L\<lparr>lf_running := (lf_running L)(p := True)\<rparr>)"

definition drop_peer :: "pid \<Rightarrow> bytes \<Rightarrow> Life \<Rightarrow> Life" where
  "drop_peer p key L = (stop_peer p L)\<lparr>lf_members := filter (\<lambda>(k, q). k \<noteq> key) (lf_members L),
     lf_routes := RemoveByPeer p (lf_routes L)\<rparr>"

definition enlist_peer :: "bytes \<Rightarrow> Life \<Rightarrow> Life" where
  "enlist_peer pk L = L\<lparr>lf_members := lf_members L @ [(pk, lf_count L)], lf_count := Suc (lf_count L),
     lf_running := (lf_running L)(lf_count L := False), lf_key := (lf_key L)(lf_count L := pk)\<rparr>"

lemma life_sel [simp]:
  "lf_state (life d) = dev_state d" "lf_members (life d) = keyMap d" "lf_count (life d) = peer_count d"
  "lf_routes (life d) = allowedips d" "lf_running (life d) p = isRunning (peers d p)" "lf_key (life d) p = remoteStatic (hs_of d p)"
  by (simp_all add: life_def)

lemma lifeD:
  assumes "life d' = life d"
  shows "dev_state d' = dev_state d" "keyMap d' = keyMap d" "peer_count d' = peer_count d" "allowedips d' = allowedips d"
    "isRunning (peers d' p) = isRunning (peers d p)" "remoteStatic (hs_of d' p) = remoteStatic (hs_of d p)"
    "isUp d' = isUp d" "isClosed d' = isClosed d"
  using assms by (simp_all add: life_def fun_eq_iff isUp_def isClosed_def)

lemma life_set_running: "life (upd_peer p (\<lambda>P. P\<lparr>isRunning := b\<rparr>) d) = (life d)\<lparr>lf_running := (lf_running (life d))(p := b)\<rparr>"
  by (auto simp: life_def upd_peer_def hs_of_def fun_eq_iff)

lemma each_life:
  assumes "each f xs d = Some d'" "\<And>x d d'. x \<in> set xs \<Longrightarrow> f x d = Some d' \<Longrightarrow> life d' = g x (life d)"
  shows "life d' = fold g xs (life d)"
  using assms
proof (induction xs arbitrary: d)
  case (Cons x xs)
  obtain d1 where d1: "f x d = Some d1" "each f xs d1 = Some d'" using Cons.prems(1) by (auto simp: bind_eq_Some_conv)
  have "life d1 = g x (life d)" using Cons.prems(2) [of x d d1] d1(1) by simp
  moreover have "life d' = fold g xs (life d1)" using Cons.prems(2) by (intro Cons.IH [OF d1(2)]) simp
  ultimately show ?case by simp
qed simp

lemma fold_id: "(\<And>x. x \<in> set xs \<Longrightarrow> g x = id) \<Longrightarrow> fold g xs L = L"
  by (induction xs) auto

lemma life_Start: "life (Start p d) = start_peer p (life d)"
proof (cases "isClosed d \<or> isRunning (peers d p)")
  case True
  then have "(lf_running (life d))(p := True) = lf_running (life d)" if "\<not> isClosed d"
    using that by (auto simp: fun_eq_iff life_def)
  with True show ?thesis by (auto simp: Start_def start_peer_def isClosed_def)
next
  case False
  let ?d = "timersStart p (upd_hs p (\<lambda>H. H\<lparr>lastSentHandshake := now d - (RekeyTimeout + Second)\<rparr>) d)"
  have "life (upd_peer p (\<lambda>P. P\<lparr>q_inbound := [], q_outbound := []\<rparr>) ?d) = life ?d" by (rule life_upd_peer) simp
  then have "life (upd_peer p (\<lambda>P. P\<lparr>q_inbound := [], q_outbound := []\<rparr>) ?d) = life d" by simp
  with False show ?thesis unfolding Start_def Let_def by (simp add: life_set_running start_peer_def isClosed_def)
qed

lemma life_Stop: "Stop C N p d = Some d' \<Longrightarrow> life d' = stop_peer p (life d)"
proof -
  assume s: "Stop C N p d = Some d'"
  show ?thesis
  proof (cases "isRunning (peers d p)")
    case False
    then have "(lf_running (life d))(p := False) = lf_running (life d)" by (auto simp: fun_eq_iff life_def)
    with s False show ?thesis by (simp add: Stop_def stop_peer_def)
  next
    case True
    let ?d1 = "timersStop p (upd_peer p (\<lambda>P. P\<lparr>isRunning := False\<rparr>) d)"
    let ?d2 = "upd_peer p (\<lambda>P. P\<lparr>q_inbound := [], q_outbound := []\<rparr>) ?d1"
    let ?body = "\<lambda>es d. RoutineSequentialReceiver C N p (map (decrypt_element C d) es) d"
    obtain d3 where e: "each ?body (q_inbound (peers ?d1 p)) ?d2 = Some d3" "d' = ZeroAndFlushAll p d3"
      using s True by (auto simp: Stop_def Let_def bind_eq_Some_conv)
    have "life d3 = fold (\<lambda>_ L. L) (q_inbound (peers ?d1 p)) (life ?d2)"
      by (rule each_life [OF e(1)]) (rule life_sequential_receiver)
    then have "life d3 = life ?d2" using fold_id [of "q_inbound (peers ?d1 p)" "\<lambda>_ L. L" "life ?d2"] by (simp add: id_def)
    moreover have "life ?d2 = life ?d1" by (rule life_upd_peer) simp
    ultimately show ?thesis unfolding e(2) by (simp add: life_set_running stop_peer_def)
  qed
qed

lemma life_removePeerLocked: "removePeerLocked C N p key d = Some d' \<Longrightarrow> life d' = drop_peer p key (life d)"
proof -
  assume r: "removePeerLocked C N p key d = Some d'"
  let ?d = "d\<lparr>allowedips := RemoveByPeer p (allowedips d)\<rparr>"
  obtain d1 where s: "Stop C N p ?d = Some d1" "d' = d1\<lparr>keyMap := filter (\<lambda>(k, q). k \<noteq> key) (keyMap d1)\<rparr>"
    using r by (auto simp: removePeerLocked_def bind_eq_Some_conv)
  have l: "life ?d = (life d)\<lparr>lf_routes := RemoveByPeer p (allowedips d)\<rparr>" by (simp add: life_def hs_of_def)
  have "life d' = (life d1)\<lparr>lf_members := filter (\<lambda>(k, q). k \<noteq> key) (lf_members (life d1))\<rparr>"
    unfolding s(2) by (simp add: life_def hs_of_def)
  then show ?thesis using life_Stop [OF s(1)] l by (simp add: drop_peer_def stop_peer_def)
qed

lemma life_NewPeer:
  assumes "NewPeer C pk d = (res, d')"
  shows "case res of
      Inl e \<Rightarrow> d' = d
    | Inr p \<Rightarrow> p = peer_count d \<and> \<not> isClosed d \<and> LookupPeer d pk = None \<and> life d' = enlist_peer pk (life d)"
proof (cases "isClosed d \<or> MaxPeers \<le> length (keyMap d) \<or> LookupPeer d pk \<noteq> None")
  case True
  with assms show ?thesis by (auto simp: NewPeer_def split: if_splits)
next
  case False
  let ?P = "new_Peer\<lparr>cookieGenerator := CookieGenerator_Init C pk new_CookieGenerator\<rparr>"
  let ?P2 = "?P\<lparr>handshake := (handshake ?P)\<lparr>precomputedStaticStatic := fst (sharedSecret C (privateKey d) pk), remoteStatic := pk\<rparr>\<rparr>"
  let ?d = "d\<lparr>peers := (peers d)(peer_count d := ?P2\<lparr>ep_val := None, disableRoaming := False, clearSrcOnTx := False\<rparr>), peer_count := Suc (peer_count d)\<rparr>"
  have r: "res = Inr (peer_count d)" "d' = (timersInit (peer_count d) ?d)\<lparr>keyMap := keyMap (timersInit (peer_count d) ?d) @ [(pk, peer_count d)]\<rparr>"
    using assms False by (auto simp: NewPeer_def Let_def)
  have "life d' = (life (timersInit (peer_count d) ?d))\<lparr>lf_members := lf_members (life (timersInit (peer_count d) ?d)) @ [(pk, peer_count d)]\<rparr>"
    unfolding r(2) by (simp add: life_def hs_of_def)
  also have "life (timersInit (peer_count d) ?d) = life ?d" by simp
  finally have "life d' = enlist_peer pk (life d)"
    by (auto simp: life_def enlist_peer_def hs_of_def new_Peer_def fun_eq_iff)
  with False r(1) show ?thesis by simp
qed

lemma life_bind_close: "closeBindLocked N d = (e, d') \<Longrightarrow> life d' = life d"
  by (auto simp: closeBindLocked_def)

lemma life_clear_cached_sources [simp]: "life (clear_cached_sources d) = life d"
proof -
  have "life (foldl (\<lambda>d (key, p). markEndpointSrcForClearing p d) d xs) = life d" for xs :: "(bytes \<times> pid) list"
    by (induction xs arbitrary: d) auto
  then show ?thesis by (simp add: clear_cached_sources_def)
qed

lemma life_BindSetMark: "BindSetMark N m d = (e, d') \<Longrightarrow> life d' = life d"
  by (auto simp: BindSetMark_def Let_def split: if_splits)

lemma life_BindUpdate: "BindUpdate N d = (e, d') \<Longrightarrow> life d' = life d"
  by (auto simp: BindUpdate_def closeBindLocked_def Let_def split: if_splits option.splits)

lemma life_RemovePeer:
  "RemovePeer C N key d = Some d' \<Longrightarrow>
    life d' = (case LookupPeer d key of None \<Rightarrow> life d | Some p \<Rightarrow> drop_peer p key (life d))"
  by (auto simp: RemovePeer_def split: option.splits dest: life_removePeerLocked)

lemma life_RemoveAllPeers:
  assumes "RemoveAllPeers C N d = Some d'"
  shows "life d' = (fold (\<lambda>(k, p). drop_peer p k) (keyMap d) (life d))\<lparr>lf_members := []\<rparr>"
proof -
  obtain d1 where e: "each (\<lambda>(key, p) d. removePeerLocked C N p key d) (keyMap d) d = Some d1" "d' = d1\<lparr>keyMap := []\<rparr>"
    using assms by (auto simp: RemoveAllPeers_def bind_eq_Some_conv)
  have "life d1 = fold (\<lambda>(k, p). drop_peer p k) (keyMap d) (life d)"
    by (rule each_life [OF e(1)]) (auto dest: life_removePeerLocked)
  moreover have "life d' = (life d1)\<lparr>lf_members := []\<rparr>" unfolding e(2) by (simp add: life_def hs_of_def)
  ultimately show ?thesis by simp
qed

lemma life_downLocked:
  assumes "downLocked C N d = Some (err, d')"
  shows "life d' = fold (\<lambda>(k, p). stop_peer p) (keyMap d) (life d)"
proof -
  obtain e1 d1 where b: "BindClose N d = (e1, d1)" by force
  have l: "life d1 = life d" using life_bind_close b by (simp add: BindClose_def)
  have "each (\<lambda>(key, p) d. Stop C N p d) (keyMap d1) d1 = Some d'"
    using assms b by (auto simp: downLocked_def bind_eq_Some_conv)
  then have "life d' = fold (\<lambda>(k, p). stop_peer p) (keyMap d1) (life d1)" by (rule each_life) (auto dest: life_Stop)
  then show ?thesis using l lifeD(2) [OF l] by simp
qed

lemma life_upLocked:
  assumes "upLocked C N d = Some (err, d')"
  shows "life d' = (if err = None then fold (\<lambda>(k, p). start_peer p) (keyMap d) (life d) else life d)"
proof -
  obtain e1 d1 where b: "BindUpdate N d = (e1, d1)" by force
  have l: "life d1 = life d" by (rule life_BindUpdate [OF b])
  show ?thesis
  proof (cases "e1 = None")
    case False
    with assms b l show ?thesis by (auto simp: upLocked_def)
  next
    case True
    let ?f = "\<lambda>(key :: bytes, p) d. let d = Start p d in if 0 < persistentKeepaliveInterval (peers d p) then SendKeepalive C N p d else Some d"
    have e: "each ?f (keyMap d1) d1 = Some d'" "err = None"
      using assms b True by (auto simp: upLocked_def bind_eq_Some_conv)
    have "life d' = fold (\<lambda>(k, p). start_peer p) (keyMap d1) (life d1)"
      by (rule each_life [OF e(1)]) (auto simp: Let_def life_Start split: if_splits dest!: life_SendKeepalive)
    then show ?thesis using l lifeD(2) [OF l] e(2) by simp
  qed
qed

lemma life_state: "life (d\<lparr>dev_state := st\<rparr>) = (life d)\<lparr>lf_state := st\<rparr>"
  by (simp add: life_def hs_of_def)

lemma life_bring_down:
  assumes "bring_down C N err d = Some (err', d')"
  shows "life d' = fold (\<lambda>(k, p). stop_peer p) (keyMap d) ((life d)\<lparr>lf_state := deviceStateDown\<rparr>)"
proof -
  obtain e1 where "downLocked C N (d\<lparr>dev_state := deviceStateDown\<rparr>) = Some (e1, d')"
    using assms by (auto simp: bring_down_def bind_eq_Some_conv)
  from life_downLocked [OF this] show ?thesis by (simp add: life_state)
qed

lemma life_Keepalives: "SendKeepalivesToPeersWithCurrentKeypair C N d = Some d' \<Longrightarrow> life d' = life d"
proof -
  assume s: "SendKeepalivesToPeersWithCurrentKeypair C N d = Some d'"
  let ?f = "\<lambda>(key :: bytes, p) d. case kp_current (peers d p) of None \<Rightarrow> Some d
    | Some k \<Rightarrow> if \<not> created (keypairs d k) + RejectAfterTime < now d then SendKeepalive C N p d else Some d"
  show ?thesis
  proof (cases "isUp d")
    case True
    then have "each ?f (keyMap d) d = Some d'" using s by (simp add: SendKeepalivesToPeersWithCurrentKeypair_def)
    then have "life d' = fold (\<lambda>_ L. L) (keyMap d) (life d)"
      by (rule each_life) (auto split: option.splits if_splits dest: life_SendKeepalive)
    then show ?thesis using fold_id [of "keyMap d" "\<lambda>_ L. L" "life d"] by (simp add: id_def)
  qed (use s in \<open>simp add: SendKeepalivesToPeersWithCurrentKeypair_def\<close>)
qed

lemma foldl_life: "(\<And>p d. life (f d p) = life d) \<Longrightarrow> life (foldl f d ps) = life d"
  by (induction ps arbitrary: d) auto

lemma life_SetPrivateKey:
  assumes "SetPrivateKey C N sk d = Some d'"
  shows "\<exists>gone. set gone \<subseteq> set (keyMap d) \<and> (distinct (keyMap d) \<longrightarrow> distinct gone) \<and>
    life d' = fold (\<lambda>(k, p). drop_peer p k) gone (life d)"
proof (cases "sk = privateKey d")
  case True
  with assms show ?thesis by (intro exI [of _ "[]"]) (simp add: SetPrivateKey_def)
next
  case False
  let ?pk = "publicKey_of C sk"
  let ?f = "\<lambda>(key, p) d. if remoteStatic (hs_of d p) = ?pk then removePeerLocked C N p key d else Some d"
  obtain d1 where e: "each ?f (keyMap d) d = Some d1"
    and d': "life d' = life d1"
  proof -
    obtain d1 where e: "each ?f (keyMap d) d = Some d1" using assms False by (auto simp: SetPrivateKey_def Let_def bind_eq_Some_conv)
    let ?d2 = "d1\<lparr>privateKey := sk, publicKey := ?pk, cookieChecker := CookieChecker_Init C ?pk (cookieChecker d1)\<rparr>"
    let ?d3 = "foldl (\<lambda>d p. upd_hs p (\<lambda>H. H\<lparr>precomputedStaticStatic := fst (sharedSecret C sk (remoteStatic H))\<rparr>) d) ?d2 (map snd (keyMap ?d2))"
    have "d' = foldl (\<lambda>d p. ExpireCurrentKeypairs p d) ?d3 (map snd (keyMap ?d2))"
      using assms False e by (simp add: SetPrivateKey_def Let_def)
    moreover have "life ?d3 = life ?d2" by (rule foldl_life) (simp add: life_upd_hs)
    ultimately have "life d' = life d1" using foldl_life [of "\<lambda>d p. ExpireCurrentKeypairs p d" ?d3 "map snd (keyMap ?d2)"] by simp
    with e show thesis by (rule that)
  qed
  have "\<exists>gone. set gone \<subseteq> set xs \<and> (distinct xs \<longrightarrow> distinct gone) \<and> life d1 = fold (\<lambda>(k, p). drop_peer p k) gone (life d)"
    if "each ?f xs d = Some d1" for xs d
    using that
  proof (induction xs arbitrary: d)
    case Nil
    then show ?case by (intro exI [of _ "[]"]) simp
  next
    case (Cons x xs)
    obtain k p where x: "x = (k, p)" by (cases x)
    obtain d2 where d2: "?f x d = Some d2" "each ?f xs d2 = Some d1" using Cons.prems by (auto simp: bind_eq_Some_conv)
    obtain gone where g: "set gone \<subseteq> set xs" "distinct xs \<longrightarrow> distinct gone" "life d1 = fold (\<lambda>(k, p). drop_peer p k) gone (life d2)"
      using Cons.IH [OF d2(2)] by blast
    show ?case
    proof (cases "remoteStatic (hs_of d p) = ?pk")
      case True
      then have "life d2 = drop_peer p k (life d)" using d2(1) x by (auto dest: life_removePeerLocked)
      with g x show ?thesis by (intro exI [of _ "x # gone"]) auto
    next
      case False
      then have "d2 = d" using d2(1) x by simp
      with g show ?thesis by (intro exI [of _ gone]) auto
    qed
  qed
  from this [OF e] d' show ?thesis by simp
qed

end
