(* ===== verification/Device_Facts.thy ===== *)
theory Device_Facts
  imports Device_Frames
begin

text \<open>
  The invariant of the life of a device, kept by every entry point of the code, configuration included, and
  what follows for every state that a new device can reach.
\<close>

section \<open>The invariant\<close>

definition routes_within :: "AllowedIPs \<Rightarrow> pid set \<Rightarrow> bool" where
  "routes_within T S \<longleftrightarrow> wf_table T \<and> (\<forall>n b p. routes T n b = Some p \<longrightarrow> p \<in> S)"

definition members_ok :: "Life \<Rightarrow> bool" where
  "members_ok L \<longleftrightarrow> distinct (map fst (lf_members L)) \<and> distinct (map snd (lf_members L)) \<and>
     (\<forall>(k, p) \<in> set (lf_members L). p < lf_count L \<and> lf_key L p = k) \<and>
     (\<forall>p. lf_running L p \<longrightarrow> p \<in> snd ` set (lf_members L)) \<and>
     routes_within (lf_routes L) (snd ` set (lf_members L))"

definition life_ok :: "Life \<Rightarrow> bool" where
  "life_ok L \<longleftrightarrow> members_ok L \<and> (\<forall>p. lf_running L p \<longrightarrow> lf_state L = deviceStateUp) \<and>
     (lf_state L = deviceStateClosed \<longrightarrow> lf_members L = [])"

lemma member_unique:
  assumes "members_ok L" "(k, p) \<in> set (lf_members L)" "(k', p') \<in> set (lf_members L)"
  shows "k = k' \<longleftrightarrow> p = p'"
proof
  assume "k = k'"
  then show "p = p'" using assms eq_key_imp_eq_value [of "lf_members L" k p p'] by (simp add: members_ok_def)
next
  assume "p = p'"
  moreover have "lf_key L p = k" "lf_key L p' = k'" using assms by (auto simp: members_ok_def)
  ultimately show "k = k'" by simp
qed

lemma stop_ok: "members_ok L \<Longrightarrow> members_ok (stop_peer p L)"
  by (auto simp: members_ok_def stop_peer_def split: if_splits)

lemma start_ok: "members_ok L \<Longrightarrow> p \<in> snd ` set (lf_members L) \<Longrightarrow> members_ok (start_peer p L)"
  by (auto simp: members_ok_def start_peer_def split: if_splits)

lemma routes_within_purge: "routes_within T S \<Longrightarrow> routes_within (RemoveByPeer p T) (S - {p})"
  using cryptokey.purge [of T p] unfolding routes_within_def by (auto split: if_splits)

lemma drop_ok:
  assumes "members_ok L" "(key, p) \<in> set (lf_members L)"
  shows "members_ok (drop_peer p key L)"
proof -
  let ?M = "filter (\<lambda>(k, q). k \<noteq> key) (lf_members L)"
  have rest: "snd ` set ?M = snd ` set (lf_members L) - {p}"
    using member_unique [OF assms(1) assms(2)] by (force simp: image_iff)
  have "distinct (map fst ?M)" "distinct (map snd ?M)" using assms(1) unfolding members_ok_def by (simp_all add: distinct_map_filter)
  moreover have "routes_within (RemoveByPeer p (lf_routes L)) (snd ` set ?M)"
    unfolding rest using assms(1) routes_within_purge by (simp add: members_ok_def)
  moreover have "q \<in> snd ` set ?M" if "lf_running L q" "q \<noteq> p" for q
    unfolding rest using that assms(1) by (simp add: members_ok_def)
  ultimately show ?thesis using assms(1)
    by (simp add: members_ok_def drop_peer_def stop_peer_def)
qed

lemma drop_members: "lf_members (drop_peer p key L) = filter (\<lambda>(k, q). k \<noteq> key) (lf_members L)"
  "lf_state (drop_peer p key L) = lf_state L" "lf_running (drop_peer p key L) q \<Longrightarrow> lf_running L q \<and> q \<noteq> p"
  by (auto simp: drop_peer_def stop_peer_def split: if_splits)

lemma drops_ok:
  assumes "members_ok L" "set gone \<subseteq> set (lf_members L)" "distinct gone"
  shows "members_ok (fold (\<lambda>(k, p). drop_peer p k) gone L) \<and> lf_state (fold (\<lambda>(k, p). drop_peer p k) gone L) = lf_state L \<and>
    (\<forall>p. lf_running (fold (\<lambda>(k, p). drop_peer p k) gone L) p \<longrightarrow> lf_running L p \<and> p \<notin> snd ` set gone) \<and>
    set (lf_members (fold (\<lambda>(k, p). drop_peer p k) gone L)) = set (lf_members L) - set gone"
  using assms
proof (induction gone arbitrary: L)
  case (Cons x gone)
  obtain k p where x: "x = (k, p)" by (cases x)
  let ?L = "drop_peer p k L"
  have m: "(k, p) \<in> set (lf_members L)" using Cons.prems(2) x by simp
  have mem: "set (lf_members ?L) = set (lf_members L) - {(k, p)}"
    using member_unique [OF Cons.prems(1) m] by (auto simp: drop_members)
  have "set gone \<subseteq> set (lf_members ?L)" using Cons.prems(2,3) x mem by auto
  from Cons.IH [OF drop_ok [OF Cons.prems(1) m] this] Cons.prems(3) mem show ?case
    by (auto simp: x drop_members(2) dest: drop_members(3))
qed auto

lemma stops_ok:
  "members_ok L \<Longrightarrow> members_ok (fold (\<lambda>(k, p). stop_peer p) ms L) \<and>
    lf_state (fold (\<lambda>(k, p). stop_peer p) ms L) = lf_state L \<and> lf_members (fold (\<lambda>(k, p). stop_peer p) ms L) = lf_members L \<and>
    (\<forall>p. lf_running (fold (\<lambda>(k, p). stop_peer p) ms L) p \<longrightarrow> lf_running L p \<and> p \<notin> snd ` set ms)"
proof (induction ms arbitrary: L)
  case (Cons x ms)
  obtain k p where x: "x = (k, p)" by (cases x)
  from Cons.IH [OF stop_ok [OF Cons.prems, of p]] show ?case by (auto simp: x stop_peer_def split: if_splits)
qed simp

lemma starts_ok:
  "members_ok L \<Longrightarrow> set ms \<subseteq> set (lf_members L) \<Longrightarrow> members_ok (fold (\<lambda>(k, p). start_peer p) ms L) \<and>
    lf_state (fold (\<lambda>(k, p). start_peer p) ms L) = lf_state L \<and> lf_members (fold (\<lambda>(k, p). start_peer p) ms L) = lf_members L"
proof (induction ms arbitrary: L)
  case (Cons x ms)
  obtain k p where x: "x = (k, p)" by (cases x)
  have "p \<in> snd ` set (lf_members L)" using Cons.prems(2) x by force
  from start_ok [OF Cons.prems(1) this] have "members_ok (start_peer p L)" .
  moreover have "lf_state (start_peer p L) = lf_state L" "lf_members (start_peer p L) = lf_members L" by (simp_all add: start_peer_def)
  ultimately show ?case using Cons.IH [of "start_peer p L"] Cons.prems(2) by (simp add: x)
qed simp

lemma enlist_ok:
  assumes "members_ok L" "map_of (lf_members L) pk = None"
  shows "members_ok (enlist_peer pk L)"
proof -
  have new: "pk \<notin> fst ` set (lf_members L)" using assms(2) by (simp add: map_of_eq_None_iff)
  have old: "p < lf_count L" if "(k, p) \<in> set (lf_members L)" for k p using that assms(1) by (auto simp: members_ok_def)
  then have "lf_count L \<notin> snd ` set (lf_members L)" by force
  with assms(1) new old show ?thesis
    by (auto simp: members_ok_def enlist_peer_def routes_within_def less_Suc_eq split: if_splits)
qed

section \<open>Every operation keeps it\<close>

lemma life_ok_members: "life_ok L \<Longrightarrow> members_ok L"
  by (simp add: life_ok_def)

lemma distinct_members: "members_ok L \<Longrightarrow> distinct (lf_members L)"
  by (auto simp: members_ok_def dest: distinct_map [THEN iffD1])

lemma closed_empty: "life_ok L \<Longrightarrow> lf_state L = deviceStateClosed \<Longrightarrow> lf_members L = [] \<and> \<not> lf_running L p"
  by (auto simp: life_ok_def)

lemma ok_drops:
  assumes "life_ok L" "set gone \<subseteq> set (lf_members L)" "distinct gone"
  shows "life_ok (fold (\<lambda>(k, p). drop_peer p k) gone L)"
  using drops_ok [OF life_ok_members [OF assms(1)] assms(2,3)] assms(1) unfolding life_ok_def by auto

lemma ok_RemovePeer: "RemovePeer C N key d = Some d' \<Longrightarrow> life_ok (life d) \<Longrightarrow> life_ok (life d')"
  using ok_drops [of "life d" "[(key, p)]" for p] life_RemovePeer [of C N key d d']
  by (auto simp: LookupPeer_def split: option.splits dest: map_of_SomeD)

lemma all_dropped:
  assumes "members_ok L" "lf_members L = ms"
  shows "lf_members (fold (\<lambda>(k, p). drop_peer p k) ms L) = []"
  using drops_ok [OF assms(1), of ms] assms distinct_members by auto

lemma ok_RemoveAllPeers:
  assumes "RemoveAllPeers C N d = Some d'" "members_ok (life d)"
  shows "members_ok (life d') \<and> lf_state (life d') = lf_state (life d) \<and> lf_members (life d') = [] \<and>
    (\<forall>p. lf_running (life d') p \<longrightarrow> lf_running (life d) p)"
proof -
  let ?L = "fold (\<lambda>(k, p). drop_peer p k) (keyMap d) (life d)"
  have "lf_members ?L = []" by (rule all_dropped [OF assms(2)]) simp
  then have "life d' = ?L" using life_RemoveAllPeers [OF assms(1)] by simp
  with drops_ok [OF assms(2), of "keyMap d"] distinct_members [OF assms(2)] \<open>lf_members ?L = []\<close> show ?thesis by simp
qed

lemma ok_downLocked:
  assumes "downLocked C N d = Some (err, d')" "members_ok (life d)"
  shows "members_ok (life d') \<and> lf_state (life d') = lf_state (life d) \<and> lf_members (life d') = keyMap d \<and> \<not> lf_running (life d') p"
proof -
  have r: "lf_running (life d) q \<Longrightarrow> q \<in> snd ` set (keyMap d)" for q using assms(2) by (simp add: members_ok_def)
  show ?thesis using stops_ok [OF assms(2), of "keyMap d"] r unfolding life_downLocked [OF assms(1), symmetric] by auto
qed

lemma members_ok_state [simp]: "members_ok (L\<lparr>lf_state := st\<rparr>) = members_ok L"
  by (simp add: members_ok_def)

lemma ok_bring_down:
  assumes "bring_down C N err d = Some (err', d')" "members_ok (life d)"
  shows "life_ok (life d')"
proof -
  obtain e1 where e1: "downLocked C N (d\<lparr>dev_state := deviceStateDown\<rparr>) = Some (e1, d')"
    using assms(1) by (auto simp: bring_down_def bind_eq_Some_conv)
  have "members_ok (life (d\<lparr>dev_state := deviceStateDown\<rparr>))" using assms(2) by (simp add: life_state)
  from ok_downLocked [OF e1 this] show ?thesis by (simp add: life_ok_def)
qed

lemma ok_changeState:
  assumes "changeState C N want d = Some (err, d')" "life_ok (life d)"
  shows "life_ok (life d') \<and> (isClosed d \<longrightarrow> d' = d)"
proof (cases "dev_state d = deviceStateClosed \<or> want = dev_state d \<or> want = deviceStateClosed")
  case True
  then have "d' = d" using assms(1) by (auto simp: changeState_def Let_def split: deviceState.splits if_splits)
  with assms(2) show ?thesis by simp
next
  case False
  note m = life_ok_members [OF assms(2)]
  show ?thesis
  proof (cases want)
    case deviceStateDown
    then have "bring_down C N None d = Some (err, d')" using assms(1) False by (simp add: changeState_def)
    from ok_bring_down [OF this m] False show ?thesis by (simp add: isClosed_def)
  next
    case deviceStateUp
    let ?d = "d\<lparr>dev_state := deviceStateUp\<rparr>"
    obtain e1 d1 where u: "upLocked C N ?d = Some (e1, d1)"
      and rest: "(if e1 = None then Some (None, d1) else bring_down C N e1 d1) = Some (err, d')"
      using assms(1) False deviceStateUp by (auto simp: changeState_def bind_eq_Some_conv)
    have md: "members_ok (life ?d)" using m by (simp add: life_state)
    have "members_ok (life d1) \<and> (e1 = None \<longrightarrow> lf_state (life d1) = deviceStateUp)"
      using life_upLocked [OF u] starts_ok [OF md, of "keyMap ?d"] md by auto
    then have "life_ok (life d')" using rest ok_bring_down [of C N e1 d1 err d'] by (auto simp: life_ok_def split: if_splits)
    with False show ?thesis by (simp add: isClosed_def)
  next
    case deviceStateClosed
    with False show ?thesis by simp
  qed
qed

lemma ok_Device_Close:
  assumes "Device_Close C N d = Some d'" "life_ok (life d)"
  shows "life_ok (life d') \<and> isClosed d' \<and> (isClosed d \<longrightarrow> d' = d)"
proof (cases "isClosed d")
  case True
  with assms show ?thesis by (simp add: Device_Close_def)
next
  case False
  let ?d = "d\<lparr>dev_state := deviceStateClosed\<rparr>"
  obtain e1 d1 d2 where s: "downLocked C N ?d = Some (e1, d1)" "RemoveAllPeers C N d1 = Some d2"
    "d' = d2\<lparr>limiter := Close (limiter d2), dev_closed := True\<rparr>"
    using assms(1) False by (auto simp: Device_Close_def bind_eq_Some_conv)
  have md: "members_ok (life ?d)" using life_ok_members [OF assms(2)] by (simp add: life_state)
  note D = ok_downLocked [OF s(1) md]
  have R: "members_ok (life d2)" "lf_state (life d2) = deviceStateClosed" "lf_members (life d2) = []" "\<not> lf_running (life d2) p" for p
    using ok_RemoveAllPeers [OF s(2)] D [of p] by (auto simp: life_state)
  have "life d' = life d2" unfolding s(3) by simp
  with R False show ?thesis by (simp add: life_ok_def isClosed_def flip: life_sel(1))
qed

lemma ok_NewPeer:
  assumes "NewPeer C pk d = (res, d')" "life_ok (life d)"
  shows "life_ok (life d') \<and> (isClosed d \<longrightarrow> d' = d)"
proof (cases res)
  case (Inl e)
  with life_NewPeer [OF assms(1)] assms(2) show ?thesis by simp
next
  case (Inr p)
  with life_NewPeer [OF assms(1)] have n: "\<not> isClosed d" "LookupPeer d pk = None" "life d' = enlist_peer pk (life d)" by simp_all
  have "members_ok (enlist_peer pk (life d))" using enlist_ok [OF life_ok_members [OF assms(2)], of pk] n(2) by (simp add: LookupPeer_def)
  moreover have "lf_running (enlist_peer pk (life d)) q \<Longrightarrow> lf_running (life d) q" for q
    by (auto simp: enlist_peer_def split: if_splits)
  ultimately show ?thesis using n(1,3) assms(2) by (auto simp: life_ok_def enlist_peer_def isClosed_def)
qed

lemma ok_SetPrivateKey: "SetPrivateKey C N sk d = Some d' \<Longrightarrow> life_ok (life d) \<Longrightarrow> life_ok (life d')"
  using life_SetPrivateKey [of C N sk d d'] ok_drops [of "life d"] distinct_members [OF life_ok_members, of "life d"] by auto

section \<open>Configuration\<close>

lemma life_ok_cong: "life d' = life d \<Longrightarrow> life_ok (life d) \<Longrightarrow> life_ok (life d')"
  by simp

lemma dev_state_life: "lf_state (life d') = lf_state (life d) \<Longrightarrow> isClosed d \<Longrightarrow> isClosed d'"
  by (simp add: isClosed_def)

definition keeps_ok :: "Device \<Rightarrow> Device \<Rightarrow> bool" where
  "keeps_ok d d' \<longleftrightarrow> (life_ok (life d) \<longrightarrow> life_ok (life d')) \<and> (isClosed d \<and> life_ok (life d) \<longrightarrow> isClosed d')"

lemma keeps_ok_refl [simp]: "keeps_ok d d"
  by (simp add: keeps_ok_def)

lemma keeps_ok_trans: "keeps_ok d d1 \<Longrightarrow> keeps_ok d1 d2 \<Longrightarrow> keeps_ok d d2"
  by (auto simp: keeps_ok_def)

lemma keeps_ok_life: "life d' = life d \<Longrightarrow> keeps_ok d d'"
  using lifeD(8) [of d' d] by (simp add: keeps_ok_def)

lemma fold_drop_state: "lf_state (fold (\<lambda>(k, p). drop_peer p k) xs L) = lf_state L"
  by (induction xs arbitrary: L) (auto simp: drop_members)

lemma keeps_RemovePeer: "RemovePeer C N key d = Some d' \<Longrightarrow> keeps_ok d d'"
  using ok_RemovePeer [of C N key d d'] life_RemovePeer [of C N key d d']
  by (auto simp: keeps_ok_def isClosed_def drop_members split: option.splits simp flip: life_sel(1))

lemma keeps_RemoveAllPeers: "RemoveAllPeers C N d = Some d' \<Longrightarrow> keeps_ok d d'"
  using ok_RemoveAllPeers [of C N d d'] by (auto simp: keeps_ok_def life_ok_def isClosed_def simp flip: life_sel(1))

lemma keeps_SetPrivateKey: "SetPrivateKey C N sk d = Some d' \<Longrightarrow> keeps_ok d d'"
proof -
  assume s: "SetPrivateKey C N sk d = Some d'"
  then obtain gone where g: "life d' = fold (\<lambda>(k, p). drop_peer p k) gone (life d)" using life_SetPrivateKey [OF s] by blast
  have "lf_state (life d') = lf_state (life d)" unfolding g by (rule fold_drop_state)
  with ok_SetPrivateKey [OF s] show ?thesis by (simp add: keeps_ok_def isClosed_def)
qed

lemma keeps_Device_ops:
  "Up C N d = Some (err, d') \<Longrightarrow> keeps_ok d d'" "Down C N d = Some (err, d') \<Longrightarrow> keeps_ok d d'"
  "Device_Close C N d = Some d' \<Longrightarrow> keeps_ok d d'" "NewPeer C pk d = (res, d') \<Longrightarrow> keeps_ok d d'"
  using ok_changeState [of C N deviceStateUp d err d'] ok_changeState [of C N deviceStateDown d err d'] ok_Device_Close [of C N d d']
    ok_NewPeer [of C pk d res d']
  by (auto simp: keeps_ok_def Up_def Down_def)

lemma keeps_TUNEvent: "RoutineTUNEventReader C N ev d = Some d' \<Longrightarrow> keeps_ok d d'"
proof -
  assume r: "RoutineTUNEventReader C N ev d = Some d'"
  obtain go d1 where u: "update_mtu ev d = (go, d1)" by force
  have k: "keeps_ok d d1" using u by (intro keeps_ok_life) (auto simp: update_mtu_def split: if_splits option.splits)
  show ?thesis
  proof (cases go)
    case False
    with r u k show ?thesis by (simp add: RoutineTUNEventReader_def)
  next
    case True
    obtain d2 where a: "(if ev_up ev then map_option snd (Up C N d1) else Some d1) = Some d2"
      and b: "(if ev_down ev then map_option snd (Down C N d2) else Some d2) = Some d'"
      using r u True by (auto simp: RoutineTUNEventReader_def bind_eq_Some_conv split: if_splits)
    have "keeps_ok d1 d2" using a by (auto split: if_splits dest: keeps_Device_ops)
    moreover have "keeps_ok d2 d'" using b by (auto split: if_splits dest: keeps_Device_ops)
    ultimately show ?thesis using k keeps_ok_trans by blast
  qed
qed

lemma keeps_Start: "isUp d \<Longrightarrow> p \<in> snd ` set (keyMap d) \<Longrightarrow> keeps_ok d (Start p d)"
  using start_ok [of "life d" p]
  by (auto simp: keeps_ok_def life_Start life_ok_def isUp_def isClosed_def start_peer_def split: if_splits)

lemma keeps_Insert:
  assumes "length ip = 4 \<or> length ip = 16" "n \<le> 8 * length ip" "p \<in> snd ` set (keyMap d)" "Insert ip n p (allowedips d) = Some T"
  shows "keeps_ok d (d\<lparr>allowedips := T\<rparr>)"
proof -
  have l: "life (d\<lparr>allowedips := T\<rparr>) = (life d)\<lparr>lf_routes := T\<rparr>" by (simp add: life_def hs_of_def)
  have "routes_within T S" if "routes_within (allowedips d) S" "p \<in> S" for S
    using cryptokey.add [of "allowedips d" ip n p] assms(1,2,4) that by (auto simp: routes_within_def split: if_splits)
  then show ?thesis using assms(3) by (auto simp: keeps_ok_def l life_ok_def members_ok_def isClosed_def)
qed

lemma keeps_Remove:
  assumes "length ip = 4 \<or> length ip = 16" "n \<le> 8 * length ip" "Remove ip n p (allowedips d) = Some T"
  shows "keeps_ok d (d\<lparr>allowedips := T\<rparr>)"
proof -
  have l: "life (d\<lparr>allowedips := T\<rparr>) = (life d)\<lparr>lf_routes := T\<rparr>" by (simp add: life_def hs_of_def)
  have "routes_within T S" if "routes_within (allowedips d) S" for S
    using table_step_map [of "allowedips d" "Op_Remove ip n p"] assms that by (auto simp: routes_within_def split: if_splits)
  then show ?thesis by (auto simp: keeps_ok_def l life_ok_def members_ok_def isClosed_def)
qed

lemma keeps_purge: "keeps_ok d (d\<lparr>allowedips := RemoveByPeer p (allowedips d)\<rparr>)"
proof -
  have l: "life (d\<lparr>allowedips := RemoveByPeer p (allowedips d)\<rparr>) = (life d)\<lparr>lf_routes := RemoveByPeer p (allowedips d)\<rparr>"
    by (simp add: life_def hs_of_def)
  have "routes_within (RemoveByPeer p T) S" if "routes_within T S" for T S
    using routes_within_purge [OF that, of p] by (auto simp: routes_within_def)
  then show ?thesis by (auto simp: keeps_ok_def l life_ok_def members_ok_def isClosed_def)
qed

text \<open>The lines for the device.\<close>

lemma keeps_with:
  "with_int v ok f d = Some (err, d') \<Longrightarrow> (\<And>i. life (f i d) = life d) \<Longrightarrow> keeps_ok d d'"
  "with_header v g d = Some (err, d') \<Longrightarrow> (\<And>h. life (g h d) = life d) \<Longrightarrow> keeps_ok d d'"
  "with_chain v i d = Some (err, d') \<Longrightarrow> keeps_ok d d'"
  by (auto simp: with_int_def with_header_def with_chain_def ipc_ok_def ipc_fail_def life_def hs_of_def
      split: option.splits sum.splits if_splits intro!: keeps_ok_life)

lemma keeps_device_values:
  "set_listen_port N v d = Some (err, d') \<Longrightarrow> keeps_ok d d'" "set_fwmark N v d = Some (err, d') \<Longrightarrow> keeps_ok d d'"
  "set_private_key C N v d = Some (err, d') \<Longrightarrow> keeps_ok d d'"
proof -
  show "set_listen_port N v d = Some (err, d') \<Longrightarrow> keeps_ok d d'"
    using life_BindUpdate [of N "d\<lparr>net_port := np\<rparr>" for np]
    by (auto simp: set_listen_port_def ipc_ok_def ipc_fail_def Let_def split: option.splits prod.splits if_splits intro!: keeps_ok_life)
  show "set_fwmark N v d = Some (err, d') \<Longrightarrow> keeps_ok d d'"
    using life_BindSetMark [of N _ d]
    by (auto simp: set_fwmark_def ipc_ok_def ipc_fail_def Let_def split: option.splits prod.splits if_splits intro!: keeps_ok_life)
  show "set_private_key C N v d = Some (err, d') \<Longrightarrow> keeps_ok d d'"
    by (auto simp: set_private_key_def ipc_ok_def ipc_fail_def Let_def bind_eq_Some_conv split: prod.splits if_splits dest: keeps_SetPrivateKey)
qed

lemma life_settings [simp]:
  "life (d\<lparr>junk_count := i\<rparr>) = life d" "life (d\<lparr>junk_min := i\<rparr>) = life d" "life (d\<lparr>junk_max := i\<rparr>) = life d"
  "life (d\<lparr>paddings_init := i\<rparr>) = life d" "life (d\<lparr>paddings_response := i\<rparr>) = life d" "life (d\<lparr>paddings_cookie := i\<rparr>) = life d"
  "life (d\<lparr>paddings_transport := i\<rparr>) = life d" "life (set_headers_init h d) = life d" "life (set_headers_response h d) = life d"
  "life (set_headers_cookie h d) = life d" "life (set_headers_transport h d) = life d"
  by (simp_all add: life_def hs_of_def set_headers_init_def set_headers_response_def set_headers_cookie_def set_headers_transport_def)

definition keeps_result :: "Device \<Rightarrow> ipc_result \<Rightarrow> bool" where
  "keeps_result d r \<longleftrightarrow> (\<forall>err d'. r = Some (err, d') \<longrightarrow> keeps_ok d d')"

lemma keeps_result_if: "keeps_result d x \<Longrightarrow> keeps_result d y \<Longrightarrow> keeps_result d (if b then x else y)"
  by simp

lemma keeps_results:
  "keeps_result d (ipc_fail e d)" "(\<And>i. life (f i d) = life d) \<Longrightarrow> keeps_result d (with_int v ok f d)"
  "(\<And>h. life (g h d) = life d) \<Longrightarrow> keeps_result d (with_header v g d)" "keeps_result d (with_chain v n d)"
  "keeps_result d (set_listen_port N v d)" "keeps_result d (set_fwmark N v d)" "keeps_result d (set_private_key C N v d)"
  "keeps_result d (do { d \<leftarrow> RemoveAllPeers C N d; ipc_ok d })"
  unfolding keeps_result_def
  by (auto simp: ipc_fail_def ipc_ok_def bind_eq_Some_conv dest: keeps_with(3) keeps_with(1) [where f = f] keeps_with(2) [where g = g]
      keeps_device_values keeps_RemoveAllPeers)

lemma keeps_handleDeviceLine: "keeps_result d (handleDeviceLine C N key value d)"
  unfolding handleDeviceLine_def by (intro keeps_result_if keeps_results) simp_all

text \<open>The peer under configuration is a peer of the device.\<close>

definition subject_ok :: "ipcSetPeer \<Rightarrow> Device \<Rightarrow> bool" where
  "subject_ok sp d \<longleftrightarrow> (\<forall>p. sp_peer sp = Some (Known p) \<longrightarrow> p \<in> snd ` set (keyMap d))"

lemma subject_ok_life: "life d' = life d \<Longrightarrow> subject_ok sp d' = subject_ok sp d"
  using lifeD(2) [of d' d] by (simp add: subject_ok_def)

lemma keeps_handlePostConfig:
  assumes "handlePostConfig C N sp d = Some d'" "subject_ok sp d"
  shows "keeps_ok d d'"
proof (cases "\<exists>p. sp_peer sp = Some (Known p) \<and> \<not> sp_dummy sp \<and> isUp d")
  case False
  have "life (upd_peer p (\<lambda>P. P\<lparr>disableRoaming := b P\<rparr>) d) = life d" for p b by (rule life_upd_peer) simp
  with assms(1) False show ?thesis
    by (auto simp: handlePostConfig_def Let_def isUp_def upd_peer_def split: option.splits peer_ref.splits if_splits intro!: keeps_ok_life)
next
  case True
  then obtain p where p: "sp_peer sp = Some (Known p)" "\<not> sp_dummy sp" "isUp d" by blast
  let ?d = "if sp_created sp then upd_peer p (\<lambda>P. P\<lparr>disableRoaming := (brokenRoaming d \<and> ep_val P \<noteq> None)\<rparr>) d else d"
  have l: "life ?d = life d" by (simp add: life_upd_peer)
  have up: "isUp ?d" using p(3) lifeD(7) [OF l] by simp
  have mem: "p \<in> snd ` set (keyMap ?d)" using assms(2) p(1) lifeD(2) [OF l] by (simp add: subject_ok_def)
  obtain d1 where k: "(if sp_pkaOn sp then SendKeepalive C N p (Start p ?d) else Some (Start p ?d)) = Some d1"
    "SendStagedPackets C N p d1 = Some d'"
    using assms(1) p up by (auto simp: handlePostConfig_def Let_def bind_eq_Some_conv)
  have "life d' = life (Start p ?d)" using k by (auto split: if_splits dest!: life_SendKeepalive life_SendStagedPackets)
  with keeps_Start [OF up mem] keeps_ok_life [OF l] show ?thesis using keeps_ok_trans keeps_ok_life by blast
qed

lemma keeps_handlePublicKeyLine:
  assumes "handlePublicKeyLine C sp value d = (err, sp', d')"
  shows "keeps_ok d d' \<and> (err = None \<longrightarrow> subject_ok sp' d')"
proof -
  obtain ok pk where k: "PublicKey_FromHex zero32 value = (ok, pk)" by force
  show ?thesis
  proof (cases "\<not> ok \<or> publicKey d = pk \<or> LookupPeer d pk \<noteq> None")
    case True
    with assms k show ?thesis
      by (auto simp: handlePublicKeyLine_def Let_def subject_ok_def LookupPeer_def split: if_splits dest!: map_of_SomeD) force
  next
    case False
    obtain res d1 where n: "NewPeer C pk d = (res, d1)" by force
    have d': "d' = d1" using assms k False n by (auto simp: handlePublicKeyLine_def Let_def split: sum.splits)
    have "subject_ok sp' d'" if "err = None"
    proof -
      obtain p where r: "res = Inr p" "sp_peer sp' = Some (Known p)"
      proof (cases res)
        case (Inl e)
        with assms k False n have "err = Some IpcErrorInvalid" by (auto simp: handlePublicKeyLine_def Let_def)
        with \<open>err = None\<close> show ?thesis by simp
      next
        case (Inr p)
        with assms k False n have "sp_peer sp' = Some (Known p)" by (auto simp: handlePublicKeyLine_def Let_def)
        with Inr show ?thesis using that by blast
      qed
      then have "p = peer_count d" "life d' = enlist_peer pk (life d)" using life_NewPeer [OF n] d' by simp_all
      then have "keyMap d' = keyMap d @ [(pk, p)]" using arg_cong [of "life d'" "enlist_peer pk (life d)" lf_members] by (simp add: enlist_peer_def life_def)
      then show ?thesis using r by (simp add: subject_ok_def)
    qed
    then show ?thesis using keeps_Device_ops(4) [OF n] d' by simp
  qed
qed

text \<open>The lines for a peer.\<close>

definition keeps_peer :: "Device \<Rightarrow> peer_result \<Rightarrow> bool" where
  "keeps_peer d r \<longleftrightarrow> (\<forall>err sp d'. r = Some (err, sp, d') \<longrightarrow> keeps_ok d d' \<and> subject_ok sp d')"

lemma keeps_peer_if: "keeps_peer d x \<Longrightarrow> keeps_peer d y \<Longrightarrow> keeps_peer d (if b then x else y)"
  by simp

lemma keeps_peer_same: "subject_ok sp d \<Longrightarrow> keeps_peer d (Some (e, sp, d))"
  by (simp add: keeps_peer_def)

lemma keeps_upd_ref:
  assumes "upd_ref r f sp d = (sp', d')" "sp_peer sp = Some r" "subject_ok sp d"
    "\<And>P. isRunning (f P) = isRunning P \<and> remoteStatic (handshake (f P)) = remoteStatic (handshake P)"
  shows "life d' = life d \<and> subject_ok sp' d'"
proof (cases r)
  case (Known p)
  then have "d' = upd_peer p f d" "sp' = sp" using assms(1) by (simp_all add: upd_ref_def)
  then have "life d' = life d" using life_upd_peer [OF assms(4)] by simp
  with assms(3) subject_ok_life \<open>sp' = sp\<close> show ?thesis by blast
next
  case (Placeholder P)
  with assms show ?thesis by (auto simp: upd_ref_def subject_ok_def)
qed

lemma keeps_peer_values:
  assumes "sp_peer sp = Some r" "subject_ok sp d"
  shows "keeps_peer d (set_preshared_key r value sp d)" "keeps_peer d (set_endpoint N r value sp d)"
    "keeps_peer d (set_keepalive_interval r value sp d)" "keeps_peer d (set_allowed_ip r value sp d)"
proof -
  note u = keeps_upd_ref [OF _ assms]
  show "keeps_peer d (set_preshared_key r value sp d)"
    unfolding keeps_peer_def
  proof (intro allI impI)
    fix err sp' d' assume "set_preshared_key r value sp d = Some (err, sp', d')"
    then have "life d' = life d \<and> subject_ok sp' d'"
      by (auto simp: set_preshared_key_def Let_def split: prod.splits intro!: u [THEN conjunct1] u [THEN conjunct2])
    then show "keeps_ok d d' \<and> subject_ok sp' d'" using keeps_ok_life by blast
  qed
  show "keeps_peer d (set_endpoint N r value sp d)"
    unfolding keeps_peer_def
  proof (intro allI impI)
    fix err sp' d' assume s: "set_endpoint N r value sp d = Some (err, sp', d')"
    show "keeps_ok d d' \<and> subject_ok sp' d'"
    proof (cases "net_parse N value")
      case None
      with s assms(2) show ?thesis by (simp add: set_endpoint_def)
    next
      case (Some ep)
      with s have "upd_ref r (\<lambda>P. P\<lparr>ep_val := Some ep\<rparr>) sp d = (sp', d')" by (auto simp: set_endpoint_def Let_def split: prod.splits)
      from u [OF this] show ?thesis using keeps_ok_life by simp
    qed
  qed
  show "keeps_peer d (set_keepalive_interval r value sp d)"
    unfolding keeps_peer_def
  proof (intro allI impI)
    fix err sp' d' assume s: "set_keepalive_interval r value sp d = Some (err, sp', d')"
    show "keeps_ok d d' \<and> subject_ok sp' d'"
    proof (cases "ParseUint value 16")
      case None
      with s assms(2) show ?thesis by (simp add: set_keepalive_interval_def)
    next
      case (Some secs)
      obtain sp1 d1 where w: "upd_ref r (\<lambda>P. P\<lparr>persistentKeepaliveInterval := word_of_nat secs\<rparr>) sp d = (sp1, d1)" by force
      have "d' = d1" "sp_peer sp' = sp_peer sp1" using s Some w by (auto simp: set_keepalive_interval_def Let_def)
      with u [OF w] show ?thesis using keeps_ok_life by (simp add: subject_ok_def)
    qed
  qed
  show "keeps_peer d (set_allowed_ip r value sp d)"
    unfolding keeps_peer_def
  proof (intro allI impI)
    fix err sp' d' assume s: "set_allowed_ip r value sp d = Some (err, sp', d')"
    define add where "add = (\<not> (value \<noteq> [] \<and> hd value = CHR ''-''))"
    define v where "v = (if add then value else tl value)"
    note s' = s [unfolded set_allowed_ip_def Let_def, folded add_def, folded v_def]
    show "keeps_ok d d' \<and> subject_ok sp' d'"
    proof (cases "ParsePrefix v")
      case None
      with s' assms(2) show ?thesis by simp
    next
      case (Some ipn)
      obtain ip n where ipn: "ipn = (ip, n)" by force
      note P = ParsePrefix_ok [OF Some [unfolded ipn]]
      show ?thesis
      proof (cases "sp_dummy sp")
        case True
        with s' Some ipn assms(2) show ?thesis by simp
      next
        case False
        with s' Some ipn obtain p where r: "r = Known p" by (cases r) simp_all
        obtain T where T: "(if add then Insert ip n p (allowedips d) else Remove ip n p (allowedips d)) = Some T"
          "d' = d\<lparr>allowedips := T\<rparr>" "sp' = sp"
          using s' Some ipn False r by (auto simp: bind_eq_Some_conv)
        have mem: "p \<in> snd ` set (keyMap d)" using assms r by (simp add: subject_ok_def)
        have "keeps_ok d d'" using T P mem keeps_Insert [of ip n p d T] keeps_Remove [of ip n p d T] by (auto split: if_splits)
        with T assms(2) show ?thesis by (simp add: subject_ok_def)
      qed
    qed
  qed
qed

lemma subject_placeholder [simp]: "subject_ok (make_placeholder sp) d"
  by (simp add: subject_ok_def make_placeholder_def)

lemma keeps_handlePeerLine:
  assumes "subject_ok sp d"
  shows "keeps_peer d (handlePeerLine C N key value sp d)"
proof (cases "sp_peer sp")
  case None
  then show ?thesis by (simp add: handlePeerLine_def keeps_peer_def)
next
  case (Some r)
  have rm: "keeps_peer d (do { d \<leftarrow> RemovePeer C N k d; Some (e, make_placeholder sp, d) })" for k e
    by (auto simp: keeps_peer_def bind_eq_Some_conv dest: keeps_RemovePeer)
  have rm2: "keeps_peer d (do { d \<leftarrow> (if b then RemovePeer C N k d else Some d); Some (e, make_placeholder sp, d) })" for b k e
    using rm by (cases b) (auto simp: keeps_peer_def)
  have pr: "keeps_peer d (case r of Placeholder _ \<Rightarrow> Some (None, sp, d) | Known p \<Rightarrow> Some (None, sp, d\<lparr>allowedips := RemoveByPeer p (allowedips d)\<rparr>))"
    using assms keeps_purge by (auto simp: keeps_peer_def subject_ok_def split: peer_ref.splits)
  show ?thesis
    unfolding handlePeerLine_def Some option.case Let_def
    by (intro keeps_peer_if rm rm2 pr keeps_peer_values keeps_peer_same Some assms)
qed

lemma keeps_finish_set:
  assumes "finish_set C N sp d = Some (err, d')" "subject_ok sp d"
  shows "keeps_ok d d'"
proof -
  obtain ok d1 where m: "mergeWithDevice new_ipcSetDevice d = (ok, d1)" by force
  have l: "life d1 = life d"
    using m by (auto simp: mergeWithDevice_def Let_def life_def hs_of_def split: if_splits)
  show ?thesis
  proof (cases ok)
    case False
    with assms(1) m l show ?thesis by (auto simp: finish_set_def ipc_fail_def intro: keeps_ok_life)
  next
    case True
    obtain d2 where "handlePostConfig C N sp d1 = Some d2" "d' = d2"
      using assms(1) m True by (auto simp: finish_set_def ipc_ok_def bind_eq_Some_conv)
    then show ?thesis using keeps_handlePostConfig [of C N sp d1 d2] assms(2) subject_ok_life [OF l] keeps_ok_life [OF l] keeps_ok_trans by blast
  qed
qed

lemma keeps_set_lines:
  "set_lines C N b ls dc sp d = Some (err, d') \<Longrightarrow> subject_ok sp d \<Longrightarrow> (dc \<Longrightarrow> sp_peer sp = None) \<Longrightarrow> keeps_ok d d'"
proof (induction ls arbitrary: dc sp d)
  case Nil
  then obtain e where "finish_set C N sp d = Some (e, d')" by (auto simp: bind_eq_Some_conv)
  from keeps_finish_set [OF this Nil.prems(2)] show ?case .
next
  case (Cons line ls)
  show ?case
  proof (cases "line = []")
    case True
    with Cons.prems(1) have "finish_set C N sp d = Some (err, d')" by simp
    from keeps_finish_set [OF this Cons.prems(2)] show ?thesis .
  next
    case ne: False
    show ?thesis
    proof (cases "Cut line (CHR ''='')")
      case None
      with Cons.prems(1) ne show ?thesis by (auto simp: ipc_fail_def)
    next
      case (Some kv)
      obtain key val where kv: "kv = (key, val)" by force
      consider (pk) "key = ''public_key''" | (dev) "key \<noteq> ''public_key''" dc | (peer) "key \<noteq> ''public_key''" "\<not> dc" by blast
      then show ?thesis
      proof cases
        case pk
        obtain d1 where p: "handlePostConfig C N sp d = Some d1" using Cons.prems(1) ne Some kv pk by (auto simp: bind_eq_Some_conv)
        obtain e1 sp1 d2 where q: "handlePublicKeyLine C sp val d1 = (e1, sp1, d2)" by (cases "handlePublicKeyLine C sp val d1")
        have k1: "keeps_ok d d1" by (rule keeps_handlePostConfig [OF p Cons.prems(2)])
        note k2 = keeps_handlePublicKeyLine [OF q]
        have "keeps_ok d2 d'"
        proof (cases "e1 = None")
          case True
          with Cons.prems(1) ne Some kv pk p q have "set_lines C N b ls False sp1 d2 = Some (err, d')" by simp
          from Cons.IH [OF this] k2 True show ?thesis by simp
        next
          case False
          with Cons.prems(1) ne Some kv pk p q have "d' = d2" by simp
          then show ?thesis by simp
        qed
        then show ?thesis using k1 k2 keeps_ok_trans by blast
      next
        case dev
        obtain e1 d1 where h: "handleDeviceLine C N key val d = Some (e1, d1)"
          "(if e1 \<noteq> None then Some (e1, d1) else set_lines C N b ls True sp d1) = Some (err, d')"
          using Cons.prems(1) ne Some kv dev by (auto simp: bind_eq_Some_conv)
        have k: "keeps_ok d d1" using keeps_handleDeviceLine h(1) by (auto simp: keeps_result_def)
        have s: "subject_ok sp d1" using Cons.prems(3) dev by (simp add: subject_ok_def)
        have "keeps_ok d1 d'" using h(2) Cons.IH [of True sp d1] s Cons.prems(3) dev by (auto split: if_splits)
        with k show ?thesis using keeps_ok_trans by blast
      next
        case peer
        obtain e1 sp1 d1 where h: "handlePeerLine C N key val sp d = Some (e1, sp1, d1)"
          "(if e1 \<noteq> None then Some (e1, d1) else set_lines C N b ls False sp1 d1) = Some (err, d')"
          using Cons.prems(1) ne Some kv peer by (auto simp: bind_eq_Some_conv)
        have k: "keeps_ok d d1 \<and> subject_ok sp1 d1" using keeps_handlePeerLine [OF Cons.prems(2)] h(1) by (auto simp: keeps_peer_def)
        have "keeps_ok d1 d'" using h(2) Cons.IH [of False sp1 d1] k by (auto split: if_splits)
        with k show ?thesis using keeps_ok_trans by blast
      qed
    qed
  qed
qed

lemma keeps_IpcSet: "IpcSet C N s d = Some (err, d') \<Longrightarrow> keeps_ok d d'"
  by (auto simp: IpcSet_def new_ipcSetPeer_def subject_ok_def split: prod.splits intro: keeps_set_lines)

section \<open>Every run\<close>

text \<open>One step of the device: an entry point of the code, called with whatever it may be called with, by
  whatever goroutine; and time passing.\<close>

inductive device_step :: "crypto \<Rightarrow> Net \<Rightarrow> Device \<Rightarrow> Device \<Rightarrow> bool" for C N where
  configure: "IpcSet C N conf d = Some (err, d') \<Longrightarrow> device_step C N d d'"
| up: "Up C N d = Some (err, d') \<Longrightarrow> device_step C N d d'"
| down: "Down C N d = Some (err, d') \<Longrightarrow> device_step C N d d'"
| tun_event: "RoutineTUNEventReader C N ev d = Some d' \<Longrightarrow> device_step C N d d'"
| close: "Device_Close C N d = Some d' \<Longrightarrow> device_step C N d d'"
| new_peer: "NewPeer C pk d = (res, d') \<Longrightarrow> device_step C N d d'"
| remove_peer: "RemovePeer C N pk d = Some d' \<Longrightarrow> device_step C N d d'"
| remove_all: "RemoveAllPeers C N d = Some d' \<Longrightarrow> device_step C N d d'"
| private_key: "SetPrivateKey C N sk d = Some d' \<Longrightarrow> device_step C N d d'"
| bind_update: "BindUpdate N d = (e, d') \<Longrightarrow> device_step C N d d'"
| bind_mark: "BindSetMark N m d = (e, d') \<Longrightarrow> device_step C N d d'"
| bind_close: "BindClose N d = (e, d') \<Longrightarrow> device_step C N d d'"
| keepalives: "SendKeepalivesToPeersWithCurrentKeypair C N d = Some d' \<Longrightarrow> device_step C N d d'"
| datagrams: "receive_batch batch d = Some d' \<Longrightarrow> device_step C N d d'"
| handshake: "RoutineHandshake C N d = Some d' \<Longrightarrow> device_step C N d d'"
| deliver: "receive_next C N p d = Some d' \<Longrightarrow> device_step C N d d'"
| stage: "device_step C N d (StagePackets p es d)"
| send: "SendStagedPackets C N p d = Some d' \<Longrightarrow> device_step C N d d'"
| transmit: "transmit_next C N p d = Some d' \<Longrightarrow> device_step C N d d'"
| timer: "fire_timer C N p t d = Some d' \<Longrightarrow> device_step C N d d'"
| tick: "now d \<le> t \<Longrightarrow> device_step C N d (d\<lparr>now := t\<rparr>)"

abbreviation device_run :: "crypto \<Rightarrow> Net \<Rightarrow> Device \<Rightarrow> Device \<Rightarrow> bool" where
  "device_run C N \<equiv> (device_step C N)\<^sup>*\<^sup>*"

lemma device_step_keeps: "device_step C N d d' \<Longrightarrow> keeps_ok d d'"
  by (induction rule: device_step.induct)
    (auto intro: keeps_IpcSet keeps_Device_ops keeps_TUNEvent keeps_RemovePeer keeps_RemoveAllPeers keeps_SetPrivateKey
      keeps_ok_life [OF life_BindUpdate] keeps_ok_life [OF life_BindSetMark] keeps_ok_life [OF life_bind_close [of N]]
      keeps_ok_life [OF life_Keepalives] keeps_ok_life [OF life_receive_batch] keeps_ok_life [OF life_RoutineHandshake]
      keeps_ok_life [OF life_receive_next] keeps_ok_life [OF life_SendStagedPackets] keeps_ok_life [OF life_transmit_next]
      keeps_ok_life [OF life_fire_timer] simp: BindClose_def keeps_ok_life)

lemma device_run_keeps: "device_run C N d d' \<Longrightarrow> keeps_ok d d'"
  by (induction rule: rtranclp_induct) (auto intro: keeps_ok_trans device_step_keeps)

lemma new_device_ok: "life_ok (life (NewDevice mtu t r c))"
  by (simp add: life_ok_def members_ok_def NewDevice_def zero_Device_def life_def routes_within_def wf_empty new_Peer_def)

text \<open>What the invariant says of a device.\<close>

lemma life_ok_device:
  assumes "life_ok (life d)"
  shows "distinct (map fst (keyMap d))" "distinct (map snd (keyMap d))"
    "(k, p) \<in> set (keyMap d) \<Longrightarrow> p < peer_count d \<and> remoteStatic (hs_of d p) = k"
    "isRunning (peers d p) \<Longrightarrow> isUp d \<and> p \<in> snd ` set (keyMap d)"
    "Lookup (allowedips d) ip = Some (Some p) \<Longrightarrow> p \<in> snd ` set (keyMap d)"
    "isClosed d \<Longrightarrow> keyMap d = []"
proof -
  show "distinct (map fst (keyMap d))" "distinct (map snd (keyMap d))"
    "(k, p) \<in> set (keyMap d) \<Longrightarrow> p < peer_count d \<and> remoteStatic (hs_of d p) = k"
    "isRunning (peers d p) \<Longrightarrow> isUp d \<and> p \<in> snd ` set (keyMap d)" "isClosed d \<Longrightarrow> keyMap d = []"
    using assms by (auto simp: life_ok_def members_ok_def isUp_def isClosed_def)
  have w: "routes_within (allowedips d) (snd ` set (keyMap d))" using assms by (simp add: life_ok_def members_ok_def)
  assume l: "Lookup (allowedips d) ip = Some (Some p)"
  then have "length ip = 4 \<or> length ip = 16" by (auto simp: Lookup_def split: if_splits)
  from cryptokey.find_owner [OF _ this l] w show "p \<in> snd ` set (keyMap d)" by (auto simp: routes_within_def)
qed

text \<open>C10. In every state that a new device can reach, by whatever calls in whatever order, the peers are known
  by distinct keys, each its own static key; only a device that is up has running peers, and only peers it
  knows; and every route leads to such a peer.\<close>

theorem device_invariant:
  assumes "device_run C N (NewDevice mtu t r c) d"
  shows "distinct (map fst (keyMap d)) \<and> distinct (map snd (keyMap d)) \<and>
    (\<forall>(k, p) \<in> set (keyMap d). remoteStatic (hs_of d p) = k) \<and>
    (\<forall>p. isRunning (peers d p) \<longrightarrow> isUp d \<and> p \<in> snd ` set (keyMap d)) \<and>
    (\<forall>ip p. Lookup (allowedips d) ip = Some (Some p) \<longrightarrow> p \<in> snd ` set (keyMap d))"
proof -
  have "life_ok (life d)" using device_run_keeps [OF assms] new_device_ok by (simp add: keeps_ok_def)
  note L = life_ok_device [OF this]
  show ?thesis using L by blast
qed

text \<open>C11. Closing is final. Once a device is closed, it stays closed, whatever is called; it has no peers, none
  runs, and no address is routed anywhere.\<close>

theorem closed_is_final:
  assumes "device_run C N (NewDevice mtu t r c) d" "isClosed d" "device_run C N d d'"
  shows "isClosed d' \<and> keyMap d' = [] \<and> \<not> isRunning (peers d' p) \<and> Lookup (allowedips d') ip \<noteq> Some (Some p)"
proof -
  have ok: "life_ok (life d)" using device_run_keeps [OF assms(1)] new_device_ok by (simp add: keeps_ok_def)
  have c: "isClosed d'" "life_ok (life d')" using device_run_keeps [OF assms(3)] ok assms(2) by (simp_all add: keeps_ok_def)
  note L = life_ok_device [OF c(2)]
  show ?thesis using c(1) L(4) [of p] L(5) [of ip p] L(6) by auto
qed

lemma enlisted:
  assumes "life d' = enlist_peer pk (life d)"
  shows "keyMap d' = keyMap d @ [(pk, peer_count d)]" "dev_state d' = dev_state d"
  using assms by (simp_all add: enlist_peer_def life_def)

text \<open>A new device that is configured with two peers, comes up and is closed.\<close>

lemma device_of_two: "\<exists>d. device_run C N (NewDevice None 0 (\<lambda>_. 0) (\<lambda>_. 0)) d \<and> length (keyMap d) = 2 \<and> \<not> isClosed d"
proof -
  let ?d0 = "NewDevice None 0 (\<lambda>_. 0) (\<lambda>_. 0)" and ?k1 = "replicate 32 1" and ?k2 = "replicate 32 (2 :: byte)"
  obtain r1 d1 where n1: "NewPeer C ?k1 ?d0 = (r1, d1)" by force
  obtain r2 d2 where n2: "NewPeer C ?k2 d1 = (r2, d2)" by force
  have z: "\<not> isClosed ?d0" "keyMap ?d0 = []" "peer_count ?d0 = 0" by (simp_all add: NewDevice_def zero_Device_def isClosed_def)
  then have "r1 = Inr (peer_count ?d0)" using n1 by (auto simp: NewPeer_def LookupPeer_def MaxPeers_def Let_def)
  with life_NewPeer [OF n1] have l1: "life d1 = enlist_peer ?k1 (life ?d0)" by simp
  from enlisted [OF l1] z have m1: "keyMap d1 = [(?k1, 0)]" "\<not> isClosed d1" by (simp_all add: isClosed_def)
  have "?k2 \<noteq> ?k1" by simp
  then have "r2 = Inr (peer_count d1)" using n2 m1 by (auto simp: NewPeer_def LookupPeer_def MaxPeers_def Let_def)
  with life_NewPeer [OF n2] have l2: "life d2 = enlist_peer ?k2 (life d1)" by simp
  from enlisted [OF l2] m1 have m2: "length (keyMap d2) = 2" "\<not> isClosed d2" by (simp_all add: isClosed_def)
  have "device_run C N ?d0 d2"
    using device_step.new_peer [OF n1, of N] device_step.new_peer [OF n2, of N] by (rule converse_rtranclp_into_rtranclp [OF _ r_into_rtranclp])
  with m2 show ?thesis by blast
qed

theorem device_invariant_witness:
  "\<exists>d. device_run toy_crypto some_net (NewDevice None 0 (\<lambda>_. 0) (\<lambda>_. 0)) d \<and> length (keyMap d) = 2 \<and> distinct (map fst (keyMap d))"
  using device_of_two [of toy_crypto some_net] device_invariant by blast

text \<open>A new device that is closed, and configured afterwards.\<close>

lemma device_closed: "\<exists>d. Device_Close C N (NewDevice None 0 (\<lambda>_. 0) (\<lambda>_. 0)) = Some d \<and> isClosed d"
proof -
  let ?d0 = "NewDevice None 0 (\<lambda>_. 0) (\<lambda>_. 0)"
  obtain e1 d1 where b: "BindClose N (?d0\<lparr>dev_state := deviceStateClosed\<rparr>) = (e1, d1)" by force
  have "life d1 = life (?d0\<lparr>dev_state := deviceStateClosed\<rparr>)" using life_bind_close [of N] b by (auto simp: BindClose_def)
  then have z: "keyMap d1 = []" "isClosed d1" by (simp_all add: life_def NewDevice_def zero_Device_def isClosed_def)
  show ?thesis using b z by (auto simp: Device_Close_def downLocked_def RemoveAllPeers_def isClosed_def NewDevice_def zero_Device_def)
qed

theorem closed_is_final_witness:
  "\<exists>d. device_run toy_crypto some_net (NewDevice None 0 (\<lambda>_. 0) (\<lambda>_. 0)) d \<and> isClosed d \<and>
     (let (res, d') = NewPeer toy_crypto (replicate 32 1) d in res = Inl Device_Closed \<and> isClosed d' \<and> keyMap d' = [])"
proof -
  let ?d0 = "NewDevice None 0 (\<lambda>_. 0) (\<lambda>_. 0)"
  obtain d where d: "Device_Close toy_crypto some_net ?d0 = Some d" "isClosed d" using device_closed by blast
  obtain res d' where n: "NewPeer toy_crypto (replicate 32 1) d = (res, d')" by force
  have r: "device_run toy_crypto some_net ?d0 d" "device_run toy_crypto some_net d d'"
    using device_step.close [OF d(1)] device_step.new_peer [OF n] by blast+
  moreover have "res = Inl Device_Closed" using n d(2) by (auto simp: NewPeer_def)
  ultimately show ?thesis using closed_is_final [OF r(1) d(2) r(2)] d(2) n by auto
qed

end
