(* ===== verification/Session_Facts.thy ===== *)
theory Session_Facts
  imports Device_Life Sending
begin

text \<open>
  What follows for single operations: the choice of an index ends and is fair, a response releases the packets
  that wait for a session, and the printed name of a peer is the one its comment promises.
\<close>

section \<open>Choosing an index\<close>

lemma draw_index_some:
  assumes "draw_index t r = Some y"
  shows "\<exists>n. fst y = nth_draw n r \<and> t (nth_draw n r) = None \<and> (\<forall>m < n. t (nth_draw m r) \<noteq> None)"
proof (rule draw_index.raw_induct [of "\<lambda>t r y. \<exists>n. fst y = nth_draw n r \<and> t (nth_draw n r) = None \<and> (\<forall>m < n. t (nth_draw m r) \<noteq> None)", OF _ assms])
  fix f :: "IndexTable \<Rightarrow> rng \<Rightarrow> (u32 \<times> rng) option" and t r y
  assume IH: "\<And>t r y. f t r = Some y \<Longrightarrow> \<exists>n. fst y = nth_draw n r \<and> t (nth_draw n r) = None \<and> (\<forall>m < n. t (nth_draw m r) \<noteq> None)"
    and e: "(let (index, r') = randUint32 r in if t index \<noteq> None then f t r' else Some (index, r')) = Some y"
  obtain index r1 where rr: "randUint32 r = (index, r1)" by (cases "randUint32 r")
  show "\<exists>n. fst y = nth_draw n r \<and> t (nth_draw n r) = None \<and> (\<forall>m < n. t (nth_draw m r) \<noteq> None)"
  proof (cases "t index")
    case None
    then show ?thesis using e rr by (intro exI [of _ 0]) auto
  next
    case (Some i)
    then have "f t r1 = Some y" using e rr by simp
    from IH [OF this] obtain n where n: "fst y = nth_draw n r1" "t (nth_draw n r1) = None" "\<forall>m < n. t (nth_draw m r1) \<noteq> None" by blast
    have "t (nth_draw m r) \<noteq> None" if "m < Suc n" for m
      using that n(3) Some rr by (cases m) auto
    with n rr show ?thesis by (intro exI [of _ "Suc n"]) auto
  qed
qed

text \<open>The loop of \<open>NewIndexForHandshake\<close> ends exactly if some random draw is a free index. It then
  returns the first such draw, and enters it in the table for the handshake and nothing else.\<close>

theorem NewIndexForHandshake_terminates:
  "(NewIndexForHandshake p t r \<noteq> None \<longleftrightarrow> (\<exists>n. t (nth_draw n r) = None)) \<and>
   (\<forall>i t' r'. NewIndexForHandshake p t r = Some (i, t', r') \<longrightarrow>
     i = nth_draw (LEAST n. t (nth_draw n r) = None) r \<and>
     t' = t(i \<mapsto> \<lparr>ite_peer = Some p, ite_handshake = Some p, ite_keypair = None\<rparr>))"
proof (intro conjI allI impI)
  have "(draw_index t r \<noteq> None) = (\<exists>n. t (nth_draw n r) = None)"
    using draw_index_some [of t r] draw_index_returns [of t _ r] by fastforce
  then show "(NewIndexForHandshake p t r \<noteq> None) = (\<exists>n. t (nth_draw n r) = None)"
    by (auto simp: NewIndexForHandshake_def split: bind_splits)
next
  fix i t' r' assume a: "NewIndexForHandshake p t r = Some (i, t', r')"
  then have "draw_index t r = Some (i, r')" by (auto simp: NewIndexForHandshake_def bind_eq_Some_conv)
  from draw_index_some [OF this] obtain n where n: "i = nth_draw n r" "t (nth_draw n r) = None" "\<forall>m < n. t (nth_draw m r) \<noteq> None" by auto
  then have "(LEAST n. t (nth_draw n r) = None) = n" by (intro Least_equality) (auto simp: not_less [symmetric])
  with n show "i = nth_draw (LEAST n. t (nth_draw n r) = None) r" by simp
  show "t' = t(i \<mapsto> \<lparr>ite_peer = Some p, ite_handshake = Some p, ite_keypair = None\<rparr>)"
    using NewIndexForHandshake_fresh(2) [OF a] .
qed

theorem NewIndexForHandshake_terminates_witness:
  "\<exists>t' r'. NewIndexForHandshake 3 [7 \<mapsto> no_entry] (\<lambda>_. 1) = Some (0x1010101, t', r') \<and> t' 7 = Some no_entry"
proof -
  have r: "replicate 4 1 = [1, 1, 1, 1 :: byte]" by (simp add: numeral_eq_Suc)
  have z: "nth_draw 0 (\<lambda>_. 1) = 0x1010101" by (simp add: randUint32_def rand_const r get_u32_le_def)
  then have free: "[7 \<mapsto> no_entry] (nth_draw 0 (\<lambda>_. 1)) = None" by simp
  then have l: "(LEAST n. [7 \<mapsto> no_entry] (nth_draw n (\<lambda>_. 1)) = None) = 0" by (rule Least_eq_0)
  note T = NewIndexForHandshake_terminates [of 3 "[7 \<mapsto> no_entry]" "\<lambda>_. 1", unfolded l z]
  from T free obtain i t' r' where n: "NewIndexForHandshake 3 [7 \<mapsto> no_entry] (\<lambda>_. 1) = Some (i, t', r')" by fast
  with T show ?thesis by force
qed

section \<open>Waiting packets\<close>

text \<open>What the packets that wait for a session depend on.\<close>

definition waiting :: "pid \<Rightarrow> Device \<Rightarrow> QueueOutboundElement list list \<times> QueueOutboundElement list list \<times> bool \<times> deviceState \<times>
    Time \<times> Handshake \<times> kpid option \<times> (kpid \<Rightarrow> Keypair) \<times> nat" where
  "waiting p d = (let P = peers d p in (q_staged P, q_outbound P, isRunning P, dev_state d, now d, handshake P,
     kp_current P, keypairs d, keypair_count d))"

lemma waiting_upd_peer:
  assumes "\<And>P. q_staged (f P) = q_staged P \<and> q_outbound (f P) = q_outbound P \<and> isRunning (f P) = isRunning P \<and>
    handshake (f P) = handshake P \<and> kp_current (f P) = kp_current P"
  shows "waiting p (upd_peer q f d) = waiting p d"
  using assms by (simp add: waiting_def upd_peer_def Let_def)

lemma waiting_timer [simp]: "waiting p (upd_timer q t f d) = waiting p d"
  unfolding upd_timer_def by (rule waiting_upd_peer) simp

lemma waiting_events [simp]:
  "waiting p (timersAnyAuthenticatedPacketTraversal q d) = waiting p d" "waiting p (timersAnyAuthenticatedPacketReceived q d) = waiting p d"
  "waiting p (timersSessionDerived q d) = waiting p d" "waiting p (timersHandshakeComplete q d) = waiting p d"
  "waiting p (SetEndpointFromPacket q ep d) = waiting p d" "waiting p (add_rx q n d) = waiting p d"
  by (simp_all add: timersAnyAuthenticatedPacketTraversal_def timersAnyAuthenticatedPacketReceived_def timersSessionDerived_def
      timersHandshakeComplete_def SetEndpointFromPacket_def add_rx_def timer_mod_def timer_del_def Let_def waiting_upd_peer)


lemma session_frame [simp]:
  "dev_state (DeleteKeypair k d) = dev_state d" "now (DeleteKeypair k d) = now d"
  "dev_state (upd_peer p f d) = dev_state d" "now (upd_peer p f d) = now d"
  by (auto simp: DeleteKeypair_def upd_peer_def split: option.splits)

lemma BeginSymmetricSession_frame:
  assumes "BeginSymmetricSession C p d = (err, d')"
  shows "q_staged (peers d' p) = q_staged (peers d p)" "q_outbound (peers d' p) = q_outbound (peers d p)"
    "isRunning (peers d' p) = isRunning (peers d p)" "dev_state d' = dev_state d" "now d' = now d"
  using assms by (auto simp: BeginSymmetricSession_def rotate_keypairs_def upd_hs_def case_prod_beta Let_def split: if_splits)

lemma waitingD:
  assumes "waiting p d' = waiting p d"
  shows "q_staged (peers d' p) = q_staged (peers d p)" "q_outbound (peers d' p) = q_outbound (peers d p)"
    "isRunning (peers d' p) = isRunning (peers d p)" "isUp d' = isUp d" "now d' = now d" "hs_of d' p = hs_of d p"
    "kp_current (peers d' p) = kp_current (peers d p)" "keypairs d' = keypairs d" "keypair_count d' = keypair_count d"
  using assms by (simp_all add: waiting_def Let_def isUp_def hs_of_def)

text \<open>With nonces enough, everything that is staged goes out.\<close>

lemma send_loop_all:
  assumes "unat n + length (concat q) < unat RejectAfterMessages" "send_loop k n q = (rest, out, n', ex)"
    "n \<le> RejectAfterMessages" "length q \<le> QueueStagedSize"
  shows "rest = [] \<and> \<not> ex \<and> map oe_packet (concat out) = map oe_packet (concat q) \<and>
    map (\<lambda>e. unat (oe_nonce e)) (concat out) = [unat n ..< unat n + length (concat q)] \<and> (\<forall>e \<in> set (concat out). oe_keypair e = Some k)"
proof -
  note S = send_loop_spec [OF assms(3,4,2)]
  have m: "map (\<lambda>e. unat (oe_nonce e)) (concat out) = [unat n ..< unat n']" using S by blast
  from arg_cong [OF this, of length] have len: "length (concat out) = unat n' - unat n" by simp
  obtain staged where st: "map oe_packet (concat out @ staged) = map oe_packet (concat q)" "mset (concat rest) = mset staged" using S by blast
  from arg_cong [OF st(1), of length] have "length (concat out) \<le> length (concat q)" by simp
  with len S assms(1) have "n' \<noteq> RejectAfterMessages" by auto
  with S have r: "rest = []" "\<not> ex" by blast+
  with st have "map oe_packet (concat out) = map oe_packet (concat q)" by simp
  moreover from arg_cong [OF this, of length] len S have "unat n' = unat n + length (concat q)" by (metis le_add_diff_inverse length_map)
  ultimately show ?thesis using r m S by simp
qed

definition released :: "pid \<Rightarrow> kpid \<Rightarrow> bytes list \<Rightarrow> Device \<Rightarrow> Device \<Rightarrow> bool" where
  "released p k packets d d' \<longleftrightarrow> q_staged (peers d' p) = [] \<and> kp_current (peers d' p) = Some k \<and>
    (\<exists>es. concat (q_outbound (peers d' p)) = concat (q_outbound (peers d p)) @ es \<and> map oe_packet es = packets \<and>
      map (\<lambda>e. unat (oe_nonce e)) es = [0 ..< length es] \<and> (\<forall>e \<in> set es. oe_keypair e = Some k))"

definition fresh_session :: "pid \<Rightarrow> kpid \<Rightarrow> Device \<Rightarrow> bool" where
  "fresh_session p k d \<longleftrightarrow> isUp d \<and> isRunning (peers d p) \<and> kp_current (peers d p) = Some k \<and>
    sendNonce (keypairs d k) = 0 \<and> created (keypairs d k) = now d"

lemma SendStagedPackets_releases:
  assumes f: "fresh_session p k d" and q: "q_staged (peers d p) \<noteq> []" "length (q_staged (peers d p)) \<le> QueueStagedSize"
    "length (concat (q_staged (peers d p))) < 2 ^ 63"
  shows "\<exists>d'. SendStagedPackets C N p d = Some d' \<and> released p k (map oe_packet (concat (q_staged (peers d p)))) d d'"
proof -
  let ?q = "q_staged (peers d p)"
  obtain rest out n' ex where l: "send_loop k 0 ?q = (rest, out, n', ex)" by (metis prod_cases4)
  have "unat (0 :: u64) + length (concat ?q) < unat RejectAfterMessages" using q(3) by (simp add: unat_Reject)
  from send_loop_all [OF this l _ q(2)]
  have L: "rest = []" "\<not> ex" "map oe_packet (concat out) = map oe_packet (concat ?q)"
    "map (\<lambda>e. unat (oe_nonce e)) (concat out) = [0 ..< length (concat ?q)]" "\<forall>e \<in> set (concat out). oe_keypair e = Some k"
    by simp_all
  have nr: "\<not> RejectAfterMessages \<le> 0" "\<not> RejectAfterTime \<le> time_sub (now d) (now d)"
    by (simp_all add: RejectAfterMessages_def time_consts time_sub_def)
  let ?d' = "upd_peer p (\<lambda>P. P\<lparr>q_staged := [], q_outbound := q_outbound P @ (if isRunning P then out else [])\<rparr>)
    (upd_keypair k (\<lambda>K. K\<lparr>sendNonce := n'\<rparr>) d)"
  have s: "SendStagedPackets C N p d = Some ?d'"
    using q(1) f l L(1,2) nr by (simp add: SendStagedPackets_def since_def fresh_session_def)
  have "length (concat out) = length (concat ?q)" using arg_cong [OF L(3), of length] by simp
  with s L(3-5) f show ?thesis
    by (intro exI [of _ ?d']) (auto simp: released_def fresh_session_def upd_keypair_def)
qed

lemma SendKeepalive_releases:
  assumes f: "fresh_session p k d" and q: "length (q_staged (peers d p)) \<le> QueueStagedSize"
    "length (concat (q_staged (peers d p))) < 2 ^ 63"
  shows "\<exists>d'. SendKeepalive C N p d = Some d' \<and>
    released p k (if q_staged (peers d p) = [] then [[]] else map oe_packet (concat (q_staged (peers d p)))) d d'"
proof (cases "q_staged (peers d p) = []")
  case False
  with SendStagedPackets_releases [OF f False q] show ?thesis by (simp add: SendKeepalive_def)
next
  case True
  let ?d = "upd_peer p (\<lambda>P. P\<lparr>q_staged := [[new_elem []]]\<rparr>) d"
  have "fresh_session p k ?d" using f by (simp add: fresh_session_def isUp_def upd_peer_def)
  from SendStagedPackets_releases [OF this, of C N] obtain d' where
    "SendStagedPackets C N p ?d = Some d'" "released p k [[]] ?d d'"
    by (auto simp: QueueStagedSize_def new_elem_def)
  with True f show ?thesis by (auto simp: SendKeepalive_def fresh_session_def released_def)
qed

text \<open>C12. A valid response is all that waiting packets need. When a response completes the handshake of a
  running peer, handling it returns, and every packet that was staged for the peer is in its outbound queue
  under the new key pair, in order and with nonces from 0; if none was, a keepalive is.\<close>

theorem response_releases_staged:
  assumes "MessageResponseSize \<le> length (he_packet elem)"
    and "ConsumeMessageResponse C ((unmarshal_response (he_packet elem))\<lparr>mr_Type := he_msgType elem\<rparr>) d = (Some p, d1)"
    and "hs_state (hs_of d1 p) = handshakeResponseConsumed" "isUp d" "isRunning (peers d p)"
    and "length (q_staged (peers d p)) \<le> QueueStagedSize" "length (concat (q_staged (peers d p))) < 2 ^ 63"
  shows "\<exists>d'. handle_response C N elem d = Some d' \<and> released p (keypair_count d)
    (if q_staged (peers d p) = [] then [[]] else map oe_packet (concat (q_staged (peers d p)))) d d'"
proof -
  have w1: "waiting p d1 = (q_staged (peers d p), q_outbound (peers d p), isRunning (peers d p), dev_state d, now d, hs_of d1 p,
      kp_current (peers d p), keypairs d, keypair_count d)"
    using assms(2) by (auto simp: ConsumeMessageResponse_def Let_def waiting_def hs_of_def upd_hs_def upd_peer_def split: if_splits option.splits)
  let ?d2 = "timersAnyAuthenticatedPacketReceived p (timersAnyAuthenticatedPacketTraversal p
    (add_rx p (length (he_packet elem)) (SetEndpointFromPacket p (he_endpoint elem) d1)))"
  have w2: "waiting p ?d2 = waiting p d1" by simp
  note W = waitingD [OF w2]
  obtain err d3 where b: "BeginSymmetricSession C p ?d2 = (err, d3)" by force
  have st: "hs_state (hs_of ?d2 p) = handshakeResponseConsumed" using W(6) assms(3) by simp
  note B = BeginSymmetricSession_new [OF disjI1 [OF st] b, unfolded st]
  note frame = BeginSymmetricSession_frame [OF b]
  let ?d4 = "timersHandshakeComplete p (timersSessionDerived p d3)"
  have w4: "waiting p ?d4 = waiting p d3" by simp
  note W4 = waitingD [OF w4]
  have f: "fresh_session p (keypair_count d) ?d4"
    unfolding fresh_session_def W4 using B frame w1 W assms(4,5) by (simp add: isUp_def waiting_def Let_def)
  have "q_staged (peers ?d4 p) = q_staged (peers d p)" "q_outbound (peers ?d4 p) = q_outbound (peers d p)"
    unfolding W4 using frame W w1 by (simp_all add: waiting_def Let_def)
  with SendKeepalive_releases [OF f] assms(6,7)
  obtain d' where "SendKeepalive C N p ?d4 = Some d'" "released p (keypair_count d)
    (if q_staged (peers d p) = [] then [[]] else map oe_packet (concat (q_staged (peers d p)))) d d'"
    unfolding released_def by metis
  moreover have "handle_response C N elem d = SendKeepalive C N p ?d4"
    using assms(1,2) b B by (simp add: handle_response_def)
  ultimately show ?thesis by auto
qed

text \<open>A device that waits for a response with two packets staged, and the response.\<close>

definition waiting_device :: Device where
  "waiting_device = (toy_device 1 2 0)
     \<lparr>dev_state := deviceStateUp, indexTable := [5 \<mapsto> \<lparr>ite_peer = Some 0, ite_handshake = Some 0, ite_keypair = None\<rparr>],
      peers := (\<lambda>_. new_Peer\<lparr>isRunning := True, q_staged := [[new_elem [1]], [new_elem [2]]],
        handshake := new_Handshake\<lparr>hs_state := handshakeInitiationCreated, localEphemeral := replicate 32 3\<rparr>\<rparr>)\<rparr>"

definition awaited :: MessageResponse where
  "awaited = \<lparr>mr_Type = MessageResponseType, mr_Sender = 9, mr_Receiver = 5, mr_Ephemeral = replicate 32 4,
     mr_Empty = replicate 16 5, mr_MAC1 = replicate 16 0, mr_MAC2 = replicate 16 0\<rparr>"

lemma awaited_consumed:
  "\<exists>d. ConsumeMessageResponse toy_crypto awaited waiting_device = (Some 0, d) \<and> hs_state (hs_of d 0) = handshakeResponseConsumed"
proof -
  have nz: "\<not> isZero (replicate 32 (b :: byte))" if "b \<noteq> 0" for b using that nonzero_nth [of 0 "replicate 32 b"] by simp
  have "\<exists>h ck. open_response toy_crypto awaited (hs_of waiting_device 0) waiting_device = Some (h, ck)"
    by (simp add: open_response_def waiting_device_def awaited_def hs_of_def sharedSecret_def toy_replicate nz toy_device_def
        zero_Device_def Let_def toy_crypto_def [THEN arg_cong, of open_box] split: prod.split)
  then show ?thesis
    by (auto simp: ConsumeMessageResponse_def IndexTable_Lookup_def Let_def awaited_def waiting_device_def)
qed

theorem response_releases_staged_witness:
  "\<exists>d'. handle_response toy_crypto some_net
     \<lparr>he_msgType = MessageResponseType, he_packet = marshal_response awaited,
       he_endpoint = \<lparr>ep_addr = [192, 0, 2, 9], ep_port = 51820, ep_src = []\<rparr>\<rparr> waiting_device = Some d' \<and>
     released 0 0 [[1], [2]] waiting_device d'"
proof -
  let ?e = "\<lparr>he_msgType = MessageResponseType, he_packet = marshal_response awaited,
       he_endpoint = \<lparr>ep_addr = [192, 0, 2, 9], ep_port = 51820, ep_src = []\<rparr>\<rparr>"
  have ok: "response_ok awaited" by (simp add: response_ok_def awaited_def)
  then have u: "(unmarshal_response (he_packet ?e))\<lparr>mr_Type := he_msgType ?e\<rparr> = awaited"
    by (simp add: codec) (simp add: awaited_def)
  obtain d1 where c: "ConsumeMessageResponse toy_crypto awaited waiting_device = (Some 0, d1)"
    "hs_state (hs_of d1 0) = handshakeResponseConsumed" using awaited_consumed by blast
  have len: "MessageResponseSize \<le> length (he_packet ?e)" using marshal_lengths ok by (simp add: MessageResponseSize_def)
  have w: "q_staged (peers waiting_device 0) = [[new_elem [1]], [new_elem [2]]]" "keypair_count waiting_device = 0"
    "isUp waiting_device" "isRunning (peers waiting_device 0)"
    by (simp_all add: waiting_device_def isUp_def toy_device_def zero_Device_def)
  show ?thesis
    using response_releases_staged [of ?e toy_crypto waiting_device 0 d1 some_net, unfolded u, OF len c w(3,4)] w(1,2)
    by (simp add: QueueStagedSize_def new_elem_def)
qed

section \<open>The name of a peer\<close>

lemma b64_table: "list_all (\<lambda>n. b64 (word_of_nat n) = b64_char n) [0 ..< 64]"
  by code_simp

lemma b64_eq: "unat x < 64 \<Longrightarrow> b64 x = b64_char (unat x)"
  using b64_table by (auto simp: list_all_iff dest!: bspec [of _ _ "unat x"])

lemma byte_6bits: "unat (x AND 63 :: byte) = unat x mod 64"
proof -
  have m: "(63 :: byte) = mask 6" by (simp add: mask_eq_exp_minus_1)
  show ?thesis unfolding m take_bit_eq_mask [symmetric] unsigned_take_bit_eq by (simp add: take_bit_eq_mod)
qed

lemma b64_and: "b64 (x AND 63) = b64_char (unat x mod 64)"
  by (simp add: b64_eq byte_6bits)

lemma shifted_mod:
  assumes "k * m = (64 :: nat)" "q < m"
  shows "(a * m mod 256 + q) mod 64 = a mod k * m + q"
proof -
  have "64 dvd (256 :: nat)" by (simp add: dvd_def)
  then have "a * m mod 256 mod 64 = a mod k * m" using assms(1) by (metis mod_mod_cancel mult_mod_left)
  moreover have "a mod k * m + q < k * m"
  proof -
    have "a mod k < k" using assms(1) by (cases k) auto
    then have "a mod k * m + m \<le> k * m" by (metis add_mult_distrib mult_1 mult_le_mono1 Suc_leI add.commute plus_1_eq_Suc)
    with assms(2) show ?thesis by linarith
  qed
  ultimately show ?thesis using assms by (metis mod_add_left_eq mod_less)
qed

lemma byte_joins:
  "unat (drop_bit 2 (a :: byte)) mod 64 = unat a div 4"
  "unat (push_bit 4 a OR drop_bit 4 b :: byte) mod 64 = unat a mod 4 * 16 + unat b div 16"
  "unat (push_bit 2 a OR drop_bit 6 b :: byte) mod 64 = unat a mod 16 * 4 + unat b div 64"
  "unat (push_bit 2 a) mod 64 = unat a mod 16 * 4"
proof -
  have lt: "unat a < 256" "unat b < 256" using unsigned_less [of a] unsigned_less [of b] by simp_all
  have p: "unat (push_bit n x) = unat x * 2 ^ n mod 256" for n and x :: byte
    unfolding unsigned_push_bit_eq by (simp add: take_bit_eq_mod push_bit_eq_mult)
  have d: "unat (drop_bit n x) = unat x div 2 ^ n" for n and x :: byte
    unfolding unsigned_drop_bit_eq using unsigned_less [of x] by (simp add: drop_bit_eq_div take_bit_eq_mod)
  show "unat (drop_bit 2 a) mod 64 = unat a div 4" unfolding d using lt by simp
  have or_plus: "unat (push_bit n x OR drop_bit m y) = unat (push_bit n x) + unat (drop_bit m y)" if "n + m = 8" for n m and x y :: byte
  proof -
    have "unat (push_bit n x) AND unat (drop_bit m y) = 0"
      unfolding unsigned_and_eq [symmetric] using that by (intro bit_eqI) (auto simp: bit_simps dest: bit_imp_le_length)
    then show ?thesis unfolding unsigned_or_eq by (rule disjunctive_add_eq_or [symmetric])
  qed
  show "unat (push_bit 4 a OR drop_bit 4 b) mod 64 = unat a mod 4 * 16 + unat b div 16"
    using shifted_mod [of 4 16 "unat b div 16" "unat a"] lt by (simp add: or_plus p d)
  show "unat (push_bit 2 a OR drop_bit 6 b) mod 64 = unat a mod 16 * 4 + unat b div 64"
    using shifted_mod [of 16 4 "unat b div 64" "unat a"] lt by (simp add: or_plus p d)
  show "unat (push_bit 2 a) mod 64 = unat a mod 16 * 4" using shifted_mod [of 16 4 0 "unat a"] by (simp add: p)
qed

lemma numeral_5_length: "length xs = 5 \<longleftrightarrow> (\<exists>u v w x y. xs = [u, v, w, x, y])"
  by (auto simp: eval_nat_numeral length_Suc_conv)

lemma b64_encode_drop: "3 * n \<le> length xs \<Longrightarrow> drop (4 * n) (b64_encode xs) = b64_encode (drop (3 * n) xs)"
proof (induction n arbitrary: xs)
  case (Suc n)
  then obtain a b c r where r: "xs = a # b # c # r" by (cases xs rule: b64_encode.cases) auto
  have d: "drop (k * Suc n) ys = drop (k * n) (drop k ys)" for k and ys :: bytes by (simp add: ac_simps)
  show ?case unfolding d using Suc r by simp
qed simp

text \<open>The branch-free arithmetic of \<open>String\<close> prints what its comment says: the standard base64 text of the
  peer's key, abbreviated to its first four characters and the last four before the padding.\<close>

theorem peer_String_abbreviates:
  assumes "length src = 32"
  shows "peer_String src = ascii ''peer('' @ take 4 (b64_encode src) @ [0xE2, 0x80, 0xA6] @ take 4 (drop 39 (b64_encode src)) @ ascii '')''"
proof -
  obtain a b c r where s: "src = a # b # c # r" using assms by (cases src rule: b64_encode.cases) auto
  obtain u v w x y where e: "drop 27 src = [u, v, w, x, y]"
  proof -
    have "length (drop 27 src) = 5" using assms by simp
    then show thesis using that unfolding numeral_5_length by blast
  qed
  have "src ! (27 + i) = drop 27 src ! i" for i using assms by simp
  from this [of 2] this [of 3] this [of 4] have n: "src ! 29 = w" "src ! 30 = x" "src ! 31 = y" by (simp_all add: e)
  have "drop 36 (b64_encode src) = b64_encode [u, v, w, x, y]" using b64_encode_drop [of 9 src] assms e by simp
  then have "drop 39 (b64_encode src) = drop 3 (b64_encode [u, v, w, x, y])" by (metis drop_drop numeral_plus_numeral add_num_simps(1-8))
  then show ?thesis
    unfolding peer_String_def b64_and byte_joins n by (simp add: s byte_joins)
qed


theorem peer_String_abbreviates_witness:
  "peer_String (replicate 32 255) = ascii ''peer(////'' @ [0xE2, 0x80, 0xA6] @ take 4 (drop 39 (b64_encode (replicate 32 255))) @ ascii '')''"
proof -
  have "take 4 (b64_encode (replicate 32 255)) = ascii ''////''" by code_simp
  then show ?thesis using peer_String_abbreviates [of "replicate 32 255"] by (simp add: ascii_def)
qed

end
