(* ===== verification/Checksum.thy ===== *)
theory Checksum
  imports Prelude
begin

text \<open>
  \<open>tun/checksum.go\<close>: the Internet checksum, computed over 64-bit words in the byte order of the machine
  with the carries added back in. The byte order is the parameter \<open>le\<close> (little-endian).
\<close>

section \<open>The code\<close>

definition native_nat :: "bool \<Rightarrow> bytes \<Rightarrow> nat" where
  "native_nat le bs = (if le then le_nat bs else be_nat bs)"

definition native_put :: "bool \<Rightarrow> u64 \<Rightarrow> bytes" where
  "native_put le w = (if le then put_u64_le w else put_u64_be w)"

text \<open>\<open>bits.Add64\<close>: the sum and the carry out.\<close>

definition Add64 :: "u64 \<Rightarrow> u64 \<Rightarrow> u64 \<Rightarrow> u64 \<times> u64" where
  "Add64 x y c = (x + y + c, if 2 ^ 64 \<le> unat x + unat y + unat c then 1 else 0)"

text \<open>The next \<open>n\<close> words of \<open>b\<close>, each with the carry of the one before; and a block of words, whose last
  carry is added back.\<close>

fun add_chain :: "bool \<Rightarrow> nat \<Rightarrow> bytes \<Rightarrow> u64 \<Rightarrow> u64 \<Rightarrow> u64 \<times> u64" where
  "add_chain le 0 b ac carry = (ac, carry)"
| "add_chain le (Suc n) b ac carry =
     (let (ac, carry) = Add64 ac (word_of_nat (native_nat le (take 8 b))) carry
      in add_chain le n (drop 8 b) ac carry)"

definition add_block :: "bool \<Rightarrow> nat \<Rightarrow> u64 \<times> bytes \<Rightarrow> u64 \<times> bytes" where
  "add_block le n = (\<lambda>(ac, b). let (ac, carry) = add_chain le n b ac 0 in (ac + carry, drop (8 * n) b))"

definition add_part :: "bool \<Rightarrow> nat \<Rightarrow> u64 \<times> bytes \<Rightarrow> u64 \<times> bytes" where
  "add_part le k = (\<lambda>(ac, b). let (ac, carry) = Add64 ac (word_of_nat (native_nat le (take k b))) 0 in (ac + carry, drop k b))"

function blocks128 :: "bool \<Rightarrow> u64 \<times> bytes \<Rightarrow> u64 \<times> bytes" where
  "blocks128 le s = (if 128 \<le> length (snd s) then blocks128 le (add_block le 16 s) else s)"
  by pat_completeness auto
termination by (relation "measure (\<lambda>(le, s). length (snd s))") (auto simp: add_block_def Let_def case_prod_beta)

declare blocks128.simps [simp del]

definition if_left :: "nat \<Rightarrow> (u64 \<times> bytes \<Rightarrow> u64 \<times> bytes) \<Rightarrow> u64 \<times> bytes \<Rightarrow> u64 \<times> bytes" where
  "if_left n f s = (if n \<le> length (snd s) then f s else s)"

definition checksumNoFold :: "bool \<Rightarrow> bytes \<Rightarrow> u64 \<Rightarrow> u64" where
  "checksumNoFold le b initial =
     (let s = blocks128 le (get_u64_be (native_put le initial), b);
          s = if_left 64 (add_block le 8) s;
          s = if_left 32 (add_block le 4) s;
          s = if_left 16 (add_block le 2) s;
          s = if_left 8 (add_block le 1) s;
          s = if_left 4 (add_part le 4) s;
          (ac, b) = if_left 2 (add_part le 2) s;
          ac = (if length b = 1 then
                  let (ac, carry) = Add64 ac (word_of_nat (native_nat le [b ! 0, 0])) 0 in ac + carry
                else ac)
      in get_u64_be (native_put le ac))"

definition fold16 :: "u64 \<Rightarrow> u64" where
  "fold16 ac = drop_bit 16 ac + (ac AND 0xffff)"

definition checksum :: "bool \<Rightarrow> bytes \<Rightarrow> u64 \<Rightarrow> u16" where
  "checksum le b initial = ucast (fold16 (fold16 (fold16 (fold16 (checksumNoFold le b initial)))))"

definition pseudoHeaderChecksumNoFold :: "bool \<Rightarrow> byte \<Rightarrow> bytes \<Rightarrow> bytes \<Rightarrow> u16 \<Rightarrow> u64" where
  "pseudoHeaderChecksumNoFold le protocol srcAddr dstAddr totalLen =
     (let sum = checksumNoFold le srcAddr 0;
          sum = checksumNoFold le dstAddr sum;
          sum = checksumNoFold le [0, protocol] sum
      in checksumNoFold le (put_u16_be totalLen) sum)"

section \<open>The reference\<close>

text \<open>RFC 1071: the sum of the 16-bit words in network order, an odd byte padded with zero, with end-around
  carries until 16 bits are left.\<close>

fun be_sum :: "bytes \<Rightarrow> nat" where
  "be_sum [] = 0"
| "be_sum [x] = 256 * unat x"
| "be_sum (x # y # b) = 256 * unat x + unat y + be_sum b"

function rfc1071 :: "nat \<Rightarrow> nat" where
  "rfc1071 s = (if s < 65536 then s else rfc1071 (s div 65536 + s mod 65536))"
  by pat_completeness auto
termination
proof (relation "measure id")
  fix s :: nat assume "\<not> s < 65536"
  with div_mult_mod_eq [of s 65536] have "s div 65536 + s mod 65536 < s" by (cases "s div 65536") auto
  then show "(s div 65536 + s mod 65536, s) \<in> measure id" by simp
qed simp

declare rfc1071.simps [simp del]

section \<open>Sums modulo 65535\<close>

text \<open>The words as the machine reads them.\<close>

fun native_sum :: "bool \<Rightarrow> bytes \<Rightarrow> nat" where
  "native_sum le [] = 0"
| "native_sum le [x] = native_nat le [x, 0]"
| "native_sum le (x # y # b) = native_nat le [x, y] + native_sum le b"

lemma native_nat_pair: "native_nat le [x, y] = (if le then unat x + 256 * unat y else 256 * unat x + unat y)"
  by (simp add: native_nat_def)

lemma native_sum_be: "native_sum False b = be_sum b"
  by (induction b rule: be_sum.induct) (simp_all add: native_nat_pair)

lemma native_sum_swap: "(256 * native_sum True b) mod 65535 = be_sum b mod 65535"
proof (induction b rule: be_sum.induct)
  case (3 x y b)
  let ?w = "256 * unat x + unat y"
  have "256 * native_sum True (x # y # b) = ?w + 256 * native_sum True b + 65535 * unat y" by (simp add: native_nat_pair)
  then have "(256 * native_sum True (x # y # b)) mod 65535 = (?w + 256 * native_sum True b) mod 65535" by (simp only: mod_mult_self2)
  also have "\<dots> = (?w + be_sum b mod 65535) mod 65535" by (metis 3 mod_add_right_eq)
  finally show ?case by (simp add: mod_add_right_eq)
qed (simp_all add: native_nat_pair)

lemma native_sum_append: "even (length xs) \<Longrightarrow> native_sum le (xs @ ys) = native_sum le xs + native_sum le ys"
  by (induction le xs rule: native_sum.induct) auto

lemma native_sum_zero: "native_sum le b = 0 \<longleftrightarrow> (\<forall>x \<in> set b. x = 0)"
  by (induction le b rule: native_sum.induct) (auto simp: native_nat_pair unat_eq_0)

lemma le_nat_zero: "le_nat b = 0 \<longleftrightarrow> (\<forall>x \<in> set b. x = 0)"
  by (induction b) (auto simp: unat_eq_0)

lemma native_nat_zero: "native_nat le b = 0 \<longleftrightarrow> (\<forall>x \<in> set b. x = 0)"
  by (simp add: native_nat_def be_nat_def le_nat_zero)

lemma le_nat_pairs: "even (length b) \<Longrightarrow> le_nat b mod 65535 = native_sum True b mod 65535"
proof (induction b rule: be_sum.induct)
  case (3 x y b)
  let ?w = "unat x + 256 * unat y"
  have "le_nat (x # y # b) = ?w + le_nat b + 65535 * le_nat b" by simp
  then have "le_nat (x # y # b) mod 65535 = (?w + le_nat b) mod 65535" by (simp only: mod_mult_self2)
  also have "\<dots> = (?w + le_nat b mod 65535) mod 65535" by (simp only: mod_add_right_eq)
  also have "le_nat b mod 65535 = native_sum True b mod 65535" using 3 by simp
  also have "(?w + native_sum True b mod 65535) mod 65535 = (?w + native_sum True b) mod 65535" by (simp only: mod_add_right_eq)
  finally show ?case by (simp add: native_nat_pair)
qed simp_all

lemma pow_mod: "\<exists>k. 65536 ^ m = 65535 * k + (1 :: nat)"
proof (induction m)
  case 0
  have "65536 ^ 0 = 65535 * 0 + (1 :: nat)" by simp
  then show ?case by blast
next
  case (Suc m)
  then obtain k where k: "65536 ^ m = 65535 * k + (1 :: nat)" by blast
  have "65536 ^ Suc m = 65536 * (65536 ^ m :: nat)" by (rule power_Suc)
  also have "\<dots> = 65535 * (65536 * k + 1) + 1" unfolding k by (simp add: add_mult_distrib2)
  finally show ?case by blast
qed

lemma pow_even: "even n \<Longrightarrow> \<exists>k. 256 ^ n = 65535 * k + (1 :: nat)"
proof -
  assume "even n"
  then obtain m where m: "n = 2 * m" by blast
  have "256 ^ n = (65536 ^ m :: nat)" unfolding m power_mult by simp
  then show ?thesis using pow_mod [of m] by metis
qed

lemma be_nat_pairs: "even (length b) \<Longrightarrow> be_nat b mod 65535 = native_sum False b mod 65535"
proof (induction b rule: be_sum.induct)
  case (3 x y b)
  obtain k where k: "256 ^ length b = 65535 * k + (1 :: nat)" using 3 pow_even [of "length b"] by auto
  let ?w = "256 * unat x + unat y"
  have "be_nat (x # y # b) = ?w + be_nat b + 65535 * (?w * k)" by (simp add: k algebra_simps)
  then have "be_nat (x # y # b) mod 65535 = (?w + be_nat b) mod 65535" by (simp only: mod_mult_self2)
  also have "\<dots> = (?w + be_nat b mod 65535) mod 65535" by (simp only: mod_add_right_eq)
  also have "be_nat b mod 65535 = native_sum False b mod 65535" using 3 by simp
  also have "(?w + native_sum False b mod 65535) mod 65535 = (?w + native_sum False b) mod 65535" by (simp only: mod_add_right_eq)
  finally show ?case by (simp add: native_nat_pair)
qed simp_all

lemma native_nat_pairs: "even (length b) \<Longrightarrow> native_nat le b mod 65535 = native_sum le b mod 65535"
  by (cases le) (simp_all add: native_nat_def le_nat_pairs be_nat_pairs)

text \<open>Two states of the computation that stand for the same sum: congruent, and zero together.\<close>

definition same_sum :: "nat \<Rightarrow> nat \<Rightarrow> bool" where
  "same_sum m n \<longleftrightarrow> m mod 65535 = n mod 65535 \<and> (m = 0 \<longleftrightarrow> n = 0)"

lemma same_sum_refl [simp]: "same_sum n n"
  by (simp add: same_sum_def)

lemma same_sum_trans [trans]: "same_sum a b \<Longrightarrow> same_sum b c \<Longrightarrow> same_sum a c"
  by (simp add: same_sum_def)

lemma same_sum_sym: "same_sum a b \<Longrightarrow> same_sum b a"
  by (simp add: same_sum_def)

lemma same_sum_add: "same_sum a b \<Longrightarrow> same_sum c d \<Longrightarrow> same_sum (a + c) (b + d)"
  unfolding same_sum_def by (metis add_is_0 mod_add_cong)

lemma same_sum_carry: "same_sum (a + 18446744073709551616 * c) (a + c)"
proof -
  have "a + 18446744073709551616 * c = a + c + 65535 * (281479271743489 * c)" by simp
  then show ?thesis unfolding same_sum_def by (simp only: mod_mult_self2) auto
qed

lemma same_sum_unique: "same_sum m n \<Longrightarrow> m < 65536 \<Longrightarrow> n < 65536 \<Longrightarrow> m = n"
proof -
  assume a: "same_sum m n" "m < 65536" "n < 65536"
  have "m = (if m = 0 then 0 else if m mod 65535 = 0 then 65535 else m mod 65535)" if "m < 65536" for m :: nat
    using that by (cases "m = 65535") (auto simp: mod_less)
  from this [OF a(2)] this [OF a(3)] a(1) show ?thesis unfolding same_sum_def by metis
qed

section \<open>The chain of additions\<close>

lemma native_nat_less: "native_nat le b < 256 ^ length b"
  using le_nat_less [of b] le_nat_less [of "rev b"] by (simp add: native_nat_def be_nat_def)

lemma same_sum_native: "even (length b) \<Longrightarrow> same_sum (native_nat le b) (native_sum le b)"
  by (simp add: same_sum_def native_nat_pairs native_nat_zero native_sum_zero)

text \<open>An addition keeps the sum; a carry out leaves room for one more.\<close>

lemma unat_max: "unat (- 1 :: u64) = 18446744073709551615"
  by (simp add: unsigned_minus_1_eq_mask mask_eq_exp_minus_1)

lemma Add64_spec:
  assumes "Add64 x y c = (s, c')" "c \<le> 1" "c = 1 \<Longrightarrow> x \<noteq> - 1"
  shows "unat s + 18446744073709551616 * unat c' = unat x + unat y + unat c" "c' \<le> 1" "c' = 1 \<Longrightarrow> s \<noteq> - 1"
proof -
  have "unat c \<le> 1" using assms(2) by (simp add: word_le_nat_alt)
  then have c: "c = 0 \<or> c = 1" by (auto simp: le_Suc_eq word_unat_eq_iff)
  have x: "unat x + unat c \<le> 18446744073709551615"
    using c assms(3) unat_u64_less [of x] by (auto simp: word_unat_eq_iff unat_max)
  have y: "unat y \<le> 18446744073709551615" using unat_u64_less [of y] by simp
  have s: "unat s = (unat x + unat y + unat c) mod 18446744073709551616"
    using assms(1) by (auto simp: Add64_def unat_word_ariths mod_add_left_eq)
  have c': "c' = (if 18446744073709551616 \<le> unat x + unat y + unat c then 1 else 0)"
    using assms(1) by (auto simp: Add64_def)
  show "c' \<le> 1" using c' by simp
  show eq: "unat s + 18446744073709551616 * unat c' = unat x + unat y + unat c"
    using x y s c' by (auto simp: mod_if)
  show "c' = 1 \<Longrightarrow> s \<noteq> - 1"
  proof
    assume "c' = 1" "s = - 1"
    then have "unat s = 18446744073709551615" "unat c' = 1" by (simp_all add: unat_max)
    with eq x y show False by simp
  qed
qed

lemma add_chain_spec:
  assumes "add_chain le n b ac carry = (ac', carry')" "carry \<le> 1" "carry = 1 \<Longrightarrow> ac \<noteq> - 1" "8 * n \<le> length b"
  shows "same_sum (unat ac' + unat carry' + native_sum le (drop (8 * n) b)) (unat ac + unat carry + native_sum le b)"
    "carry' \<le> 1" "carry' = 1 \<Longrightarrow> ac' \<noteq> - 1"
proof -
  have "same_sum (unat ac' + unat carry' + native_sum le (drop (8 * n) b)) (unat ac + unat carry + native_sum le b)
    \<and> carry' \<le> 1 \<and> (carry' = 1 \<longrightarrow> ac' \<noteq> - 1)"
    using assms
  proof (induction le n b ac carry rule: add_chain.induct)
    case (1 le b ac carry)
    then show ?case by simp
  next
    case (2 le n b ac carry)
    let ?v = "native_nat le (take 8 b)" and ?w = "word_of_nat (native_nat le (take 8 b)) :: u64"
    obtain s c where a: "Add64 ac ?w carry = (s, c)" by force
    note A = Add64_spec [OF a 2(3,4)]
    have l: "length (take 8 b) = 8" using 2(5) by simp
    have w: "unat ?w = ?v" using native_nat_less [of le "take 8 b"] l by (simp add: unat_of_nat)
    have r: "add_chain le n (drop 8 b) s c = (ac', carry')" using 2(2) a by simp
    have IH: "same_sum (unat ac' + unat carry' + native_sum le (drop (8 * n) (drop 8 b))) (unat s + unat c + native_sum le (drop 8 b))
        \<and> carry' \<le> 1 \<and> (carry' = 1 \<longrightarrow> ac' \<noteq> - 1)"
      using 2(1) [OF a [symmetric] refl r A(2)] A(3) 2(5) by simp
    have "native_sum le b = native_sum le (take 8 b) + native_sum le (drop 8 b)"
      using native_sum_append [of "take 8 b" le "drop 8 b"] l by simp
    moreover have "same_sum (unat s + unat c) (unat ac + unat carry + native_sum le (take 8 b))"
    proof -
      have "same_sum (unat s + unat c) (unat s + 18446744073709551616 * unat c)" by (rule same_sum_sym [OF same_sum_carry])
      also have "unat s + 18446744073709551616 * unat c = unat ac + unat carry + ?v" using A(1) w by simp
      also have "same_sum \<dots> (unat ac + unat carry + native_sum le (take 8 b))"
        by (rule same_sum_add [OF same_sum_refl same_sum_native]) (simp only: l, simp)
      finally show ?thesis .
    qed
    then have "same_sum (unat s + unat c + native_sum le (drop 8 b))
        (unat ac + unat carry + native_sum le (take 8 b) + native_sum le (drop 8 b))"
      by (rule same_sum_add [OF _ same_sum_refl])
    ultimately have "same_sum (unat s + unat c + native_sum le (drop 8 b)) (unat ac + unat carry + native_sum le b)"
      by (simp add: add.assoc)
    then show ?case using IH same_sum_trans by (auto simp: add.commute)
  qed
  then show "same_sum (unat ac' + unat carry' + native_sum le (drop (8 * n) b)) (unat ac + unat carry + native_sum le b)"
    "carry' \<le> 1" "carry' = 1 \<Longrightarrow> ac' \<noteq> - 1" by blast+
qed

text \<open>Adding the last carry does not overflow.\<close>

lemma add_carry: "c \<le> 1 \<Longrightarrow> (c = 1 \<Longrightarrow> s \<noteq> - 1) \<Longrightarrow> unat (s + c) = unat s + unat c" for s c :: u64
proof -
  assume a: "c \<le> 1" "c = 1 \<Longrightarrow> s \<noteq> - 1"
  have "unat c \<le> 1" using a(1) by (simp add: word_le_nat_alt)
  then have c: "c = 0 \<or> c = 1" by (auto simp: le_Suc_eq word_unat_eq_iff)
  then have "unat s + unat c < 18446744073709551616" using a(2) unat_u64_less [of s] by (auto simp: word_unat_eq_iff unat_max)
  then show ?thesis by (simp add: unat_word_ariths)
qed

definition keeps_sum :: "bool \<Rightarrow> u64 \<times> bytes \<Rightarrow> u64 \<times> bytes \<Rightarrow> bool" where
  "keeps_sum le s t \<longleftrightarrow> same_sum (unat (fst t) + native_sum le (snd t)) (unat (fst s) + native_sum le (snd s))"

lemma keeps_sum_trans [trans]: "keeps_sum le r s \<Longrightarrow> keeps_sum le s t \<Longrightarrow> keeps_sum le r t"
  unfolding keeps_sum_def by (rule same_sum_trans)

lemma add_block_keeps: "8 * n \<le> length (snd s) \<Longrightarrow> keeps_sum le s (add_block le n s)"
proof -
  assume l: "8 * n \<le> length (snd s)"
  obtain ac b where s: "s = (ac, b)" by (cases s)
  obtain ac' c where c: "add_chain le n b ac 0 = (ac', c)" by force
  note A = add_chain_spec [OF c _ _ l [unfolded s snd_conv]]
  from A add_carry [of c ac'] show ?thesis by (simp add: keeps_sum_def s add_block_def c)
qed

lemma add_part_keeps: "k \<le> length (snd s) \<Longrightarrow> even k \<Longrightarrow> k \<le> 8 \<Longrightarrow> keeps_sum le s (add_part le k s)"
proof -
  assume l: "k \<le> length (snd s)" "even k" "k \<le> 8"
  obtain ac b where s: "s = (ac, b)" by (cases s)
  let ?v = "native_nat le (take k b)"
  obtain ac' c where a: "Add64 ac (word_of_nat ?v) 0 = (ac', c)" by force
  note A = Add64_spec [OF a]
  have lk: "length (take k b) = k" using l s by simp
  have "?v < 256 ^ k" using native_nat_less [of le "take k b"] lk by simp
  also have "\<dots> \<le> (256 :: nat) ^ 8" using l(3) by (intro power_increasing) auto
  finally have w: "unat (word_of_nat ?v :: u64) = ?v" by (simp add: unat_of_nat)
  have "same_sum (unat ac' + unat c) (unat ac' + 18446744073709551616 * unat c)" by (rule same_sum_sym [OF same_sum_carry])
  also have "unat ac' + 18446744073709551616 * unat c = unat ac + ?v" using A(1) w by simp
  also have "same_sum \<dots> (unat ac + native_sum le (take k b))"
    by (rule same_sum_add [OF same_sum_refl same_sum_native]) (simp only: lk l(2))
  finally have "same_sum (unat ac' + unat c + native_sum le (drop k b)) (unat ac + native_sum le (take k b) + native_sum le (drop k b))"
    by (rule same_sum_add [OF _ same_sum_refl])
  moreover have "native_sum le b = native_sum le (take k b) + native_sum le (drop k b)"
    using native_sum_append [of "take k b" le "drop k b"] lk l(2) by simp
  ultimately show ?thesis using A add_carry [of c ac'] by (simp add: keeps_sum_def s add_part_def a add.assoc)
qed

lemma blocks128_keeps: "keeps_sum le s (blocks128 le s) \<and> length (snd (blocks128 le s)) < 128"
proof (induction le s rule: blocks128.induct)
  case (1 le s)
  show ?case
  proof (cases "128 \<le> length (snd s)")
    case True
    then show ?thesis using 1 [OF True] add_block_keeps [of 16 s le] by (auto simp: blocks128.simps [of le s] intro: keeps_sum_trans)
  next
    case False
    then show ?thesis by (simp add: blocks128.simps [of le s] keeps_sum_def)
  qed
qed

lemma if_left_keeps:
  assumes "\<And>s. n \<le> length (snd s) \<Longrightarrow> keeps_sum le s (f s)" "\<And>s. snd (f s) = drop n (snd s)" "length (snd s) < 2 * n"
  shows "keeps_sum le s (if_left n f s)" "length (snd (if_left n f s)) < n"
  using assms by (auto simp: if_left_def keeps_sum_def)

lemma snd_add: "snd (add_block le n s) = drop (8 * n) (snd s)" "snd (add_part le k s) = drop k (snd s)"
  by (simp_all add: add_block_def add_part_def case_prod_beta Let_def)

text \<open>Swapping the bytes of a word multiplies its sum by 256, and does so twice in the end.\<close>

lemma native_put_props: "length (native_put le w) = 8" "native_nat le (native_put le w) = unat w"
  using unat_u64_less [of w] by (simp_all add: native_put_def native_nat_def put_u64_le_def put_u64_be_def)

lemma swapped: "same_sum (unat (get_u64_be (native_put le w))) (be_sum (native_put le w))"
proof -
  have "be_nat (native_put le w) < 256 ^ 8" using native_nat_less [of False "native_put le w"] native_put_props(1) [of le w] by (simp add: native_nat_def)
  then have "unat (get_u64_be (native_put le w)) = native_nat False (native_put le w)"
    using native_put_props(1) [of le w] by (simp add: get_u64_be_def native_nat_def unat_of_nat)
  then show ?thesis using same_sum_native [of "native_put le w" False] native_put_props(1) [of le w] by (simp add: native_sum_be)
qed

definition weight :: "bool \<Rightarrow> nat" where "weight le = (if le then 256 else 1)"

lemma be_sum_weight: "same_sum (be_sum b) (weight le * native_sum le b)"
  using native_sum_swap [of b] native_sum_zero [of True b] native_sum_zero [of False b]
  by (auto simp: weight_def same_sum_def native_sum_be)

lemma same_sum_weight: "same_sum m n \<Longrightarrow> same_sum (weight le * m) (weight le * n)"
  unfolding same_sum_def by (auto simp: weight_def intro: mod_mult_cong)

lemma weight_twice: "same_sum (weight le * (weight le * n)) n"
proof (cases le)
  case True
  have "256 * (256 * n) = n + 65535 * n" by simp
  then show ?thesis using True unfolding same_sum_def weight_def by (simp only: if_True mod_mult_self2) auto
qed (simp add: weight_def)

lemma swapped_weight: "same_sum (unat (get_u64_be (native_put le w))) (weight le * unat w)"
proof -
  have "same_sum (unat (get_u64_be (native_put le w))) (be_sum (native_put le w))" by (rule swapped)
  also have "same_sum \<dots> (weight le * native_sum le (native_put le w))" by (rule be_sum_weight)
  also have "same_sum \<dots> (weight le * native_nat le (native_put le w))"
    by (rule same_sum_weight [OF same_sum_sym [OF same_sum_native]]) (simp add: native_put_props)
  finally show ?thesis by (simp add: native_put_props)
qed

lemma checksumNoFold_spec: "same_sum (unat (checksumNoFold le b initial)) (unat initial + be_sum b)"
proof -
  define s0 where "s0 = (get_u64_be (native_put le initial), b)"
  define s1 where "s1 = blocks128 le s0"
  define s2 where "s2 = if_left 64 (add_block le 8) s1"
  define s3 where "s3 = if_left 32 (add_block le 4) s2"
  define s4 where "s4 = if_left 16 (add_block le 2) s3"
  define s5 where "s5 = if_left 8 (add_block le 1) s4"
  define s6 where "s6 = if_left 4 (add_part le 4) s5"
  define s7 where "s7 = if_left 2 (add_part le 2) s6"
  have k1: "keeps_sum le s0 s1" "length (snd s1) < 2 * 64" using blocks128_keeps [of le s0] by (simp_all add: s1_def)
  have k2: "keeps_sum le s1 s2" "length (snd s2) < 64"
    unfolding s2_def by (rule if_left_keeps; use k1 add_block_keeps [of 8] in \<open>simp add: snd_add\<close>)+
  have k3: "keeps_sum le s2 s3" "length (snd s3) < 32"
    unfolding s3_def by (rule if_left_keeps; use k2 add_block_keeps [of 4] in \<open>simp add: snd_add\<close>)+
  have k4: "keeps_sum le s3 s4" "length (snd s4) < 16"
    unfolding s4_def by (rule if_left_keeps; use k3 add_block_keeps [of 2] in \<open>simp add: snd_add\<close>)+
  have k5: "keeps_sum le s4 s5" "length (snd s5) < 8"
    unfolding s5_def by (rule if_left_keeps; use k4 add_block_keeps [of 1] in \<open>simp add: snd_add\<close>)+
  have k6: "keeps_sum le s5 s6" "length (snd s6) < 4"
    unfolding s6_def by (rule if_left_keeps; use k5 add_part_keeps [of 4] in \<open>simp add: snd_add\<close>)+
  have k7: "keeps_sum le s6 s7" "length (snd s7) < 2"
    unfolding s7_def by (rule if_left_keeps; use k6 add_part_keeps [of 2] in \<open>simp add: snd_add\<close>)+
  obtain ac r where s7: "s7 = (ac, r)" by (cases s7)
  define t where "t = (if length r = 1 then add_part le 2 (ac, [r ! 0, 0]) else (ac, []))"
  have kt: "keeps_sum le s7 t"
  proof (cases "length r = 1")
    case True
    then obtain x where x: "r = [x]" by (metis One_nat_def length_0_conv length_Suc_conv)
    have "keeps_sum le (ac, [x, 0]) t" using add_part_keeps [of 2 "(ac, [x, 0])" le] by (simp add: t_def x)
    then show ?thesis by (simp add: keeps_sum_def s7 x)
  next
    case False
    with k7(2) s7 have "r = []" by (cases r) auto
    then show ?thesis by (simp add: t_def keeps_sum_def s7)
  qed
  have st: "snd t = []" by (simp add: t_def snd_add)
  have eq: "checksumNoFold le b initial = get_u64_be (native_put le (fst t))"
    unfolding checksumNoFold_def Let_def s0_def [symmetric] s1_def [symmetric] s2_def [symmetric] s3_def [symmetric]
      s4_def [symmetric] s5_def [symmetric] s6_def [symmetric] s7_def [symmetric] s7
    by (simp add: t_def add_part_def case_prod_beta Let_def)
  have "keeps_sum le s0 t" using k1(1) k2(1) k3(1) k4(1) k5(1) k6(1) k7(1) kt keeps_sum_trans by meson
  then have sum: "same_sum (unat (fst t)) (unat (get_u64_be (native_put le initial)) + native_sum le b)"
    by (simp add: keeps_sum_def st s0_def)
  have "same_sum (unat (checksumNoFold le b initial)) (weight le * unat (fst t))" unfolding eq by (rule swapped_weight)
  also have "same_sum \<dots> (weight le * (unat (get_u64_be (native_put le initial)) + native_sum le b))" by (rule same_sum_weight [OF sum])
  also have "\<dots> = weight le * unat (get_u64_be (native_put le initial)) + weight le * native_sum le b" by (simp add: distrib_left)
  also have "same_sum \<dots> (weight le * (weight le * unat initial) + be_sum b)"
    by (rule same_sum_add [OF same_sum_weight [OF swapped_weight] same_sum_sym [OF be_sum_weight]])
  also have "same_sum \<dots> (unat initial + be_sum b)" by (rule same_sum_add [OF weight_twice same_sum_refl])
  finally show ?thesis .
qed

section \<open>Folding\<close>

lemma fold_same: "same_sum (n div 65536 + n mod 65536) n"
proof -
  have n: "n = n div 65536 + n mod 65536 + 65535 * (n div 65536)" using div_mult_mod_eq [of n 65536] by simp
  have "n mod 65535 = (n div 65536 + n mod 65536) mod 65535" by (subst n) (simp only: mod_mult_self2)
  moreover have "n = 0 \<longleftrightarrow> n div 65536 + n mod 65536 = 0" using n by auto
  ultimately show ?thesis by (simp add: same_sum_def)
qed

lemma rfc1071_spec: "same_sum (rfc1071 s) s \<and> rfc1071 s < 65536"
proof (induction s rule: rfc1071.induct)
  case (1 s)
  then show ?case
    by (cases "s < 65536") (auto simp: rfc1071.simps [of s] intro: same_sum_trans [OF _ fold_same])
qed

lemma rfc1071_unique: "same_sum m n \<Longrightarrow> m < 65536 \<Longrightarrow> m = rfc1071 n"
  using rfc1071_spec [of n] same_sum_unique [of m "rfc1071 n"] same_sum_trans [of m n] same_sum_sym by blast

lemma unat_fold16: "unat (fold16 ac) = unat ac div 65536 + unat ac mod 65536"
proof -
  have a: "unat (drop_bit 16 ac) = unat ac div 65536" by (simp only: unat_drop_bit_eq) (simp add: drop_bit_eq_div)
  have b: "unat (ac AND 0xffff) = unat ac mod 65536"
  proof -
    have "ac AND 0xffff = take_bit 16 ac" by (simp add: take_bit_eq_mask mask_eq_exp_minus_1)
    then have "unat (ac AND 0xffff) = take_bit 16 (unat ac)" by (simp only: unsigned_take_bit_eq)
    then show ?thesis by (simp add: take_bit_eq_mod)
  qed
  have "unat ac div 65536 + unat ac mod 65536 < 18446744073709551616"
    using unat_u64_less [of ac] div_mult_mod_eq [of "unat ac" 65536] by linarith
  then show ?thesis by (simp add: fold16_def unat_word_ariths a b)
qed

text \<open>Four foldings of 64 bits always leave 16.\<close>

lemma four_folds:
  assumes "f = (\<lambda>n. n div 65536 + n mod 65536 :: nat)" "n < 18446744073709551616"
  shows "f (f (f (f n))) < 65536"
proof -
  have 1: "f n \<le> 281474976776190"
  proof -
    have "n div 65536 \<le> 281474976710655" "n mod 65536 \<le> 65535" using assms(2) by auto
    then show ?thesis unfolding assms(1) by simp
  qed
  have 2: "f m \<le> 4295032830" if "m \<le> 281474976776190" for m
  proof (cases "m div 65536 = 4294967296")
    case True
    with that have "m mod 65536 \<le> 65534" using div_mult_mod_eq [of m 65536] by simp
    with True show ?thesis unfolding assms(1) by simp
  next
    case False
    have "m div 65536 \<le> 4294967296" using that by (simp add: less_mult_imp_div_less div_le_mono [of m 281474976776190 65536, simplified])
    with False have "m div 65536 \<le> 4294967295" "m mod 65536 \<le> 65535" by auto
    then show ?thesis unfolding assms(1) by simp
  qed
  have 3: "f m \<le> 131070" if "m \<le> 4295032830" for m
  proof (cases "m div 65536 = 65536")
    case True
    with that have "m mod 65536 \<le> 65534" using div_mult_mod_eq [of m 65536] by simp
    with True show ?thesis unfolding assms(1) by simp
  next
    case False
    have "m div 65536 \<le> 65536" using div_le_mono [OF that, of 65536] by simp
    with False have "m div 65536 \<le> 65535" "m mod 65536 \<le> 65535" by auto
    then show ?thesis unfolding assms(1) by simp
  qed
  have 4: "f m < 65536" if "m \<le> 131070" for m
  proof (cases "m < 65536")
    case False
    with that have "m div 65536 = 1" "m mod 65536 = m - 65536" by (simp_all add: mod_if div_if)
    with that False show ?thesis unfolding assms(1) by simp
  qed (simp add: assms(1))
  show ?thesis by (rule 4 [OF 3 [OF 2 [OF 1]]])
qed

section \<open>Properties\<close>

lemma checksum_eq: "unat (checksum le b initial) = rfc1071 (unat initial + be_sum b)"
proof -
  define f where "f = (\<lambda>n. n div 65536 + n mod 65536 :: nat)"
  let ?c = "checksumNoFold le b initial"
  have u: "unat (fold16 ac) = f (unat ac)" for ac by (simp only: unat_fold16 f_def)
  have fs: "same_sum (f n) n" for n unfolding f_def by (rule fold_same)
  have l: "f (f (f (f (unat ?c)))) < 65536" by (rule four_folds [OF f_def]) (simp add: unat_u64_less)
  have "same_sum (f (f (f (f (unat ?c))))) (unat initial + be_sum b)"
    by (rule same_sum_trans [OF fs same_sum_trans [OF fs same_sum_trans [OF fs same_sum_trans [OF fs checksumNoFold_spec]]]])
  note r = rfc1071_unique [OF this l]
  have "unat (checksum le b initial) = take_bit 16 (f (f (f (f (unat ?c)))))"
    unfolding checksum_def by (simp add: unsigned_ucast_eq u)
  also have "\<dots> = f (f (f (f (unat ?c))))" using l by (simp add: take_bit_nat_eq_self)
  finally show ?thesis using r by simp
qed

text \<open>C38. The checksum over 64-bit words, in whatever byte order the machine has, is the Internet checksum of
  RFC 1071: no carry of the chains is lost, and four foldings are enough for every sum of 64 bits.\<close>

theorem checksum_is_rfc1071: "unat (checksum le b initial) = rfc1071 (unat initial + be_sum b)"
  by (rule checksum_eq)

definition pseudo_sum :: "byte \<Rightarrow> bytes \<Rightarrow> bytes \<Rightarrow> u16 \<Rightarrow> nat" where
  "pseudo_sum protocol src dst len = be_sum src + be_sum dst + unat protocol + unat len"

lemma be_sum_put: "be_sum (put_u16_be w) = unat w"
proof -
  obtain x y where p: "put_u16_be w = [x, y]"
    by (metis (no_types) One_nat_def Suc_1 length_0_conv length_Suc_conv length_put(3))
  have "be_nat (put_u16_be w) = unat w" using unat_u16_less [of w] by (simp add: put_u16_be_def)
  then show ?thesis by (simp add: p)
qed

lemma pseudoHeader_spec:
  "same_sum (unat (pseudoHeaderChecksumNoFold le protocol src dst len)) (pseudo_sum protocol src dst len)"
proof -
  define a where "a = checksumNoFold le src 0"
  define b where "b = checksumNoFold le dst a"
  define c where "c = checksumNoFold le [0, protocol] b"
  have 1: "same_sum (unat a) (be_sum src)" using checksumNoFold_spec [of le src 0] by (simp add: a_def)
  have 2: "same_sum (unat b) (be_sum src + be_sum dst)"
    unfolding b_def by (rule same_sum_trans [OF checksumNoFold_spec same_sum_add [OF 1 same_sum_refl]])
  have 3: "same_sum (unat c) (be_sum src + be_sum dst + unat protocol)"
    unfolding c_def by (rule same_sum_trans [OF checksumNoFold_spec]) (use same_sum_add [OF 2 same_sum_refl, of "unat protocol"] in simp)
  show ?thesis
    unfolding pseudoHeaderChecksumNoFold_def Let_def a_def [symmetric] b_def [symmetric] c_def [symmetric] pseudo_sum_def
    by (rule same_sum_trans [OF checksumNoFold_spec]) (use same_sum_add [OF 3 same_sum_refl, of "unat len"] in \<open>simp add: be_sum_put\<close>)
qed

lemma be_sum_append: "even (length xs) \<Longrightarrow> be_sum (xs @ ys) = be_sum xs + be_sum ys"
  using native_sum_append [of xs False ys] by (simp add: native_sum_be)

text \<open>A segment with its checksum field, at an even offset, set to the complement of the checksum that the
  segment has with zeros there.\<close>

lemma filled_checksum:
  assumes "even (length pre)" "c = NOT (checksum le (pre @ [0, 0] @ post) initial)"
  shows "checksum le (pre @ put_u16_be c @ post) initial = - 1"
proof -
  let ?s = "unat initial + be_sum (pre @ [0, 0] @ post)" and ?r = "rfc1071 (unat initial + be_sum (pre @ [0, 0] @ post))"
  have r: "same_sum ?r ?s" "?r < 65536" using rfc1071_spec by blast+
  have uc: "unat c = 65535 - ?r"
  proof -
    have "c = - 1 - checksum le (pre @ [0, 0] @ post) initial" unfolding assms(2) by (simp add: not_eq_complement)
    moreover have "unat (- 1 :: u16) = 65535" by (simp add: unsigned_minus_1_eq_mask mask_eq_exp_minus_1)
    moreover have "unat (- 1 - w) = unat (- 1 :: u16) - unat w" for w :: u16 by (rule unat_sub) simp
    ultimately show ?thesis by (simp only: checksum_eq)
  qed
  obtain x y where p: "put_u16_be c = [x, y]"
    by (metis (no_types) One_nat_def Suc_1 length_0_conv length_Suc_conv length_put(3))
  have "unat initial + be_sum (pre @ put_u16_be c @ post) = ?s + unat c"
    using assms(1) be_sum_put [of c] by (simp add: be_sum_append p)
  moreover have "rfc1071 (?s + unat c) = 65535"
  proof -
    have "same_sum (?r + (65535 - ?r)) (?s + unat c)" unfolding uc by (rule same_sum_add [OF r(1) same_sum_refl])
    moreover have "?r + (65535 - ?r) = 65535" using r(2) by simp
    ultimately show ?thesis using rfc1071_unique [of 65535] by simp
  qed
  ultimately have "unat (checksum le (pre @ put_u16_be c @ post) initial) = unat (- 1 :: u16)"
    by (simp add: checksum_eq add.assoc unsigned_minus_1_eq_mask mask_eq_exp_minus_1)
  then show ?thesis by (simp add: word_unat_eq_iff)
qed

end
