(* ===== verification/Gso.thy ===== *)
theory Gso
  imports Checksum
begin

text \<open>
  \<open>tun/offload_linux.go\<close> and \<open>handleVirtioRead\<close> of \<open>tun/tun_linux.go\<close>: what is read from the TUN device. The
  virtio header in front of a packet says whether it is a single packet whose checksum is left to the reader,
  or a large segment to be cut into packets. The parameter \<open>le\<close> is the byte order of the machine. \<open>None\<close> is a
  panic: an index behind a packet or a buffer. Buffers have the capacity of their length. \<open>gsoSplit\<close> is modelled for
  headers that do not end before they start, so that the 16-bit offsets of their fields do not wrap, as its
  caller checks.
\<close>

section \<open>The virtio header\<close>

record virtioNetHdr =
  vh_flags :: byte
  vh_gsoType :: byte
  vh_hdrLen :: u16
  vh_gsoSize :: u16
  vh_csumStart :: u16
  vh_csumOffset :: u16

definition virtioNetHdrLen :: nat where "virtioNetHdrLen = 10"

definition native_put16 :: "bool \<Rightarrow> u16 \<Rightarrow> bytes" where
  "native_put16 le w = (if le then nat_le 2 (unat w) else nat_be 2 (unat w))"

definition native_get16 :: "bool \<Rightarrow> bytes \<Rightarrow> u16" where
  "native_get16 le b = word_of_nat (native_nat le (take 2 b))"

text \<open>The memory of the structure, copied from and to a slice; a slice that is too short is an error.\<close>

definition decode :: "bool \<Rightarrow> bytes \<Rightarrow> virtioNetHdr option" where
  "decode le b =
     (if length b < virtioNetHdrLen then None
      else Some \<lparr>vh_flags = b ! 0, vh_gsoType = b ! 1, vh_hdrLen = native_get16 le (drop 2 b),
                 vh_gsoSize = native_get16 le (drop 4 b), vh_csumStart = native_get16 le (drop 6 b),
                 vh_csumOffset = native_get16 le (drop 8 b)\<rparr>)"

definition encode :: "bool \<Rightarrow> virtioNetHdr \<Rightarrow> bytes \<Rightarrow> bytes option" where
  "encode le v b =
     (if length b < virtioNetHdrLen then None
      else Some ([vh_flags v, vh_gsoType v] @ native_put16 le (vh_hdrLen v) @ native_put16 le (vh_gsoSize v)
        @ native_put16 le (vh_csumStart v) @ native_put16 le (vh_csumOffset v) @ drop virtioNetHdrLen b))"

text \<open>The constants of \<open>golang.org/x/sys/unix\<close> that the code uses, and its own.\<close>

definition VIRTIO_NET_HDR_F_NEEDS_CSUM :: byte where "VIRTIO_NET_HDR_F_NEEDS_CSUM = 1"
definition VIRTIO_NET_HDR_GSO_NONE :: byte where "VIRTIO_NET_HDR_GSO_NONE = 0"
definition VIRTIO_NET_HDR_GSO_TCPV4 :: byte where "VIRTIO_NET_HDR_GSO_TCPV4 = 1"
definition VIRTIO_NET_HDR_GSO_TCPV6 :: byte where "VIRTIO_NET_HDR_GSO_TCPV6 = 4"
definition VIRTIO_NET_HDR_GSO_UDP_L4 :: byte where "VIRTIO_NET_HDR_GSO_UDP_L4 = 5"
definition IPPROTO_TCP :: byte where "IPPROTO_TCP = 6"
definition IPPROTO_UDP :: byte where "IPPROTO_UDP = 17"

definition tcpFlagsOffset :: nat where "tcpFlagsOffset = 13"
definition tcpFlagFIN :: byte where "tcpFlagFIN = 1"
definition tcpFlagPSH :: byte where "tcpFlagPSH = 8"
definition tcpFlagACK :: byte where "tcpFlagACK = 16"
definition ipv4SrcAddrOffset :: nat where "ipv4SrcAddrOffset = 12"
definition ipv6SrcAddrOffset :: nat where "ipv6SrcAddrOffset = 8"
definition maxUint16 :: nat where "maxUint16 = 2 ^ 16 - 1"

lemmas gso_consts = VIRTIO_NET_HDR_F_NEEDS_CSUM_def VIRTIO_NET_HDR_GSO_NONE_def VIRTIO_NET_HDR_GSO_TCPV4_def
  VIRTIO_NET_HDR_GSO_TCPV6_def VIRTIO_NET_HDR_GSO_UDP_L4_def IPPROTO_TCP_def IPPROTO_UDP_def

section \<open>Writing into a buffer\<close>

text \<open>A slice that may be appended to: its bytes and its capacity.\<close>

record Buf =
  b_data :: bytes
  b_cap :: nat

text \<open>Bytes written at an offset (\<open>binary.BigEndian.PutUint16(b[k:], ..)\<close>), and \<open>copy(b[k:], src)\<close>, which stops at
  the end of the buffer.\<close>

definition put_at :: "nat \<Rightarrow> 'a list \<Rightarrow> 'a list \<Rightarrow> 'a list" where
  "put_at k bs b = take k b @ bs @ drop (k + length bs) b"

definition copy_at :: "nat \<Rightarrow> 'a list \<Rightarrow> 'a list \<Rightarrow> 'a list" where
  "copy_at k src b = take k b @ copy_into (drop k b) src"

definition src_addr :: "bool \<Rightarrow> bytes \<Rightarrow> bytes" where
  "src_addr isV6 pkt =
     (if isV6 then go_slice ipv6SrcAddrOffset (ipv6SrcAddrOffset + 16) pkt
      else go_slice ipv4SrcAddrOffset (ipv4SrcAddrOffset + 4) pkt)"

definition dst_addr :: "bool \<Rightarrow> bytes \<Rightarrow> bytes" where
  "dst_addr isV6 pkt =
     (if isV6 then go_slice (ipv6SrcAddrOffset + 16) (ipv6SrcAddrOffset + 32) pkt
      else go_slice (ipv4SrcAddrOffset + 4) (ipv4SrcAddrOffset + 8) pkt)"

text \<open>Whether the transport checksum of a packet is right.\<close>

definition checksumValid :: "bool \<Rightarrow> bytes \<Rightarrow> nat \<Rightarrow> byte \<Rightarrow> bool \<Rightarrow> bool" where
  "checksumValid le pkt iphLen proto isV6 =
     (let lenForPseudo = word_of_nat (length pkt - iphLen);
          cSum = pseudoHeaderChecksumNoFold le proto (src_addr isV6 pkt) (dst_addr isV6 pkt) lenForPseudo
      in NOT (checksum le (drop iphLen pkt) cSum) = 0)"

section \<open>Cutting a segment into packets\<close>

definition gso_protocol :: "virtioNetHdr \<Rightarrow> byte" where
  "gso_protocol hdr =
     (if vh_gsoType hdr = VIRTIO_NET_HDR_GSO_TCPV4 \<or> vh_gsoType hdr = VIRTIO_NET_HDR_GSO_TCPV6 then IPPROTO_TCP
      else IPPROTO_UDP)"

definition transportCsumAt :: "virtioNetHdr \<Rightarrow> nat" where
  "transportCsumAt hdr = unat (vh_csumStart hdr + vh_csumOffset hdr)"

text \<open>The input with its checksums cleared.\<close>

definition clear_checksums :: "virtioNetHdr \<Rightarrow> bool \<Rightarrow> bytes \<Rightarrow> bytes" where
  "clear_checksums hdr isV6 pkt =
     put_at (transportCsumAt hdr) [0, 0] (if isV6 then pkt else put_at 10 [0, 0] pkt)"

text \<open>The packet number \<open>i\<close>, with the payload from \<open>at\<close> to \<open>end\<close> of the input, written into \<open>out\<close>: the IP
  header, the transport header, the payload and the transport checksum.\<close>

definition write_ip_header :: "bool \<Rightarrow> bytes \<Rightarrow> nat \<Rightarrow> bool \<Rightarrow> nat \<Rightarrow> nat \<Rightarrow> bytes \<Rightarrow> bytes" where
  "write_ip_header le pkt iphLen isV6 i totalLen out =
     (let out = copy_at 0 (take iphLen pkt) out in
      if \<not> isV6 then
        let out = (if 0 < i then put_at 4 (put_u16_be (get_u16_be (drop 4 out) + word_of_nat i)) out else out);
            out = put_at 2 (put_u16_be (word_of_nat totalLen)) out
        in put_at 10 (put_u16_be (NOT (checksum le (take iphLen out) 0))) out
      else put_at 4 (put_u16_be (word_of_nat (totalLen - iphLen))) out)"

definition write_transport_header :: "bytes \<Rightarrow> virtioNetHdr \<Rightarrow> nat \<Rightarrow> nat \<Rightarrow> nat \<Rightarrow> bytes \<Rightarrow> bytes" where
  "write_transport_header pkt hdr i nextSegmentEnd segmentDataLen out =
     (let start = unat (vh_csumStart hdr); out = copy_at start (go_slice start (unat (vh_hdrLen hdr)) pkt) out in
      if gso_protocol hdr = IPPROTO_TCP then
        let tcpSeq = get_u32_be (drop (start + 4) pkt) + ucast (vh_gsoSize hdr * word_of_nat i);
            out = put_at (start + 4) (put_u32_be tcpSeq) out
        in if nextSegmentEnd \<noteq> length pkt then
             out[start + tcpFlagsOffset := out ! (start + tcpFlagsOffset) AND NOT (tcpFlagFIN OR tcpFlagPSH)]
           else out
      else put_at (start + 4) (put_u16_be (word_of_nat segmentDataLen + (vh_hdrLen hdr - vh_csumStart hdr))) out)"

definition write_segment ::
  "bool \<Rightarrow> bytes \<Rightarrow> virtioNetHdr \<Rightarrow> bool \<Rightarrow> nat \<Rightarrow> nat \<Rightarrow> nat \<Rightarrow> bytes \<Rightarrow> bytes" where
  "write_segment le pkt hdr isV6 i nextSegmentDataAt nextSegmentEnd out =
     (let segmentDataLen = nextSegmentEnd - nextSegmentDataAt;
          totalLen = unat (vh_hdrLen hdr) + segmentDataLen;
          out = write_ip_header le pkt (unat (vh_csumStart hdr)) isV6 i totalLen out;
          out = write_transport_header pkt hdr i nextSegmentEnd segmentDataLen out;
          out = copy_at (unat (vh_hdrLen hdr)) (go_slice nextSegmentDataAt nextSegmentEnd pkt) out;
          lenForPseudo = word_of_nat (unat (vh_hdrLen hdr - vh_csumStart hdr) + segmentDataLen);
          pseudo = pseudoHeaderChecksumNoFold le (gso_protocol hdr) (src_addr isV6 pkt) (dst_addr isV6 pkt) lenForPseudo
      in put_at (transportCsumAt hdr) (put_u16_be (NOT (checksum le (go_slice (unat (vh_csumStart hdr)) totalLen out) pseudo))) out)"

text \<open>What is written lies in the buffer, and the addresses in the input.\<close>

definition segment_fits :: "bytes \<Rightarrow> virtioNetHdr \<Rightarrow> bool \<Rightarrow> nat \<Rightarrow> bytes \<Rightarrow> bool" where
  "segment_fits pkt hdr isV6 totalLen out \<longleftrightarrow>
     (if isV6 then 40 else 20) \<le> length pkt \<and> (if isV6 then 6 else 12) \<le> length out \<and> totalLen \<le> length out \<and> transportCsumAt hdr + 2 \<le> length out"

datatype tun_error = ErrShortBuffer | Read_Overflow nat nat | Unsupported_GSO_Type byte
  | Version_GSO_Mismatch byte byte | Invalid_IP_Version byte | Packet_Too_Short | TCP_Header_Len_Invalid u16
  | Packet_Shorter_Than_Header nat u16 | Header_Shorter_Than_Csum_Start u16 u16 | Csum_Behind_Packet nat nat
  | ErrTooManySegments | Invalid_Offset

text \<open>The buffers after the loop, the sizes written, and the two results. The buffers are those that are left,
  from number \<open>i\<close> on.\<close>

fun gso_loop ::
  "bool \<Rightarrow> bytes \<Rightarrow> virtioNetHdr \<Rightarrow> bool \<Rightarrow> nat \<Rightarrow> nat \<Rightarrow> nat \<Rightarrow> bytes list
    \<Rightarrow> (bytes list \<times> nat list \<times> int \<times> tun_error option) option" where
  "gso_loop le pkt hdr isV6 outOffset i nextSegmentDataAt [] =
     Some (if nextSegmentDataAt < length pkt then ([], [], int i - 1, Some ErrTooManySegments) else ([], [], int i, None))"
| "gso_loop le pkt hdr isV6 outOffset i nextSegmentDataAt (b # bs) =
     (if nextSegmentDataAt < length pkt then
        let nextSegmentEnd = min (nextSegmentDataAt + unat (vh_gsoSize hdr)) (length pkt);
            totalLen = unat (vh_hdrLen hdr) + (nextSegmentEnd - nextSegmentDataAt)
        in if length b < outOffset \<or> \<not> segment_fits pkt hdr isV6 totalLen (drop outOffset b) then None
           else
             case gso_loop le pkt hdr isV6 outOffset (Suc i) (nextSegmentDataAt + unat (vh_gsoSize hdr)) bs of
               None \<Rightarrow> None
             | Some (bs, sizes, n, err) \<Rightarrow>
                 Some ((take outOffset b @ write_segment le pkt hdr isV6 i nextSegmentDataAt nextSegmentEnd (drop outOffset b)) # bs,
                       totalLen # sizes, n, err)
      else Some (b # bs, [], int i, None))"

definition gsoSplit ::
  "bool \<Rightarrow> bytes \<Rightarrow> virtioNetHdr \<Rightarrow> bytes list \<Rightarrow> nat list \<Rightarrow> nat \<Rightarrow> bool
    \<Rightarrow> (bytes list \<times> nat list \<times> int \<times> tun_error option) option" where
  "gsoSplit le pkt hdr outBuffs sizes outOffset isV6 =
     (if \<not> isV6 \<and> length pkt < 12 \<or> length pkt < transportCsumAt hdr + 2
       \<or> gso_protocol hdr = IPPROTO_TCP \<and> length pkt < unat (vh_csumStart hdr) + 8
       \<or> length sizes < length outBuffs then None
      else map_option (\<lambda>(bs, new, n, err). (bs, copy_into sizes new, n, err))
             (gso_loop le (clear_checksums hdr isV6 pkt) hdr isV6 outOffset 0 (unat (vh_hdrLen hdr)) outBuffs))"

text \<open>The checksum that a single packet leaves to its reader; the field holds the sum of the pseudo header.\<close>

definition gsoNoneChecksum :: "bool \<Rightarrow> bytes \<Rightarrow> u16 \<Rightarrow> u16 \<Rightarrow> bytes option" where
  "gsoNoneChecksum le pkt cSumStart cSumOffset =
     (let cSumAt = unat (cSumStart + cSumOffset) in
      if length pkt < cSumAt + 2 \<or> length pkt < unat cSumStart then None
      else
        let initial = get_u16_be (drop cSumAt pkt); pkt = put_at cSumAt [0, 0] pkt
        in Some (put_at cSumAt (put_u16_be (NOT (checksum le (drop (unat cSumStart) pkt) (ucast initial)))) pkt))"

section \<open>A read\<close>

text \<open>The header length of a segment, which is not taken from the kernel.\<close>

definition gso_header_length :: "bytes \<Rightarrow> virtioNetHdr \<Rightarrow> tun_error + u16" where
  "gso_header_length pkt hdr =
     (if vh_gsoType hdr = VIRTIO_NET_HDR_GSO_UDP_L4 then Inr (vh_csumStart hdr + 8)
      else if length pkt \<le> unat (vh_csumStart hdr + 12) then Inl Packet_Too_Short
      else
        let tcpHLen = ucast (drop_bit 4 (pkt ! unat (vh_csumStart hdr + 12)) * 4) :: u16
        in if tcpHLen < 20 \<or> 60 < tcpHLen then Inl (TCP_Header_Len_Invalid tcpHLen) else Inr (vh_csumStart hdr + tcpHLen))"

definition check_gso_type :: "byte \<Rightarrow> byte \<Rightarrow> tun_error option" where
  "check_gso_type ipVersion gsoType =
     (if ipVersion = 4 then
        if gsoType \<noteq> VIRTIO_NET_HDR_GSO_TCPV4 \<and> gsoType \<noteq> VIRTIO_NET_HDR_GSO_UDP_L4
        then Some (Version_GSO_Mismatch ipVersion gsoType) else None
      else if ipVersion = 6 then
        if gsoType \<noteq> VIRTIO_NET_HDR_GSO_TCPV6 \<and> gsoType \<noteq> VIRTIO_NET_HDR_GSO_UDP_L4
        then Some (Version_GSO_Mismatch ipVersion gsoType) else None
      else Some (Invalid_IP_Version ipVersion))"

definition read_single ::
  "bool \<Rightarrow> bytes \<Rightarrow> virtioNetHdr \<Rightarrow> bytes list \<Rightarrow> nat list \<Rightarrow> nat
    \<Rightarrow> (bytes list \<times> nat list \<times> int \<times> tun_error option) option" where
  "read_single le pkt hdr bufs sizes offset =
     (case (if vh_flags hdr AND VIRTIO_NET_HDR_F_NEEDS_CSUM \<noteq> 0
            then gsoNoneChecksum le pkt (vh_csumStart hdr) (vh_csumOffset hdr) else Some pkt) of
        None \<Rightarrow> None
      | Some pkt \<Rightarrow>
          (case bufs of
             [] \<Rightarrow> None
           | b # bs \<Rightarrow>
               if length b < offset then None
               else if length b - offset < length pkt then
                 Some (bufs, sizes, 0, Some (Read_Overflow (length pkt) (length b - offset)))
               else if sizes = [] then None
               else Some (copy_at offset pkt b # bs, sizes[0 := length pkt], 1, None)))"

definition handleVirtioRead ::
  "bool \<Rightarrow> bytes \<Rightarrow> bytes list \<Rightarrow> nat list \<Rightarrow> nat \<Rightarrow> (bytes list \<times> nat list \<times> int \<times> tun_error option) option" where
  "handleVirtioRead le input bufs sizes offset =
     (let fail = (\<lambda>e. Some (bufs, sizes, 0, Some e)) in
      case decode le input of
        None \<Rightarrow> fail ErrShortBuffer
      | Some hdr \<Rightarrow>
          let pkt = drop virtioNetHdrLen input in
          if vh_gsoType hdr = VIRTIO_NET_HDR_GSO_NONE then read_single le pkt hdr bufs sizes offset
          else if vh_gsoType hdr \<noteq> VIRTIO_NET_HDR_GSO_TCPV4 \<and> vh_gsoType hdr \<noteq> VIRTIO_NET_HDR_GSO_TCPV6
            \<and> vh_gsoType hdr \<noteq> VIRTIO_NET_HDR_GSO_UDP_L4 then fail (Unsupported_GSO_Type (vh_gsoType hdr))
          else if pkt = [] then None
          else
            let ipVersion = drop_bit 4 (pkt ! 0) in
            case check_gso_type ipVersion (vh_gsoType hdr) of
              Some e \<Rightarrow> fail e
            | None \<Rightarrow>
                (case gso_header_length pkt hdr of
                   Inl e \<Rightarrow> fail e
                 | Inr hdrLen \<Rightarrow>
                     let hdr = hdr\<lparr>vh_hdrLen := hdrLen\<rparr> in
                     if length pkt < unat hdrLen then fail (Packet_Shorter_Than_Header (length pkt) hdrLen)
                     else if hdrLen < vh_csumStart hdr then fail (Header_Shorter_Than_Csum_Start hdrLen (vh_csumStart hdr))
                     else if length pkt \<le> transportCsumAt hdr + 1 then
                       fail (Csum_Behind_Packet (transportCsumAt hdr + 1) (length pkt))
                     else gsoSplit le pkt hdr bufs sizes offset (ipVersion = 6)))"

end
