(* ===== verification/Gro.thy ===== *)
theory Gro
  imports Gso "HOL-Library.AList"
begin

text \<open>
  \<open>tun/offload_linux.go\<close>: what is written to the TUN device. A batch of packets is searched for neighbours in
  the same TCP or UDP flow, which are joined into one large packet with a virtio header that lets the kernel
  cut it again. A buffer is its bytes, of which the packet begins at the common offset, and its capacity; no
  two buffers share memory. The tables are association lists from flows to items; the pools their slices come
  from, which hold as many slices as a batch has packets, are not modelled. All indices lie within the packets,
  whose lengths are checked before. \<open>IdealBatchSize\<close> packets at most are in a batch, so the index of a buffer
  fits its 16 bits.
\<close>

section \<open>Flows and items\<close>

definition packet_at :: "Buf list \<Rightarrow> nat \<Rightarrow> nat \<Rightarrow> bytes" where
  "packet_at bufs offset i = drop offset (b_data (bufs ! i))"

definition udphLen :: nat where "udphLen = 8"

record flowKey =
  fk_srcAddr :: bytes
  fk_dstAddr :: bytes
  fk_srcPort :: u16
  fk_dstPort :: u16
  fk_isV6 :: bool

record tcpFlowKey = flowKey +
  fk_rxAck :: u32

type_synonym udpFlowKey = flowKey

text \<open>An address in an array of 16 bytes.\<close>

definition addr_array :: "bytes \<Rightarrow> bytes" where
  "addr_array a = copy_into (replicate 16 0) a"

definition newTCPFlowKey :: "bytes \<Rightarrow> nat \<Rightarrow> nat \<Rightarrow> nat \<Rightarrow> tcpFlowKey" where
  "newTCPFlowKey pkt srcAddrOffset dstAddrOffset tcphOffset =
     (let addrSize = dstAddrOffset - srcAddrOffset in
      \<lparr>fk_srcAddr = addr_array (go_slice srcAddrOffset dstAddrOffset pkt),
       fk_dstAddr = addr_array (go_slice dstAddrOffset (dstAddrOffset + addrSize) pkt),
       fk_srcPort = get_u16_be (drop tcphOffset pkt), fk_dstPort = get_u16_be (drop (tcphOffset + 2) pkt),
       fk_isV6 = (addrSize = 16), fk_rxAck = get_u32_be (drop (tcphOffset + 8) pkt)\<rparr>)"

definition newUDPFlowKey :: "bytes \<Rightarrow> nat \<Rightarrow> nat \<Rightarrow> nat \<Rightarrow> udpFlowKey" where
  "newUDPFlowKey pkt srcAddrOffset dstAddrOffset udphOffset =
     (let addrSize = dstAddrOffset - srcAddrOffset in
      \<lparr>fk_srcAddr = addr_array (go_slice srcAddrOffset dstAddrOffset pkt),
       fk_dstAddr = addr_array (go_slice dstAddrOffset (dstAddrOffset + addrSize) pkt),
       fk_srcPort = get_u16_be (drop udphOffset pkt), fk_dstPort = get_u16_be (drop (udphOffset + 2) pkt),
       fk_isV6 = (addrSize = 16)\<rparr>)"

record tcpGROItem =
  ti_key :: tcpFlowKey
  ti_sentSeq :: u32
  ti_bufsIndex :: nat
  ti_numMerged :: u16
  ti_gsoSize :: u16
  ti_iphLen :: byte
  ti_tcphLen :: byte
  ti_pshSet :: bool

record udpGROItem =
  ui_key :: udpFlowKey
  ui_bufsIndex :: nat
  ui_numMerged :: u16
  ui_gsoSize :: u16
  ui_iphLen :: byte
  ui_cSumKnownInvalid :: bool

type_synonym tcpGROTable = "(tcpFlowKey \<times> tcpGROItem list) list"
type_synonym udpGROTable = "(udpFlowKey \<times> udpGROItem list) list"

definition items_of :: "('k \<times> 'i list) list \<Rightarrow> 'k \<Rightarrow> 'i list" where
  "items_of t key = (case map_of t key of None \<Rightarrow> [] | Some items \<Rightarrow> items)"

definition tcp_insert :: "bytes \<Rightarrow> nat \<Rightarrow> nat \<Rightarrow> nat \<Rightarrow> nat \<Rightarrow> nat \<Rightarrow> tcpGROTable \<Rightarrow> tcpGROTable" where
  "tcp_insert pkt srcAddrOffset dstAddrOffset tcphOffset tcphLen bufsIndex t =
     (let key = newTCPFlowKey pkt srcAddrOffset dstAddrOffset tcphOffset;
          item = \<lparr>ti_key = key, ti_sentSeq = get_u32_be (drop (tcphOffset + 4) pkt), ti_bufsIndex = bufsIndex,
                  ti_numMerged = 0, ti_gsoSize = word_of_nat (length (drop (tcphOffset + tcphLen) pkt)),
                  ti_iphLen = word_of_nat tcphOffset, ti_tcphLen = word_of_nat tcphLen,
                  ti_pshSet = (pkt ! (tcphOffset + tcpFlagsOffset) AND tcpFlagPSH \<noteq> 0)\<rparr>
      in AList.update key (items_of t key @ [item]) t)"

definition udp_insert :: "bytes \<Rightarrow> nat \<Rightarrow> nat \<Rightarrow> nat \<Rightarrow> nat \<Rightarrow> bool \<Rightarrow> udpGROTable \<Rightarrow> udpGROTable" where
  "udp_insert pkt srcAddrOffset dstAddrOffset udphOffset bufsIndex cSumKnownInvalid t =
     (let key = newUDPFlowKey pkt srcAddrOffset dstAddrOffset udphOffset;
          item = \<lparr>ui_key = key, ui_bufsIndex = bufsIndex, ui_numMerged = 0,
                  ui_gsoSize = word_of_nat (length (drop (udphOffset + udphLen) pkt)),
                  ui_iphLen = word_of_nat udphOffset, ui_cSumKnownInvalid = cSumKnownInvalid\<rparr>
      in AList.update key (items_of t key @ [item]) t)"

definition tcp_updateAt :: "tcpGROItem \<Rightarrow> nat \<Rightarrow> tcpGROTable \<Rightarrow> tcpGROTable" where
  "tcp_updateAt item i t = AList.update (ti_key item) ((items_of t (ti_key item))[i := item]) t"

definition udp_updateAt :: "udpGROItem \<Rightarrow> nat \<Rightarrow> udpGROTable \<Rightarrow> udpGROTable" where
  "udp_updateAt item i t = AList.update (ui_key item) ((items_of t (ui_key item))[i := item]) t"

definition tcp_deleteAt :: "tcpFlowKey \<Rightarrow> nat \<Rightarrow> tcpGROTable \<Rightarrow> tcpGROTable" where
  "tcp_deleteAt key i t = AList.update key (take i (items_of t key) @ drop (Suc i) (items_of t key)) t"

section \<open>Whether two packets can be joined\<close>

datatype canCoalesce = coalescePrepend | coalesceUnavailable | coalesceAppend

definition ipHeadersCanCoalesce :: "bytes \<Rightarrow> bytes \<Rightarrow> bool" where
  "ipHeadersCanCoalesce pktA pktB =
     (if length pktA < 9 \<or> length pktB < 9 then False
      else if drop_bit 4 (pktA ! 0) = 6 then
        if pktA ! 0 \<noteq> pktB ! 0 \<or> drop_bit 4 (pktA ! 1) \<noteq> drop_bit 4 (pktB ! 1) then False
        else if pktA ! 7 \<noteq> pktB ! 7 then False
        else True
      else
        if pktA ! 1 \<noteq> pktB ! 1 then False
        else if drop_bit 5 (pktA ! 6) \<noteq> drop_bit 5 (pktB ! 6) then False
        else if pktA ! 8 \<noteq> pktB ! 8 then False
        else True)"

definition udpPacketsCanCoalesce :: "bytes \<Rightarrow> byte \<Rightarrow> u16 \<Rightarrow> udpGROItem \<Rightarrow> Buf list \<Rightarrow> nat \<Rightarrow> canCoalesce" where
  "udpPacketsCanCoalesce pkt iphLen gsoSize item bufs bufsOffset =
     (let pktTarget = packet_at bufs bufsOffset (ui_bufsIndex item) in
      if \<not> ipHeadersCanCoalesce pkt pktTarget then coalesceUnavailable
      else if length (drop (unat iphLen + udphLen) pktTarget) mod unat (ui_gsoSize item) \<noteq> 0 then coalesceUnavailable
      else if gsoSize > ui_gsoSize item then coalesceUnavailable
      else coalesceAppend)"

definition tcpPacketsCanCoalesce ::
  "bytes \<Rightarrow> byte \<Rightarrow> byte \<Rightarrow> u32 \<Rightarrow> bool \<Rightarrow> u16 \<Rightarrow> tcpGROItem \<Rightarrow> Buf list \<Rightarrow> nat \<Rightarrow> canCoalesce" where
  "tcpPacketsCanCoalesce pkt iphLen tcphLen seq pshSet gsoSize item bufs bufsOffset =
     (let pktTarget = packet_at bufs bufsOffset (ti_bufsIndex item) in
      if tcphLen \<noteq> ti_tcphLen item then coalesceUnavailable
      else if tcphLen > 20 \<and>
        go_slice (unat (iphLen + 20)) (unat (iphLen + tcphLen)) pkt
          \<noteq> go_slice (unat (ti_iphLen item + 20)) (unat (iphLen + tcphLen)) pktTarget then coalesceUnavailable
      else if \<not> ipHeadersCanCoalesce pkt pktTarget then coalesceUnavailable
      else
        let lhsLen = ti_gsoSize item + ti_numMerged item * ti_gsoSize item in
        if seq = ti_sentSeq item + ucast lhsLen then
          if ti_pshSet item then coalesceUnavailable
          else if length (drop (unat (iphLen + tcphLen)) pktTarget) mod unat (ti_gsoSize item) \<noteq> 0 then coalesceUnavailable
          else if gsoSize > ti_gsoSize item then coalesceUnavailable
          else coalesceAppend
        else if seq + ucast gsoSize = ti_sentSeq item then
          if pshSet then coalesceUnavailable
          else if gsoSize < ti_gsoSize item then coalesceUnavailable
          else if gsoSize > ti_gsoSize item \<and> ti_numMerged item > 0 then coalesceUnavailable
          else coalescePrepend
        else coalesceUnavailable)"

section \<open>Joining two packets\<close>

datatype coalesceResult = coalesceInsufficientCap | coalescePSHEnding | coalesceItemInvalidCSum
  | coalescePktInvalidCSum | coalesceSuccess

text \<open>\<open>cap(bufs[i][bufsOffset:]) - bufsOffset < coalescedLen\<close>.\<close>

definition cap_short :: "Buf list \<Rightarrow> nat \<Rightarrow> nat \<Rightarrow> nat \<Rightarrow> bool" where
  "cap_short bufs bufsOffset i coalescedLen \<longleftrightarrow> int (b_cap (bufs ! i)) - int bufsOffset - int bufsOffset < int coalescedLen"

definition append_data :: "nat \<Rightarrow> bytes \<Rightarrow> Buf list \<Rightarrow> Buf list" where
  "append_data i bs bufs = bufs[i := (bufs ! i)\<lparr>b_data := b_data (bufs ! i) @ bs\<rparr>]"

definition coalesceUDPPackets ::
  "bool \<Rightarrow> bytes \<Rightarrow> udpGROItem \<Rightarrow> Buf list \<Rightarrow> nat \<Rightarrow> bool \<Rightarrow> coalesceResult \<times> udpGROItem \<times> Buf list" where
  "coalesceUDPPackets le pkt item bufs bufsOffset isV6 =
     (let pktHead = packet_at bufs bufsOffset (ui_bufsIndex item);
          headersLen = unat (ui_iphLen item + 8);
          coalescedLen = length pktHead + length pkt - headersLen
      in if cap_short bufs bufsOffset (ui_bufsIndex item) coalescedLen then (coalesceInsufficientCap, item, bufs)
         else if ui_numMerged item = 0 \<and>
           (ui_cSumKnownInvalid item \<or> \<not> checksumValid le pktHead (unat (ui_iphLen item)) IPPROTO_UDP isV6) then
           (coalesceItemInvalidCSum, item, bufs)
         else if \<not> checksumValid le pkt (unat (ui_iphLen item)) IPPROTO_UDP isV6 then (coalescePktInvalidCSum, item, bufs)
         else (coalesceSuccess, item\<lparr>ui_numMerged := ui_numMerged item + 1\<rparr>,
               append_data (ui_bufsIndex item) (drop headersLen pkt) bufs))"

definition swap :: "nat \<Rightarrow> nat \<Rightarrow> 'a list \<Rightarrow> 'a list" where
  "swap i j xs = xs[i := xs ! j, j := xs ! i]"

definition merged :: "u16 \<Rightarrow> tcpGROItem \<Rightarrow> tcpGROItem" where
  "merged gsoSize item =
     (let item = (if gsoSize > ti_gsoSize item then item\<lparr>ti_gsoSize := gsoSize\<rparr> else item)
      in item\<lparr>ti_numMerged := ti_numMerged item + 1\<rparr>)"

text \<open>On a prepend the packet takes the item's place among the buffers.\<close>

definition coalesceTCPPackets ::
  "bool \<Rightarrow> canCoalesce \<Rightarrow> bytes \<Rightarrow> nat \<Rightarrow> u16 \<Rightarrow> u32 \<Rightarrow> bool \<Rightarrow> tcpGROItem \<Rightarrow> Buf list \<Rightarrow> nat \<Rightarrow> bool
    \<Rightarrow> coalesceResult \<times> tcpGROItem \<times> Buf list" where
  "coalesceTCPPackets le mode pkt pktBuffsIndex gsoSize seq pshSet item bufs bufsOffset isV6 =
     (let itemPkt = packet_at bufs bufsOffset (ti_bufsIndex item);
          headersLen = unat (ti_iphLen item + ti_tcphLen item);
          coalescedLen = length itemPkt + length pkt - headersLen;
          itemBad = (ti_numMerged item = 0 \<and> \<not> checksumValid le itemPkt (unat (ti_iphLen item)) IPPROTO_TCP isV6);
          pktBad = (\<not> checksumValid le pkt (unat (ti_iphLen item)) IPPROTO_TCP isV6)
      in if mode = coalescePrepend then
           if cap_short bufs bufsOffset pktBuffsIndex coalescedLen then (coalesceInsufficientCap, item, bufs)
           else if pshSet then (coalescePSHEnding, item, bufs)
           else if itemBad then (coalesceItemInvalidCSum, item, bufs)
           else if pktBad then (coalescePktInvalidCSum, item, bufs)
           else (coalesceSuccess, merged gsoSize (item\<lparr>ti_sentSeq := seq\<rparr>),
                 swap (ti_bufsIndex item) pktBuffsIndex (append_data pktBuffsIndex (drop headersLen itemPkt) bufs))
         else
           if cap_short bufs bufsOffset (ti_bufsIndex item) coalescedLen then (coalesceInsufficientCap, item, bufs)
           else if itemBad then (coalesceItemInvalidCSum, item, bufs)
           else if pktBad then (coalescePktInvalidCSum, item, bufs)
           else
             let flagsAt = bufsOffset + unat (ti_iphLen item) + tcpFlagsOffset;
                 setPSH = (\<lambda>b. b\<lparr>b_data := (b_data b)[flagsAt := b_data b ! flagsAt OR tcpFlagPSH]\<rparr>);
                 bufs = (if pshSet then bufs[ti_bufsIndex item := setPSH (bufs ! ti_bufsIndex item)] else bufs)
             in (coalesceSuccess, merged gsoSize (if pshSet then item\<lparr>ti_pshSet := True\<rparr> else item),
                 append_data (ti_bufsIndex item) (drop headersLen pkt) bufs))"

section \<open>One packet\<close>

datatype groResult = groResultNoop | groResultTableInsert | groResultCoalesced

text \<open>The length of the IP header of a packet whose lengths agree and that is not a fragment.\<close>

definition gro_ip_length :: "bytes \<Rightarrow> bool \<Rightarrow> nat option" where
  "gro_ip_length pkt isV6 =
     (let iphLen = (if isV6 then 40 else unat ((pkt ! 0 AND 0x0F) * 4)) in
      if length pkt > maxUint16 then None
      else if isV6 \<and> int (unat (get_u16_be (drop 4 pkt))) \<noteq> int (length pkt) - int iphLen then None
      else if \<not> isV6 \<and> unat (get_u16_be (drop 2 pkt)) \<noteq> length pkt then None
      else if length pkt < iphLen then None
      else Some iphLen)"

definition fragmented :: "bytes \<Rightarrow> bool" where
  "fragmented pkt \<longleftrightarrow> pkt ! 6 AND 0x20 \<noteq> 0 \<or> push_bit 3 (pkt ! 6) \<noteq> 0 \<or> pkt ! 7 \<noteq> 0"

definition addr_offsets :: "bool \<Rightarrow> nat \<times> nat" where
  "addr_offsets isV6 =
     (if isV6 then (ipv6SrcAddrOffset, ipv6SrcAddrOffset + 16) else (ipv4SrcAddrOffset, ipv4SrcAddrOffset + 4))"

text \<open>The items of the flow, from number \<open>n - 1\<close> down to 0: \<open>Inl\<close> when the search returns. An item that is
  deleted lies behind those that are still to be tried.\<close>

fun try_items ::
  "bool \<Rightarrow> bytes \<Rightarrow> nat \<Rightarrow> byte \<Rightarrow> byte \<Rightarrow> u32 \<Rightarrow> bool \<Rightarrow> u16 \<Rightarrow> nat \<Rightarrow> bool \<Rightarrow> tcpGROItem list \<Rightarrow> nat
    \<Rightarrow> Buf list \<Rightarrow> tcpGROTable \<Rightarrow> (groResult \<times> Buf list \<times> tcpGROTable) + tcpGROTable" where
  "try_items le pkt pktI iphLen tcphLen seq pshSet gsoSize offset isV6 items 0 bufs table = Inr table"
| "try_items le pkt pktI iphLen tcphLen seq pshSet gsoSize offset isV6 items (Suc i) bufs table =
     (let item = items ! i;
          can = tcpPacketsCanCoalesce pkt iphLen tcphLen seq pshSet gsoSize item bufs offset;
          again = try_items le pkt pktI iphLen tcphLen seq pshSet gsoSize offset isV6 items i bufs
      in if can = coalesceUnavailable then again table
         else
           let (result, item', bufs') = coalesceTCPPackets le can pkt pktI gsoSize seq pshSet item bufs offset isV6 in
           case result of
             coalesceSuccess \<Rightarrow> Inl (groResultCoalesced, bufs', tcp_updateAt item' i table)
           | coalesceItemInvalidCSum \<Rightarrow> again (tcp_deleteAt (ti_key item') i table)
           | coalescePktInvalidCSum \<Rightarrow> Inl (groResultNoop, bufs', table)
           | coalesceInsufficientCap \<Rightarrow> again table
           | coalescePSHEnding \<Rightarrow> again table)"

text \<open>What a TCP packet must be to be considered: its header lengths, and whether PSH is set.\<close>

definition tcp_candidate :: "bytes \<Rightarrow> bool \<Rightarrow> (nat \<times> nat \<times> bool) option" where
  "tcp_candidate pkt isV6 =
     (case gro_ip_length pkt isV6 of
        None \<Rightarrow> None
      | Some iphLen \<Rightarrow>
          let tcphLen = unat (drop_bit 4 (pkt ! (iphLen + 12)) * 4); tcpFlags = pkt ! (iphLen + tcpFlagsOffset) in
          if tcphLen < 20 \<or> 60 < tcphLen then None
          else if length pkt < iphLen + tcphLen then None
          else if \<not> isV6 \<and> fragmented pkt then None
          else if tcpFlags \<noteq> tcpFlagACK \<and> tcpFlags \<noteq> tcpFlagACK OR tcpFlagPSH then None
          else if (word_of_nat (length pkt - tcphLen - iphLen) :: u16) < 1 then None
          else Some (iphLen, tcphLen, tcpFlags \<noteq> tcpFlagACK))"

definition tcpGRO ::
  "bool \<Rightarrow> Buf list \<Rightarrow> nat \<Rightarrow> nat \<Rightarrow> tcpGROTable \<Rightarrow> bool \<Rightarrow> groResult \<times> Buf list \<times> tcpGROTable" where
  "tcpGRO le bufs offset pktI table isV6 =
     (let pkt = packet_at bufs offset pktI in
      case tcp_candidate pkt isV6 of
        None \<Rightarrow> (groResultNoop, bufs, table)
      | Some (iphLen, tcphLen, pshSet) \<Rightarrow>
          let gsoSize = word_of_nat (length pkt - tcphLen - iphLen);
              seq = get_u32_be (drop (iphLen + 4) pkt);
              (srcAt, dstAt) = addr_offsets isV6;
              insert = tcp_insert pkt srcAt dstAt iphLen tcphLen pktI
          in case map_of table (newTCPFlowKey pkt srcAt dstAt iphLen) of
               None \<Rightarrow> (groResultTableInsert, bufs, insert table)
             | Some items \<Rightarrow>
                 (case try_items le pkt pktI (word_of_nat iphLen) (word_of_nat tcphLen) seq pshSet gsoSize offset isV6
                         items (length items) bufs table of
                    Inl r \<Rightarrow> r
                  | Inr table \<Rightarrow> (groResultTableInsert, bufs, insert table)))"

definition udpGRO ::
  "bool \<Rightarrow> Buf list \<Rightarrow> nat \<Rightarrow> nat \<Rightarrow> udpGROTable \<Rightarrow> bool \<Rightarrow> groResult \<times> Buf list \<times> udpGROTable" where
  "udpGRO le bufs offset pktI table isV6 =
     (let pkt = packet_at bufs offset pktI; skip = (groResultNoop, bufs, table) in
      case gro_ip_length pkt isV6 of
        None \<Rightarrow> skip
      | Some iphLen \<Rightarrow>
          if length pkt < iphLen + udphLen then skip
          else if \<not> isV6 \<and> fragmented pkt then skip
          else
            let gsoSize = word_of_nat (length pkt - udphLen - iphLen) :: u16 in
            if gsoSize < 1 then skip
            else
              let (srcAt, dstAt) = addr_offsets isV6; insert = udp_insert pkt srcAt dstAt iphLen pktI in
              case map_of table (newUDPFlowKey pkt srcAt dstAt iphLen) of
                None \<Rightarrow> (groResultTableInsert, bufs, insert False table)
              | Some items \<Rightarrow>
                  let item = items ! (length items - 1) in
                  if udpPacketsCanCoalesce pkt (word_of_nat iphLen) gsoSize item bufs offset = coalesceAppend then
                    let (result, item, bufs) = coalesceUDPPackets le pkt item bufs offset isV6 in
                    if result = coalesceSuccess then (groResultCoalesced, bufs, udp_updateAt item (length items - 1) table)
                    else (groResultTableInsert, bufs, insert (result = coalescePktInvalidCSum) table)
                  else (groResultTableInsert, bufs, insert False table))"

section \<open>Accounting\<close>

text \<open>The lengths and checksums of an IP header, and the virtio header in front of the packet.\<close>

definition set_lengths :: "bool \<Rightarrow> bool \<Rightarrow> byte \<Rightarrow> bytes \<Rightarrow> bytes" where
  "set_lengths le isV6 iphLen pkt =
     (if isV6 then put_at 4 (put_u16_be (word_of_nat (length pkt) - ucast iphLen)) pkt
      else
        let pkt = put_at 10 [0, 0] pkt; pkt = put_at 2 (put_u16_be (word_of_nat (length pkt))) pkt
        in put_at 10 (put_u16_be (NOT (checksum le (take (unat iphLen) pkt) 0))) pkt)"

definition set_pseudo :: "bool \<Rightarrow> bool \<Rightarrow> byte \<Rightarrow> byte \<Rightarrow> u16 \<Rightarrow> bytes \<Rightarrow> bytes" where
  "set_pseudo le isV6 proto iphLen csumOffset pkt =
     (let psum = pseudoHeaderChecksumNoFold le proto (src_addr isV6 pkt) (dst_addr isV6 pkt) (word_of_nat (length pkt - unat iphLen))
      in put_at (unat (ucast iphLen + csumOffset)) (put_u16_be (checksum le [] psum)) pkt)"

text \<open>A buffer with a new packet, behind the virtio header; an error if that does not fit.\<close>

definition put_header :: "bool \<Rightarrow> nat \<Rightarrow> virtioNetHdr \<Rightarrow> bytes \<Rightarrow> Buf \<Rightarrow> Buf option" where
  "put_header le offset hdr pkt b =
     (case encode le hdr (drop (offset - virtioNetHdrLen) (take offset (b_data b)) @ pkt) of
        None \<Rightarrow> None
      | Some bs \<Rightarrow> Some (b\<lparr>b_data := take (offset - virtioNetHdrLen) (b_data b) @ bs\<rparr>))"

definition virtio_none :: virtioNetHdr where
  "virtio_none = \<lparr>vh_flags = 0, vh_gsoType = VIRTIO_NET_HDR_GSO_NONE, vh_hdrLen = 0, vh_gsoSize = 0, vh_csumStart = 0, vh_csumOffset = 0\<rparr>"

definition tcp_account :: "bool \<Rightarrow> nat \<Rightarrow> tcpGROItem \<Rightarrow> Buf \<Rightarrow> Buf option" where
  "tcp_account le offset item b =
     (let pkt = drop offset (b_data b); isV6 = fk_isV6 (ti_key item) in
      if ti_numMerged item > 0 then
        let hdr = \<lparr>vh_flags = VIRTIO_NET_HDR_F_NEEDS_CSUM,
                   vh_gsoType = (if isV6 then VIRTIO_NET_HDR_GSO_TCPV6 else VIRTIO_NET_HDR_GSO_TCPV4),
                   vh_hdrLen = ucast (ti_iphLen item + ti_tcphLen item), vh_gsoSize = ti_gsoSize item,
                   vh_csumStart = ucast (ti_iphLen item), vh_csumOffset = 16\<rparr>;
            pkt = set_lengths le isV6 (ti_iphLen item) pkt
        in put_header le offset hdr (set_pseudo le isV6 IPPROTO_TCP (ti_iphLen item) 16 pkt) b
      else put_header le offset virtio_none pkt b)"

definition udp_account :: "bool \<Rightarrow> nat \<Rightarrow> udpGROItem \<Rightarrow> Buf \<Rightarrow> Buf option" where
  "udp_account le offset item b =
     (let pkt = drop offset (b_data b); isV6 = fk_isV6 (ui_key item) in
      if ui_numMerged item > 0 then
        let hdr = \<lparr>vh_flags = VIRTIO_NET_HDR_F_NEEDS_CSUM, vh_gsoType = VIRTIO_NET_HDR_GSO_UDP_L4,
                   vh_hdrLen = ucast (ui_iphLen item + 8), vh_gsoSize = ui_gsoSize item,
                   vh_csumStart = ucast (ui_iphLen item), vh_csumOffset = 6\<rparr>;
            pkt = set_lengths le isV6 (ui_iphLen item) pkt;
            pkt = put_at (unat (ui_iphLen item + 4)) (put_u16_be (word_of_nat (length (drop (unat (ui_iphLen item)) pkt)))) pkt
        in put_header le offset hdr (set_pseudo le isV6 IPPROTO_UDP (ui_iphLen item) 6 pkt) b
      else put_header le offset virtio_none pkt b)"

text \<open>The items of all flows, in whatever order the map is walked through; each has a buffer of its own. An
  error ends the walk, and is reported.\<close>

fun account :: "('i \<Rightarrow> nat) \<Rightarrow> ('i \<Rightarrow> Buf \<Rightarrow> Buf option) \<Rightarrow> 'i list \<Rightarrow> Buf list \<Rightarrow> bool \<times> Buf list" where
  "account index f [] bufs = (True, bufs)"
| "account index f (item # items) bufs =
     (case f item (bufs ! index item) of None \<Rightarrow> (False, bufs) | Some b \<Rightarrow> account index f items (bufs[index item := b]))"

definition applyTCPCoalesceAccounting :: "bool \<Rightarrow> Buf list \<Rightarrow> nat \<Rightarrow> tcpGROTable \<Rightarrow> bool \<times> Buf list" where
  "applyTCPCoalesceAccounting le bufs offset table = account ti_bufsIndex (tcp_account le offset) (concat (map snd table)) bufs"

definition applyUDPCoalesceAccounting :: "bool \<Rightarrow> Buf list \<Rightarrow> nat \<Rightarrow> udpGROTable \<Rightarrow> bool \<times> Buf list" where
  "applyUDPCoalesceAccounting le bufs offset table = account ui_bufsIndex (udp_account le offset) (concat (map snd table)) bufs"

section \<open>A batch\<close>

datatype groCandidateType = notGROCandidate | tcp4GROCandidate | tcp6GROCandidate | udp4GROCandidate | udp6GROCandidate

definition packetIsGROCandidate :: "bytes \<Rightarrow> bool \<Rightarrow> groCandidateType" where
  "packetIsGROCandidate b canUDPGRO =
     (if length b < 28 then notGROCandidate
      else if drop_bit 4 (b ! 0) = 4 then
        if b ! 0 AND 0x0F \<noteq> 5 then notGROCandidate
        else if b ! 9 = IPPROTO_TCP \<and> 40 \<le> length b then tcp4GROCandidate
        else if b ! 9 = IPPROTO_UDP \<and> canUDPGRO then udp4GROCandidate
        else notGROCandidate
      else if drop_bit 4 (b ! 0) = 6 then
        if b ! 6 = IPPROTO_TCP \<and> 60 \<le> length b then tcp6GROCandidate
        else if b ! 6 = IPPROTO_UDP \<and> 48 \<le> length b \<and> canUDPGRO then udp6GROCandidate
        else notGROCandidate
      else notGROCandidate)"

text \<open>What the loop changes.\<close>

record gro_state =
  gs_bufs :: "Buf list"
  gs_tcp :: tcpGROTable
  gs_udp :: udpGROTable
  gs_toWrite :: "nat list"

definition gro_packet :: "bool \<Rightarrow> nat \<Rightarrow> bool \<Rightarrow> nat \<Rightarrow> gro_state \<Rightarrow> groResult \<times> gro_state" where
  "gro_packet le offset canUDPGRO i s =
     (let tcp = (\<lambda>isV6. let (result, bufs, t) = tcpGRO le (gs_bufs s) offset i (gs_tcp s) isV6
                        in (result, s\<lparr>gs_bufs := bufs, gs_tcp := t\<rparr>));
          udp = (\<lambda>isV6. let (result, bufs, t) = udpGRO le (gs_bufs s) offset i (gs_udp s) isV6
                        in (result, s\<lparr>gs_bufs := bufs, gs_udp := t\<rparr>))
      in case packetIsGROCandidate (packet_at (gs_bufs s) offset i) canUDPGRO of
           tcp4GROCandidate \<Rightarrow> tcp False
         | tcp6GROCandidate \<Rightarrow> tcp True
         | udp4GROCandidate \<Rightarrow> udp False
         | udp6GROCandidate \<Rightarrow> udp True
         | notGROCandidate \<Rightarrow> (groResultNoop, s))"

definition gro_step :: "bool \<Rightarrow> nat \<Rightarrow> bool \<Rightarrow> nat \<Rightarrow> gro_state \<Rightarrow> tun_error + gro_state" where
  "gro_step le offset canUDPGRO i s =
     (if offset < virtioNetHdrLen \<or> int (length (b_data (gs_bufs s ! i))) - 1 < int offset then Inl Invalid_Offset
      else
        let (result, s) = gro_packet le offset canUDPGRO i s in
        case result of
          groResultNoop \<Rightarrow>
            (case put_header le offset virtio_none (packet_at (gs_bufs s) offset i) (gs_bufs s ! i) of
               None \<Rightarrow> Inl ErrShortBuffer
             | Some b \<Rightarrow> Inr (s\<lparr>gs_bufs := (gs_bufs s)[i := b], gs_toWrite := gs_toWrite s @ [i]\<rparr>))
        | groResultTableInsert \<Rightarrow> Inr (s\<lparr>gs_toWrite := gs_toWrite s @ [i]\<rparr>)
        | groResultCoalesced \<Rightarrow> Inr s)"

fun gro_steps :: "bool \<Rightarrow> nat \<Rightarrow> bool \<Rightarrow> nat list \<Rightarrow> gro_state \<Rightarrow> tun_error + gro_state" where
  "gro_steps le offset canUDPGRO [] s = Inr s"
| "gro_steps le offset canUDPGRO (i # is) s =
     (case gro_step le offset canUDPGRO i s of Inl e \<Rightarrow> Inl e | Inr s \<Rightarrow> gro_steps le offset canUDPGRO is s)"

text \<open>The buffers and the indices to write. The tables are empty at the beginning of a batch.\<close>

definition handleGRO :: "bool \<Rightarrow> Buf list \<Rightarrow> nat \<Rightarrow> bool \<Rightarrow> tun_error + Buf list \<times> nat list" where
  "handleGRO le bufs offset canUDPGRO =
     (case gro_steps le offset canUDPGRO [0 ..< length bufs] \<lparr>gs_bufs = bufs, gs_tcp = [], gs_udp = [], gs_toWrite = []\<rparr> of
        Inl e \<Rightarrow> Inl e
      | Inr s \<Rightarrow>
          let (okTCP, bufs) = applyTCPCoalesceAccounting le (gs_bufs s) offset (gs_tcp s);
              (okUDP, bufs) = applyUDPCoalesceAccounting le bufs offset (gs_udp s)
          in if okTCP \<and> okUDP then Inr (bufs, gs_toWrite s) else Inl ErrShortBuffer)"

end
