(* ===== verification/Gso_Facts.thy ===== *)
theory Gso_Facts
  imports Gso
begin

text \<open>
  Cutting a large segment into packets, and the checksum of a single one: every packet carries its chunk of the
  payload, and its own lengths, numbers, flags and valid checksums.
\<close>

section \<open>Writing into buffers\<close>

lemma length_put_at [simp]: "k + length bs \<le> length b \<Longrightarrow> length (put_at k bs b) = length b"
  by (simp add: put_at_def)

lemma length_copy_at [simp]: "length (copy_at k src b) = length b"
  by (simp add: copy_at_def)

lemma put_at_left: "k + length bs \<le> length xs \<Longrightarrow> put_at k bs (xs @ ys) = put_at k bs xs @ ys"
  by (simp add: put_at_def)

lemma put_at_right: "length xs \<le> k \<Longrightarrow> put_at k bs (xs @ ys) = xs @ put_at (k - length xs) bs ys"
  by (simp add: put_at_def)

lemma copy_at_right: "length xs = k \<Longrightarrow> length src \<le> length ys \<Longrightarrow> copy_at k src (xs @ ys) = xs @ src @ drop (length src) ys"
  by (simp add: copy_at_def copy_into_def)

lemma copy_at_start: "length src \<le> length b \<Longrightarrow> copy_at 0 src b = src @ drop (length src) b"
  by (simp add: copy_at_def copy_into_def)

text \<open>Reading back, at the place and elsewhere.\<close>

lemma take_put_at: "m \<le> k \<Longrightarrow> k \<le> length b \<Longrightarrow> take m (put_at k bs b) = take m b"
  by (simp add: put_at_def min_def)

lemma drop_put_at: "k + length bs \<le> m \<Longrightarrow> k + length bs \<le> length b \<Longrightarrow> drop m (put_at k bs b) = drop m b"
  by (simp add: put_at_def)

lemma drop_put_at_same: "k \<le> length b \<Longrightarrow> drop k (put_at k bs b) = bs @ drop (k + length bs) b"
  by (simp add: put_at_def)

lemma drop_put_at_before: "m \<le> k \<Longrightarrow> k \<le> length b \<Longrightarrow> drop m (put_at k bs b) = put_at (k - m) bs (drop m b)"
  by (simp add: put_at_def drop_take)

lemma take_put_at_after: "k + length bs \<le> m \<Longrightarrow> k + length bs \<le> length b \<Longrightarrow> take m (put_at k bs b) = put_at k bs (take m b)"
  by (cases "m = k") (auto simp: put_at_def take_drop min_def)

lemma go_slice_put_at:
  assumes "j \<le> k \<or> k + length bs \<le> i" "k + length bs \<le> length b"
  shows "go_slice i j (put_at k bs b) = go_slice i j b"
proof (cases "k + length bs \<le> i")
  case True
  then show ?thesis using assms(2) by (simp add: go_slice_def drop_put_at)
next
  case False
  then have j: "j \<le> k" using assms by simp
  have "go_slice i j xs = drop i (take j xs)" for xs :: "'a list" by (simp add: go_slice_def drop_take)
  then show ?thesis using j assms(2) by (simp add: take_put_at)
qed

lemma nth_put_at: "i < k \<or> k + length bs \<le> i \<Longrightarrow> k + length bs \<le> length b \<Longrightarrow> i < length b \<Longrightarrow> put_at k bs b ! i = b ! i"
  by (auto simp: put_at_def nth_append)

lemma get_u16_put_at: "k + 2 \<le> length b \<Longrightarrow> get_u16_be (drop k (put_at k (put_u16_be w) b)) = w"
  by (simp add: drop_put_at_same)

lemma get_u32_put_at: "k + 4 \<le> length b \<Longrightarrow> get_u32_be (drop k (put_at k (put_u32_be w) b)) = w"
  by (simp add: drop_put_at_same)

section \<open>The shape of a packet that is cut\<close>

text \<open>A segment that the kernel hands over: a TCP or UDP packet over IP whose header says where its parts are.\<close>

definition gso_ok :: "bytes \<Rightarrow> virtioNetHdr \<Rightarrow> bool \<Rightarrow> bool" where
  "gso_ok pkt hdr isV6 \<longleftrightarrow>
     (let s = unat (vh_csumStart hdr); h = unat (vh_hdrLen hdr) in
      (if isV6 then 40 else 20) \<le> s \<and> h \<le> length pkt \<and> length pkt \<le> maxUint16 \<and> 0 < vh_gsoSize hdr \<and>
      (if gso_protocol hdr = IPPROTO_TCP then s + 20 \<le> h \<and> vh_csumOffset hdr = 16 else h = s + 8 \<and> vh_csumOffset hdr = 6))"

lemma gso_okD:
  assumes "gso_ok pkt hdr isV6"
  defines "s \<equiv> unat (vh_csumStart hdr)" and "h \<equiv> unat (vh_hdrLen hdr)"
  shows "(if isV6 then 40 else 20) \<le> s" "20 \<le> s" "s + 8 \<le> h" "h \<le> length pkt" "length pkt < 65536" "0 < unat (vh_gsoSize hdr)"
    "transportCsumAt hdr = s + unat (vh_csumOffset hdr)" "s + unat (vh_csumOffset hdr) + 2 \<le> h"
    "even (unat (vh_csumOffset hdr))" "6 \<le> unat (vh_csumOffset hdr)" "unat (vh_hdrLen hdr - vh_csumStart hdr) = h - s"
    "gso_protocol hdr = IPPROTO_TCP \<Longrightarrow> s + 20 \<le> h \<and> unat (vh_csumOffset hdr) = 16"
    "gso_protocol hdr \<noteq> IPPROTO_TCP \<Longrightarrow> h = s + 8 \<and> unat (vh_csumOffset hdr) = 6"
proof -
  have g: "vh_gsoSize hdr \<noteq> 0" using assms(1) by (auto simp: gso_ok_def Let_def)
  show a: "(if isV6 then 40 else 20) \<le> s" "20 \<le> s" "s + 8 \<le> h" "h \<le> length pkt" "length pkt < 65536"
    "0 < unat (vh_gsoSize hdr)" "s + unat (vh_csumOffset hdr) + 2 \<le> h"
    "even (unat (vh_csumOffset hdr))" "6 \<le> unat (vh_csumOffset hdr)"
    "gso_protocol hdr = IPPROTO_TCP \<Longrightarrow> s + 20 \<le> h \<and> unat (vh_csumOffset hdr) = 16"
    "gso_protocol hdr \<noteq> IPPROTO_TCP \<Longrightarrow> h = s + 8 \<and> unat (vh_csumOffset hdr) = 6"
    using assms(1) g unat_gt_0 [of "vh_gsoSize hdr"] by (auto simp: gso_ok_def Let_def s_def h_def maxUint16_def split: if_splits)
  then show "transportCsumAt hdr = s + unat (vh_csumOffset hdr)"
    by (simp add: transportCsumAt_def unat_word_ariths s_def)
  have "vh_csumStart hdr \<le> vh_hdrLen hdr" using a by (simp add: word_le_nat_alt s_def h_def)
  then show "unat (vh_hdrLen hdr - vh_csumStart hdr) = h - s" by (simp add: unat_sub s_def h_def)
qed

text \<open>The parts of the packet number \<open>i\<close> with the given payload; whether it is the last.\<close>

definition ip_header :: "bool \<Rightarrow> bytes \<Rightarrow> nat \<Rightarrow> bool \<Rightarrow> nat \<Rightarrow> nat \<Rightarrow> bytes" where
  "ip_header le pkt s isV6 i totalLen =
     (let iph = take s pkt in
      if isV6 then put_at 4 (put_u16_be (word_of_nat (totalLen - s))) iph
      else
        let iph = (if 0 < i then put_at 4 (put_u16_be (get_u16_be (drop 4 iph) + word_of_nat i)) iph else iph);
            iph = put_at 2 (put_u16_be (word_of_nat totalLen)) iph
        in put_at 10 (put_u16_be (NOT (checksum le iph 0))) iph)"

definition transport_part :: "bytes \<Rightarrow> virtioNetHdr \<Rightarrow> nat \<Rightarrow> bool \<Rightarrow> nat \<Rightarrow> bytes" where
  "transport_part pkt hdr i fin dataLen =
     (let s = unat (vh_csumStart hdr); tr = go_slice s (unat (vh_hdrLen hdr)) pkt in
      if gso_protocol hdr = IPPROTO_TCP then
        let tr = put_at 4 (put_u32_be (get_u32_be (drop (s + 4) pkt) + ucast (vh_gsoSize hdr * word_of_nat i))) tr
        in if fin then tr else tr[tcpFlagsOffset := tr ! tcpFlagsOffset AND NOT (tcpFlagFIN OR tcpFlagPSH)]
      else put_at 4 (put_u16_be (word_of_nat (length tr + dataLen))) tr)"

definition segment_of :: "bool \<Rightarrow> bytes \<Rightarrow> virtioNetHdr \<Rightarrow> bool \<Rightarrow> nat \<Rightarrow> bool \<Rightarrow> bytes \<Rightarrow> bytes" where
  "segment_of le pkt hdr isV6 i fin payload =
     (let s = unat (vh_csumStart hdr); h = unat (vh_hdrLen hdr); n = h + length payload;
          body = transport_part pkt hdr i fin (length payload) @ payload;
          pseudo = pseudoHeaderChecksumNoFold le (gso_protocol hdr) (src_addr isV6 pkt) (dst_addr isV6 pkt) (word_of_nat (n - s))
      in ip_header le pkt s isV6 i n @ put_at (unat (vh_csumOffset hdr)) (put_u16_be (NOT (checksum le body pseudo))) body)"

lemma length_ip_header: "20 \<le> s \<Longrightarrow> s \<le> length pkt \<Longrightarrow> length (ip_header le pkt s isV6 i n) = s"
  by (simp add: ip_header_def Let_def)

lemma length_transport_part:
  assumes "gso_ok pkt hdr isV6"
  shows "length (transport_part pkt hdr i fin n) = unat (vh_hdrLen hdr) - unat (vh_csumStart hdr)"
  using gso_okD [OF assms] by (simp add: transport_part_def Let_def)

lemma write_ip_header_shape:
  assumes "20 \<le> s" "s \<le> length pkt" "s \<le> length out"
  shows "write_ip_header le pkt s isV6 i n out = ip_header le pkt s isV6 i n @ drop s out"
proof -
  have c: "copy_at 0 (take s pkt) out = take s pkt @ drop s out" using assms by (simp add: copy_at_start)
  have g: "get_u16_be (drop 4 (take s pkt) @ drop s out) = get_u16_be (drop 4 (take s pkt))"
    using assms by (simp add: get_u16_be_def)
  show ?thesis
    using assms by (simp add: write_ip_header_def ip_header_def Let_def c g put_at_left)
qed

lemma write_transport_header_shape:
  assumes ok: "gso_ok pkt hdr isV6" and x: "length x = unat (vh_csumStart hdr)" and out: "unat (vh_hdrLen hdr) - unat (vh_csumStart hdr) \<le> length out"
  shows "write_transport_header pkt hdr i e n (x @ out) =
    x @ transport_part pkt hdr i (e = length pkt) n @ drop (unat (vh_hdrLen hdr) - unat (vh_csumStart hdr)) out"
proof -
  let ?s = "unat (vh_csumStart hdr)" and ?h = "unat (vh_hdrLen hdr)"
  let ?tr = "go_slice ?s ?h pkt"
  note G = gso_okD [OF ok]
  have l: "length ?tr = ?h - ?s" using G by simp
  have c: "copy_at ?s ?tr (x @ out) = x @ ?tr @ drop (?h - ?s) out" using copy_at_right [OF x, of ?tr out] l out by simp
  have p: "put_at (?s + 4) bs (x @ ?tr @ y) = x @ put_at 4 bs ?tr @ y" if "length bs \<le> 4" for bs y
    using that x l G(3) by (simp add: put_at_right put_at_left)
  show ?thesis
  proof (cases "gso_protocol hdr = IPPROTO_TCP")
    case True
    let ?t = "put_at 4 (put_u32_be (get_u32_be (drop (?s + 4) pkt) + ucast (vh_gsoSize hdr * word_of_nat i))) ?tr"
    have "4 + length (put_u32_be w) \<le> length ?tr" for w using G(12) [OF True] unfolding l by auto
    from length_put_at [OF this] have lt: "length ?t = ?h - ?s" "tcpFlagsOffset < length ?t"
      using G(12) [OF True] l by (auto simp: tcpFlagsOffset_def)
    have u: "(x @ ?t @ y)[?s + tcpFlagsOffset := v] = x @ ?t[tcpFlagsOffset := v] @ y" "(x @ ?t @ y) ! (?s + tcpFlagsOffset) = ?t ! tcpFlagsOffset" for v y
      using lt x by (simp_all add: list_update_append nth_append)
    show ?thesis using G(12) [OF True] True by (simp add: write_transport_header_def transport_part_def Let_def c p u)
  next
    case False
    have wd: "word_of_nat n + (vh_hdrLen hdr - vh_csumStart hdr) = word_of_nat (length ?tr + n)"
      unfolding l G(11) [symmetric] by (simp add: add.commute)
    show ?thesis
      unfolding write_transport_header_def transport_part_def Let_def if_not_P [OF False] c wd by (rule p) simp
  qed
qed

lemma write_segment_shape:
  assumes ok: "gso_ok pkt hdr isV6" and a: "a \<le> e" "e \<le> length pkt" and out: "unat (vh_hdrLen hdr) + (e - a) \<le> length out"
  shows "write_segment le pkt hdr isV6 i a e out =
    segment_of le pkt hdr isV6 i (e = length pkt) (go_slice a e pkt) @ drop (unat (vh_hdrLen hdr) + (e - a)) out"
proof -
  let ?s = "unat (vh_csumStart hdr)" and ?h = "unat (vh_hdrLen hdr)" and ?o = "unat (vh_csumOffset hdr)"
  let ?p = "go_slice a e pkt"
  note G = gso_okD [OF ok]
  have lp: "length ?p = e - a" using a by simp
  define iph where "iph = ip_header le pkt ?s isV6 i (?h + (e - a))"
  define tr where "tr = transport_part pkt hdr i (e = length pkt) (e - a)"
  have li: "length iph = ?s" unfolding iph_def using G by (intro length_ip_header) auto
  have lt: "length tr = ?h - ?s" unfolding tr_def by (rule length_transport_part [OF ok])
  have 1: "write_ip_header le pkt ?s isV6 i (?h + (e - a)) out = iph @ drop ?s out"
    unfolding iph_def using G out by (intro write_ip_header_shape) auto
  have 2: "write_transport_header pkt hdr i e (e - a) (iph @ drop ?s out) = iph @ tr @ drop (?h - ?s) (drop ?s out)"
    unfolding tr_def using out G by (intro write_transport_header_shape [OF ok li]) simp
  have 3: "copy_at ?h ?p ((iph @ tr) @ drop (?h - ?s) (drop ?s out)) = (iph @ tr) @ ?p @ drop (?h + (e - a)) out"
    using copy_at_right [of "iph @ tr" ?h ?p "drop (?h - ?s) (drop ?s out)"] li lt lp out G by (simp add: add.commute)
  have 4: "go_slice ?s (?h + (e - a)) ((iph @ tr) @ ?p @ y) = tr @ ?p" for y
    using li lt lp G by (simp add: go_slice_def)
  have 5: "put_at (?s + ?o) bs ((iph @ tr) @ ?p @ y) = iph @ put_at ?o bs (tr @ ?p) @ y" if "length bs = 2" for bs y
    using that li lt G put_at_right [of iph "?s + ?o" bs] put_at_left [of ?o bs "tr @ ?p"] by simp
  have 6: "word_of_nat (unat (vh_hdrLen hdr - vh_csumStart hdr) + (e - a)) = word_of_nat (?h + (e - a) - ?s)"
    unfolding G(11) using G(3) by (intro arg_cong [of _ _ word_of_nat]) simp
  show ?thesis
    unfolding write_segment_def Let_def segment_of_def lp 1 2 6 append_assoc [symmetric] 3
    unfolding append_assoc [of "iph @ tr" ?p, symmetric] G(7)
    using 4 5 6 by (simp add: iph_def tr_def append_assoc [symmetric] del: append_assoc)
qed

section \<open>What a packet that is cut says\<close>

lemma put_at_split: "put_at k bs b = take k b @ bs @ drop (k + length bs) b"
  by (simp add: put_at_def)

lemma filled_at:
  assumes "even k" "k + 2 \<le> length b" "b ! k = 0" "b ! Suc k = 0"
  shows "checksum le (put_at k (put_u16_be (NOT (checksum le b initial))) b) initial = - 1"
proof -
  have b: "b = take k b @ [0, 0] @ drop (k + 2) b"
    using assms by (metis Cons_nth_drop_Suc add_2_eq_Suc' append_Cons append_Nil append_take_drop_id le_eq_less_or_eq less_SucI less_Suc_eq_le Suc_le_lessD)
  have "checksum le (take k b @ put_u16_be (NOT (checksum le b initial)) @ drop (k + 2) b) initial = - 1"
    by (rule filled_checksum) (use assms b in auto)
  then show ?thesis by (simp add: put_at_def)
qed

lemma put_at_zeros: "k + 2 \<le> length b \<Longrightarrow> put_at k [0, 0] b ! k = 0 \<and> put_at k [0, 0] b ! Suc k = 0"
  by (auto simp: put_at_def nth_append)


text \<open>The packet number \<open>k\<close> cut from a segment: its payload, its lengths, its identification, its sequence number
  and flags, and its checksums.\<close>

definition ip_header_right :: "bool \<Rightarrow> nat \<Rightarrow> bool \<Rightarrow> nat \<Rightarrow> bytes \<Rightarrow> bytes \<Rightarrow> bool" where
  "ip_header_right le s isV6 k pkt seg \<longleftrightarrow>
     src_addr isV6 seg = src_addr isV6 pkt \<and> dst_addr isV6 seg = dst_addr isV6 pkt \<and>
     (if isV6 then get_u16_be (drop 4 seg) = word_of_nat (length seg - s)
      else get_u16_be (drop 2 seg) = word_of_nat (length seg) \<and>
           get_u16_be (drop 4 seg) = get_u16_be (drop 4 pkt) + word_of_nat k \<and> checksum le (take s seg) 0 = - 1)"

definition transport_right :: "virtioNetHdr \<Rightarrow> nat \<Rightarrow> bytes \<Rightarrow> bytes \<Rightarrow> bool" where
  "transport_right hdr k pkt seg \<longleftrightarrow>
     (let s = unat (vh_csumStart hdr); g = unat (vh_gsoSize hdr) in
      take 4 (drop s seg) = take 4 (drop s pkt) \<and>
      (if gso_protocol hdr = IPPROTO_TCP then
         get_u32_be (drop (s + 4) seg) = get_u32_be (drop (s + 4) pkt) + word_of_nat (k * g) \<and>
         seg ! (s + tcpFlagsOffset) =
           (if length pkt \<le> unat (vh_hdrLen hdr) + Suc k * g then pkt ! (s + tcpFlagsOffset)
            else pkt ! (s + tcpFlagsOffset) AND NOT (tcpFlagFIN OR tcpFlagPSH))
       else get_u16_be (drop (s + 4) seg) = word_of_nat (length seg - s)))"

definition cut_of :: "bool \<Rightarrow> virtioNetHdr \<Rightarrow> bool \<Rightarrow> bytes \<Rightarrow> nat \<Rightarrow> bytes \<Rightarrow> bool" where
  "cut_of le hdr isV6 pkt k seg \<longleftrightarrow>
     drop (unat (vh_hdrLen hdr)) seg = take (unat (vh_gsoSize hdr)) (drop (k * unat (vh_gsoSize hdr)) (drop (unat (vh_hdrLen hdr)) pkt)) \<and>
     ip_header_right le (unat (vh_csumStart hdr)) isV6 k pkt seg \<and> transport_right hdr k pkt seg \<and>
     checksumValid le seg (unat (vh_csumStart hdr)) (gso_protocol hdr) isV6"

lemma slice_put_u16: "k + 2 \<le> length b \<Longrightarrow> get_u16_be (go_slice k (k + 2) (put_at k (put_u16_be w) b)) = w"
  by (simp add: go_slice_def drop_put_at_same get_u16_be_def put_u16_be_def) (use unat_u16_less [of w] in simp)

lemma ip_header_shape:
  assumes "(if isV6 then 40 else 20) \<le> s" "s \<le> length pkt" "isV6 \<or> pkt ! 10 = 0 \<and> pkt ! 11 = 0"
    and iph_def: "iph = ip_header le pkt s isV6 k n"
  shows "src_addr isV6 (iph @ b) = src_addr isV6 pkt" "dst_addr isV6 (iph @ b) = dst_addr isV6 pkt"
    "if isV6 then get_u16_be (drop 4 (iph @ b)) = word_of_nat (n - s)
     else get_u16_be (drop 2 (iph @ b)) = word_of_nat n \<and>
       get_u16_be (drop 4 (iph @ b)) = get_u16_be (drop 4 pkt) + word_of_nat k \<and> checksum le iph 0 = - 1"
proof -
  have l: "length iph = s" unfolding iph_def using assms(1,2) by (intro length_ip_header) (auto split: if_splits)
  have sl: "go_slice i j (iph @ b) = go_slice i j iph" if "j \<le> s" for i j using that l by (simp add: go_slice_def)
  have s2: "go_slice i j (take s pkt) = go_slice i j pkt" if "j \<le> s" for i j using that by (cases "j \<le> i") (auto simp: go_slice_def take_drop min_def)
  have "go_slice i j iph = go_slice i j pkt" if "12 \<le> i \<or> isV6 \<and> 8 \<le> i" "j \<le> s" for i j
    using that assms(1,2) by (auto simp: iph_def ip_header_def Let_def go_slice_put_at s2)
  with sl assms(1) show "src_addr isV6 (iph @ b) = src_addr isV6 pkt" "dst_addr isV6 (iph @ b) = dst_addr isV6 pkt"
    by (auto simp: src_addr_def dst_addr_def ipv4SrcAddrOffset_def ipv6SrcAddrOffset_def)
  have g: "get_u16_be (drop i (iph @ b)) = get_u16_be (go_slice i (i + 2) iph)" "get_u16_be (drop i pkt) = get_u16_be (go_slice i (i + 2) (take s pkt))"
    if "i + 2 \<le> s" for i
    using that l s2 [of "i + 2" i] by (simp_all add: get_u16_be_def go_slice_def)
  show "if isV6 then get_u16_be (drop 4 (iph @ b)) = word_of_nat (n - s)
     else get_u16_be (drop 2 (iph @ b)) = word_of_nat n \<and>
       get_u16_be (drop 4 (iph @ b)) = get_u16_be (drop 4 pkt) + word_of_nat k \<and> checksum le iph 0 = - 1"
  proof (cases isV6)
    case True
    then show ?thesis using assms(1,2) g [of 4] slice_put_u16 [of 4 "take s pkt"] by (simp add: iph_def ip_header_def)
  next
    case False
    define b1 where "b1 = (if 0 < k then put_at 4 (put_u16_be (get_u16_be (drop 4 (take s pkt)) + word_of_nat k)) (take s pkt) else take s pkt)"
    define b2 where "b2 = put_at 2 (put_u16_be (word_of_nat n)) b1"
    have i: "iph = put_at 10 (put_u16_be (NOT (checksum le b2 0))) b2"
      using False by (simp add: iph_def ip_header_def Let_def b1_def b2_def)
    have lb: "length b1 = s" "length b2 = s" using assms(1,2) False by (auto simp: b1_def b2_def)
    have s20: "20 \<le> s" using assms(1) False by simp
    have z: "b2 ! 10 = 0" "b2 ! Suc 10 = 0"
      using assms(1-3) False lb by (auto simp: b2_def b1_def nth_put_at)
    have "checksum le iph 0 = - 1" unfolding i using z lb s20 by (intro filled_at) auto
    moreover have "go_slice 2 4 iph = go_slice 2 4 b2" "go_slice 4 6 iph = go_slice 4 6 b1"
      using lb s20 by (simp_all add: i b2_def go_slice_put_at)
    moreover have "get_u16_be (go_slice 2 4 b2) = word_of_nat n" unfolding b2_def using slice_put_u16 [of 2 b1] lb s20 by simp
    moreover have "get_u16_be (go_slice 4 6 b1) = get_u16_be (drop 4 pkt) + word_of_nat k"
      using slice_put_u16 [of 4 "take s pkt"] s20 assms(2) g(2) [of 4] by (auto simp: b1_def get_u16_be_def go_slice_def)
    ultimately show ?thesis using False g [of 2] g [of 4] s20 by simp
  qed
qed


lemma clear_checksums_frame:
  assumes "gso_ok pkt hdr isV6"
  defines "c \<equiv> clear_checksums hdr isV6 pkt" and "s \<equiv> unat (vh_csumStart hdr)" and "o' \<equiv> unat (vh_csumOffset hdr)"
  shows "length c = length pkt" "drop (unat (vh_hdrLen hdr)) c = drop (unat (vh_hdrLen hdr)) pkt"
    "isV6 \<or> c ! 10 = 0 \<and> c ! 11 = 0" "c ! (s + o') = 0" "c ! Suc (s + o') = 0"
    "src_addr isV6 c = src_addr isV6 pkt" "dst_addr isV6 c = dst_addr isV6 pkt" "get_u16_be (drop 4 c) = get_u16_be (drop 4 pkt)"
    "s \<le> i \<Longrightarrow> j \<le> s + o' \<Longrightarrow> go_slice i j c = go_slice i j pkt" "s \<le> i \<Longrightarrow> i < s + o' \<Longrightarrow> c ! i = pkt ! i"
proof -
  note G = gso_okD [OF assms(1), folded s_def o'_def]
  define p where "p = (if isV6 then pkt else put_at 10 [0, 0] pkt)"
  have lp: "length p = length pkt" using G by (simp add: p_def)
  have c: "c = put_at (s + o') [0, 0] p" by (simp add: c_def clear_checksums_def p_def G(7))
  have lc: "s + o' + 2 \<le> length p" using G lp by simp
  show "length c = length pkt" using lc lp by (simp add: c)
  show "drop (unat (vh_hdrLen hdr)) c = drop (unat (vh_hdrLen hdr)) pkt" using G lp lc by (simp add: c p_def drop_put_at)
  show "isV6 \<or> c ! 10 = 0 \<and> c ! 11 = 0"
    using G lc put_at_zeros [of 10 pkt] lp by (auto simp: c p_def nth_put_at)
  show "c ! (s + o') = 0" "c ! Suc (s + o') = 0" using put_at_zeros [OF lc] by (simp_all add: c)
  have sl: "go_slice i j c = go_slice i j pkt" if "j \<le> s + o'" "isV6 \<or> j \<le> 10 \<or> 12 \<le> i" for i j
    using that lc G lp by (auto simp: c p_def go_slice_put_at)
  show "src_addr isV6 c = src_addr isV6 pkt" "dst_addr isV6 c = dst_addr isV6 pkt"
    using G by (auto simp: src_addr_def dst_addr_def ipv4SrcAddrOffset_def ipv6SrcAddrOffset_def intro!: sl)
  show "get_u16_be (drop 4 c) = get_u16_be (drop 4 pkt)"
    using sl [of 6 4] G by (simp add: get_u16_be_def go_slice_def)
  show "s \<le> i \<Longrightarrow> j \<le> s + o' \<Longrightarrow> go_slice i j c = go_slice i j pkt" using sl G by simp
  show "s \<le> i \<Longrightarrow> i < s + o' \<Longrightarrow> c ! i = pkt ! i" using lc G lp by (auto simp: c p_def nth_put_at)
qed

lemma u16_product: "k * unat w < 65536 \<Longrightarrow> (ucast (w * word_of_nat k :: u16) :: u32) = word_of_nat (k * unat w)"
proof -
  assume a: "k * unat w < 65536"
  have "unat (w * word_of_nat k) = k * unat w"
  proof (cases "w = 0")
    case False
    then have "1 \<le> unat w" by (simp add: Suc_leI unat_gt_0)
    then have "k * 1 \<le> k * unat w" by (rule mult_le_mono2)
    then have "k < 65536" using a by linarith
    then show ?thesis using a by (simp add: unat_word_ariths unat_of_nat mult.commute)
  qed simp
  moreover have "(ucast x :: u32) = word_of_nat (unat x)" for x :: u16 by simp
  ultimately show ?thesis by metis
qed

text \<open>The transport header of the input, once its checksum is cleared.\<close>

definition transport_in :: "virtioNetHdr \<Rightarrow> bool \<Rightarrow> bytes \<Rightarrow> bytes" where
  "transport_in hdr isV6 pkt = go_slice (unat (vh_csumStart hdr)) (unat (vh_hdrLen hdr)) (clear_checksums hdr isV6 pkt)"

lemma transport_in_facts:
  assumes ok: "gso_ok pkt hdr isV6"
  defines "s \<equiv> unat (vh_csumStart hdr)" and "h \<equiv> unat (vh_hdrLen hdr)" and "o' \<equiv> unat (vh_csumOffset hdr)"
    and "t \<equiv> transport_in hdr isV6 pkt"
  shows "length t = h - s" "take 4 t = take 4 (drop s pkt)" "t ! o' = 0" "t ! Suc o' = 0"
    "i < o' \<Longrightarrow> t ! i = pkt ! (s + i)"
proof -
  note G = gso_okD [OF ok, folded s_def o'_def h_def]
  note C = clear_checksums_frame [OF ok, folded s_def o'_def h_def]
  show l: "length t = h - s" using G C(1) by (simp add: t_def transport_in_def s_def h_def)
  have tn: "t ! i = clear_checksums hdr isV6 pkt ! (s + i)" if "i < h - s" for i
    using that G C(1) by (simp add: t_def transport_in_def go_slice_def s_def h_def)
  show "take 4 t = take 4 (drop s pkt)"
    using C(9) [of s "s + 4"] G l by (simp add: t_def transport_in_def go_slice_def min_def s_def h_def)
  show "t ! o' = 0" "t ! Suc o' = 0" using tn [of o'] tn [of "Suc o'"] C(4,5) G by simp_all
  show "i < o' \<Longrightarrow> t ! i = pkt ! (s + i)" using tn [of i] C(10) [of "s + i"] G by simp
qed

definition transport_tcp :: "virtioNetHdr \<Rightarrow> nat \<Rightarrow> bytes \<Rightarrow> bool \<Rightarrow> bytes \<Rightarrow> bool" where
  "transport_tcp hdr k pkt fin tr \<longleftrightarrow>
     (let s = unat (vh_csumStart hdr) in
      get_u32_be (drop 4 tr) = get_u32_be (drop (s + 4) pkt) + word_of_nat (k * unat (vh_gsoSize hdr)) \<and>
      tr ! tcpFlagsOffset = (if fin then pkt ! (s + tcpFlagsOffset) else pkt ! (s + tcpFlagsOffset) AND NOT (tcpFlagFIN OR tcpFlagPSH)))"

definition transport_zeros :: "virtioNetHdr \<Rightarrow> bytes \<Rightarrow> bytes \<Rightarrow> bool" where
  "transport_zeros hdr pkt tr \<longleftrightarrow> take 4 tr = take 4 (drop (unat (vh_csumStart hdr)) pkt) \<and>
     tr ! unat (vh_csumOffset hdr) = 0 \<and> tr ! Suc (unat (vh_csumOffset hdr)) = 0"

lemma tcp_shape:
  assumes ok: "gso_ok pkt hdr isV6" and tcp: "gso_protocol hdr = IPPROTO_TCP" and p: "k * unat (vh_gsoSize hdr) < length pkt"
    and tr: "tr = transport_part (clear_checksums hdr isV6 pkt) hdr k fin n"
  shows "transport_zeros hdr pkt tr \<and> transport_tcp hdr k pkt fin tr"
proof -
  let ?s = "unat (vh_csumStart hdr)" and ?c = "clear_checksums hdr isV6 pkt"
  note G = gso_okD [OF ok]
  note T = G(12) [OF tcp]
  note F = transport_in_facts [OF ok]
  define t where "t = transport_in hdr isV6 pkt"
  define q where "q = get_u32_be (drop (?s + 4) ?c) + ucast (vh_gsoSize hdr * word_of_nat k)"
  define t1 where "t1 = put_at 4 (put_u32_be q) t"
  have lt: "20 \<le> length t" using T F(1) by (auto simp: t_def)
  then have l4: "4 + length (put_u32_be q) \<le> length t" by simp
  have l1: "length t1 = length t" using length_put_at [OF l4] by (simp add: t1_def)
  have e: "tr = (if fin then t1 else t1[tcpFlagsOffset := t1 ! tcpFlagsOffset AND NOT (tcpFlagFIN OR tcpFlagPSH)])"
    using tcp by (simp add: tr transport_part_def Let_def t_def t1_def q_def transport_in_def)
  have q: "q = get_u32_be (drop (?s + 4) pkt) + word_of_nat (k * unat (vh_gsoSize hdr))"
    using clear_checksums_frame(9) [OF ok, of "?s + 4" "?s + 8"] T u16_product [of k "vh_gsoSize hdr"] p G(5)
    by (simp add: q_def get_u32_be_def go_slice_def)
  have n1: "t1 ! i = t ! i" if "i < 4 \<or> 8 \<le> i" "i < length t" for i using that l4 by (auto simp: t1_def nth_put_at)
  have f: "t1 ! tcpFlagsOffset = pkt ! (?s + tcpFlagsOffset)"
    using n1 [of 13] F(5) [of 13] T lt by (simp add: tcpFlagsOffset_def t_def)
  have d: "get_u32_be (drop 4 t1) = q" using get_u32_put_at [of 4 t q] lt by (simp add: t1_def)
  have k4: "take 4 t1 = take 4 (drop ?s pkt)" using F(2) lt by (simp add: t1_def take_put_at t_def)
  have z: "t1 ! 16 = 0" "t1 ! 17 = 0" using n1 [of 16] n1 [of 17] F(3,4) T lt by (simp_all add: t_def)
  show ?thesis
    using d f k4 z T l1 lt
    by (auto simp: e transport_zeros_def transport_tcp_def q Let_def tcpFlagsOffset_def drop_update_swap get_u32_be_def)
qed

lemma udp_shape:
  assumes ok: "gso_ok pkt hdr isV6" and udp: "gso_protocol hdr \<noteq> IPPROTO_TCP"
    and tr: "tr = transport_part (clear_checksums hdr isV6 pkt) hdr k fin n"
  shows "transport_zeros hdr pkt tr \<and> get_u16_be (drop 4 tr) = word_of_nat (length tr + n)"
proof -
  note T = gso_okD(13) [OF ok udp]
  note F = transport_in_facts [OF ok]
  define t where "t = transport_in hdr isV6 pkt"
  have lt: "length t = 8" using T F(1) by (simp add: t_def)
  have e: "tr = put_at 4 (put_u16_be (word_of_nat (8 + n))) t"
    using udp lt by (simp add: tr transport_part_def Let_def t_def transport_in_def)
  have z: "tr ! 6 = 0" "tr ! 7 = 0" using F(3,4) T lt by (simp_all add: t_def e nth_put_at)
  have k4: "take 4 tr = take 4 (drop (unat (vh_csumStart hdr)) pkt)" using F(2) lt by (simp add: e take_put_at t_def)
  have "length tr = 8" using lt by (simp add: e)
  moreover have "get_u16_be (drop 4 tr) = word_of_nat (8 + n)" unfolding e by (rule get_u16_put_at) (simp add: lt)
  ultimately show ?thesis using z k4 T by (simp add: transport_zeros_def)
qed


lemma segment_of_cut:
  assumes ok: "gso_ok pkt hdr isV6" and p: "k * unat (vh_gsoSize hdr) < length pkt"
    and payload: "payload = take (unat (vh_gsoSize hdr)) (drop (k * unat (vh_gsoSize hdr)) (drop (unat (vh_hdrLen hdr)) pkt))"
    and fin: "fin \<longleftrightarrow> length pkt \<le> unat (vh_hdrLen hdr) + Suc k * unat (vh_gsoSize hdr)"
    and seg_def: "seg = segment_of le (clear_checksums hdr isV6 pkt) hdr isV6 k fin payload"
  shows "length seg = unat (vh_hdrLen hdr) + length payload" "cut_of le hdr isV6 pkt k seg"
proof -
  let ?s = "unat (vh_csumStart hdr)" and ?h = "unat (vh_hdrLen hdr)" and ?o = "unat (vh_csumOffset hdr)"
  let ?c = "clear_checksums hdr isV6 pkt" and ?n = "?h + length payload"
  note G = gso_okD [OF ok]
  note C = clear_checksums_frame [OF ok]
  have okc: "gso_ok ?c hdr isV6" using ok C(1) by (simp add: gso_ok_def)
  define tr where "tr = transport_part ?c hdr k fin (length payload)"
  define pseudo where "pseudo = pseudoHeaderChecksumNoFold le (gso_protocol hdr) (src_addr isV6 ?c) (dst_addr isV6 ?c) (word_of_nat (?n - ?s))"
  define iph where "iph = ip_header le ?c ?s isV6 k ?n"
  define body where "body = put_at ?o (put_u16_be (NOT (checksum le (tr @ payload) pseudo))) (tr @ payload)"
  have seg: "seg = iph @ body" by (simp add: seg_def segment_of_def Let_def tr_def pseudo_def iph_def body_def)
  have lt: "length tr = ?h - ?s" unfolding tr_def by (rule length_transport_part [OF okc])
  have li: "length iph = ?s" unfolding iph_def using G C(1) by (intro length_ip_header) auto
  have ob: "?o + 2 \<le> length tr" using G lt by simp
  have lb: "length body = ?h - ?s + length payload" using ob lt by (simp add: body_def)
  have hs: "?s \<le> ?h" using G by simp
  show l: "length seg = ?n" using li lb hs by (simp add: seg)
  have tz: "transport_zeros hdr pkt tr" using tcp_shape [OF ok _ p tr_def] udp_shape [OF ok _ tr_def] by blast
  have d: "drop ?h seg = payload" using li lb lt ob hs by (simp add: seg body_def drop_put_at)
  have addr: "src_addr isV6 seg = src_addr isV6 pkt" "dst_addr isV6 seg = dst_addr isV6 pkt"
    unfolding seg using ip_header_shape(1,2) [OF G(1) _ C(3) iph_def] G C(1,6,7) by simp_all
  have ip: "ip_header_right le ?s isV6 k pkt seg"
    using ip_header_shape(3) [OF G(1) _ C(3) iph_def, of body] addr G C(1,8) l li
    by (auto simp: ip_header_right_def seg)
  have bs: "drop ?s seg = body" using li by (simp add: seg)
  have low: "take j (drop i body) = take j (drop i tr)" if "i + j \<le> ?o" for i j
  proof -
    have "take j (drop i xs) = drop i (take (i + j) xs)" for xs :: bytes by (simp add: drop_take)
    moreover have "take (i + j) body = take (i + j) tr" using that ob by (simp add: body_def take_put_at)
    ultimately show ?thesis by simp
  qed
  have "checksum le body pseudo = - 1"
    unfolding body_def using tz ob G(9) by (intro filled_at) (auto simp: transport_zeros_def nth_append)
  moreover have "pseudo = pseudoHeaderChecksumNoFold le (gso_protocol hdr) (src_addr isV6 seg) (dst_addr isV6 seg) (word_of_nat (length seg - ?s))"
    unfolding pseudo_def addr l C(6,7) ..
  ultimately have cs: "checksumValid le seg ?s (gso_protocol hdr) isV6" by (simp add: checksumValid_def Let_def bs)
  have "transport_right hdr k pkt seg"
  proof (cases "gso_protocol hdr = IPPROTO_TCP")
    case True
    have t: "transport_tcp hdr k pkt fin tr" using tcp_shape [OF ok True p tr_def] by blast
    have u: "drop (?s + 4) seg = drop 4 body" "seg ! (?s + 13) = body ! 13" using li lb G(12) [OF True] by (simp_all add: seg nth_append)
    have "body ! 13 = tr ! 13" using G(12) [OF True] ob by (simp add: body_def nth_put_at nth_append)
    then show ?thesis
      using t tz low [of 0 4] low [of 4 4] G(12) [OF True] True fin u
      by (simp add: transport_right_def transport_tcp_def transport_zeros_def Let_def bs get_u32_be_def tcpFlagsOffset_def)
  next
    case False
    have u: "drop (?s + 4) seg = drop 4 body" using li by (simp add: seg)
    show ?thesis
      using udp_shape [OF ok False tr_def] tz low [of 0 4] low [of 4 2] G(13) [OF False] False u l lt
      by (simp add: transport_right_def transport_zeros_def Let_def bs get_u16_be_def add.commute)
  qed
  with d ip cs show "cut_of le hdr isV6 pkt k seg" by (simp add: cut_of_def payload)
qed


section \<open>The loop\<close>

text \<open>How many packets a segment is cut into.\<close>

definition cuts :: "bytes \<Rightarrow> virtioNetHdr \<Rightarrow> nat" where
  "cuts pkt hdr = (length pkt - unat (vh_hdrLen hdr) + unat (vh_gsoSize hdr) - 1) div unat (vh_gsoSize hdr)"

lemma cuts_iff: "0 < unat (vh_gsoSize hdr) \<Longrightarrow> unat (vh_hdrLen hdr) \<le> length pkt \<Longrightarrow>
    k < cuts pkt hdr \<longleftrightarrow> unat (vh_hdrLen hdr) + k * unat (vh_gsoSize hdr) < length pkt"
proof -
  assume g: "0 < unat (vh_gsoSize hdr)" and h: "unat (vh_hdrLen hdr) \<le> length pkt"
  let ?g = "unat (vh_gsoSize hdr)" and ?m = "length pkt - unat (vh_hdrLen hdr)"
  have "k < (?m + ?g - 1) div ?g \<longleftrightarrow> Suc k * ?g \<le> ?m + ?g - 1" using g by (simp add: less_eq_div_iff_mult_less_eq Suc_le_eq [symmetric] del: mult_Suc)
  also have "\<dots> \<longleftrightarrow> k * ?g < ?m" using g by auto
  also have "\<dots> \<longleftrightarrow> unat (vh_hdrLen hdr) + k * ?g < length pkt" using h by auto
  finally show ?thesis by (simp add: cuts_def)
qed

definition packet_in :: "bytes list \<Rightarrow> nat list \<Rightarrow> nat \<Rightarrow> nat \<Rightarrow> bytes" where
  "packet_in bufs sizes off k = take (sizes ! k) (drop off (bufs ! k))"

text \<open>What the loop returns, and that each packet is in its place.\<close>

definition loop_result :: "bytes \<Rightarrow> virtioNetHdr \<Rightarrow> nat \<Rightarrow> int \<times> tun_error option" where
  "loop_result pkt hdr n = (if cuts pkt hdr \<le> n then (int (cuts pkt hdr), None) else (int n - 1, Some ErrTooManySegments))"

lemma gso_loop_spec:
  assumes "gso_ok pkt hdr isV6" "\<forall>b \<in> set bs. off + unat (vh_hdrLen hdr) + unat (vh_gsoSize hdr) \<le> length b" "i \<le> cuts pkt hdr"
  shows "\<exists>bs' sizes. gso_loop le (clear_checksums hdr isV6 pkt) hdr isV6 off i (unat (vh_hdrLen hdr) + i * unat (vh_gsoSize hdr)) bs
      = Some (bs', sizes, loop_result pkt hdr (i + length bs)) \<and>
    length bs' = length bs \<and> length sizes = min (cuts pkt hdr - i) (length bs) \<and>
    (\<forall>k < length sizes. cut_of le hdr isV6 pkt (i + k) (packet_in bs' sizes off k))"
  using assms
proof (induction bs arbitrary: i)
  case Nil
  then show ?case
    using cuts_iff [of hdr pkt i] gso_okD(4,6) [OF Nil(1)] clear_checksums_frame(1) [OF Nil(1)] by (auto simp: loop_result_def)
next
  case (Cons b bs)
  let ?g = "unat (vh_gsoSize hdr)" and ?h = "unat (vh_hdrLen hdr)" and ?c = "clear_checksums hdr isV6 pkt"
  note G = gso_okD [OF Cons.prems(1)]
  note C = clear_checksums_frame [OF Cons.prems(1)]
  let ?a = "?h + i * ?g"
  show ?case
  proof (cases "?a < length pkt")
    case False
    then have "i = cuts pkt hdr" using cuts_iff [of hdr pkt i] G(4,6) Cons.prems(3) by simp
    with False C(1) show ?thesis by (simp add: loop_result_def)
  next
    case True
    then have i: "i < cuts pkt hdr" using cuts_iff [of hdr pkt i] G(4,6) by simp
    let ?e = "min (?a + ?g) (length ?c)" and ?b = "drop off b"
    have e: "?a \<le> ?e" "?e \<le> length ?c" "?e - ?a \<le> ?g" using True C(1) by auto
    have lb: "off \<le> length b" "?h + ?g \<le> length ?b" using Cons.prems(2) by auto
    have okc: "gso_ok ?c hdr isV6" using Cons.prems(1) C(1) by (simp add: gso_ok_def)
    obtain bs' sizes where r: "gso_loop le ?c hdr isV6 off (Suc i) (?h + Suc i * ?g) bs = Some (bs', sizes, loop_result pkt hdr (Suc i + length bs))"
      "length bs' = length bs" "length sizes = min (cuts pkt hdr - Suc i) (length bs)"
      "\<forall>k < length sizes. cut_of le hdr isV6 pkt (Suc i + k) (packet_in bs' sizes off k)"
      using Cons.IH [of "Suc i"] Cons.prems i by auto
    have fits: "segment_fits ?c hdr isV6 (?h + (?e - ?a)) ?b"
      using lb G C(1) e(3) by (auto simp: segment_fits_def)
    let ?p = "go_slice ?a ?e ?c" and ?seg = "segment_of le ?c hdr isV6 i (?e = length ?c) (go_slice ?a ?e ?c)"
    have p: "?p = take ?g (drop (i * ?g) (drop ?h pkt))"
    proof -
      have "drop ?a ?c = drop ?a pkt" using C(2) by (metis drop_drop add.commute)
      then show ?thesis using C(1) by (auto simp: go_slice_def add.commute min_def)
    qed
    have w: "write_segment le ?c hdr isV6 i ?a ?e ?b = ?seg @ drop (?h + (?e - ?a)) ?b"
      using lb e by (intro write_segment_shape [OF okc]) auto
    have pk: "i * ?g < length pkt" using True by simp
    have fin: "(?e = length ?c) = (length pkt \<le> ?h + Suc i * ?g)" using C(1) by (auto simp: min_def)
    note S = segment_of_cut [OF Cons.prems(1) pk p fin refl, of le]
    have ls: "length ?seg = ?h + (?e - ?a)" using S(1) e by simp
    let ?bs = "(take off b @ ?seg @ drop (?h + (?e - ?a)) ?b) # bs'" and ?sizes = "(?h + (?e - ?a)) # sizes"
    have g: "gso_loop le ?c hdr isV6 off i ?a (b # bs) = Some (?bs, ?sizes, loop_result pkt hdr (i + length (b # bs)))"
      using True C(1) lb(1) fits r(1) w by (simp add: Let_def add.commute add.left_commute split: prod.splits)
    have "cut_of le hdr isV6 pkt (i + k) (packet_in ?bs ?sizes off k)" if "k < length ?sizes" for k
    proof (cases k)
      case 0
      then show ?thesis using S(2) ls lb by (simp add: packet_in_def)
    next
      case (Suc j)
      then show ?thesis using r(4) that by (simp add: packet_in_def)
    qed
    with g r i show ?thesis by (intro exI [of _ ?bs] exI [of _ ?sizes]) auto
  qed
qed


lemma concat_chunks: "concat (map (\<lambda>k. take g (drop (k * g) xs)) [0 ..< m]) = take (m * g) xs"
proof (induction m)
  case (Suc m)
  have "Suc m * g = m * g + g" by simp
  then have "take (Suc m * g) xs = take (m * g) xs @ take g (drop (m * g) xs)" by (simp only: take_add)
  with Suc show ?case by (simp del: mult_Suc)
qed simp

lemma gsoSplit_spec:
  assumes ok: "gso_ok pkt hdr isV6" and bufs: "\<forall>b \<in> set bufs. off + unat (vh_hdrLen hdr) + unat (vh_gsoSize hdr) \<le> length b"
    and sizes: "length bufs \<le> length sizes"
  shows "\<exists>bs' sizes'. gsoSplit le pkt hdr bufs sizes off isV6 = Some (bs', sizes', loop_result pkt hdr (length bufs)) \<and>
    (\<forall>k < min (cuts pkt hdr) (length bufs). cut_of le hdr isV6 pkt k (packet_in bs' sizes' off k))"
proof -
  obtain bs' new where r: "gso_loop le (clear_checksums hdr isV6 pkt) hdr isV6 off 0 (unat (vh_hdrLen hdr)) bufs
      = Some (bs', new, loop_result pkt hdr (length bufs))"
    "length new = min (cuts pkt hdr) (length bufs)" "\<forall>k < length new. cut_of le hdr isV6 pkt k (packet_in bs' new off k)"
    using gso_loop_spec [OF ok bufs, of 0 le] by auto
  note G = gso_okD [OF ok]
  have "length new \<le> length sizes" using r(2) sizes by simp
  then have "packet_in bs' (copy_into sizes new) off k = packet_in bs' new off k" if "k < length new" for k
    using that by (simp add: packet_in_def copy_into_def nth_append)
  moreover have "\<not> (\<not> isV6 \<and> length pkt < 12 \<or> length pkt < transportCsumAt hdr + 2
       \<or> gso_protocol hdr = IPPROTO_TCP \<and> length pkt < unat (vh_csumStart hdr) + 8 \<or> length sizes < length bufs)"
    using G sizes by auto
  ultimately show ?thesis using r by (cases "loop_result pkt hdr (length bufs)") (auto simp: gsoSplit_def)
qed

text \<open>C39. Cutting a segment into packets is right. With buffers enough, \<open>gsoSplit\<close> returns the number of
  packets; packet \<open>k\<close> carries the \<open>k\<close>-th chunk of the payload behind the headers of the segment, with its own
  lengths, identification, sequence number, flags and valid checksums; and the payloads make up the payload of
  the segment.\<close>

theorem gso_split_correct:
  assumes "gso_ok pkt hdr isV6" "\<forall>b \<in> set bufs. off + unat (vh_hdrLen hdr) + unat (vh_gsoSize hdr) \<le> length b"
    "length bufs \<le> length sizes" "cuts pkt hdr \<le> length bufs"
  shows "\<exists>bs' sizes'. gsoSplit le pkt hdr bufs sizes off isV6 = Some (bs', sizes', int (cuts pkt hdr), None) \<and>
    (\<forall>k < cuts pkt hdr. cut_of le hdr isV6 pkt k (packet_in bs' sizes' off k)) \<and>
    concat (map (\<lambda>k. drop (unat (vh_hdrLen hdr)) (packet_in bs' sizes' off k)) [0 ..< cuts pkt hdr]) = drop (unat (vh_hdrLen hdr)) pkt"
proof -
  let ?h = "unat (vh_hdrLen hdr)" and ?g = "unat (vh_gsoSize hdr)" and ?m = "cuts pkt hdr"
  obtain bs' sizes' where r: "gsoSplit le pkt hdr bufs sizes off isV6 = Some (bs', sizes', int ?m, None)"
    "\<forall>k < ?m. cut_of le hdr isV6 pkt k (packet_in bs' sizes' off k)"
    using gsoSplit_spec [OF assms(1-3), of le] assms(4) by (auto simp: loop_result_def)
  have "map (\<lambda>k. drop ?h (packet_in bs' sizes' off k)) [0 ..< ?m] = map (\<lambda>k. take ?g (drop (k * ?g) (drop ?h pkt))) [0 ..< ?m]"
    using r(2) by (simp add: cut_of_def)
  moreover have "length (drop ?h pkt) \<le> ?m * ?g"
    using cuts_iff [of hdr pkt ?m] gso_okD(4,6) [OF assms(1)] by auto
  ultimately have "concat (map (\<lambda>k. drop ?h (packet_in bs' sizes' off k)) [0 ..< ?m]) = drop ?h pkt"
    by (simp only: concat_chunks take_all)
  with r show ?thesis by blast
qed

text \<open>With too few buffers every buffer is filled with the packet due there, but the number returned beside
  \<open>ErrTooManySegments\<close> leaves the last of them out.\<close>

theorem gso_split_overflow:
  assumes "gso_ok pkt hdr isV6" "\<forall>b \<in> set bufs. off + unat (vh_hdrLen hdr) + unat (vh_gsoSize hdr) \<le> length b"
    "length bufs \<le> length sizes" "length bufs < cuts pkt hdr"
  shows "\<exists>bs' sizes'. gsoSplit le pkt hdr bufs sizes off isV6 = Some (bs', sizes', int (length bufs) - 1, Some ErrTooManySegments) \<and>
    (\<forall>k < length bufs. cut_of le hdr isV6 pkt k (packet_in bs' sizes' off k))"
  using gsoSplit_spec [OF assms(1-3), of le] assms(4) by (auto simp: loop_result_def)

text \<open>A TCP segment with five bytes of payload, to be cut into packets of two.\<close>

definition small_segment :: bytes where
  "small_segment = [0x45, 0, 0, 45, 0, 7, 0, 0, 64, 6, 0, 0, 10, 0, 0, 1, 10, 0, 0, 2] @
     [0, 80, 0, 81, 255, 255, 255, 254, 0, 0, 0, 1, 0x50, 0x18, 0, 1, 0, 0, 0, 0] @ [1, 2, 3, 4, 5]"

definition small_header :: virtioNetHdr where
  "small_header = \<lparr>vh_flags = 1, vh_gsoType = VIRTIO_NET_HDR_GSO_TCPV4, vh_hdrLen = 40, vh_gsoSize = 2, vh_csumStart = 20, vh_csumOffset = 16\<rparr>"

lemma small_ok: "gso_ok small_segment small_header False" "cuts small_segment small_header = 3"
  by (simp_all add: gso_ok_def small_header_def small_segment_def gso_protocol_def gso_consts cuts_def maxUint16_def)

lemma small_parts [simp]: "vh_hdrLen small_header = 40" "vh_gsoSize small_header = 2" "drop 40 small_segment = [1, 2, 3, 4, 5]"
  by (simp_all add: small_header_def small_segment_def)

theorem gso_split_correct_witness:
  "\<exists>bs sizes. gsoSplit True small_segment small_header (replicate 3 (replicate 64 0)) [0, 0, 0] 16 False = Some (bs, sizes, 3, None) \<and>
    concat (map (\<lambda>k. drop 40 (packet_in bs sizes 16 k)) [0 ..< 3]) = [1, 2, 3, 4, 5]"
proof -
  let ?bufs = "replicate 3 (replicate 64 0)"
  have "\<forall>b \<in> set ?bufs. 16 + unat (vh_hdrLen small_header) + unat (vh_gsoSize small_header) \<le> length b" by simp
  from gso_split_correct [OF small_ok(1) this, of "[0, 0, 0]" True] show ?thesis by (auto simp: small_ok(2) simp del: upt.simps)
qed

theorem gso_split_overflow_witness:
  "\<exists>bs sizes. gsoSplit True small_segment small_header (replicate 2 (replicate 64 0)) [0, 0] 16 False = Some (bs, sizes, 1, Some ErrTooManySegments) \<and>
    drop 40 (packet_in bs sizes 16 1) = [3, 4]"
proof -
  let ?bufs = "replicate 2 (replicate 64 0)"
  have "\<forall>b \<in> set ?bufs. 16 + unat (vh_hdrLen small_header) + unat (vh_gsoSize small_header) \<le> length b" by simp
  from gso_split_overflow [OF small_ok(1) this, of "[0, 0]" True] obtain bs sizes where
    r: "gsoSplit True small_segment small_header ?bufs [0, 0] 16 False = Some (bs, sizes, 1, Some ErrTooManySegments)"
    "\<forall>k < 2. cut_of True small_header False small_segment k (packet_in bs sizes 16 k)"
    by (auto simp: small_ok(2))
  then have "cut_of True small_header False small_segment 1 (packet_in bs sizes 16 1)" by simp
  then have "drop 40 (packet_in bs sizes 16 1) = [3, 4]" by (simp add: cut_of_def)
  with r(1) show ?thesis by blast
qed

section \<open>The header and the single packet\<close>

lemma native_16: "native_get16 le (native_put16 le w @ b) = w" "length (native_put16 le w) = 2"
  using unat_u16_less [of w] by (simp_all add: native_get16_def native_put16_def native_nat_def)

text \<open>The virtio header is read back as it was written.\<close>

lemma decode_encode: "virtioNetHdrLen \<le> length b \<Longrightarrow> \<exists>b'. encode le v b = Some b' \<and> decode le b' = Some v \<and> drop virtioNetHdrLen b' = drop virtioNetHdrLen b"
  by (cases v) (simp add: encode_def decode_def virtioNetHdrLen_def native_16)

text \<open>The checksum of a single packet comes out right over its transport part and the sum that was left in it.\<close>

lemma gsoNoneChecksum_right:
  assumes "gsoNoneChecksum le pkt start off = Some out" "even (unat off)" "unat start + unat off < 65536"
  shows "checksum le (drop (unat start) out) (ucast (get_u16_be (drop (unat start + unat off) pkt))) = - 1"
proof -
  let ?s = "unat start" and ?o = "unat off" and ?i = "ucast (get_u16_be (drop (unat start + unat off) pkt)) :: u64"
  have at: "unat (start + off) = ?s + ?o" using assms(3) by (simp add: unat_word_ariths)
  let ?p = "put_at (?s + ?o) [0, 0] pkt"
  have l: "?s + ?o + 2 \<le> length pkt" and out: "out = put_at (?s + ?o) (put_u16_be (NOT (checksum le (drop ?s ?p) ?i))) ?p"
    using assms(1) by (auto simp: gsoNoneChecksum_def at Let_def split: if_splits)
  have "drop ?s out = put_at ?o (put_u16_be (NOT (checksum le (drop ?s ?p) ?i))) (drop ?s ?p)"
    using l by (simp add: out drop_put_at_before)
  then show ?thesis using put_at_zeros [OF l] l assms(2) by (simp add: filled_at)
qed

end
