(* ===== verification/Pieces.thy ===== *)
theory Pieces
  imports Prelude
begin

text \<open>
  A byte string cut into pieces of one size, of which the last may be shorter, and joined again: the rule by which
  the kernel cuts what is written to a socket or to the TUN device, and joins what is read.
\<close>

definition pieces :: "nat \<Rightarrow> bytes \<Rightarrow> bytes list" where
  "pieces g bs = map (\<lambda>k. take g (drop (k * g) bs)) [0 ..< (length bs + g - 1) div g]"

lemma pieces_Nil [simp]: "pieces g [] = []"
  by (cases "g = 0") (simp_all add: pieces_def)

lemma pieces_step:
  assumes "0 < g" "bs \<noteq> []"
  shows "pieces g bs = take g bs # pieces g (drop g bs)"
proof -
  let ?n = "(length (drop g bs) + g - 1) div g"
  have "(length bs + g - 1) div g = Suc ?n"
  proof -
    have "0 < length bs" using assms(2) by simp
    show ?thesis
    proof (cases "g \<le> length bs")
      case True
      then have e: "length bs + g - 1 = (length (drop g bs) + g - 1) + g" using assms by simp
      show ?thesis unfolding e using assms(1) by (subst div_add_self2) simp_all
    next
      case False
      then have e: "length bs + g - 1 = (length bs - 1) + g" using \<open>0 < length bs\<close> by linarith
      have e': "length bs - 1 < g" "length (drop g bs) + g - 1 < g" using False assms(1) by auto
      show ?thesis unfolding e using e' assms(1) by (subst div_add_self2) simp_all
    qed
  qed
  then have "pieces g bs = map (\<lambda>k. take g (drop (k * g) bs)) [0 ..< Suc ?n]" by (simp only: pieces_def)
  also have "\<dots> = take g bs # map (\<lambda>k. take g (drop (Suc k * g) bs)) [0 ..< ?n]"
    by (simp add: upt_conv_Cons map_Suc_upt [symmetric] comp_def del: upt_Suc)
  also have "map (\<lambda>k. take g (drop (Suc k * g) bs)) [0 ..< ?n] = pieces g (drop g bs)"
    by (simp add: pieces_def add.commute)
  finally show ?thesis .
qed

lemma pieces_concat:
  "gs \<noteq> [] \<Longrightarrow> \<forall>b \<in> set (butlast gs). length b = g \<Longrightarrow> last gs \<noteq> [] \<Longrightarrow> length (last gs) \<le> g \<Longrightarrow> pieces g (concat gs) = gs"
proof (induction gs)
  case (Cons b gs)
  have g: "0 < g" using Cons.prems(3,4) by (cases "last (b # gs)") auto
  show ?case
  proof (cases "gs = []")
    case True
    then show ?thesis using Cons.prems g by (simp add: pieces_step)
  next
    case False
    then have "length b = g" using Cons.prems(2) by simp
    moreover have "pieces g (concat gs) = gs" using Cons False by simp
    ultimately show ?thesis using g by (subst pieces_step) auto
  qed
qed simp

end
