(* ===== verification/Gro_Items.thy ===== *)
theory Gro_Items
  imports Gro Gso_Facts Pieces "HOL-Library.Multiset"
begin

text \<open>
  An item of the tables of \<open>tun/offload_linux.go\<close>: the packets that are joined in its buffer, as the two joining
  routines keep it. The header is the first packet's, the payloads follow one another in pieces of one size.
\<close>

section \<open>Groups of packets\<close>

text \<open>The packets \<open>js\<close> of a batch \<open>P\<close> joined behind a header of \<open>H\<close> bytes: all but the last carry \<open>g\<close> bytes
  of payload, and the last no more and some.\<close>

definition packet_group :: "nat \<Rightarrow> (nat \<Rightarrow> bytes) \<Rightarrow> nat \<Rightarrow> nat list \<Rightarrow> bytes \<Rightarrow> bool" where
  "packet_group H P g js pkt \<longleftrightarrow> js \<noteq> [] \<and> H \<le> length pkt \<and> drop H pkt = concat (map (\<lambda>j. drop H (P j)) js) \<and>
     (\<forall>j \<in> set (butlast js). length (P j) = H + g) \<and> H < length (P (last js)) \<and> length (P (last js)) \<le> H + g"

lemma group_single: "H < length (P i) \<Longrightarrow> packet_group H P (length (P i) - H) [i] (P i)"
  by (simp add: packet_group_def)

lemma group_header: "packet_group H P g js pkt \<Longrightarrow> H \<le> length pkt' \<Longrightarrow> drop H pkt' = drop H pkt \<Longrightarrow> packet_group H P g js pkt'"
  by (simp add: packet_group_def)

lemma length_payloads: "\<forall>j \<in> set is. length (P j) = H + g \<Longrightarrow> length (concat (map (\<lambda>j. drop H (P j)) is)) = length is * g"
  by (induction "is") auto

lemma groupE:
  assumes "packet_group H P g js pkt"
  obtains "is" l where "js = is @ [l]" "H \<le> length pkt" "drop H pkt = concat (map (\<lambda>j. drop H (P j)) is) @ drop H (P l)"
    "\<forall>j \<in> set is. length (P j) = H + g" "H < length (P l)" "length (P l) \<le> H + g"
    "length pkt = H + length is * g + (length (P l) - H)" "0 < g"
proof (cases js rule: rev_cases)
  case Nil
  with assms show ?thesis by (simp add: packet_group_def)
next
  case (snoc "is" l)
  then have g: "H \<le> length pkt" "drop H pkt = concat (map (\<lambda>j. drop H (P j)) is) @ drop H (P l)"
    "\<forall>j \<in> set is. length (P j) = H + g" "H < length (P l)" "length (P l) \<le> H + g"
    using assms by (simp_all add: packet_group_def)
  have "length (drop H pkt) = length is * g + (length (P l) - H)" unfolding g(2) using length_payloads [OF g(3)] by simp
  then show ?thesis using that [OF snoc g] g(1,4,5) by simp
qed

lemma group_length:
  assumes "packet_group H P g js pkt"
  shows "length js \<le> length pkt - H" "(length js - 1) * g < length pkt - H" "length pkt - H \<le> length js * g" "0 < g"
proof -
  obtain "is" l where g: "js = is @ [l]" "H < length (P l)" "length (P l) \<le> H + g" "length pkt = H + length is * g + (length (P l) - H)" "0 < g"
    using assms by (rule groupE)
  have m: "length is \<le> length is * g" using g(5) by simp
  have e: "length pkt - H = length is * g + (length (P l) - H)" using g(2,4) by simp
  have j: "length js = Suc (length is)" "length js * g = g + length is * g" using g(1) by simp_all
  show "length js \<le> length pkt - H" using e j(1) g(2) m by linarith
  show "(length js - 1) * g < length pkt - H" using e j(1) g(2) by simp
  show "length pkt - H \<le> length js * g" unfolding e j(2) using g(3) by linarith
  show "0 < g" by (rule g(5))
qed

lemma group_full:
  assumes "packet_group H P g js pkt" "g dvd length pkt - H"
  shows "length pkt = H + length js * g" "length (P (last js)) = H + g"
proof -
  obtain "is" l where g: "js = is @ [l]" "H < length (P l)" "length (P l) \<le> H + g" "length pkt = H + length is * g + (length (P l) - H)" "0 < g"
    using assms(1) by (rule groupE)
  have "g dvd length (P l) - H" using assms(2) g(4) by (simp add: dvd_add_right_iff)
  then have "length (P l) - H = g" using g(2,3) by (auto dest: dvd_imp_le)
  with g show "length pkt = H + length js * g" "length (P (last js)) = H + g" by simp_all
qed

lemma group_append:
  assumes "packet_group H P g js pkt" "g dvd length pkt - H" "H < length (P i)" "length (P i) \<le> H + g"
  shows "packet_group H P g (js @ [i]) (pkt @ drop H (P i))"
proof -
  obtain "is" l where "js = is @ [l]" "H \<le> length pkt" "drop H pkt = concat (map (\<lambda>j. drop H (P j)) is) @ drop H (P l)"
    "\<forall>j \<in> set is. length (P j) = H + g"
    using assms(1) by (rule groupE)
  with assms(3,4) group_full [OF assms(1,2)] show ?thesis by (auto simp: packet_group_def butlast_append)
qed

lemma group_prepend:
  assumes "packet_group H P g js pkt" "H < length (P i)" "length (P i) - H = g \<or> g < length (P i) - H \<and> length js = 1"
  shows "packet_group H P (length (P i) - H) (i # js) (P i @ drop H pkt)"
proof -
  obtain "is" l where g: "js = is @ [l]" "H \<le> length pkt" "drop H pkt = concat (map (\<lambda>j. drop H (P j)) is) @ drop H (P l)"
    "\<forall>j \<in> set is. length (P j) = H + g" "H < length (P l)" "length (P l) \<le> H + g"
    using assms(1) by (rule groupE)
  then show ?thesis using assms(2,3) by (auto simp: packet_group_def butlast_append)
qed

lemma group_cut:
  assumes "packet_group H P g js pkt" "k < length js"
  shows "drop H (P (js ! k)) = take g (drop (k * g) (drop H pkt))"
proof -
  obtain "is" l where g: "js = is @ [l]" "drop H pkt = concat (map (\<lambda>j. drop H (P j)) is) @ drop H (P l)"
    "\<forall>j \<in> set is. length (P j) = H + g" "length (P l) \<le> H + g"
    using assms(1) by (rule groupE)
  show ?thesis
  proof (cases "k < length is")
    case True
    let ?f = "\<lambda>j. drop H (P j)"
    have "concat (map ?f is) = concat (map ?f (take k is)) @ ?f (is ! k) @ concat (map ?f (drop (Suc k) is))"
      by (subst id_take_nth_drop [OF True]) simp
    moreover have "length (concat (map ?f (take k is))) = k * g"
      using length_payloads [of "take k is" P H g] g(3) True by (auto dest: in_set_takeD)
    moreover have "length (?f (is ! k)) = g" using g(3) True by simp
    ultimately show ?thesis using g True by (simp add: nth_append)
  next
    case False
    then have "k = length is" using assms(2) g(1) by simp
    then show ?thesis using g length_payloads [OF g(3)] by simp
  qed
qed

section \<open>TCP items\<close>

definition ip_length :: "bool \<Rightarrow> nat" where "ip_length isV6 = (if isV6 then 40 else 20)"

definition tcp_key :: "bool \<Rightarrow> bytes \<Rightarrow> tcpFlowKey" where
  "tcp_key isV6 pkt = (let (s, d) = addr_offsets isV6 in newTCPFlowKey pkt s d (ip_length isV6))"

definition tcp_seq :: "bool \<Rightarrow> bytes \<Rightarrow> u32" where "tcp_seq isV6 pkt = get_u32_be (drop (ip_length isV6 + 4) pkt)"

lemma fk_isV6_tcp_key [simp]: "fk_isV6 (tcp_key isV6 pkt) = isV6"
  by (auto simp: tcp_key_def newTCPFlowKey_def addr_offsets_def ipv4SrcAddrOffset_def ipv6SrcAddrOffset_def Let_def)

text \<open>Packets that follow one another in the sequence space, from \<open>s\<close> on.\<close>

definition tcp_run :: "bool \<Rightarrow> nat \<Rightarrow> (nat \<Rightarrow> bytes) \<Rightarrow> nat list \<Rightarrow> u32 \<Rightarrow> bool" where
  "tcp_run isV6 H P js s \<longleftrightarrow> (\<forall>k < length js. tcp_seq isV6 (P (js ! k)) = s + word_of_nat (\<Sum>j \<leftarrow> take k js. length (P j) - H))"

lemma tcp_run_single: "tcp_run isV6 H P [i] (tcp_seq isV6 (P i))"
  by (simp add: tcp_run_def)

lemma tcp_run_append:
  assumes "tcp_run isV6 H P js s" "tcp_seq isV6 (P i) = s + word_of_nat (\<Sum>j \<leftarrow> js. length (P j) - H)"
  shows "tcp_run isV6 H P (js @ [i]) s"
  using assms by (auto simp: tcp_run_def nth_append less_Suc_eq)

lemma tcp_run_prepend:
  assumes "tcp_run isV6 H P js s" "tcp_seq isV6 (P i) + word_of_nat (length (P i) - H) = s"
  shows "tcp_run isV6 H P (i # js) (tcp_seq isV6 (P i))"
  unfolding tcp_run_def
proof (intro allI impI)
  fix k assume "k < length (i # js)"
  then show "tcp_seq isV6 (P ((i # js) ! k)) = tcp_seq isV6 (P i) + word_of_nat (\<Sum>j \<leftarrow> take k (i # js). length (P j) - H)"
    using assms by (cases k) (auto simp: tcp_run_def ac_simps)
qed

lemma group_sum: "packet_group H P g js pkt \<Longrightarrow> (\<Sum>j \<leftarrow> js. length (P j) - H) = length pkt - H"
proof -
  assume "packet_group H P g js pkt"
  then have "length (drop H pkt) = length (concat (map (\<lambda>j. drop H (P j)) js))" by (simp only: packet_group_def)
  then show ?thesis by (simp add: length_concat comp_def)
qed

text \<open>Two headers that agree but for the bytes at some places.\<close>

definition same_header :: "nat set \<Rightarrow> nat \<Rightarrow> bytes \<Rightarrow> bytes \<Rightarrow> bool" where
  "same_header X H pkt pkt' \<longleftrightarrow> (\<forall>k < H. k \<notin> X \<longrightarrow> pkt ! k = pkt' ! k)"

lemma same_header_refl [simp]: "same_header X H pkt pkt"
  by (simp add: same_header_def)

lemma same_header_trans: "same_header X H a b \<Longrightarrow> same_header X H b c \<Longrightarrow> same_header X H a c"
  by (simp add: same_header_def)

lemma same_header_append: "H \<le> length pkt \<Longrightarrow> same_header X H (pkt @ bs) pkt' = same_header X H pkt pkt'"
  by (auto simp: same_header_def nth_append)

lemma same_header_update: "k \<in> X \<Longrightarrow> same_header X H (pkt[k := x]) pkt"
  unfolding same_header_def by (metis nth_list_update_neq)

text \<open>An item of the table: the packets \<open>parts w\<close> are joined in the buffer \<open>w\<close>.\<close>

definition tcp_header :: "tcpGROItem \<Rightarrow> nat" where
  "tcp_header it = ip_length (fk_isV6 (ti_key it)) + unat (ti_tcphLen it)"

definition tcp_item_ok :: "bool \<Rightarrow> (nat \<Rightarrow> bytes) \<Rightarrow> tcpGROItem \<Rightarrow> nat list \<Rightarrow> bytes \<Rightarrow> bool" where
  "tcp_item_ok le P it js pkt \<longleftrightarrow>
     unat (ti_iphLen it) = ip_length (fk_isV6 (ti_key it)) \<and> 20 \<le> unat (ti_tcphLen it) \<and> unat (ti_tcphLen it) \<le> 60 \<and>
     packet_group (tcp_header it) P (unat (ti_gsoSize it)) js pkt \<and> length pkt \<le> maxUint16 \<and>
     length js = Suc (unat (ti_numMerged it)) \<and> (length js = 1 \<longrightarrow> js = [ti_bufsIndex it] \<and> pkt = P (ti_bufsIndex it)) \<and>
     (1 < length js \<longrightarrow> (\<forall>j \<in> set js. checksumValid le (P j) (unat (ti_iphLen it)) IPPROTO_TCP (fk_isV6 (ti_key it)))) \<and>
     same_header {ip_length (fk_isV6 (ti_key it)) + tcpFlagsOffset} (tcp_header it) pkt (P (hd js)) \<and>
     tcp_run (fk_isV6 (ti_key it)) (tcp_header it) P js (ti_sentSeq it) \<and>
     (\<forall>j \<in> set js. tcp_key (fk_isV6 (ti_key it)) (P j) = ti_key it)"

lemma tcp_headers_len:
  assumes "tcp_item_ok le P it js pkt"
  shows "unat (ti_iphLen it + ti_tcphLen it) = tcp_header it" "tcp_header it \<le> 100" "34 \<le> tcp_header it"
    "ip_length (fk_isV6 (ti_key it)) + 20 \<le> tcp_header it"
  using assms by (auto simp: tcp_item_ok_def tcp_header_def ip_length_def unat_word_ariths split: if_splits)

text \<open>A packet that may be joined, with its header lengths.\<close>

definition tcp_pkt_ok :: "bool \<Rightarrow> bytes \<Rightarrow> nat \<Rightarrow> bool" where
  "tcp_pkt_ok isV6 pkt tcphLen \<longleftrightarrow> 20 \<le> tcphLen \<and> tcphLen \<le> 60 \<and> ip_length isV6 + tcphLen < length pkt \<and> length pkt \<le> maxUint16"

lemma u16_len: "n \<le> maxUint16 \<Longrightarrow> unat (word_of_nat n :: u16) = n"
  by (simp add: unat_of_nat maxUint16_def)

lemma u8_len: "n \<le> 255 \<Longrightarrow> unat (word_of_nat n :: byte) = n"
  by (simp add: unat_of_nat)

lemma tcp_item_new:
  assumes "tcp_pkt_ok isV6 (P i) tcphLen" "addr_offsets isV6 = (srcAt, dstAt)"
    and it_def: "it = \<lparr>ti_key = newTCPFlowKey (P i) srcAt dstAt (ip_length isV6), ti_sentSeq = get_u32_be (drop (ip_length isV6 + 4) (P i)),
     ti_bufsIndex = i, ti_numMerged = 0, ti_gsoSize = word_of_nat (length (drop (ip_length isV6 + tcphLen) (P i))),
     ti_iphLen = word_of_nat (ip_length isV6), ti_tcphLen = word_of_nat tcphLen, ti_pshSet = b\<rparr>"
  shows "tcp_item_ok le P it [i] (P i)" "ti_key it = tcp_key isV6 (P i)" "ti_bufsIndex it = i"
proof -
  show k: "ti_key it = tcp_key isV6 (P i)" using assms(2) by (simp add: it_def tcp_key_def)
  have v: "fk_isV6 (ti_key it) = isV6" by (simp add: k)
  have w: "unat (ti_tcphLen it) = tcphLen" "unat (ti_iphLen it) = ip_length isV6"
    using assms(1) by (simp_all add: it_def u8_len tcp_pkt_ok_def ip_length_def)
  have H: "tcp_header it = ip_length isV6 + tcphLen" by (simp add: tcp_header_def v w)
  have gs: "ti_gsoSize it = word_of_nat (length (P i) - (ip_length isV6 + tcphLen))"
    by (simp only: it_def tcpGROItem.simps length_drop)
  have g: "unat (ti_gsoSize it) = length (P i) - tcp_header it"
    unfolding H gs by (rule u16_len) (use assms(1) in \<open>unfold tcp_pkt_ok_def, linarith\<close>)
  have "packet_group (tcp_header it) P (unat (ti_gsoSize it)) [i] (P i)"
    unfolding g using assms(1) by (intro group_single) (simp add: H tcp_pkt_ok_def)
  moreover have "tcp_run isV6 (tcp_header it) P [i] (ti_sentSeq it)"
    using tcp_run_single by (simp add: it_def tcp_seq_def tcp_run_def)
  ultimately show "tcp_item_ok le P it [i] (P i)"
    using assms(1) k by (simp add: tcp_item_ok_def v w tcp_pkt_ok_def) (simp add: it_def tcp_seq_def)
  show "ti_bufsIndex it = i" by (simp add: it_def)
qed


text \<open>What the tests on the two packets say.\<close>

lemma can_append:
  assumes "tcpPacketsCanCoalesce pkt iphLen tcphLen seq pshSet gsoSize it bufs off = coalesceAppend"
  shows "tcphLen = ti_tcphLen it" "seq = ti_sentSeq it + ucast (ti_gsoSize it + ti_numMerged it * ti_gsoSize it)"
    "unat (ti_gsoSize it) dvd length (drop (unat (iphLen + tcphLen)) (packet_at bufs off (ti_bufsIndex it)))" "gsoSize \<le> ti_gsoSize it"
    "\<not> ti_pshSet it"
  using assms unfolding tcpPacketsCanCoalesce_def Let_def by (simp_all add: dvd_eq_mod_eq_0 not_less split: if_splits)

lemma can_prepend:
  assumes "tcpPacketsCanCoalesce pkt iphLen tcphLen seq pshSet gsoSize it bufs off = coalescePrepend"
  shows "tcphLen = ti_tcphLen it" "seq + ucast gsoSize = ti_sentSeq it" "gsoSize = ti_gsoSize it \<or> ti_gsoSize it < gsoSize \<and> ti_numMerged it = 0"
    "\<not> pshSet"
  using assms unfolding tcpPacketsCanCoalesce_def Let_def by (auto simp: not_less word_gt_0 split: if_splits)

lemma numMerged_next:
  assumes "length js = Suc (unat (m :: u16))" "length js < 65535"
  shows "unat (m + 1) = Suc (unat m)"
  using assms by (simp add: unat_word_ariths)

lemma ucast_unat: "(ucast (x :: u16) :: u32) = word_of_nat (unat x)"
  by simp

lemma tcp_item_valid:
  assumes it: "tcp_item_ok le P it js pkt" "ti_numMerged it = 0 \<Longrightarrow> checksumValid le pkt (unat (ti_iphLen it)) IPPROTO_TCP (fk_isV6 (ti_key it))"
  shows "\<forall>j \<in> set js. checksumValid le (P j) (unat (ti_iphLen it)) IPPROTO_TCP (fk_isV6 (ti_key it))"
proof (cases "ti_numMerged it = 0")
  case True
  then have "length js = 1" using it(1) by (simp add: tcp_item_ok_def)
  then have "js = [ti_bufsIndex it]" "pkt = P (ti_bufsIndex it)" using it(1) by (simp_all add: tcp_item_ok_def)
  then show ?thesis using it(2) [OF True] by simp
next
  case False
  then have "1 < length js" using it(1) by (auto simp: tcp_item_ok_def unat_gt_0)
  then show ?thesis using it(1) unfolding tcp_item_ok_def by blast
qed

lemma tcp_item_append:
  assumes it: "tcp_item_ok le P it js pkt" and p: "tcp_pkt_ok isV6 (P i) thl" "isV6 = fk_isV6 (ti_key it)" "tcp_key isV6 (P i) = ti_key it"
    and can: "tcpPacketsCanCoalesce (P i) (word_of_nat (ip_length isV6)) (word_of_nat thl) (tcp_seq isV6 (P i)) psh
      (word_of_nat (length (P i) - thl - ip_length isV6)) it bufs off = coalesceAppend"
    and pkt: "packet_at bufs off (ti_bufsIndex it) = pkt" and new: "drop (tcp_header it) pkt' = drop (tcp_header it) pkt" "length pkt' = length pkt"
    and len: "length pkt + length (P i) - tcp_header it \<le> maxUint16" and hd': "same_header {ip_length isV6 + tcpFlagsOffset} (tcp_header it) pkt' pkt"
    and valid: "ti_numMerged it = 0 \<Longrightarrow> checksumValid le pkt (unat (ti_iphLen it)) IPPROTO_TCP isV6"
      "checksumValid le (P i) (unat (ti_iphLen it)) IPPROTO_TCP isV6"
  shows "tcp_item_ok le P (merged (word_of_nat (length (P i) - thl - ip_length isV6)) (it\<lparr>ti_pshSet := b\<rparr>)) (js @ [i]) (pkt' @ drop (tcp_header it) (P i))"
proof -
  let ?H = "tcp_header it" and ?g = "unat (ti_gsoSize it)" and ?m = "length (P i) - thl - ip_length isV6"
  note A = can_append [OF can]
  note I = it [unfolded tcp_item_ok_def]
  have thl: "thl = unat (ti_tcphLen it)" using A(1) p(1) by (auto simp: tcp_pkt_ok_def u8_len dest: arg_cong [of _ _ unat])
  have H: "?H = ip_length isV6 + thl" by (simp add: tcp_header_def thl p(2))
  have m: "?m = length (P i) - ?H" "?H < length (P i)" using p(1) unfolding H by (auto simp: tcp_pkt_ok_def)
  have um: "unat (word_of_nat ?m :: u16) = ?m" using p(1) by (intro u16_len) (auto simp: tcp_pkt_ok_def)
  have gr: "packet_group ?H P ?g js pkt" using I by blast
  have "unat (word_of_nat (ip_length isV6) + word_of_nat thl :: byte) = ?H"
    using p(1) unfolding H by (auto simp: unat_word_ariths unat_of_nat tcp_pkt_ok_def ip_length_def)
  then have dv: "?g dvd length pkt - ?H" using A(3) by (simp add: pkt)
  have le: "?m \<le> ?g" using A(4) um by (simp add: word_le_nat_alt)
  have gr2: "packet_group ?H P ?g (js @ [i]) (pkt @ drop ?H (P i))"
    using group_append [OF gr dv m(2)] le m by simp
  have Hp: "?H \<le> length pkt" using gr by (simp add: packet_group_def)
  then have gr': "packet_group ?H P ?g (js @ [i]) (pkt' @ drop ?H (P i))"
    using new by (intro group_header [OF gr2]) simp_all
  note full = group_full [OF gr dv]
  have n: "length js = Suc (unat (ti_numMerged it))" using I by blast
  have "length (pkt' @ drop ?H (P i)) = length pkt + length (P i) - ?H" using new m(2) by simp
  then have len': "length (pkt' @ drop ?H (P i)) \<le> maxUint16" using len by simp
  have "length (js @ [i]) \<le> maxUint16 - ?H" using group_length(1) [OF gr'] len' by simp
  moreover have "34 \<le> ?H" by (rule tcp_headers_len(3) [OF it])
  ultimately have small: "length js < 65535" by (simp add: maxUint16_def)
  have lhs: "unat (ti_gsoSize it + ti_numMerged it * ti_gsoSize it) = length js * ?g"
  proof -
    have "length js * ?g < 65536" using full(1) len' new by (simp add: maxUint16_def)
    then show ?thesis using n by (simp add: unat_word_ariths)
  qed
  have "tcp_seq isV6 (P i) = ti_sentSeq it + word_of_nat (\<Sum>j \<leftarrow> js. length (P j) - ?H)"
    using A(2) unfolding ucast_unat lhs group_sum [OF gr] full(1) by simp
  then have run: "tcp_run isV6 ?H P (js @ [i]) (ti_sentSeq it)" using I p(2) by (intro tcp_run_append) auto
  have mg: "merged (word_of_nat ?m) (it\<lparr>ti_pshSet := b\<rparr>) = it\<lparr>ti_pshSet := b, ti_numMerged := ti_numMerged it + 1\<rparr>"
    using A(4) by (simp add: merged_def not_less [symmetric])
  have "unat (ti_numMerged it + 1) = Suc (unat (ti_numMerged it))" using numMerged_next [OF n small] .
  moreover have "\<forall>j \<in> set (js @ [i]). checksumValid le (P j) (unat (ti_iphLen it)) IPPROTO_TCP isV6"
    using tcp_item_valid [OF it] valid p(2) by auto
  moreover have "same_header {ip_length isV6 + tcpFlagsOffset} ?H (pkt' @ drop ?H (P i)) (P (hd (js @ [i])))"
  proof -
    have "js \<noteq> []" using n by auto
    then show ?thesis using I hd' p(2) Hp new(2) by (auto simp: same_header_append intro: same_header_trans)
  qed
  moreover have "length (js @ [i]) \<noteq> 1" using n by simp
  ultimately show ?thesis
    unfolding mg tcp_item_ok_def tcp_header_def using I n gr' run len' p(2,3)
    by (simp add: tcp_header_def [symmetric])
qed


lemma tcp_item_prepend:
  assumes it: "tcp_item_ok le P it js pkt" and p: "tcp_pkt_ok isV6 (P i) thl" "isV6 = fk_isV6 (ti_key it)" "tcp_key isV6 (P i) = ti_key it"
    and can: "tcpPacketsCanCoalesce (P i) (word_of_nat (ip_length isV6)) (word_of_nat thl) (tcp_seq isV6 (P i)) psh
      (word_of_nat (length (P i) - thl - ip_length isV6)) it bufs off = coalescePrepend"
    and len: "length pkt + length (P i) - tcp_header it \<le> maxUint16"
    and valid: "ti_numMerged it = 0 \<Longrightarrow> checksumValid le pkt (unat (ti_iphLen it)) IPPROTO_TCP isV6"
      "checksumValid le (P i) (unat (ti_iphLen it)) IPPROTO_TCP isV6"
  shows "tcp_item_ok le P (merged (word_of_nat (length (P i) - thl - ip_length isV6)) (it\<lparr>ti_sentSeq := tcp_seq isV6 (P i)\<rparr>))
    (i # js) (P i @ drop (tcp_header it) pkt)"
proof -
  let ?H = "tcp_header it" and ?g = "unat (ti_gsoSize it)" and ?m = "length (P i) - thl - ip_length isV6"
  note A = can_prepend [OF can]
  note I = it [unfolded tcp_item_ok_def]
  have thl: "thl = unat (ti_tcphLen it)" using A(1) p(1) by (auto simp: tcp_pkt_ok_def u8_len dest: arg_cong [of _ _ unat])
  have H: "?H = ip_length isV6 + thl" by (simp add: tcp_header_def thl p(2))
  have m: "?m = length (P i) - ?H" "?H < length (P i)" using p(1) unfolding H by (auto simp: tcp_pkt_ok_def)
  have um: "unat (word_of_nat ?m :: u16) = ?m" using p(1) by (intro u16_len) (auto simp: tcp_pkt_ok_def)
  have gr: "packet_group ?H P ?g js pkt" using I by blast
  have n: "length js = Suc (unat (ti_numMerged it))" using I by blast
  have sizes: "?m = ?g \<or> ?g < ?m \<and> length js = 1"
    using A(3) um n by (auto simp: word_less_nat_alt dest: arg_cong [of _ _ unat])
  have gr': "packet_group ?H P ?m (i # js) (P i @ drop ?H pkt)"
    using group_prepend [OF gr m(2)] sizes unfolding m(1) by blast
  have Hp: "?H \<le> length pkt" using gr by (simp add: packet_group_def)
  then have len': "length (P i @ drop ?H pkt) \<le> maxUint16" using len by simp
  have "length (i # js) \<le> maxUint16 - ?H" using group_length(1) [OF gr'] len' by simp
  moreover have "34 \<le> ?H" by (rule tcp_headers_len(3) [OF it])
  ultimately have small: "length js < 65535" by (simp add: maxUint16_def)
  have "tcp_seq isV6 (P i) + word_of_nat (length (P i) - ?H) = ti_sentSeq it"
    using A(2) unfolding ucast_unat um [unfolded m(1)] unfolding m(1) um [unfolded m(1)] .
  then have run: "tcp_run isV6 ?H P (i # js) (tcp_seq isV6 (P i))" using I p(2) by (intro tcp_run_prepend) auto
  obtain G where mg: "merged (word_of_nat ?m) (it\<lparr>ti_sentSeq := tcp_seq isV6 (P i)\<rparr>)
      = it\<lparr>ti_sentSeq := tcp_seq isV6 (P i), ti_numMerged := ti_numMerged it + 1, ti_gsoSize := G\<rparr>" and G: "unat G = ?m"
  proof
    let ?G = "ti_gsoSize (merged (word_of_nat ?m) (it\<lparr>ti_sentSeq := tcp_seq isV6 (P i)\<rparr>))"
    show "unat ?G = ?m" using sizes um by (auto simp: merged_def word_less_nat_alt)
    show "merged (word_of_nat ?m) (it\<lparr>ti_sentSeq := tcp_seq isV6 (P i)\<rparr>)
      = it\<lparr>ti_sentSeq := tcp_seq isV6 (P i), ti_numMerged := ti_numMerged it + 1, ti_gsoSize := ?G\<rparr>" by (simp add: merged_def)
  qed
  have "unat (ti_numMerged it + 1) = Suc (unat (ti_numMerged it))" using numMerged_next [OF n small] .
  moreover note gr' [folded G]
  moreover have "\<forall>j \<in> set (i # js). checksumValid le (P j) (unat (ti_iphLen it)) IPPROTO_TCP isV6"
    using tcp_item_valid [OF it] valid p(2) by auto
  moreover have "same_header {ip_length isV6 + tcpFlagsOffset} ?H (P i @ drop ?H pkt) (P i)"
    using m(2) by (simp add: same_header_append)
  moreover have "length (i # js) \<noteq> 1" using n by simp
  ultimately show ?thesis
    unfolding mg tcp_item_ok_def tcp_header_def using I n run len' p(2,3)
    by (simp add: tcp_header_def [symmetric])
qed

section \<open>UDP items\<close>

definition udp_key :: "bool \<Rightarrow> bytes \<Rightarrow> udpFlowKey" where
  "udp_key isV6 pkt = (let (s, d) = addr_offsets isV6 in newUDPFlowKey pkt s d (ip_length isV6))"

lemma fk_isV6_udp_key [simp]: "fk_isV6 (udp_key isV6 pkt) = isV6"
  by (auto simp: udp_key_def newUDPFlowKey_def addr_offsets_def ipv4SrcAddrOffset_def ipv6SrcAddrOffset_def Let_def)

definition udp_header :: "udpGROItem \<Rightarrow> nat" where
  "udp_header it = ip_length (fk_isV6 (ui_key it)) + 8"

definition udp_item_ok :: "bool \<Rightarrow> (nat \<Rightarrow> bytes) \<Rightarrow> udpGROItem \<Rightarrow> nat list \<Rightarrow> bytes \<Rightarrow> bool" where
  "udp_item_ok le P it js pkt \<longleftrightarrow>
     unat (ui_iphLen it) = ip_length (fk_isV6 (ui_key it)) \<and>
     packet_group (udp_header it) P (unat (ui_gsoSize it)) js pkt \<and> length pkt \<le> maxUint16 \<and>
     length js = Suc (unat (ui_numMerged it)) \<and> (length js = 1 \<longrightarrow> js = [ui_bufsIndex it] \<and> pkt = P (ui_bufsIndex it)) \<and>
     (1 < length js \<longrightarrow> (\<forall>j \<in> set js. checksumValid le (P j) (unat (ui_iphLen it)) IPPROTO_UDP (fk_isV6 (ui_key it)))) \<and>
     same_header {} (udp_header it) pkt (P (hd js)) \<and> sorted_wrt (<) js \<and> (\<forall>j \<in> set js. udp_key (fk_isV6 (ui_key it)) (P j) = ui_key it)"

lemma udp_headers_len:
  assumes "udp_item_ok le P it js pkt"
  shows "unat (ui_iphLen it + 8) = udp_header it" "udp_header it \<le> 48" "28 \<le> udp_header it"
  using assms by (auto simp: udp_item_ok_def udp_header_def ip_length_def unat_word_ariths split: if_splits)

definition udp_pkt_ok :: "bool \<Rightarrow> bytes \<Rightarrow> bool" where
  "udp_pkt_ok isV6 pkt \<longleftrightarrow> ip_length isV6 + 8 < length pkt \<and> length pkt \<le> maxUint16"

lemma udp_item_new:
  assumes "udp_pkt_ok isV6 (P i)" "addr_offsets isV6 = (srcAt, dstAt)"
    and it_def: "it = \<lparr>ui_key = newUDPFlowKey (P i) srcAt dstAt (ip_length isV6), ui_bufsIndex = i, ui_numMerged = 0,
      ui_gsoSize = word_of_nat (length (drop (ip_length isV6 + udphLen) (P i))), ui_iphLen = word_of_nat (ip_length isV6), ui_cSumKnownInvalid = b\<rparr>"
  shows "udp_item_ok le P it [i] (P i)" "ui_key it = udp_key isV6 (P i)" "ui_bufsIndex it = i"
proof -
  show k: "ui_key it = udp_key isV6 (P i)" using assms(2) by (simp add: it_def udp_key_def)
  have v: "fk_isV6 (ui_key it) = isV6" by (simp add: k)
  have w: "unat (ui_iphLen it) = ip_length isV6" by (simp add: it_def u8_len ip_length_def)
  have H: "udp_header it = ip_length isV6 + udphLen" by (simp add: udp_header_def v udphLen_def)
  have gs: "ui_gsoSize it = word_of_nat (length (P i) - (ip_length isV6 + udphLen))"
    by (simp only: it_def udpGROItem.simps length_drop)
  have g: "unat (ui_gsoSize it) = length (P i) - udp_header it"
    unfolding H gs by (rule u16_len) (use assms(1) in \<open>unfold udp_pkt_ok_def, linarith\<close>)
  have "packet_group (udp_header it) P (unat (ui_gsoSize it)) [i] (P i)"
    unfolding g using assms(1) by (intro group_single) (simp add: H udp_pkt_ok_def udphLen_def)
  then show "udp_item_ok le P it [i] (P i)"
    using assms(1) k by (simp add: udp_item_ok_def v w udp_pkt_ok_def) (simp add: it_def)
  show "ui_bufsIndex it = i" by (simp add: it_def)
qed

lemma udp_can_append:
  assumes "udpPacketsCanCoalesce pkt iphLen gsoSize it bufs off = coalesceAppend"
  shows "unat (ui_gsoSize it) dvd length (drop (unat iphLen + udphLen) (packet_at bufs off (ui_bufsIndex it)))" "gsoSize \<le> ui_gsoSize it"
  using assms unfolding udpPacketsCanCoalesce_def Let_def by (simp_all add: dvd_eq_mod_eq_0 not_less split: if_splits)

lemma udp_item_valid:
  assumes it: "udp_item_ok le P it js pkt" "ui_numMerged it = 0 \<Longrightarrow> checksumValid le pkt (unat (ui_iphLen it)) IPPROTO_UDP (fk_isV6 (ui_key it))"
  shows "\<forall>j \<in> set js. checksumValid le (P j) (unat (ui_iphLen it)) IPPROTO_UDP (fk_isV6 (ui_key it))"
proof (cases "ui_numMerged it = 0")
  case True
  then have "length js = 1" using it(1) by (simp add: udp_item_ok_def)
  then have "js = [ui_bufsIndex it]" "pkt = P (ui_bufsIndex it)" using it(1) by (simp_all add: udp_item_ok_def)
  then show ?thesis using it(2) [OF True] by simp
next
  case False
  then have "1 < length js" using it(1) by (auto simp: udp_item_ok_def unat_gt_0)
  then show ?thesis using it(1) unfolding udp_item_ok_def by blast
qed

lemma udp_item_append:
  assumes it: "udp_item_ok le P it js pkt" and p: "udp_pkt_ok isV6 (P i)" "isV6 = fk_isV6 (ui_key it)" "udp_key isV6 (P i) = ui_key it"
    and can: "udpPacketsCanCoalesce (P i) (word_of_nat (ip_length isV6)) (word_of_nat (length (P i) - udphLen - ip_length isV6)) it bufs off = coalesceAppend"
    and pkt: "packet_at bufs off (ui_bufsIndex it) = pkt"
    and len: "length pkt + length (P i) - udp_header it \<le> maxUint16" and later: "\<forall>j \<in> set js. j < i"
    and valid: "ui_numMerged it = 0 \<Longrightarrow> checksumValid le pkt (unat (ui_iphLen it)) IPPROTO_UDP isV6"
      "checksumValid le (P i) (unat (ui_iphLen it)) IPPROTO_UDP isV6"
  shows "udp_item_ok le P (it\<lparr>ui_numMerged := ui_numMerged it + 1\<rparr>) (js @ [i]) (pkt @ drop (udp_header it) (P i))"
proof -
  let ?H = "udp_header it" and ?g = "unat (ui_gsoSize it)" and ?m = "length (P i) - udphLen - ip_length isV6"
  note A = udp_can_append [OF can]
  note I = it [unfolded udp_item_ok_def]
  have H: "?H = ip_length isV6 + udphLen" by (simp add: udp_header_def p(2) udphLen_def)
  have m: "?m = length (P i) - ?H" "?H < length (P i)" using p(1) unfolding H by (auto simp: udp_pkt_ok_def udphLen_def)
  have um: "unat (word_of_nat ?m :: u16) = ?m" using p(1) by (intro u16_len) (auto simp: udp_pkt_ok_def)
  have gr: "packet_group ?H P ?g js pkt" using I by blast
  have "unat (word_of_nat (ip_length isV6) :: byte) = ip_length isV6" by (intro u8_len) (simp add: ip_length_def)
  then have dv: "?g dvd length pkt - ?H" using A(1) by (simp add: pkt H)
  have le: "?m \<le> ?g" using A(2) um by (simp add: word_le_nat_alt)
  have gr2: "packet_group ?H P ?g (js @ [i]) (pkt @ drop ?H (P i))"
    using group_append [OF gr dv m(2)] le m by simp
  have len': "length (pkt @ drop ?H (P i)) \<le> maxUint16" using len m(2) by simp
  have n: "length js = Suc (unat (ui_numMerged it))" using I by blast
  have "length (js @ [i]) \<le> maxUint16 - ?H" using group_length(1) [OF gr2] len' by simp
  moreover have "28 \<le> ?H" by (rule udp_headers_len(3) [OF it])
  ultimately have small: "length js < 65535" by (simp add: maxUint16_def)
  have "unat (ui_numMerged it + 1) = Suc (unat (ui_numMerged it))" using numMerged_next [OF n small] .
  moreover have "\<forall>j \<in> set (js @ [i]). checksumValid le (P j) (unat (ui_iphLen it)) IPPROTO_UDP isV6"
    using udp_item_valid [OF it] valid p(2) by auto
  moreover have "sorted_wrt (<) (js @ [i])" using I later by (simp add: sorted_wrt_append)
  moreover have "same_header {} ?H (pkt @ drop ?H (P i)) (P (hd (js @ [i])))"
  proof -
    have "js \<noteq> []" using n by auto
    then show ?thesis using I gr by (simp add: same_header_append packet_group_def)
  qed
  moreover have "length (js @ [i]) \<noteq> 1" using n by simp
  ultimately show ?thesis
    unfolding udp_item_ok_def udp_header_def using I n gr2 len' p(2,3)
    by (simp add: udp_header_def [symmetric])
qed

section \<open>Joining two packets\<close>

lemma packet_at_other: "k \<noteq> j \<Longrightarrow> packet_at (bufs[j := b]) off k = packet_at bufs off k"
  by (simp add: packet_at_def)

text \<open>What the two routines do to the buffers: the item's buffer holds the packets \<open>js\<close>, the others but the packet's
  own are as they were, and no buffer grows beyond its capacity.\<close>

definition joins_in :: "nat \<Rightarrow> nat \<Rightarrow> nat \<Rightarrow> Buf list \<Rightarrow> Buf list \<Rightarrow> bool" where
  "joins_in off w i bufs bufs' \<longleftrightarrow> length bufs' = length bufs \<and> (\<forall>k. k \<noteq> w \<and> k \<noteq> i \<longrightarrow> bufs' ! k = bufs ! k) \<and>
     off \<le> length (b_data (bufs' ! w)) \<and> (\<forall>k < length bufs. \<exists>k' < length bufs. b_cap (bufs' ! k) = b_cap (bufs ! k'))"

lemma not_cap_short: "\<not> cap_short bufs off i n \<Longrightarrow> b_cap (bufs ! i) \<le> maxUint16 \<Longrightarrow> n \<le> maxUint16"
  by (simp add: cap_short_def)

lemma coalesceUDPPackets_spec:
  assumes it: "udp_item_ok le P it js (packet_at bufs off w)" "w = ui_bufsIndex it"
    and p: "udp_pkt_ok isV6 (P i)" "isV6 = fk_isV6 (ui_key it)" "udp_key isV6 (P i) = ui_key it" "\<forall>j \<in> set js. j < i"
    and can: "udpPacketsCanCoalesce (P i) (word_of_nat (ip_length isV6)) (word_of_nat (length (P i) - udphLen - ip_length isV6)) it bufs off = coalesceAppend"
    and b: "w < length bufs" "off \<le> length (b_data (bufs ! w))" "\<forall>k < length bufs. b_cap (bufs ! k) \<le> maxUint16"
    and c: "coalesceUDPPackets le (P i) it bufs off isV6 = (res, it', bufs')"
  shows "if res = coalesceSuccess then ui_key it' = ui_key it \<and> ui_bufsIndex it' = w \<and> udp_item_ok le P it' (js @ [i]) (packet_at bufs' off w) \<and> joins_in off w i bufs bufs'
    else it' = it \<and> bufs' = bufs"
proof (cases "res = coalesceSuccess")
  case False
  then show ?thesis using c by (auto simp: coalesceUDPPackets_def Let_def split: if_splits)
next
  case True
  let ?pkt = "packet_at bufs off w"
  have hl: "unat (ui_iphLen it + 8) = udp_header it" by (rule udp_headers_len(1) [OF it(1)])
  have r: "\<not> cap_short bufs off w (length ?pkt + length (P i) - udp_header it)"
    "ui_numMerged it = 0 \<longrightarrow> checksumValid le ?pkt (unat (ui_iphLen it)) IPPROTO_UDP isV6"
    "checksumValid le (P i) (unat (ui_iphLen it)) IPPROTO_UDP isV6"
    "it' = it\<lparr>ui_numMerged := ui_numMerged it + 1\<rparr>" "bufs' = append_data w (drop (udp_header it) (P i)) bufs"
    using c True it(2) by (auto simp: coalesceUDPPackets_def Let_def hl split: if_splits)
  have len: "length ?pkt + length (P i) - udp_header it \<le> maxUint16" using not_cap_short [OF r(1)] b by blast
  have "packet_at bufs' off w = ?pkt @ drop (udp_header it) (P i)"
    using b(1,2) by (simp add: r(5) append_data_def packet_at_def)
  moreover have "joins_in off w i bufs bufs'"
    using b unfolding joins_in_def by (auto simp: r(5) append_data_def nth_list_update)
  ultimately show ?thesis
    using True udp_item_append [OF it(1) p(1-3) can _ len p(4)] r(2,3,4) it(2) by simp
qed

lemma drop_update_before: "k < n \<Longrightarrow> drop n (xs[k := x]) = drop n xs"
  by (simp add: drop_update_cancel)

lemma packet_at_set: "off \<le> length (b_data b) \<Longrightarrow> drop off ((b_data b)[off + k := x]) = (drop off (b_data b))[k := x]"
  by (simp add: drop_update_swap)

lemma coalesceTCPPackets_spec:
  assumes it: "tcp_item_ok le P it js (packet_at bufs off w)" "w = ti_bufsIndex it"
    and p: "tcp_pkt_ok isV6 (P i) thl" "isV6 = fk_isV6 (ti_key it)" "tcp_key isV6 (P i) = ti_key it"
    and can: "tcpPacketsCanCoalesce (P i) (word_of_nat (ip_length isV6)) (word_of_nat thl) (tcp_seq isV6 (P i)) psh
      (word_of_nat (length (P i) - thl - ip_length isV6)) it bufs off = mode" "mode \<noteq> coalesceUnavailable"
    and b: "w < length bufs" "i < length bufs" "w \<noteq> i" "off \<le> length (b_data (bufs ! w))" "off \<le> length (b_data (bufs ! i))"
      "packet_at bufs off i = P i" "\<forall>k < length bufs. b_cap (bufs ! k) \<le> maxUint16"
    and c: "coalesceTCPPackets le mode (P i) i (word_of_nat (length (P i) - thl - ip_length isV6)) (tcp_seq isV6 (P i)) psh it bufs off isV6
      = (res, it', bufs')"
  shows "if res = coalesceSuccess then ti_key it' = ti_key it \<and> ti_bufsIndex it' = w \<and>
      (\<exists>js'. mset js' = add_mset i (mset js) \<and> tcp_item_ok le P it' js' (packet_at bufs' off w)) \<and> joins_in off w i bufs bufs'
    else it' = it \<and> bufs' = bufs \<and> (res = coalesceItemInvalidCSum \<longrightarrow> ti_numMerged it = 0)"
proof (cases "res = coalesceSuccess")
  case False
  then show ?thesis using c by (auto simp: coalesceTCPPackets_def Let_def split: if_splits)
next
  case True
  let ?pkt = "packet_at bufs off w" and ?H = "tcp_header it" and ?g = "word_of_nat (length (P i) - thl - ip_length isV6) :: u16"
  have hl: "unat (ti_iphLen it + ti_tcphLen it) = ?H" by (rule tcp_headers_len(1) [OF it(1)])
  have iph: "unat (ti_iphLen it) = ip_length isV6" using it(1) p(2) by (simp add: tcp_item_ok_def)
  note H = tcp_headers_len(4) [OF it(1)]
  show ?thesis
  proof (cases mode)
    case coalesceUnavailable
    then show ?thesis using can(2) by simp
  next
    case coalescePrepend
    then have r: "\<not> cap_short bufs off i (length ?pkt + length (P i) - ?H)"
      "ti_numMerged it = 0 \<longrightarrow> checksumValid le ?pkt (unat (ti_iphLen it)) IPPROTO_TCP isV6"
      "checksumValid le (P i) (unat (ti_iphLen it)) IPPROTO_TCP isV6"
      "it' = merged ?g (it\<lparr>ti_sentSeq := tcp_seq isV6 (P i)\<rparr>)" "bufs' = swap w i (append_data i (drop ?H ?pkt) bufs)"
      using c True it(2) by (auto simp: coalesceTCPPackets_def Let_def hl split: if_splits)
    have len: "length ?pkt + length (P i) - ?H \<le> maxUint16" using not_cap_short [OF r(1)] b(2,7) by blast
    have pk: "packet_at bufs' off w = P i @ drop ?H ?pkt"
      using b(1,2,3,5,6) by (simp add: r(5) swap_def append_data_def packet_at_def nth_list_update)
    have ok: "tcp_item_ok le P it' (i # js) (packet_at bufs' off w)"
      unfolding pk r(4) using can coalescePrepend r(2,3) by (intro tcp_item_prepend [OF it(1) p _ len]) auto
    have cap: "\<exists>k' < length bufs. b_cap (bufs' ! k) = b_cap (bufs ! k')" if k: "k < length bufs" for k
    proof -
      have "b_cap (bufs' ! k) = b_cap (bufs ! (if k = w then i else if k = i then w else k))"
        using b(1,2,3) k by (simp add: r(5) swap_def append_data_def nth_list_update)
      then show ?thesis using b(1,2) k by (intro exI [of _ "if k = w then i else if k = i then w else k"]) simp
    qed
    have "joins_in off w i bufs bufs'"
      unfolding joins_in_def using b(1-6) cap by (simp add: r(5) swap_def append_data_def nth_list_update)
    moreover have "ti_key it' = ti_key it" "ti_bufsIndex it' = w" using it(2) by (simp_all add: r(4) merged_def)
    ultimately show ?thesis using True ok by (auto intro!: exI [of _ "i # js"])
  next
    case coalesceAppend
    let ?setPSH = "\<lambda>b. b\<lparr>b_data := (b_data b)[off + unat (ti_iphLen it) + tcpFlagsOffset := b_data b ! (off + unat (ti_iphLen it) + tcpFlagsOffset) OR tcpFlagPSH]\<rparr>"
    define b1 where "b1 = (if psh then bufs[w := ?setPSH (bufs ! w)] else bufs)"
    have r: "\<not> cap_short bufs off w (length ?pkt + length (P i) - ?H)"
      "ti_numMerged it = 0 \<longrightarrow> checksumValid le ?pkt (unat (ti_iphLen it)) IPPROTO_TCP isV6"
      "checksumValid le (P i) (unat (ti_iphLen it)) IPPROTO_TCP isV6"
      "it' = merged ?g (it\<lparr>ti_pshSet := (psh \<or> ti_pshSet it)\<rparr>)" "bufs' = append_data w (drop ?H (P i)) b1"
      using c True it(2) coalesceAppend by (auto simp: coalesceTCPPackets_def Let_def hl b1_def split: if_splits)
    have len: "length ?pkt + length (P i) - ?H \<le> maxUint16" using not_cap_short [OF r(1)] b(1,7) by blast
    have l1: "length b1 = length bufs" by (simp add: b1_def)
    have p1: "packet_at b1 off w = (if psh then ?pkt[ip_length isV6 + 13 := b_data (bufs ! w) ! (off + ip_length isV6 + 13) OR tcpFlagPSH] else ?pkt)"
      using b(1,4) packet_at_set [of off "bufs ! w" "ip_length isV6 + 13"] by (simp add: b1_def packet_at_def iph tcpFlagsOffset_def add.assoc)
    have new: "drop ?H (packet_at b1 off w) = drop ?H ?pkt" "length (packet_at b1 off w) = length ?pkt" "same_header {ip_length isV6 + tcpFlagsOffset} ?H (packet_at b1 off w) ?pkt"
      using H p(2) by (simp_all add: p1 drop_update_before same_header_update tcpFlagsOffset_def)
    have le: "off \<le> length (b_data (b1 ! w))" using b(1,4) by (simp add: b1_def)
    have pk: "packet_at bufs' off w = packet_at b1 off w @ drop ?H (P i)"
      using b(1) le l1 by (simp add: r(5) append_data_def packet_at_def)
    have ok: "tcp_item_ok le P it' (js @ [i]) (packet_at bufs' off w)"
      unfolding pk r(4) using can coalesceAppend r(2,3) it(2)
      by (intro tcp_item_append [OF it(1) p _ _ new(1,2) len new(3)]) auto
    have cap: "b_cap (bufs' ! k) = b_cap (bufs ! k)" if "k < length bufs" for k
      using that b(1) by (simp add: r(5) append_data_def b1_def nth_list_update)
    have "joins_in off w i bufs bufs'"
      unfolding joins_in_def using b(1) le l1 cap by (auto simp: r(5) append_data_def b1_def)
    moreover have "ti_key it' = ti_key it" "ti_bufsIndex it' = w" using it(2) by (simp_all add: r(4) merged_def)
    ultimately show ?thesis using True ok by (auto intro!: exI [of _ "js @ [i]"])
  qed
qed

end
