(* ===== verification/Gro_Tables.thy ===== *)
theory Gro_Tables
  imports Gro_Items
begin

text \<open>
  The invariant of a batch while \<open>handleGRO\<close> walks through it: each packet so far is in one of the buffers that will be
  written, and the items of the two tables describe what their buffers hold. Each packet keeps it.
\<close>

section \<open>The tables\<close>

definition all_items :: "('k \<times> 'i list) list \<Rightarrow> 'i list" where
  "all_items t = concat (map snd t)"

definition keyed :: "('i \<Rightarrow> 'k) \<Rightarrow> ('k \<times> 'i list) list \<Rightarrow> bool" where
  "keyed key t \<longleftrightarrow> distinct (map fst t) \<and> (\<forall>k. \<forall>it \<in> set (items_of t k). key it = k)"

lemma items_of_update [simp]: "items_of (AList.update k v t) k' = (if k' = k then v else items_of t k')"
  by (simp add: items_of_def AList.update_conv')

lemma items_of_Cons: "items_of ((k, its) # t) k' = (if k' = k then its else items_of t k')"
  by (simp add: items_of_def)

lemma items_of_new: "k \<notin> fst ` set t \<Longrightarrow> items_of t k = []"
  by (auto simp: items_of_def split: option.splits dest: map_of_SomeD) (force dest: map_of_SomeD)

lemma all_items_update:
  "distinct (map fst t) \<Longrightarrow> mset (all_items (AList.update k v t)) + mset (items_of t k) = mset (all_items t) + mset v"
proof (induction t)
  case Nil
  then show ?case by (simp add: all_items_def items_of_def)
next
  case (Cons p t)
  obtain k' its where p: "p = (k', its)" by (cases p)
  show ?case
  proof (cases "k' = k")
    case True
    then show ?thesis using p Cons.prems by (simp add: all_items_def items_of_Cons)
  next
    case False
    then show ?thesis using p Cons by (simp add: all_items_def items_of_Cons ac_simps)
  qed
qed

lemma keyed_update: "keyed key t \<Longrightarrow> \<forall>it \<in> set v. key it = k \<Longrightarrow> keyed key (AList.update k v t)"
  by (auto simp: keyed_def AList.distinct_update)

lemma keyed_items: "keyed key t \<Longrightarrow> it \<in> set (items_of t k) \<Longrightarrow> key it = k"
  by (auto simp: keyed_def)

lemma items_of_subset: "distinct (map fst t) \<Longrightarrow> mset (items_of t k) \<subseteq># mset (all_items t)"
proof (induction t)
  case Nil
  then show ?case by (simp add: items_of_def)
next
  case (Cons p t)
  then show ?case by (cases p) (auto simp: all_items_def items_of_Cons intro: subset_mset.add_increasing)
qed

text \<open>The three changes to a table.\<close>

lemma mset_exchange:
  assumes "U + S = T + R" "R + X = S + Y"
  shows "U + X = T + (Y :: 'a multiset)"
proof -
  have "U + X + S = U + S + X" by (simp only: ac_simps)
  also have "\<dots> = T + (R + X)" unfolding assms(1) by (simp only: ac_simps)
  also have "\<dots> = T + Y + S" unfolding assms(2) by (simp only: ac_simps)
  finally show ?thesis by simp
qed

lemma all_items_add:
  assumes "keyed key t" "key it = k"
  shows "mset (all_items (AList.update k (items_of t k @ [it]) t)) = add_mset it (mset (all_items t))"
    "keyed key (AList.update k (items_of t k @ [it]) t)"
proof -
  show "mset (all_items (AList.update k (items_of t k @ [it]) t)) = add_mset it (mset (all_items t))"
    using all_items_update [of t k "items_of t k @ [it]"] assms by (simp add: keyed_def)
  show "keyed key (AList.update k (items_of t k @ [it]) t)" using assms by (intro keyed_update) (auto simp: keyed_def)
qed

lemma all_items_replace:
  assumes "keyed key t" "i < length (items_of t k)" "key it = k"
  shows "add_mset (items_of t k ! i) (mset (all_items (AList.update k ((items_of t k)[i := it]) t))) = add_mset it (mset (all_items t))"
    "keyed key (AList.update k ((items_of t k)[i := it]) t)"
proof -
  let ?its = "items_of t k"
  have "?its ! i \<in># mset ?its" using assms(2) by simp
  then have m: "mset (?its[i := it]) + {#?its ! i#} = mset ?its + {#it#}" using assms(2) by (simp add: mset_update)
  have "mset (all_items (AList.update k (?its[i := it]) t)) + mset ?its = mset (all_items t) + mset (?its[i := it])"
    using all_items_update [of t k "?its[i := it]"] assms by (simp add: keyed_def)
  from mset_exchange [OF this m]
  show "add_mset (?its ! i) (mset (all_items (AList.update k (?its[i := it]) t))) = add_mset it (mset (all_items t))" by simp
  show "keyed key (AList.update k (?its[i := it]) t)"
    using assms by (intro keyed_update) (auto simp: keyed_def dest!: subsetD [OF set_update_subset_insert])
qed

lemma all_items_delete:
  assumes "keyed key t" "i < length (items_of t k)"
  shows "add_mset (items_of t k ! i) (mset (all_items (AList.update k (take i (items_of t k) @ drop (Suc i) (items_of t k)) t))) = mset (all_items t)"
    "keyed key (AList.update k (take i (items_of t k) @ drop (Suc i) (items_of t k)) t)"
proof -
  let ?its = "items_of t k"
  have m: "mset (take i ?its @ drop (Suc i) ?its) + {#?its ! i#} = mset ?its"
    using arg_cong [OF id_take_nth_drop [OF assms(2)], of mset] by simp
  have "mset (all_items (AList.update k (take i ?its @ drop (Suc i) ?its) t)) + mset ?its = mset (all_items t) + mset (take i ?its @ drop (Suc i) ?its)"
    using all_items_update [of t k "take i ?its @ drop (Suc i) ?its"] assms by (simp add: keyed_def)
  from mset_exchange [OF this, of "{#?its ! i#}" "{#}"] m
  show "add_mset (?its ! i) (mset (all_items (AList.update k (take i ?its @ drop (Suc i) ?its) t))) = mset (all_items t)" by simp
  show "keyed key (AList.update k (take i ?its @ drop (Suc i) ?its) t)"
    using assms by (intro keyed_update) (auto simp: keyed_def dest: in_set_takeD in_set_dropD)
qed

section \<open>The invariant of a batch\<close>

type_synonym item = "tcpGROItem + udpGROItem"

definition index_of :: "item \<Rightarrow> nat" where "index_of = case_sum ti_bufsIndex ui_bufsIndex"

definition item_ok :: "bool \<Rightarrow> (nat \<Rightarrow> bytes) \<Rightarrow> item \<Rightarrow> nat list \<Rightarrow> bytes \<Rightarrow> bool" where
  "item_ok le P = case_sum (tcp_item_ok le P) (udp_item_ok le P)"

definition fresh_item :: "item \<Rightarrow> bool" where
  "fresh_item it \<longleftrightarrow> (case it of Inl t \<Rightarrow> ti_numMerged t = 0 | Inr u \<Rightarrow> ui_numMerged u = 0)"

text \<open>The packets before \<open>i\<close> are shared out among the buffers to be written, \<open>parts w\<close> to the buffer \<open>w\<close>; a buffer that
  no item keeps track of holds its own packet.\<close>

definition batch_ok ::
  "bool \<Rightarrow> (nat \<Rightarrow> bytes) \<Rightarrow> nat \<Rightarrow> nat \<Rightarrow> Buf list \<Rightarrow> item multiset \<Rightarrow> nat list \<Rightarrow> (nat \<Rightarrow> nat list) \<Rightarrow> bool" where
  "batch_ok le P off i bufs X tw parts \<longleftrightarrow>
     i \<le> length bufs \<and> (\<forall>j < length bufs. b_cap (bufs ! j) \<le> maxUint16) \<and>
     (\<forall>j. i \<le> j \<and> j < length bufs \<longrightarrow> packet_at bufs off j = P j) \<and>
     distinct tw \<and> set tw \<subseteq> {..<i} \<and> mset (concat (map parts tw)) = mset [0 ..< i] \<and>
     image_mset index_of X \<subseteq># mset tw \<and> (\<forall>it \<in># X. item_ok le P it (parts (index_of it)) (packet_at bufs off (index_of it))) \<and>
     (\<forall>w \<in> set tw. off \<le> length (b_data (bufs ! w)) \<and> (w \<notin># image_mset index_of X \<longrightarrow> parts w = [w] \<and> packet_at bufs off w = P w))"

lemma batch_okD:
  assumes "batch_ok le P off i bufs X tw parts"
  shows "i \<le> length bufs" "j < length bufs \<Longrightarrow> b_cap (bufs ! j) \<le> maxUint16"
    "i \<le> j \<Longrightarrow> j < length bufs \<Longrightarrow> packet_at bufs off j = P j"
    "distinct tw" "set tw \<subseteq> {..<i}" "mset (concat (map parts tw)) = mset [0 ..< i]" "image_mset index_of X \<subseteq># mset tw"
    "it \<in># X \<Longrightarrow> item_ok le P it (parts (index_of it)) (packet_at bufs off (index_of it))"
    "w \<in> set tw \<Longrightarrow> off \<le> length (b_data (bufs ! w))"
    "w \<in> set tw \<Longrightarrow> w \<notin># image_mset index_of X \<Longrightarrow> parts w = [w] \<and> packet_at bufs off w = P w"
  using assms unfolding batch_ok_def by blast+

lemma index_in_tw: "image_mset index_of X \<subseteq># mset tw \<Longrightarrow> x \<in># X \<Longrightarrow> index_of x \<in> set tw"
  by (metis image_eqI mset_subset_eqD set_image_mset set_mset_mset)

lemma item_ok_fresh: "item_ok le P it js pkt \<Longrightarrow> fresh_item it \<Longrightarrow> js = [index_of it] \<and> pkt = P (index_of it)"
  by (auto simp: item_ok_def fresh_item_def index_of_def tcp_item_ok_def udp_item_ok_def split: sum.splits)

lemma distinct_index:
  assumes "distinct tw" "image_mset index_of (add_mset it X) \<subseteq># mset tw"
  shows "index_of it \<in> set tw" "index_of it \<notin># image_mset index_of X"
proof -
  have s: "add_mset (index_of it) (image_mset index_of X) \<subseteq># mset tw" using assms(2) by simp
  then show "index_of it \<in> set tw" using mset_subset_eqD [OF s] by simp
  show "index_of it \<notin># image_mset index_of X"
  proof
    assume "index_of it \<in># image_mset index_of X"
    then have "2 \<le> count (add_mset (index_of it) (image_mset index_of X)) (index_of it)" by simp
    also have "\<dots> \<le> count (mset tw) (index_of it)" by (rule mset_subset_eq_count [OF s])
    also have "\<dots> \<le> 1" using assms(1) by (simp add: distinct_count_atmost_1)
    finally show False by simp
  qed
qed

lemma batch_start:
  assumes "\<forall>b \<in> set bufs. b_cap b \<le> maxUint16" "\<And>j. j < length bufs \<Longrightarrow> packet_at bufs off j = P j"
  shows "batch_ok le P off 0 bufs {#} [] parts"
  using assms by (auto simp: batch_ok_def)

lemma batch_drop:
  assumes "batch_ok le P off i bufs (add_mset it X) tw parts" "fresh_item it"
  shows "batch_ok le P off i bufs X tw parts"
proof -
  note B = batch_okD [OF assms(1)]
  have "item_ok le P it (parts (index_of it)) (packet_at bufs off (index_of it))" by (rule B(8)) simp
  from item_ok_fresh [OF this assms(2)] have f: "parts (index_of it) = [index_of it]" "packet_at bufs off (index_of it) = P (index_of it)" by simp_all
  have sub: "image_mset index_of X \<subseteq># mset tw"
    using B(7) by (metis image_mset_add_mset mset_subset_eq_insertD subset_mset.less_imp_le)
  have "parts w = [w] \<and> packet_at bufs off w = P w" if "w \<in> set tw" "w \<notin># image_mset index_of X" for w
    using B(10) [OF that(1)] that(2) f by (cases "w = index_of it") auto
  then show ?thesis unfolding batch_ok_def using B(1-6,9) sub B(8) by simp
qed

lemma concat_parts_new:
  assumes "i \<notin> set tw"
  shows "map (parts(i := js)) tw = map parts tw"
  using assms by auto

lemma batch_new:
  assumes b: "batch_ok le P off i bufs X tw parts" and i: "i < length bufs" "off \<le> length (b_data (bufs' ! i))"
    and bufs': "length bufs' = length bufs" "\<And>k. k \<noteq> i \<Longrightarrow> bufs' ! k = bufs ! k" "b_cap (bufs' ! i) = b_cap (bufs ! i)" "packet_at bufs' off i = P i"
    and X: "X' = X \<or> X' = add_mset it X \<and> item_ok le P it [i] (P i) \<and> index_of it = i"
  shows "batch_ok le P off (Suc i) bufs' X' (tw @ [i]) (parts(i := [i]))"
proof -
  note B = batch_okD [OF b]
  have n: "i \<notin> set tw" using B(5) by auto
  have other: "packet_at bufs' off k = packet_at bufs off k" if "k \<noteq> i" for k using bufs'(2) [OF that] by (simp add: packet_at_def)
  have old: "index_of x \<noteq> i" if "x \<in># X" for x using index_in_tw [OF B(7) that] n by auto
  have X'X: "x \<in># X \<or> x = it \<and> item_ok le P it [i] (P i) \<and> index_of it = i" if "x \<in># X'" for x using X that by auto
  show ?thesis
    unfolding batch_ok_def
  proof (intro conjI allI ballI impI)
    show "Suc i \<le> length bufs'" using i(1) bufs'(1) by simp
    show "b_cap (bufs' ! j) \<le> maxUint16" if "j < length bufs'" for j
      using B(2) bufs' that by (cases "j = i") auto
    show "packet_at bufs' off j = P j" if "Suc i \<le> j \<and> j < length bufs'" for j
      using B(3) [of j] other [of j] that bufs'(1) by simp
    show "distinct (tw @ [i])" "set (tw @ [i]) \<subseteq> {..<Suc i}" using B(4,5) n by auto
    show "mset (concat (map (parts(i := [i])) (tw @ [i]))) = mset [0 ..< Suc i]" using B(6) n by (simp add: concat_parts_new)
    show "image_mset index_of X' \<subseteq># mset (tw @ [i])"
      using X B(7) by (auto intro: subset_mset.order_trans [of _ "mset tw"])
    show "item_ok le P x ((parts(i := [i])) (index_of x)) (packet_at bufs' off (index_of x))" if "x \<in># X'" for x
      using X'X [OF that] B(8) [of x] old [of x] other [of "index_of x"] bufs'(4) by auto
    show "off \<le> length (b_data (bufs' ! w))" if "w \<in> set (tw @ [i])" for w
      using B(9) [of w] that i(2) bufs'(2) [of w] n by (cases "w = i") auto
    fix w assume w: "w \<in> set (tw @ [i])" "w \<notin># image_mset index_of X'"
    have "w \<notin># image_mset index_of X" using w(2) X by auto
    then show "(parts(i := [i])) w = [w]" "packet_at bufs' off w = P w"
      using B(10) [of w] w(1) other [of w] bufs'(4) by (cases "w = i"; auto)+
  qed
qed

lemma batch_join:
  assumes b: "batch_ok le P off i bufs (add_mset it X) tw parts" and i: "i < length bufs"
    and j: "joins_in off (index_of it) i bufs bufs'" and it': "index_of it' = index_of it"
    and js: "mset js = add_mset i (mset (parts (index_of it)))" "item_ok le P it' js (packet_at bufs' off (index_of it))"
  shows "batch_ok le P off (Suc i) bufs' (add_mset it' X) tw (parts(index_of it := js))"
proof -
  let ?w = "index_of it"
  note B = batch_okD [OF b]
  note J = j [unfolded joins_in_def]
  note D = distinct_index [OF B(4,7)]
  have n: "i \<notin> set tw" using B(5) by auto
  have other: "packet_at bufs' off k = packet_at bufs off k" if "k \<noteq> ?w" "k \<noteq> i" for k using J that by (simp add: packet_at_def)
  have sub: "image_mset index_of X \<subseteq># mset tw"
    using B(7) by (metis image_mset_add_mset mset_subset_eq_insertD subset_mset.less_imp_le)
  have old: "index_of x \<noteq> i" "index_of x \<noteq> ?w" if "x \<in># X" for x
  proof -
    show "index_of x \<noteq> i" using index_in_tw [OF sub that] n by auto
    show "index_of x \<noteq> ?w" using D(2) that by (metis image_eqI set_image_mset)
  qed
  show ?thesis
    unfolding batch_ok_def
  proof (intro conjI allI ballI impI)
    show "Suc i \<le> length bufs'" using i J by simp
    show "b_cap (bufs' ! j) \<le> maxUint16" if l: "j < length bufs'" for j
    proof -
      obtain k' where "k' < length bufs" "b_cap (bufs' ! j) = b_cap (bufs ! k')" using J l by auto
      then show ?thesis using B(2) by simp
    qed
    show "packet_at bufs' off j = P j" if "Suc i \<le> j \<and> j < length bufs'" for j
    proof -
      have "?w < i" using D(1) B(5) by auto
      then show ?thesis using B(3) [of j] other [of j] that J by simp
    qed
    show "distinct tw" "set tw \<subseteq> {..<Suc i}" using B(4,5) by auto
    show "mset (concat (map (parts(?w := js)) tw)) = mset [0 ..< Suc i]"
    proof -
      obtain t1 t2 where t: "tw = t1 @ ?w # t2" using D(1) by (meson split_list)
      then have "?w \<notin> set t1" "?w \<notin> set t2" using B(4) by auto
      then show ?thesis using js(1) B(6) unfolding t by (simp add: concat_parts_new)
    qed
    show "image_mset index_of (add_mset it' X) \<subseteq># mset tw" using B(7) it' by simp
    show "item_ok le P x ((parts(?w := js)) (index_of x)) (packet_at bufs' off (index_of x))" if x: "x \<in># add_mset it' X" for x
    proof (cases "x = it'")
      case False
      then have "x \<in># X" using x by simp
      then show ?thesis using B(8) [of x] old [of x] other [of "index_of x"] by simp
    qed (use js(2) it' in simp)
    show "off \<le> length (b_data (bufs' ! w))" if "w \<in> set tw" for w
      using B(9) [of w] that J n by (cases "w = ?w") auto
    fix w assume w: "w \<in> set tw" "w \<notin># image_mset index_of (add_mset it' X)"
    then have "w \<noteq> ?w" "w \<noteq> i" "w \<notin># image_mset index_of (add_mset it X)" using it' n by auto
    then show "(parts(?w := js)) w = [w]" "packet_at bufs' off w = P w"
      using B(10) [of w] w(1) other [of w] by auto
  qed
qed

section \<open>A packet\<close>

definition items_mset :: "tcpGROTable \<Rightarrow> udpGROTable \<Rightarrow> item multiset" where
  "items_mset t u = image_mset Inl (mset (all_items t)) + image_mset Inr (mset (all_items u))"

lemma put_header_spec:
  assumes "put_header le off hdr pkt b = Some b'" "virtioNetHdrLen \<le> off" "off \<le> length (b_data b)"
  shows "drop off (b_data b') = pkt" "b_cap b' = b_cap b" "off \<le> length (b_data b')"
    "decode le (drop (off - virtioNetHdrLen) (b_data b')) = Some hdr"
proof -
  let ?h = "drop (off - virtioNetHdrLen) (take off (b_data b))"
  have l: "length ?h = virtioNetHdrLen" using assms(2,3) by simp
  obtain bs where bs: "encode le hdr (?h @ pkt) = Some bs" "b' = b\<lparr>b_data := take (off - virtioNetHdrLen) (b_data b) @ bs\<rparr>"
    using assms(1) by (auto simp: put_header_def split: option.splits)
  have "virtioNetHdrLen \<le> length (?h @ pkt)" using l by simp
  from decode_encode [OF this, of le hdr] bs(1) have d: "decode le bs = Some hdr" "drop virtioNetHdrLen bs = pkt" using l by auto
  have bl: "virtioNetHdrLen \<le> length bs" using d(1) by (auto simp: decode_def split: if_splits)
  have t: "length (take (off - virtioNetHdrLen) (b_data b)) = off - virtioNetHdrLen" using assms(3) by simp
  show "decode le (drop (off - virtioNetHdrLen) (b_data b')) = Some hdr" using d(1) t by (simp add: bs(2))
  have "off - (off - virtioNetHdrLen) = virtioNetHdrLen" using assms(2) by simp
  then show "drop off (b_data b') = pkt" using d(2) t by (simp add: bs(2))
  show "b_cap b' = b_cap b" by (simp add: bs(2))
  show "off \<le> length (b_data b')" using bl t assms(2) by (simp add: bs(2))
qed

lemma byte_5: "(x :: byte) AND 0x0F = 5 \<Longrightarrow> unat ((x AND 0x0F) * 4) = 20"
  by simp

lemma gro_ip_length_spec:
  assumes "packetIsGROCandidate pkt canUDP = c" "c \<noteq> notGROCandidate" "isV6 = (c = tcp6GROCandidate \<or> c = udp6GROCandidate)" "gro_ip_length pkt isV6 = Some iphLen"
  shows "iphLen = ip_length isV6" "length pkt \<le> maxUint16"
proof -
  have "\<not> isV6 \<longrightarrow> pkt ! 0 AND 0x0F = 5"
    using assms(1-3) by (auto simp: packetIsGROCandidate_def split: if_splits)
  then show "iphLen = ip_length isV6" "length pkt \<le> maxUint16"
    using assms(4) by (auto simp: gro_ip_length_def ip_length_def Let_def split: if_splits)
qed

lemma tcp_candidate_spec:
  assumes "packetIsGROCandidate pkt canUDP = (if isV6 then tcp6GROCandidate else tcp4GROCandidate)" "tcp_candidate pkt isV6 = Some (iphLen, thl, psh)"
  shows "iphLen = ip_length isV6" "tcp_pkt_ok isV6 pkt thl"
proof -
  have g: "gro_ip_length pkt isV6 = Some iphLen" using assms(2) by (auto simp: tcp_candidate_def Let_def split: option.splits if_splits)
  note G = gro_ip_length_spec [OF assms(1) _ _ g]
  show i: "iphLen = ip_length isV6" using G(1) by (cases isV6) simp_all
  have t: "20 \<le> thl" "thl \<le> 60" "\<not> (word_of_nat (length pkt - thl - iphLen) :: u16) < 1" "iphLen + thl \<le> length pkt"
    using assms(2) g by (auto simp: tcp_candidate_def Let_def split: if_splits)
  have "length pkt - thl - iphLen \<noteq> 0" using t(3) by (intro notI) simp
  then show "tcp_pkt_ok isV6 pkt thl" using t G(2) i by (cases isV6) (auto simp: tcp_pkt_ok_def)
qed

lemma tcp_insert_spec:
  assumes "keyed ti_key t" "tcp_pkt_ok isV6 (P i) thl" "addr_offsets isV6 = (srcAt, dstAt)"
  obtains it where "keyed ti_key (tcp_insert (P i) srcAt dstAt (ip_length isV6) thl i t)"
    "mset (all_items (tcp_insert (P i) srcAt dstAt (ip_length isV6) thl i t)) = add_mset it (mset (all_items t))"
    "tcp_item_ok le P it [i] (P i)" "ti_bufsIndex it = i"
proof -
  let ?key = "newTCPFlowKey (P i) srcAt dstAt (ip_length isV6)"
  let ?it = "\<lparr>ti_key = ?key, ti_sentSeq = get_u32_be (drop (ip_length isV6 + 4) (P i)), ti_bufsIndex = i,
     ti_numMerged = 0, ti_gsoSize = word_of_nat (length (drop (ip_length isV6 + thl) (P i))),
     ti_iphLen = word_of_nat (ip_length isV6), ti_tcphLen = word_of_nat thl,
     ti_pshSet = (P i ! (ip_length isV6 + tcpFlagsOffset) AND tcpFlagPSH \<noteq> 0)\<rparr>"
  have e: "tcp_insert (P i) srcAt dstAt (ip_length isV6) thl i t = AList.update ?key (items_of t ?key @ [?it]) t"
    by (simp add: tcp_insert_def Let_def)
  note N = tcp_item_new [where P = P and i = i and it = ?it, OF assms(2,3) refl]
  have k: "ti_key ?it = ?key" by simp
  show ?thesis using that [of ?it] all_items_add [OF assms(1) k] N(1,3) unfolding e by blast
qed

lemma udp_insert_spec:
  assumes "keyed ui_key t" "udp_pkt_ok isV6 (P i)" "addr_offsets isV6 = (srcAt, dstAt)"
  obtains it where "keyed ui_key (udp_insert (P i) srcAt dstAt (ip_length isV6) i b t)"
    "mset (all_items (udp_insert (P i) srcAt dstAt (ip_length isV6) i b t)) = add_mset it (mset (all_items t))"
    "udp_item_ok le P it [i] (P i)" "ui_bufsIndex it = i"
proof -
  let ?key = "newUDPFlowKey (P i) srcAt dstAt (ip_length isV6)"
  let ?it = "\<lparr>ui_key = ?key, ui_bufsIndex = i, ui_numMerged = 0,
                  ui_gsoSize = word_of_nat (length (drop (ip_length isV6 + udphLen) (P i))),
                  ui_iphLen = word_of_nat (ip_length isV6), ui_cSumKnownInvalid = b\<rparr>"
  have e: "udp_insert (P i) srcAt dstAt (ip_length isV6) i b t = AList.update ?key (items_of t ?key @ [?it]) t"
    by (simp add: udp_insert_def Let_def)
  note N = udp_item_new [where P = P and i = i and it = ?it, OF assms(2,3) refl]
  have k: "ui_key ?it = ?key" by simp
  show ?thesis using that [of ?it] all_items_add [OF assms(1) k] N(1,3) unfolding e by blast
qed

lemma replace_items:
  assumes "keyed key t" "i < length (items_of t k)" "key it = k"
  obtains Y where "mset (all_items t) = add_mset (items_of t k ! i) Y"
    "mset (all_items (AList.update k ((items_of t k)[i := it]) t)) = add_mset it Y" "keyed key (AList.update k ((items_of t k)[i := it]) t)"
proof -
  have "items_of t k ! i \<in># mset (all_items t)"
    using items_of_subset [of t k] assms by (auto simp: keyed_def dest: mset_subset_eqD [of _ _ "items_of t k ! i"])
  then obtain Y where Y: "mset (all_items t) = add_mset (items_of t k ! i) Y" by (metis insert_DiffM)
  show ?thesis using that [OF Y] all_items_replace [OF assms] by (simp add: Y)
qed

text \<open>The search through the items of a flow.\<close>

definition try_ok ::
  "bool \<Rightarrow> (nat \<Rightarrow> bytes) \<Rightarrow> nat \<Rightarrow> nat \<Rightarrow> Buf list \<Rightarrow> udpGROTable \<Rightarrow> nat list \<Rightarrow> (nat \<Rightarrow> nat list)
    \<Rightarrow> (groResult \<times> Buf list \<times> tcpGROTable) + tcpGROTable \<Rightarrow> bool" where
  "try_ok le P off i bufs u tw parts r \<longleftrightarrow>
     (case r of
        Inr t \<Rightarrow> keyed ti_key t \<and> batch_ok le P off i bufs (items_mset t u) tw parts
      | Inl (res, bufs', t) \<Rightarrow> keyed ti_key t \<and>
          (res = groResultNoop \<and> bufs' = bufs \<and> batch_ok le P off i bufs (items_mset t u) tw parts \<or>
           res = groResultCoalesced \<and> (\<exists>parts'. batch_ok le P off (Suc i) bufs' (items_mset t u) tw parts')))"

lemma items_mset_split: "mset (all_items t) = add_mset it Y \<Longrightarrow> items_mset t u = add_mset (Inl it) (image_mset Inl Y + image_mset Inr (mset (all_items u)))"
  by (simp add: items_mset_def)

lemma items_of_mset: "keyed key t \<Longrightarrow> m < length (items_of t k) \<Longrightarrow> items_of t k ! m \<in># mset (all_items t)"
  using items_of_subset [of t k] by (auto simp: keyed_def dest: mset_subset_eqD [of _ _ "items_of t k ! m"])

lemma delete_items:
  assumes "keyed ti_key t" "m < length (items_of t k)" "batch_ok le P off i bufs (items_mset t u) tw parts" "ti_numMerged (items_of t k ! m) = 0"
  shows "keyed ti_key (tcp_deleteAt k m t)" "batch_ok le P off i bufs (items_mset (tcp_deleteAt k m t) u) tw parts"
    "take m (items_of (tcp_deleteAt k m t) k) = take m (items_of t k)"
proof -
  note A = all_items_delete [OF assms(1,2)]
  show "keyed ti_key (tcp_deleteAt k m t)" using A(2) by (simp add: tcp_deleteAt_def)
  have "items_mset t u = add_mset (Inl (items_of t k ! m)) (items_mset (tcp_deleteAt k m t) u)"
    unfolding items_mset_def tcp_deleteAt_def A(1) [symmetric] by simp
  then show "batch_ok le P off i bufs (items_mset (tcp_deleteAt k m t) u) tw parts"
    using batch_drop [where it = "Inl (items_of t k ! m)"] assms(3,4) by (simp add: fresh_item_def)
  show "take m (items_of (tcp_deleteAt k m t) k) = take m (items_of t k)" using assms(2) by (simp add: tcp_deleteAt_def)
qed

lemma take_Suc_eq:
  assumes "take (Suc m) xs = take (Suc m) ys" "Suc m \<le> length xs"
  shows "take m xs = take m ys" "m < length ys" "xs ! m = ys ! m"
proof -
  have l: "Suc m \<le> length ys" using arg_cong [OF assms(1), of length] assms(2) by simp
  then show "m < length ys" by simp
  show "take m xs = take m ys" using arg_cong [OF assms(1), of "take m"] by (simp add: min_def)
  show "xs ! m = ys ! m" using arg_cong [OF assms(1), of "\<lambda>l. l ! m"] by simp
qed

lemma tcp_join:
  assumes p: "tcp_pkt_ok isV6 (P i) thl" and i: "i < length bufs" "off \<le> length (b_data (bufs ! i))"
    and t: "keyed ti_key t" "m < length (items_of t (tcp_key isV6 (P i)))" "it = items_of t (tcp_key isV6 (P i)) ! m"
    and b: "batch_ok le P off i bufs (items_mset t u) tw parts"
    and can: "tcpPacketsCanCoalesce (P i) (word_of_nat (ip_length isV6)) (word_of_nat thl) (tcp_seq isV6 (P i)) psh
      (word_of_nat (length (P i) - thl - ip_length isV6)) it bufs off = mode" "mode \<noteq> coalesceUnavailable"
    and c: "coalesceTCPPackets le mode (P i) i (word_of_nat (length (P i) - thl - ip_length isV6)) (tcp_seq isV6 (P i)) psh it bufs off isV6
      = (res, it', bufs')"
  shows "if res = coalesceSuccess then try_ok le P off i bufs u tw parts (Inl (groResultCoalesced, bufs', tcp_updateAt it' m t))
    else it' = it \<and> bufs' = bufs \<and> (res = coalesceItemInvalidCSum \<longrightarrow> ti_numMerged it = 0)"
proof -
  let ?w = "ti_bufsIndex it" and ?k = "tcp_key isV6 (P i)"
  note B = batch_okD [OF b]
  have k: "ti_key it = ?k" using keyed_items [OF t(1), of it ?k] t(2,3) by simp
  have "it \<in># mset (all_items t)" unfolding t(3) by (rule items_of_mset [OF t(1,2)])
  then have X: "Inl it \<in># items_mset t u" by (simp add: items_mset_def)
  have ix: "index_of (Inl it) = ?w" by (simp add: index_of_def)
  have w: "?w \<in> set tw" using index_in_tw [OF B(7) X] by (simp add: ix)
  then have wi: "?w < i" using B(5) by auto
  have ok: "tcp_item_ok le P it (parts ?w) (packet_at bufs off ?w)" using B(8) [OF X] by (simp add: item_ok_def ix)
  note S = coalesceTCPPackets_spec [OF ok refl p _ _ can _ i(1) _ B(9) [OF w] i(2) B(3) [OF order_refl i(1)] _ c]
  have S': "if res = coalesceSuccess then ti_key it' = ti_key it \<and> ti_bufsIndex it' = ?w \<and>
      (\<exists>js'. mset js' = add_mset i (mset (parts ?w)) \<and> tcp_item_ok le P it' js' (packet_at bufs' off ?w)) \<and> joins_in off ?w i bufs bufs'
    else it' = it \<and> bufs' = bufs \<and> (res = coalesceItemInvalidCSum \<longrightarrow> ti_numMerged it = 0)"
    using wi i(1) B(2) by (intro S) (auto simp: k)
  show ?thesis
  proof (cases "res = coalesceSuccess")
    case True
    then obtain js' where js: "ti_key it' = ?k" "ti_bufsIndex it' = ?w" "mset js' = add_mset i (mset (parts ?w))"
      "tcp_item_ok le P it' js' (packet_at bufs' off ?w)" "joins_in off ?w i bufs bufs'"
      using S' k by auto
    obtain Y where Y: "mset (all_items t) = add_mset it Y" "mset (all_items (tcp_updateAt it' m t)) = add_mset it' Y" "keyed ti_key (tcp_updateAt it' m t)"
      using replace_items [OF t(1,2) js(1)] unfolding tcp_updateAt_def js(1) t(3) [symmetric] by blast
    have bi: "batch_ok le P off i bufs (add_mset (Inl it) (image_mset Inl Y + image_mset Inr (mset (all_items u)))) tw parts"
      using b unfolding items_mset_split [OF Y(1)] .
    have "batch_ok le P off (Suc i) bufs' (add_mset (Inl it') (image_mset Inl Y + image_mset Inr (mset (all_items u)))) tw (parts(index_of (Inl it) := js'))"
      using js by (intro batch_join [OF bi i(1)]) (simp_all add: index_of_def item_ok_def)
    then have "batch_ok le P off (Suc i) bufs' (items_mset (tcp_updateAt it' m t) u) tw (parts(index_of (Inl it) := js'))"
      unfolding items_mset_split [OF Y(2)] .
    then show ?thesis using True Y(3) by (auto simp: try_ok_def)
  next
    case False
    then show ?thesis using S' by simp
  qed
qed

lemma try_items_spec:
  assumes p: "tcp_pkt_ok isV6 (P i) thl" and i: "i < length bufs" "off \<le> length (b_data (bufs ! i))"
    and t: "keyed ti_key t" "m \<le> length items" "take m items = take m (items_of t (tcp_key isV6 (P i)))"
    and b: "batch_ok le P off i bufs (items_mset t u) tw parts"
  shows "try_ok le P off i bufs u tw parts (try_items le (P i) i (word_of_nat (ip_length isV6)) (word_of_nat thl) (tcp_seq isV6 (P i)) psh
    (word_of_nat (length (P i) - thl - ip_length isV6)) off isV6 items m bufs t)"
  using t b
proof (induction m arbitrary: t)
  case 0
  then show ?case by (simp add: try_ok_def)
next
  case (Suc m)
  let ?it = "items ! m" and ?k = "tcp_key isV6 (P i)"
  let ?mode = "tcpPacketsCanCoalesce (P i) (word_of_nat (ip_length isV6)) (word_of_nat thl) (tcp_seq isV6 (P i)) psh
      (word_of_nat (length (P i) - thl - ip_length isV6)) ?it bufs off"
  note T = take_Suc_eq [OF Suc.prems(3,2)]
  have again: "try_ok le P off i bufs u tw parts (try_items le (P i) i (word_of_nat (ip_length isV6)) (word_of_nat thl) (tcp_seq isV6 (P i)) psh
    (word_of_nat (length (P i) - thl - ip_length isV6)) off isV6 items m bufs t)"
    using Suc.prems T by (intro Suc.IH) simp_all
  show ?case
  proof (cases "?mode = coalesceUnavailable")
    case True
    then show ?thesis using again by (simp add: Let_def)
  next
    case False
    obtain res it' bufs' where c: "coalesceTCPPackets le ?mode (P i) i (word_of_nat (length (P i) - thl - ip_length isV6)) (tcp_seq isV6 (P i)) psh ?it bufs off isV6
      = (res, it', bufs')" by (metis prod_cases3)
    note J = tcp_join [OF p i Suc.prems(1) T(2,3) Suc.prems(4) refl False c]
    have k: "ti_key ?it = ?k" using keyed_items [OF Suc.prems(1), of ?it ?k] T(2,3) by simp
    have del: "try_ok le P off i bufs u tw parts (try_items le (P i) i (word_of_nat (ip_length isV6)) (word_of_nat thl) (tcp_seq isV6 (P i)) psh
      (word_of_nat (length (P i) - thl - ip_length isV6)) off isV6 items m bufs (tcp_deleteAt ?k m t))" if "ti_numMerged ?it = 0"
    proof -
      note D = delete_items [OF Suc.prems(1) T(2) Suc.prems(4)]
      show ?thesis using D T that Suc.prems(2) by (intro Suc.IH) simp_all
    qed
    let ?r = "\<lambda>t. try_items le (P i) i (word_of_nat (ip_length isV6)) (word_of_nat thl) (tcp_seq isV6 (P i)) psh
      (word_of_nat (length (P i) - thl - ip_length isV6)) off isV6 items m bufs t"
    have e: "try_items le (P i) i (word_of_nat (ip_length isV6)) (word_of_nat thl) (tcp_seq isV6 (P i)) psh
      (word_of_nat (length (P i) - thl - ip_length isV6)) off isV6 items (Suc m) bufs t =
      (case res of coalesceSuccess \<Rightarrow> Inl (groResultCoalesced, bufs', tcp_updateAt it' m t)
         | coalesceItemInvalidCSum \<Rightarrow> ?r (tcp_deleteAt (ti_key it') m t)
         | coalescePktInvalidCSum \<Rightarrow> Inl (groResultNoop, bufs', t)
         | coalesceInsufficientCap \<Rightarrow> ?r t
         | coalescePSHEnding \<Rightarrow> ?r t)"
      by (simp only: try_items.simps Let_def False if_False c prod.case)
    have noop: "try_ok le P off i bufs u tw parts (Inl (groResultNoop, bufs, t))"
      using Suc.prems(1,4) by (simp add: try_ok_def)
    show ?thesis unfolding e
    proof (cases res)
      case coalesceItemInvalidCSum
      then have "it' = ?it" "ti_numMerged ?it = 0" using J by simp_all
      then show "try_ok le P off i bufs u tw parts (case res of coalesceSuccess \<Rightarrow> Inl (groResultCoalesced, bufs', tcp_updateAt it' m t)
         | coalesceItemInvalidCSum \<Rightarrow> ?r (tcp_deleteAt (ti_key it') m t)
         | coalescePktInvalidCSum \<Rightarrow> Inl (groResultNoop, bufs', t)
         | coalesceInsufficientCap \<Rightarrow> ?r t
         | coalescePSHEnding \<Rightarrow> ?r t)" using del k by (simp only: coalesceItemInvalidCSum coalesceResult.case)
    qed (use J again noop in \<open>simp_all only: coalesceResult.case coalesceResult.distinct if_False if_True HOL.simp_thms\<close>)
  qed
qed

lemma candidate_inv:
  "packetIsGROCandidate pkt c = (if isV6 then udp6GROCandidate else udp4GROCandidate) \<Longrightarrow>
   gro_ip_length pkt isV6 = Some iphLen \<Longrightarrow> iphLen = ip_length isV6 \<and> length pkt \<le> maxUint16"
  using gro_ip_length_spec [of pkt c _ isV6 iphLen] by (cases isV6) auto

definition nonempty :: "('k \<times> 'i list) list \<Rightarrow> bool" where
  "nonempty t \<longleftrightarrow> (\<forall>k its. map_of t k = Some its \<longrightarrow> its \<noteq> [])"

lemma nonempty_update: "nonempty t \<Longrightarrow> v \<noteq> [] \<Longrightarrow> nonempty (AList.update k v t)"
  by (auto simp: nonempty_def AList.update_conv' split: if_splits)

text \<open>What a packet does to a batch: it is skipped, put into a table, or joined to another.\<close>

definition packet_ok ::
  "bool \<Rightarrow> (nat \<Rightarrow> bytes) \<Rightarrow> nat \<Rightarrow> nat \<Rightarrow> gro_state \<Rightarrow> (nat \<Rightarrow> nat list) \<Rightarrow> groResult \<Rightarrow> gro_state \<Rightarrow> bool" where
  "packet_ok le P off i s parts res s' \<longleftrightarrow>
     keyed ti_key (gs_tcp s') \<and> keyed ui_key (gs_udp s') \<and> nonempty (gs_udp s') \<and> gs_toWrite s' = gs_toWrite s \<and>
     (case res of
        groResultNoop \<Rightarrow> gs_bufs s' = gs_bufs s \<and> batch_ok le P off i (gs_bufs s') (items_mset (gs_tcp s') (gs_udp s')) (gs_toWrite s) parts
      | groResultTableInsert \<Rightarrow>
          batch_ok le P off (Suc i) (gs_bufs s') (items_mset (gs_tcp s') (gs_udp s')) (gs_toWrite s @ [i]) (parts(i := [i]))
      | groResultCoalesced \<Rightarrow>
          \<exists>parts'. batch_ok le P off (Suc i) (gs_bufs s') (items_mset (gs_tcp s') (gs_udp s')) (gs_toWrite s) parts')"

definition batch_state :: "bool \<Rightarrow> (nat \<Rightarrow> bytes) \<Rightarrow> nat \<Rightarrow> nat \<Rightarrow> gro_state \<Rightarrow> (nat \<Rightarrow> nat list) \<Rightarrow> bool" where
  "batch_state le P off i s parts \<longleftrightarrow> keyed ti_key (gs_tcp s) \<and> keyed ui_key (gs_udp s) \<and> nonempty (gs_udp s) \<and>
     batch_ok le P off i (gs_bufs s) (items_mset (gs_tcp s) (gs_udp s)) (gs_toWrite s) parts"

lemma batch_stateD:
  assumes "batch_state le P off i s parts"
  shows "keyed ti_key (gs_tcp s)" "keyed ui_key (gs_udp s)" "nonempty (gs_udp s)"
    "batch_ok le P off i (gs_bufs s) (items_mset (gs_tcp s) (gs_udp s)) (gs_toWrite s) parts"
  using assms by (simp_all add: batch_state_def)

lemma batch_insert:
  assumes "batch_ok le P off i bufs X tw parts" "i < length bufs" "off \<le> length (b_data (bufs ! i))"
    "item_ok le P it [i] (P i)" "index_of it = i"
  shows "batch_ok le P off (Suc i) bufs (add_mset it X) (tw @ [i]) (parts(i := [i]))"
  using batch_okD(3) [OF assms(1) order_refl assms(2)] assms(4,5) by (intro batch_new [OF assms(1-3)]) auto

lemma items_mset_add:
  "mset (all_items t') = add_mset it (mset (all_items t)) \<Longrightarrow> items_mset t' u = add_mset (Inl it) (items_mset t u)"
  "mset (all_items u') = add_mset iu (mset (all_items u)) \<Longrightarrow> items_mset t u' = add_mset (Inr iu) (items_mset t u)"
  by (simp_all add: items_mset_def)

lemma tcp_insert_batch:
  assumes b: "batch_ok le P off i bufs (items_mset t u) tw parts" "i < length bufs" "off \<le> length (b_data (bufs ! i))"
    and t: "keyed ti_key t" "tcp_pkt_ok isV6 (P i) thl" "addr_offsets isV6 = (srcAt, dstAt)" "t' = tcp_insert (P i) srcAt dstAt (ip_length isV6) thl i t"
  shows "keyed ti_key t'" "batch_ok le P off (Suc i) bufs (items_mset t' u) (tw @ [i]) (parts(i := [i]))"
proof -
  obtain it where it: "keyed ti_key t'" "mset (all_items t') = add_mset it (mset (all_items t))" "tcp_item_ok le P it [i] (P i)" "ti_bufsIndex it = i"
    using tcp_insert_spec [where P = P and i = i, OF t(1-3)] unfolding t(4) by blast
  show "keyed ti_key t'" by (rule it(1))
  show "batch_ok le P off (Suc i) bufs (items_mset t' u) (tw @ [i]) (parts(i := [i]))"
    unfolding items_mset_add(1) [OF it(2)] using it(3,4) by (intro batch_insert [OF b]) (simp_all add: item_ok_def index_of_def)
qed

lemma udp_insert_batch:
  assumes b: "batch_ok le P off i bufs (items_mset t u) tw parts" "i < length bufs" "off \<le> length (b_data (bufs ! i))"
    and t: "keyed ui_key u" "nonempty u" "udp_pkt_ok isV6 (P i)" "addr_offsets isV6 = (srcAt, dstAt)" "u' = udp_insert (P i) srcAt dstAt (ip_length isV6) i c u"
  shows "keyed ui_key u'" "nonempty u'" "batch_ok le P off (Suc i) bufs (items_mset t u') (tw @ [i]) (parts(i := [i]))"
proof -
  obtain it where it: "keyed ui_key u'" "mset (all_items u') = add_mset it (mset (all_items u))" "udp_item_ok le P it [i] (P i)" "ui_bufsIndex it = i"
    using udp_insert_spec [where P = P and i = i, OF t(1,3,4)] unfolding t(5) by blast
  show "keyed ui_key u'" by (rule it(1))
  show "nonempty u'" using t(2) by (simp add: t(5) udp_insert_def Let_def nonempty_update)
  show "batch_ok le P off (Suc i) bufs (items_mset t u') (tw @ [i]) (parts(i := [i]))"
    unfolding items_mset_add(2) [OF it(2)] using it(3,4) by (intro batch_insert [OF b]) (simp_all add: item_ok_def index_of_def)
qed

lemma tcpGRO_spec:
  assumes s: "batch_state le P off i s parts" and i: "i < length (gs_bufs s)" "off \<le> length (b_data (gs_bufs s ! i))"
    and c: "packetIsGROCandidate (P i) canUDP = (if isV6 then tcp6GROCandidate else tcp4GROCandidate)"
    and r: "tcpGRO le (gs_bufs s) off i (gs_tcp s) isV6 = (res, bufs', t')"
  shows "packet_ok le P off i s parts res (s\<lparr>gs_bufs := bufs', gs_tcp := t'\<rparr>)"
proof -
  let ?bufs = "gs_bufs s" and ?t = "gs_tcp s" and ?u = "gs_udp s"
  note S = batch_stateD [OF s]
  have pkt: "packet_at ?bufs off i = P i" by (rule batch_okD(3) [OF S(4) order_refl i(1)])
  show ?thesis
  proof (cases "tcp_candidate (P i) isV6")
    case None
    then show ?thesis using r S by (simp add: tcpGRO_def pkt packet_ok_def)
  next
    case (Some cand)
    obtain iphLen thl psh where cand: "tcp_candidate (P i) isV6 = Some (iphLen, thl, psh)" using Some by (metis prod_cases3)
    note C = tcp_candidate_spec [OF c cand]
    obtain srcAt dstAt where a: "addr_offsets isV6 = (srcAt, dstAt)" by fastforce
    have key: "newTCPFlowKey (P i) srcAt dstAt (ip_length isV6) = tcp_key isV6 (P i)" by (simp add: tcp_key_def a)
    note ins = tcp_insert_batch [where P = P and i = i, OF _ i _ C(2) a refl]
    show ?thesis
    proof (cases "map_of ?t (tcp_key isV6 (P i))")
      case None
      then show ?thesis using r S ins [OF S(4,1)] by (simp add: tcpGRO_def pkt cand C(1) a key Let_def packet_ok_def)
    next
      case (Some its)
      have its: "its = items_of ?t (tcp_key isV6 (P i))" by (simp add: items_of_def Some)
      have T: "try_ok le P off i ?bufs ?u (gs_toWrite s) parts
        (try_items le (P i) i (word_of_nat (ip_length isV6)) (word_of_nat thl) (tcp_seq isV6 (P i)) psh
          (word_of_nat (length (P i) - thl - ip_length isV6)) off isV6 its (length its) ?bufs ?t)" (is "try_ok _ _ _ _ _ _ _ _ ?r")
        using try_items_spec [OF C(2) i S(1) order_refl _ S(4)] by (simp add: its)
      have e: "tcpGRO le ?bufs off i ?t isV6 = (case ?r of Inl r \<Rightarrow> r | Inr t \<Rightarrow> (groResultTableInsert, ?bufs, tcp_insert (P i) srcAt dstAt (ip_length isV6) thl i t))"
        by (simp add: tcpGRO_def pkt cand C(1) a key Some Let_def tcp_seq_def)
      show ?thesis
      proof (cases ?r)
        case (Inr t2)
        then have t2: "keyed ti_key t2" "batch_ok le P off i ?bufs (items_mset t2 ?u) (gs_toWrite s) parts" using T by (simp_all add: try_ok_def)
        show ?thesis using r S ins [OF t2(2,1)] unfolding e Inr sum.case by (auto simp: packet_ok_def)
      next
        case (Inl x)
        show ?thesis using T r S unfolding e Inl sum.case by (cases x) (auto simp: try_ok_def packet_ok_def)
      qed
    qed
  qed
qed

lemma udp_join:
  assumes p: "udp_pkt_ok isV6 (P i)" and i: "i < length bufs" "off \<le> length (b_data (bufs ! i))"
    and t: "keyed ui_key u" "nonempty u" "m < length (items_of u (udp_key isV6 (P i)))" "it = items_of u (udp_key isV6 (P i)) ! m"
    and b: "batch_ok le P off i bufs (items_mset t u) tw parts"
    and can: "udpPacketsCanCoalesce (P i) (word_of_nat (ip_length isV6)) (word_of_nat (length (P i) - udphLen - ip_length isV6)) it bufs off = coalesceAppend"
    and c: "coalesceUDPPackets le (P i) it bufs off isV6 = (res, it', bufs')"
  shows "if res = coalesceSuccess then keyed ui_key (udp_updateAt it' m u) \<and> nonempty (udp_updateAt it' m u) \<and>
      (\<exists>parts'. batch_ok le P off (Suc i) bufs' (items_mset t (udp_updateAt it' m u)) tw parts')
    else it' = it \<and> bufs' = bufs"
proof -
  let ?w = "ui_bufsIndex it" and ?k = "udp_key isV6 (P i)"
  note B = batch_okD [OF b]
  have k: "ui_key it = ?k" using keyed_items [OF t(1), of it ?k] t(3,4) by simp
  have "it \<in># mset (all_items u)" unfolding t(4) by (rule items_of_mset [OF t(1,3)])
  then have X: "Inr it \<in># items_mset t u" by (simp add: items_mset_def)
  have ix: "index_of (Inr it) = ?w" by (simp add: index_of_def)
  have w: "?w \<in> set tw" using index_in_tw [OF B(7) X] by (simp add: ix)
  then have wi: "?w < i" using B(5) by auto
  have ok: "udp_item_ok le P it (parts ?w) (packet_at bufs off ?w)" using B(8) [OF X] by (simp add: item_ok_def ix)
  have "set (parts ?w) \<subseteq> set (concat (map parts tw))" using w by auto
  also have "\<dots> = {0 ..< i}" using arg_cong [OF B(6), of set_mset] by (simp only: set_mset_mset set_upt)
  finally have before: "\<forall>j \<in> set (parts ?w). j < i" by auto
  have S: "if res = coalesceSuccess then ui_key it' = ui_key it \<and> ui_bufsIndex it' = ?w \<and> udp_item_ok le P it' (parts ?w @ [i]) (packet_at bufs' off ?w) \<and> joins_in off ?w i bufs bufs'
    else it' = it \<and> bufs' = bufs"
    using wi i(1) B(2) by (intro coalesceUDPPackets_spec [OF ok refl p _ _ before can _ B(9) [OF w] _ c]) (auto simp: k)
  show ?thesis
  proof (cases "res = coalesceSuccess")
    case True
    then have js: "ui_key it' = ?k" "ui_bufsIndex it' = ?w" "udp_item_ok le P it' (parts ?w @ [i]) (packet_at bufs' off ?w)" "joins_in off ?w i bufs bufs'"
      using S k by auto
    obtain Y where Y: "mset (all_items u) = add_mset it Y" "mset (all_items (udp_updateAt it' m u)) = add_mset it' Y" "keyed ui_key (udp_updateAt it' m u)"
      using replace_items [OF t(1,3) js(1)] unfolding udp_updateAt_def js(1) t(4) [symmetric] by blast
    have e: "items_mset t u' = add_mset (Inr x) (image_mset Inl (mset (all_items t)) + image_mset Inr Y)" if "mset (all_items u') = add_mset x Y" for u' x
      by (simp add: items_mset_def that)
    have bi: "batch_ok le P off i bufs (add_mset (Inr it) (image_mset Inl (mset (all_items t)) + image_mset Inr Y)) tw parts"
      using b unfolding e [OF Y(1)] .
    have "batch_ok le P off (Suc i) bufs' (add_mset (Inr it') (image_mset Inl (mset (all_items t)) + image_mset Inr Y)) tw (parts(index_of (Inr it) := parts ?w @ [i]))"
      using js by (intro batch_join [OF bi i(1)]) (simp_all add: index_of_def item_ok_def)
    then have "batch_ok le P off (Suc i) bufs' (items_mset t (udp_updateAt it' m u)) tw (parts(index_of (Inr it) := parts ?w @ [i]))"
      unfolding e [OF Y(2)] .
    moreover have "nonempty (udp_updateAt it' m u)"
      unfolding udp_updateAt_def js(1) using t(3) by (intro nonempty_update [OF t(2)]) auto
    ultimately show ?thesis using True Y(3) by auto
  next
    case False
    then show ?thesis using S by simp
  qed
qed

lemma udpGRO_spec:
  assumes s: "batch_state le P off i s parts" and i: "i < length (gs_bufs s)" "off \<le> length (b_data (gs_bufs s ! i))"
    and c: "packetIsGROCandidate (P i) canUDP = (if isV6 then udp6GROCandidate else udp4GROCandidate)"
    and r: "udpGRO le (gs_bufs s) off i (gs_udp s) isV6 = (res, bufs', u')"
  shows "packet_ok le P off i s parts res (s\<lparr>gs_bufs := bufs', gs_udp := u'\<rparr>)"
proof -
  let ?bufs = "gs_bufs s" and ?t = "gs_tcp s" and ?u = "gs_udp s"
  note S = batch_stateD [OF s]
  have pkt: "packet_at ?bufs off i = P i" by (rule batch_okD(3) [OF S(4) order_refl i(1)])
  have skip: "packet_ok le P off i s parts groResultNoop (s\<lparr>gs_bufs := ?bufs, gs_udp := ?u\<rparr>)" using S by (simp add: packet_ok_def)
  show ?thesis
  proof (cases "gro_ip_length (P i) isV6")
    case None
    then show ?thesis using r skip by (simp add: udpGRO_def pkt)
  next
    case (Some iphLen)
    have C: "iphLen = ip_length isV6" "length (P i) \<le> maxUint16" using candidate_inv [OF c Some] by simp_all
    let ?bad = "length (P i) < ip_length isV6 + udphLen \<or> \<not> isV6 \<and> fragmented (P i) \<or> (word_of_nat (length (P i) - udphLen - ip_length isV6) :: u16) < 1"
    show ?thesis
    proof (cases ?bad)
      case True
      then show ?thesis using r skip by (auto simp: udpGRO_def pkt Some C(1) Let_def split: if_splits)
    next
      case False
      then have "length (P i) - udphLen - ip_length isV6 \<noteq> 0" by (intro notI) simp
      then have p: "udp_pkt_ok isV6 (P i)" using C(2) by (simp add: udp_pkt_ok_def udphLen_def)
      obtain srcAt dstAt where a: "addr_offsets isV6 = (srcAt, dstAt)" by fastforce
      have key: "newUDPFlowKey (P i) srcAt dstAt (ip_length isV6) = udp_key isV6 (P i)" by (simp add: udp_key_def a)
      have ins: "packet_ok le P off i s parts groResultTableInsert (s\<lparr>gs_bufs := ?bufs, gs_udp := udp_insert (P i) srcAt dstAt (ip_length isV6) i c ?u\<rparr>)" for c
        using S udp_insert_batch [where c = c, OF S(4) i S(2,3) p a refl] by (simp add: packet_ok_def)
      have nb: "(length (P i) < ip_length isV6 + udphLen) = False" "(\<not> isV6 \<and> fragmented (P i)) = False"
        "((word_of_nat (length (P i) - udphLen - ip_length isV6) :: u16) < 1) = False"
        using False by blast+
      note unfold = udpGRO_def pkt Some C(1) Let_def nb if_False option.case a prod.case key
      show ?thesis
      proof (cases "map_of ?u (udp_key isV6 (P i))")
        case None
        then have "udpGRO le ?bufs off i ?u isV6 = (groResultTableInsert, ?bufs, udp_insert (P i) srcAt dstAt (ip_length isV6) i False ?u)"
          by (simp only: unfold)
        then show ?thesis using r ins by simp
      next
        case its: (Some its)
        then have n: "its = items_of ?u (udp_key isV6 (P i))" "its \<noteq> []" using S(3) by (auto simp: items_of_def nonempty_def)
        let ?it = "its ! (length its - 1)"
        let ?can = "udpPacketsCanCoalesce (P i) (word_of_nat (ip_length isV6)) (word_of_nat (length (P i) - udphLen - ip_length isV6)) ?it ?bufs off = coalesceAppend"
        obtain res1 it1 bufs1 where co: "coalesceUDPPackets le (P i) ?it ?bufs off isV6 = (res1, it1, bufs1)" by (metis prod_cases3)
        have e: "udpGRO le ?bufs off i ?u isV6 = (if ?can then
            if res1 = coalesceSuccess then (groResultCoalesced, bufs1, udp_updateAt it1 (length its - 1) ?u)
            else (groResultTableInsert, bufs1, udp_insert (P i) srcAt dstAt (ip_length isV6) i (res1 = coalescePktInvalidCSum) ?u)
          else (groResultTableInsert, ?bufs, udp_insert (P i) srcAt dstAt (ip_length isV6) i False ?u))"
          by (simp only: unfold its co)
        show ?thesis
        proof (cases ?can)
          case False
          then show ?thesis using r ins unfolding e by auto
        next
          case True
          have m: "length its - 1 < length (items_of ?u (udp_key isV6 (P i)))" "?it = items_of ?u (udp_key isV6 (P i)) ! (length its - 1)" using n by auto
          note J = udp_join [OF p i S(2,3) m S(4) True co]
          show ?thesis
          proof (cases "res1 = coalesceSuccess")
            case True
            then show ?thesis using J r S \<open>?can\<close> by (auto simp: e packet_ok_def)
          next
            case False
            then show ?thesis using J r ins \<open>?can\<close> by (auto simp: e)
          qed
        qed
      qed
    qed
  qed
qed

end
