(* ===== verification/Gro_Batch.thy ===== *)
theory Gro_Batch
  imports Gro_Tables
begin

text \<open>
  What \<open>handleGRO\<close> gives to the kernel: every packet of the batch once, as it was or joined to others behind a
  virtio header that tells the kernel how to cut it, with right lengths and checksums.
\<close>

section \<open>The loop\<close>

lemma length_append_data [simp]: "length (append_data i bs bufs) = length bufs"
  by (simp add: append_data_def)

lemma length_swap [simp]: "length (swap i j xs) = length xs"
  by (simp add: swap_def)

lemma coalesce_length:
  "coalesceUDPPackets le pkt ui bufs off isV6 = (r, ui', bufs') \<Longrightarrow> length bufs' = length bufs"
  "coalesceTCPPackets le mode pkt i g seq psh ti bufs off isV6 = (r, ti', bufs') \<Longrightarrow> length bufs' = length bufs"
  by (auto simp: coalesceUDPPackets_def coalesceTCPPackets_def Let_def split: if_splits)

lemma try_items_length:
  "try_items le pkt i iphLen tcphLen seq psh g off isV6 items m bufs t = Inl (r, bufs', t') \<Longrightarrow> length bufs' = length bufs"
proof (induction m arbitrary: t)
  case (Suc m)
  then show ?case
    by (auto simp: Let_def split: if_splits prod.splits coalesceResult.splits dest: coalesce_length)
qed simp

lemma tcpGRO_length: "tcpGRO le bufs off i t isV6 = (r, bufs', t') \<Longrightarrow> length bufs' = length bufs"
  by (auto simp: tcpGRO_def Let_def split: option.splits prod.splits sum.splits dest: try_items_length)

lemma udpGRO_length: "udpGRO le bufs off i u isV6 = (r, bufs', u') \<Longrightarrow> length bufs' = length bufs"
  by (auto simp: udpGRO_def Let_def split: option.splits prod.splits if_splits dest: coalesce_length)

lemma gro_packet_spec:
  assumes s: "batch_state le P off i s parts" and i: "i < length (gs_bufs s)" "off \<le> length (b_data (gs_bufs s ! i))"
    and r: "gro_packet le off canUDP i s = (res, s')"
  shows "packet_ok le P off i s parts res s'" "length (gs_bufs s') = length (gs_bufs s)"
proof -
  note S = batch_stateD [OF s]
  have pkt: "packet_at (gs_bufs s) off i = P i" by (rule batch_okD(3) [OF S(4) order_refl i(1)])
  have tcp: "packet_ok le P off i s parts res s' \<and> length (gs_bufs s') = length (gs_bufs s)"
    if "packetIsGROCandidate (P i) canUDP = (if isV6 then tcp6GROCandidate else tcp4GROCandidate)"
      "tcpGRO le (gs_bufs s) off i (gs_tcp s) isV6 = (res, bufs', t')" "s' = s\<lparr>gs_bufs := bufs', gs_tcp := t'\<rparr>" for isV6 bufs' t'
    using tcpGRO_spec [OF s i that(1,2)] tcpGRO_length [OF that(2)] that(3) by simp
  have udp: "packet_ok le P off i s parts res s' \<and> length (gs_bufs s') = length (gs_bufs s)"
    if "packetIsGROCandidate (P i) canUDP = (if isV6 then udp6GROCandidate else udp4GROCandidate)"
      "udpGRO le (gs_bufs s) off i (gs_udp s) isV6 = (res, bufs', u')" "s' = s\<lparr>gs_bufs := bufs', gs_udp := u'\<rparr>" for isV6 bufs' u'
    using udpGRO_spec [OF s i that(1,2)] udpGRO_length [OF that(2)] that(3) by simp
  have "packet_ok le P off i s parts res s' \<and> length (gs_bufs s') = length (gs_bufs s)"
  proof (cases "packetIsGROCandidate (P i) canUDP")
    case notGROCandidate
    then show ?thesis using r S by (auto simp: gro_packet_def pkt packet_ok_def)
  next
    case tcp4GROCandidate
    then show ?thesis using r tcp [of False] by (auto simp: gro_packet_def pkt split: prod.splits)
  next
    case tcp6GROCandidate
    then show ?thesis using r tcp [of True] by (auto simp: gro_packet_def pkt split: prod.splits)
  next
    case udp4GROCandidate
    then show ?thesis using r udp [of False] by (auto simp: gro_packet_def pkt split: prod.splits)
  next
    case udp6GROCandidate
    then show ?thesis using r udp [of True] by (auto simp: gro_packet_def pkt split: prod.splits)
  qed
  then show "packet_ok le P off i s parts res s'" "length (gs_bufs s') = length (gs_bufs s)" by simp_all
qed

lemma gro_step_spec:
  assumes s: "batch_state le P off i s parts" and i: "i < length (gs_bufs s)" and r: "gro_step le off canUDP i s = Inr s'"
  obtains parts' where "batch_state le P off (Suc i) s' parts'" "length (gs_bufs s') = length (gs_bufs s)"
    "virtioNetHdrLen \<le> off" "off \<le> length (b_data (gs_bufs s ! i))"
proof -
  note S = batch_stateD [OF s]
  obtain res t where t: "gro_packet le off canUDP i s = (res, t)" by fastforce
  have off: "virtioNetHdrLen \<le> off" "off \<le> length (b_data (gs_bufs s ! i))"
    using r by (auto simp: gro_step_def split: if_splits)
  note ok = gro_packet_spec [OF s i off(2) t]
  show ?thesis
  proof (cases res)
    case groResultNoop
    have n: "gs_bufs t = gs_bufs s" "batch_ok le P off i (gs_bufs s) (items_mset (gs_tcp t) (gs_udp t)) (gs_toWrite s) parts"
      using ok(1) by (auto simp: packet_ok_def groResultNoop)
    obtain b where b: "put_header le off virtio_none (P i) (gs_bufs s ! i) = Some b"
      "s' = t\<lparr>gs_bufs := (gs_bufs s)[i := b], gs_toWrite := gs_toWrite t @ [i]\<rparr>"
      using r off batch_okD(3) [OF S(4) order_refl i] n(1)
      by (auto simp: gro_step_def t groResultNoop Let_def split: option.splits if_splits)
    note H = put_header_spec [OF b(1) off]
    have "batch_ok le P off (Suc i) ((gs_bufs s)[i := b]) (items_mset (gs_tcp t) (gs_udp t)) (gs_toWrite s @ [i]) (parts(i := [i]))"
      using H i by (intro batch_new [OF n(2) i]) (simp_all add: packet_at_def)
    then show ?thesis using ok(1) i off by (intro that) (auto simp: batch_state_def b(2) packet_ok_def)
  next
    case groResultTableInsert
    then have "s' = t\<lparr>gs_toWrite := gs_toWrite t @ [i]\<rparr>" using r by (auto simp: gro_step_def t Let_def split: if_splits)
    then show ?thesis using ok off groResultTableInsert by (intro that) (auto simp: batch_state_def packet_ok_def)
  next
    case groResultCoalesced
    then have "s' = t" using r by (auto simp: gro_step_def t Let_def split: if_splits)
    then show ?thesis using ok off groResultCoalesced that by (auto simp: batch_state_def packet_ok_def)
  qed
qed

lemma gro_steps_spec:
  "batch_state le P off i s parts \<Longrightarrow> i \<le> n \<Longrightarrow> length (gs_bufs s) = n \<Longrightarrow> gro_steps le off canUDP [i ..< n] s = Inr s' \<Longrightarrow>
   (i < n \<longrightarrow> virtioNetHdrLen \<le> off) \<and> length (gs_bufs s') = n \<and> (\<exists>parts'. batch_state le P off n s' parts')"
proof (induction "n - i" arbitrary: i s parts)
  case 0
  then show ?case by auto
next
  case (Suc k)
  then have i: "i < n" by simp
  then have u: "[i ..< n] = i # [Suc i ..< n]" by (rule upt_conv_Cons)
  obtain t where t: "gro_step le off canUDP i s = Inr t" "gro_steps le off canUDP [Suc i ..< n] t = Inr s'"
    using Suc.prems(4) by (auto simp: u split: sum.splits)
  obtain parts' where "batch_state le P off (Suc i) t parts'" "length (gs_bufs t) = n" "virtioNetHdrLen \<le> off"
    using gro_step_spec [OF Suc.prems(1) _ t(1)] i Suc.prems(3) by auto
  moreover from this have "(Suc i < n \<longrightarrow> virtioNetHdrLen \<le> off) \<and> length (gs_bufs s') = n \<and> (\<exists>parts'. batch_state le P off n s' parts')"
    using Suc.hyps(2) i t(2) by (intro Suc.hyps(1)) simp_all
  ultimately show ?case by simp
qed

section \<open>Accounting\<close>

lemma account_spec:
  "account ix f its bufs = (True, bufs') \<Longrightarrow> distinct (map ix its) \<Longrightarrow> ix ` set its \<subseteq> {..< length bufs} \<Longrightarrow>
   length bufs' = length bufs \<and> (\<forall>it \<in> set its. f it (bufs ! ix it) = Some (bufs' ! ix it)) \<and>
   (\<forall>k. k \<notin> ix ` set its \<longrightarrow> bufs' ! k = bufs ! k)"
proof (induction its arbitrary: bufs)
  case (Cons it its)
  then obtain b where b: "f it (bufs ! ix it) = Some b" "account ix f its (bufs[ix it := b]) = (True, bufs')" by (auto split: option.splits)
  have "length bufs' = length bufs \<and> (\<forall>x \<in> set its. f x (bufs[ix it := b] ! ix x) = Some (bufs' ! ix x)) \<and>
   (\<forall>k. k \<notin> ix ` set its \<longrightarrow> bufs' ! k = bufs[ix it := b] ! k)"
    using Cons.IH [OF b(2)] Cons.prems(2,3) by simp
  moreover have "ix it \<notin> ix ` set its" using Cons.prems(2) by simp
  ultimately show ?case using b(1) Cons.prems(3) by (auto simp: nth_list_update) (metis image_eqI)
qed simp

text \<open>A packet whose header, \<open>H\<close> bytes long, is rewritten at the places \<open>X\<close>.\<close>

definition header_edit :: "nat set \<Rightarrow> nat \<Rightarrow> bytes \<Rightarrow> bytes \<Rightarrow> bool" where
  "header_edit X H pkt pkt' \<longleftrightarrow> length pkt' = length pkt \<and> H \<le> length pkt \<and> drop H pkt' = drop H pkt \<and> same_header X H pkt' pkt"

lemma header_edit_refl: "H \<le> length pkt \<Longrightarrow> header_edit X H pkt pkt"
  by (simp add: header_edit_def)

lemma header_edit_put:
  assumes "header_edit X H a b" "k + length bs \<le> H" "{k ..< k + length bs} \<subseteq> X"
  shows "header_edit X H a (put_at k bs b)"
proof -
  have l: "k + length bs \<le> length b" using assms(1,2) by (simp add: header_edit_def)
  have "put_at k bs b ! j = b ! j" if "j < H" "j \<notin> X" for j
    using assms(1,3) l that by (intro nth_put_at) (auto simp: header_edit_def subset_iff not_less [symmetric])
  then show ?thesis using assms(1,2) l by (simp add: header_edit_def drop_put_at same_header_def)
qed

lemma header_edit_put2:
  assumes "header_edit X H a b" "k + 2 \<le> H" "k \<in> X" "Suc k \<in> X" "length bs = 2"
  shows "header_edit X H a (put_at k bs b)"
proof (rule header_edit_put [OF assms(1)])
  show "{k ..< k + length bs} \<subseteq> X" using assms(3-5) by (auto simp: less_Suc_eq)
qed (use assms(2,5) in simp)

lemma unat_ucast_u16: "unat (ucast (w :: byte) :: u16) = unat w"
proof -
  have "unat w < 65536" by (rule less_trans [OF unat_byte_less]) simp
  then show ?thesis by (simp add: unsigned_ucast_eq take_bit_eq_mod)
qed

definition ip_fields :: "bool \<Rightarrow> nat set" where
  "ip_fields isV6 = (if isV6 then {4, 5} else {2, 3, 10, 11})"

definition ip_lengths_ok :: "bool \<Rightarrow> bool \<Rightarrow> bytes \<Rightarrow> bool" where
  "ip_lengths_ok le isV6 pkt \<longleftrightarrow>
     (if isV6 then unat (get_u16_be (drop 4 pkt)) = length pkt - 40
      else unat (get_u16_be (drop 2 pkt)) = length pkt \<and> checksum le (take 20 pkt) 0 = - 1)"

lemma set_lengths_spec:
  assumes "header_edit X H pkt0 pkt" "ip_fields isV6 \<subseteq> X" "ip_length isV6 \<le> H" "unat iphLen = ip_length isV6" "length pkt \<le> maxUint16"
  shows "header_edit X H pkt0 (set_lengths le isV6 iphLen pkt)" "ip_lengths_ok le isV6 (set_lengths le isV6 iphLen pkt)"
proof -
  have l: "H \<le> length pkt" using assms(1) by (simp add: header_edit_def)
  show "header_edit X H pkt0 (set_lengths le isV6 iphLen pkt)"
    using assms(2,3) by (auto simp: set_lengths_def Let_def ip_fields_def ip_length_def split: if_splits intro!: header_edit_put2 assms(1))
  show "ip_lengths_ok le isV6 (set_lengths le isV6 iphLen pkt)"
  proof (cases isV6)
    case True
    have "ucast iphLen = (40 :: u16)" using assms(4) True by (simp add: ip_length_def word_unat_eq_iff unat_ucast_u16)
    moreover have "unat (word_of_nat (length pkt) - 40 :: u16) = length pkt - 40"
    proof -
      have "(40 :: u16) \<le> word_of_nat (length pkt)" using True l assms(3,5) by (simp add: word_le_nat_alt u16_len ip_length_def)
      then show ?thesis using assms(5) by (simp add: unat_sub u16_len)
    qed
    ultimately show ?thesis using True l assms(3) by (simp add: set_lengths_def ip_lengths_ok_def get_u16_put_at ip_length_def)
  next
    case False
    define b where "b = put_at 2 (put_u16_be (word_of_nat (length pkt))) (put_at 10 [0, 0] pkt)"
    have s: "20 \<le> length pkt" using False l assms(3) by (simp add: ip_length_def)
    have lb: "length b = length pkt" using s by (simp add: b_def)
    have e: "set_lengths le isV6 iphLen pkt = put_at 10 (put_u16_be (NOT (checksum le (take 20 b) 0))) b"
      using False assms(4) s by (simp add: set_lengths_def Let_def b_def ip_length_def)
    have z: "b ! 10 = 0" "b ! Suc 10 = 0" using s put_at_zeros [of 10 pkt] by (simp_all add: b_def nth_put_at)
    have "checksum le (put_at 10 (put_u16_be (NOT (checksum le (take 20 b) 0))) (take 20 b)) 0 = - 1"
      using z s lb by (intro filled_at) simp_all
    then have c: "checksum le (take 20 (set_lengths le isV6 iphLen pkt)) 0 = - 1"
      using s lb by (simp add: e take_put_at_after)
    have "get_u16_be (drop 2 (set_lengths le isV6 iphLen pkt)) = get_u16_be (drop 2 b)"
      using go_slice_put_at [of 4 10 _ 2 b] s lb by (simp add: e get_u16_be_def go_slice_def)
    also have "\<dots> = word_of_nat (length pkt)" using s by (simp add: b_def get_u16_put_at)
    finally have "get_u16_be (drop 2 (set_lengths le isV6 iphLen pkt)) = word_of_nat (length pkt)" .
    moreover have "length (set_lengths le isV6 iphLen pkt) = length pkt" using s lb by (simp add: e)
    ultimately show ?thesis using False c assms(5) by (simp add: ip_lengths_ok_def u16_len)
  qed
qed

text \<open>The transport checksum left to the kernel: the sum of the pseudo header.\<close>

definition pseudo_field :: "bool \<Rightarrow> bool \<Rightarrow> byte \<Rightarrow> bytes \<Rightarrow> u16" where
  "pseudo_field le isV6 proto pkt =
     checksum le [] (pseudoHeaderChecksumNoFold le proto (src_addr isV6 pkt) (dst_addr isV6 pkt) (word_of_nat (length pkt - ip_length isV6)))"

lemma put_behind:
  assumes "ip_length isV6 \<le> k" "k + length bs \<le> length pkt"
  shows "ip_lengths_ok le isV6 (put_at k bs pkt) = ip_lengths_ok le isV6 pkt" "pseudo_field le isV6 proto (put_at k bs pkt) = pseudo_field le isV6 proto pkt"
proof -
  have g: "go_slice i j (put_at k bs pkt) = go_slice i j pkt" if "j \<le> ip_length isV6" for i j
    using that assms by (intro go_slice_put_at) simp_all
  have "get_u16_be (drop i (put_at k bs pkt)) = get_u16_be (drop i pkt)" if "i + 2 \<le> ip_length isV6" for i
    using g [of "i + 2" i] that by (simp add: get_u16_be_def go_slice_def)
  moreover have "take 20 (put_at k bs pkt) = take 20 pkt" using g [of 20 0] by (simp add: go_slice_def ip_length_def)
  ultimately show "ip_lengths_ok le isV6 (put_at k bs pkt) = ip_lengths_ok le isV6 pkt"
    using assms by (simp add: ip_lengths_ok_def ip_length_def split: if_splits)
  show "pseudo_field le isV6 proto (put_at k bs pkt) = pseudo_field le isV6 proto pkt"
    using g assms(2) by (simp add: pseudo_field_def src_addr_def dst_addr_def ip_length_def ipv4SrcAddrOffset_def ipv6SrcAddrOffset_def)
qed

lemma set_pseudo_spec:
  assumes "header_edit X H pkt0 pkt" "unat iphLen = ip_length isV6" "unat off \<le> 16" "{ip_length isV6 + unat off, ip_length isV6 + unat off + 1} \<subseteq> X"
    "ip_length isV6 + unat off + 2 \<le> H"
  shows "header_edit X H pkt0 (set_pseudo le isV6 proto iphLen off pkt)"
    "ip_lengths_ok le isV6 (set_pseudo le isV6 proto iphLen off pkt) = ip_lengths_ok le isV6 pkt"
    "get_u16_be (drop (ip_length isV6 + unat off) (set_pseudo le isV6 proto iphLen off pkt)) = pseudo_field le isV6 proto (set_pseudo le isV6 proto iphLen off pkt)"
proof -
  let ?k = "ip_length isV6 + unat off"
  have "unat (ucast iphLen + off) = ?k"
    using assms(2,3) by (simp add: unat_word_ariths unat_ucast_u16 ip_length_def)
  then have e: "set_pseudo le isV6 proto iphLen off pkt = put_at ?k (put_u16_be (pseudo_field le isV6 proto pkt)) pkt"
    by (simp add: set_pseudo_def pseudo_field_def assms(2))
  have l: "?k + 2 \<le> length pkt" using assms(1,5) by (simp add: header_edit_def)
  have i: "{?k ..< ?k + 2} \<subseteq> X" using assms(4) by (auto simp: less_Suc_eq)
  show "header_edit X H pkt0 (set_pseudo le isV6 proto iphLen off pkt)"
    unfolding e using i assms(5) by (intro header_edit_put assms(1)) simp_all
  show "ip_lengths_ok le isV6 (set_pseudo le isV6 proto iphLen off pkt) = ip_lengths_ok le isV6 pkt"
    unfolding e using l by (intro put_behind) simp_all
  have "pseudo_field le isV6 proto (put_at ?k (put_u16_be (pseudo_field le isV6 proto pkt)) pkt) = pseudo_field le isV6 proto pkt"
    using l by (intro put_behind) simp_all
  then show "get_u16_be (drop ?k (set_pseudo le isV6 proto iphLen off pkt)) = pseudo_field le isV6 proto (set_pseudo le isV6 proto iphLen off pkt)"
    unfolding e using l by (simp add: get_u16_put_at)
qed

text \<open>The places of the header that are rewritten: the lengths and checksums, and the PSH flag.\<close>

definition rewritten :: "bool \<Rightarrow> bool \<Rightarrow> nat set" where
  "rewritten isV6 udp = ip_fields isV6 \<union>
     (if udp then {ip_length isV6 + 4 ..< ip_length isV6 + 8}
      else {ip_length isV6 + tcpFlagsOffset, ip_length isV6 + 16, ip_length isV6 + 17})"

text \<open>The packets \<open>js\<close> of a batch \<open>P\<close> in one packet, with the virtio header that cuts it again.\<close>

definition joined :: "bool \<Rightarrow> (nat \<Rightarrow> bytes) \<Rightarrow> nat list \<Rightarrow> bool \<Rightarrow> bool \<Rightarrow> virtioNetHdr \<Rightarrow> bytes \<Rightarrow> bool" where
  "joined le P js isV6 udp hdr pkt \<longleftrightarrow>
     (let H = unat (vh_hdrLen hdr); s = ip_length isV6; proto = (if udp then IPPROTO_UDP else IPPROTO_TCP) in
      vh_flags hdr = VIRTIO_NET_HDR_F_NEEDS_CSUM \<and>
      vh_gsoType hdr = (if udp then VIRTIO_NET_HDR_GSO_UDP_L4 else if isV6 then VIRTIO_NET_HDR_GSO_TCPV6 else VIRTIO_NET_HDR_GSO_TCPV4) \<and>
      unat (vh_csumStart hdr) = s \<and> vh_csumOffset hdr = (if udp then 6 else 16) \<and>
      pieces (unat (vh_gsoSize hdr)) (drop H pkt) = map (\<lambda>j. drop H (P j)) js \<and>
      (\<forall>k < H. k \<notin> rewritten isV6 udp \<longrightarrow> pkt ! k = P (hd js) ! k) \<and>
      ip_lengths_ok le isV6 pkt \<and> get_u16_be (drop (s + unat (vh_csumOffset hdr)) pkt) = pseudo_field le isV6 proto pkt \<and>
      (udp \<longrightarrow> unat (get_u16_be (drop (s + 4) pkt)) = length pkt - s) \<and>
      (\<forall>j \<in> set js. checksumValid le (P j) s proto isV6) \<and>
      (if udp then sorted_wrt (<) js \<and> (\<forall>j \<in> set js. udp_key isV6 (P j) = udp_key isV6 (P (hd js)))
       else tcp_run isV6 H P js (tcp_seq isV6 (P (hd js))) \<and> (\<forall>j \<in> set js. tcp_key isV6 (P j) = tcp_key isV6 (P (hd js)))))"

lemma group_pieces: "packet_group H P g js pkt \<Longrightarrow> pieces g (drop H pkt) = map (\<lambda>j. drop H (P j)) js"
proof -
  assume g: "packet_group H P g js pkt"
  obtain "is" l where "js = is @ [l]" "drop H pkt = concat (map (\<lambda>j. drop H (P j)) is) @ drop H (P l)"
    "\<forall>j \<in> set is. length (P j) = H + g" "H < length (P l)" "length (P l) \<le> H + g"
    using g by (rule groupE)
  then have "pieces g (concat (map (\<lambda>j. drop H (P j)) js)) = map (\<lambda>j. drop H (P j)) js" by (intro pieces_concat) auto
  then show ?thesis using g by (simp add: packet_group_def)
qed

text \<open>A buffer that is written.\<close>

definition written :: "bool \<Rightarrow> (nat \<Rightarrow> bytes) \<Rightarrow> nat \<Rightarrow> nat \<Rightarrow> nat list \<Rightarrow> Buf \<Rightarrow> bool" where
  "written le P off w js b \<longleftrightarrow>
     js = [w] \<and> drop off (b_data b) = P w \<or>
     (\<exists>hdr isV6 udp. decode le (drop (off - virtioNetHdrLen) (b_data b)) = Some hdr \<and> joined le P js isV6 udp hdr (drop off (b_data b)))"

lemma tcp_written:
  assumes it: "tcp_item_ok le P it js (drop off (b_data b))" "w = ti_bufsIndex it" and off: "virtioNetHdrLen \<le> off" "off \<le> length (b_data b)"
    and a: "tcp_account le off it b = Some b'"
  shows "written le P off w js b'"
proof (cases "ti_numMerged it = 0")
  case True
  then have js: "js = [w]" "drop off (b_data b) = P w" using it by (simp_all add: tcp_item_ok_def)
  have "put_header le off virtio_none (P w) b = Some b'" using a True js(2) by (simp add: tcp_account_def Let_def word_gt_0)
  from put_header_spec [OF this off] show ?thesis using js by (simp add: written_def)
next
  case False
  let ?pkt = "drop off (b_data b)" and ?H = "tcp_header it"
  define v where "v = fk_isV6 (ti_key it)"
  note I = it(1) [unfolded tcp_item_ok_def, folded v_def]
  note L = tcp_headers_len [OF it(1), folded v_def]
  define hdr where "hdr = \<lparr>vh_flags = VIRTIO_NET_HDR_F_NEEDS_CSUM,
                   vh_gsoType = (if v then VIRTIO_NET_HDR_GSO_TCPV6 else VIRTIO_NET_HDR_GSO_TCPV4),
                   vh_hdrLen = ucast (ti_iphLen it + ti_tcphLen it), vh_gsoSize = ti_gsoSize it,
                   vh_csumStart = ucast (ti_iphLen it), vh_csumOffset = 16\<rparr>"
  define p1 where "p1 = set_lengths le v (ti_iphLen it) ?pkt"
  define p2 where "p2 = set_pseudo le v IPPROTO_TCP (ti_iphLen it) 16 p1"
  have a': "put_header le off hdr p2 b = Some b'"
    using a False by (simp add: tcp_account_def Let_def word_gt_0 hdr_def p1_def p2_def v_def)
  note B = put_header_spec [OF a' off]
  have iph: "unat (ti_iphLen it) = ip_length v" using I by blast
  have gr: "packet_group ?H P (unat (ti_gsoSize it)) js ?pkt" using I by blast
  have len: "length ?pkt \<le> maxUint16" using I by blast
  let ?X = "rewritten v False"
  have e0: "header_edit ?X ?H ?pkt ?pkt" using gr by (intro header_edit_refl) (simp add: packet_group_def)
  have e1: "header_edit ?X ?H ?pkt p1" "ip_lengths_ok le v p1"
    unfolding p1_def using set_lengths_spec [OF e0 _ _ iph len] L(4) by (simp_all add: rewritten_def subset_insertI2)
  have e2: "header_edit ?X ?H ?pkt p2" "ip_lengths_ok le v p2" "get_u16_be (drop (ip_length v + 16) p2) = pseudo_field le v IPPROTO_TCP p2"
    unfolding p2_def using set_pseudo_spec [OF e1(1) iph, of 16] L(4) e1(2) by (simp_all add: rewritten_def)
  have gr2: "packet_group ?H P (unat (ti_gsoSize it)) js p2"
    using e2(1) by (intro group_header [OF gr]) (simp_all add: header_edit_def)
  have js: "js \<noteq> []" "1 < length js" using I False by (auto simp: unat_gt_0)
  have run0: "ti_sentSeq it = tcp_seq v (P (hd js))"
    using I js(1) by (auto simp: tcp_run_def hd_conv_nth dest: spec [of _ 0])
  have hd: "same_header ?X ?H p2 (P (hd js))"
  proof (rule same_header_trans)
    show "same_header ?X ?H p2 ?pkt" using e2(1) by (simp add: header_edit_def)
    show "same_header ?X ?H ?pkt (P (hd js))" using I by (auto simp: same_header_def rewritten_def)
  qed
  have "unat (vh_hdrLen hdr) = ?H" using L(1) by (simp add: hdr_def unat_ucast_u16)
  moreover have "unat (vh_csumStart hdr) = ip_length v" using iph by (simp add: hdr_def unat_ucast_u16)
  ultimately have "joined le P js v False hdr p2"
    unfolding joined_def Let_def using I js hd group_pieces [OF gr2] e2(2,3) iph run0
    by (simp add: hdr_def same_header_def)
  then show ?thesis using B(1,4) unfolding written_def by blast
qed

lemma udp_written:
  assumes it: "udp_item_ok le P it js (drop off (b_data b))" "w = ui_bufsIndex it" and off: "virtioNetHdrLen \<le> off" "off \<le> length (b_data b)"
    and a: "udp_account le off it b = Some b'"
  shows "written le P off w js b'"
proof (cases "ui_numMerged it = 0")
  case True
  then have js: "js = [w]" "drop off (b_data b) = P w" using it by (simp_all add: udp_item_ok_def)
  have "put_header le off virtio_none (P w) b = Some b'" using a True js(2) by (simp add: udp_account_def Let_def word_gt_0)
  from put_header_spec [OF this off] show ?thesis using js by (simp add: written_def)
next
  case False
  let ?pkt = "drop off (b_data b)" and ?H = "udp_header it"
  define v where "v = fk_isV6 (ui_key it)"
  note I = it(1) [unfolded udp_item_ok_def, folded v_def]
  note L = udp_headers_len [OF it(1), folded v_def]
  have H: "?H = ip_length v + 8" by (simp add: udp_header_def v_def)
  define hdr where "hdr = \<lparr>vh_flags = VIRTIO_NET_HDR_F_NEEDS_CSUM, vh_gsoType = VIRTIO_NET_HDR_GSO_UDP_L4,
                   vh_hdrLen = ucast (ui_iphLen it + 8), vh_gsoSize = ui_gsoSize it,
                   vh_csumStart = ucast (ui_iphLen it), vh_csumOffset = 6\<rparr>"
  define p1 where "p1 = set_lengths le v (ui_iphLen it) ?pkt"
  define p2 where "p2 = put_at (unat (ui_iphLen it + 4)) (put_u16_be (word_of_nat (length (drop (unat (ui_iphLen it)) p1)))) p1"
  define p3 where "p3 = set_pseudo le v IPPROTO_UDP (ui_iphLen it) 6 p2"
  have a': "put_header le off hdr p3 b = Some b'"
    using a False by (simp add: udp_account_def Let_def word_gt_0 hdr_def p1_def p2_def p3_def v_def)
  note B = put_header_spec [OF a' off]
  have iph: "unat (ui_iphLen it) = ip_length v" using I by blast
  have at: "unat (ui_iphLen it + 4) = ip_length v + 4" using iph by (simp add: unat_word_ariths ip_length_def)
  have gr: "packet_group ?H P (unat (ui_gsoSize it)) js ?pkt" using I by blast
  have len: "length ?pkt \<le> maxUint16" using I by blast
  let ?X = "rewritten v True"
  have X: "{ip_length v + 4, ip_length v + 5, ip_length v + 6, ip_length v + 7} \<union> ip_fields v \<subseteq> ?X" by (auto simp: rewritten_def)
  have X2: "5 + ip_length v \<in> ?X" "7 + ip_length v \<in> ?X" by (auto simp: rewritten_def)
  have e0: "header_edit ?X ?H ?pkt ?pkt" using gr by (intro header_edit_refl) (simp add: packet_group_def)
  have e1: "header_edit ?X ?H ?pkt p1" "ip_lengths_ok le v p1"
    unfolding p1_def using set_lengths_spec [OF e0 _ _ iph len] X H by simp_all
  have l1: "length p1 = length ?pkt" "ip_length v + 8 \<le> length p1" using e1(1) H by (simp_all add: header_edit_def)
  have p2: "p2 = put_at (ip_length v + 4) (put_u16_be (word_of_nat (length p1 - ip_length v))) p1" by (simp add: p2_def at iph)
  have e2: "header_edit ?X ?H ?pkt p2" unfolding p2 using X X2 H by (intro header_edit_put2 e1(1)) simp_all
  have e2': "ip_lengths_ok le v p2" unfolding p2 using e1(2) l1 by (subst put_behind) simp_all
  have e3: "header_edit ?X ?H ?pkt p3" "ip_lengths_ok le v p3" "get_u16_be (drop (ip_length v + 6) p3) = pseudo_field le v IPPROTO_UDP p3"
    unfolding p3_def using set_pseudo_spec [OF e2 iph, of 6] X X2 H e2' by simp_all
  have l: "get_u16_be (drop (ip_length v + 4) p3) = word_of_nat (length p3 - ip_length v)"
  proof -
    have "p3 = put_at (ip_length v + 6) (put_u16_be (pseudo_field le v IPPROTO_UDP p2)) p2"
      using iph by (simp add: p3_def set_pseudo_def pseudo_field_def unat_word_ariths unat_ucast_u16 ip_length_def)
    moreover have "length p2 = length p1" using l1 by (simp add: p2)
    moreover have "get_u16_be (drop (ip_length v + 4) p2) = word_of_nat (length p1 - ip_length v)"
      unfolding p2 using l1 by (intro get_u16_put_at) simp
    ultimately show ?thesis
      using l1 go_slice_put_at [of "ip_length v + 6" "ip_length v + 6" _ "ip_length v + 4" p2] by (simp add: get_u16_be_def go_slice_def)
  qed
  have l3: "length p3 \<le> maxUint16" using len e3(1) by (simp add: header_edit_def)
  have gr2: "packet_group ?H P (unat (ui_gsoSize it)) js p3"
    using e3(1) by (intro group_header [OF gr]) (simp_all add: header_edit_def)
  have js: "js \<noteq> []" "1 < length js" using I False by (auto simp: unat_gt_0)
  have hd: "same_header ?X ?H p3 (P (hd js))"
  proof (rule same_header_trans)
    show "same_header ?X ?H p3 ?pkt" using e3(1) by (simp add: header_edit_def)
    show "same_header ?X ?H ?pkt (P (hd js))" using I by (auto simp: same_header_def)
  qed
  have "unat (vh_hdrLen hdr) = ?H" using L(1) by (simp add: hdr_def unat_ucast_u16)
  moreover have "unat (vh_csumStart hdr) = ip_length v" using iph by (simp add: hdr_def unat_ucast_u16)
  moreover have "unat (get_u16_be (drop (ip_length v + 4) p3)) = length p3 - ip_length v" unfolding l using l3 by (simp add: u16_len)
  ultimately have "joined le P js v True hdr p3"
    unfolding joined_def Let_def using I js hd group_pieces [OF gr2] e3(2,3) iph
    by (simp add: hdr_def same_header_def)
  then show ?thesis using B(1,4) unfolding written_def by blast
qed

section \<open>The batch\<close>

lemma distinct_sub:
  assumes "mset xs \<subseteq># mset ys" "distinct ys"
  shows "distinct xs"
proof -
  have "count (mset xs) a = (if a \<in> set xs then 1 else 0)" for a
  proof -
    have "count (mset xs) a \<le> count (mset ys) a" by (rule mset_subset_eq_count [OF assms(1)])
    also have "\<dots> \<le> 1" using assms(2) by (simp add: distinct_count_atmost_1)
    finally have c: "count (mset xs) a \<le> 1" .
    show ?thesis
    proof (cases "a \<in> set xs")
      case True
      then have "count (mset xs) a \<noteq> 0" by (simp add: count_eq_zero_iff)
      with c have "count (mset xs) a = 1" by linarith
      with True show ?thesis by simp
    next
      case False
      then have "count (mset xs) a = 0" by (simp add: not_in_iff [symmetric])
      with False show ?thesis by simp
    qed
  qed
  then show ?thesis by (simp add: distinct_count_atmost_1)
qed

lemma accounting_written:
  assumes S: "virtioNetHdrLen \<le> off" "batch_state le P off n s parts" "length (gs_bufs s) = n"
    and b1: "account ti_bufsIndex (tcp_account le off) (all_items (gs_tcp s)) (gs_bufs s) = (True, b1)"
    "account ui_bufsIndex (udp_account le off) (all_items (gs_udp s)) b1 = (True, bufs')" and w: "w \<in> set (gs_toWrite s)"
  shows "written le P off w (parts w) (bufs' ! w)"
proof -
  let ?ts = "all_items (gs_tcp s)" and ?us = "all_items (gs_udp s)"
  note B = batch_okD [OF batch_stateD(4) [OF S(2)]]
  have "mset (map ti_bufsIndex ?ts @ map ui_bufsIndex ?us) \<subseteq># mset (gs_toWrite s)"
    using B(7) by (simp add: items_mset_def multiset.map_comp comp_def index_of_def)
  then have d: "distinct (map ti_bufsIndex ?ts @ map ui_bufsIndex ?us)" "set (map ti_bufsIndex ?ts @ map ui_bufsIndex ?us) \<subseteq> set (gs_toWrite s)"
    using distinct_sub [OF _ B(4)] by (blast, metis set_mset_mono set_mset_mset)
  have tw: "set (gs_toWrite s) \<subseteq> {..< n}" by (rule B(5))
  have A1: "length b1 = n \<and> (\<forall>it \<in> set ?ts. tcp_account le off it (gs_bufs s ! ti_bufsIndex it) = Some (b1 ! ti_bufsIndex it)) \<and>
   (\<forall>k. k \<notin> ti_bufsIndex ` set ?ts \<longrightarrow> b1 ! k = gs_bufs s ! k)"
    using account_spec [OF b1(1)] d tw S(3) by auto
  have A2: "length bufs' = n \<and> (\<forall>it \<in> set ?us. udp_account le off it (b1 ! ui_bufsIndex it) = Some (bufs' ! ui_bufsIndex it)) \<and>
   (\<forall>k. k \<notin> ui_bufsIndex ` set ?us \<longrightarrow> bufs' ! k = b1 ! k)"
    using account_spec [OF b1(2)] d tw A1 by auto
  have dis: "ti_bufsIndex t \<noteq> ui_bufsIndex u" if "t \<in> set ?ts" "u \<in> set ?us" for t u using d(1) that by auto
  have ok: "item_ok le P it (parts (index_of it)) (packet_at (gs_bufs s) off (index_of it))" if "it \<in># items_mset (gs_tcp s) (gs_udp s)" for it
    by (rule B(8) [OF that])
  have off: "virtioNetHdrLen \<le> off" "off \<le> length (b_data (gs_bufs s ! w))" using S(1) B(9) [OF w] by auto
  consider (tcp) t where "t \<in> set ?ts" "w = ti_bufsIndex t" | (udp) u where "u \<in> set ?us" "w = ui_bufsIndex u"
    | (none) "w \<notin> ti_bufsIndex ` set ?ts" "w \<notin> ui_bufsIndex ` set ?us" by blast
  then show ?thesis
  proof cases
    case tcp
    then have "Inl t \<in># items_mset (gs_tcp s) (gs_udp s)" by (simp add: items_mset_def)
    from ok [OF this] tcp(2) have i: "tcp_item_ok le P t (parts w) (drop off (b_data (gs_bufs s ! w)))"
      by (simp add: item_ok_def index_of_def packet_at_def)
    have "bufs' ! w = b1 ! w" using A2 dis [OF tcp(1)] tcp(2) by blast
    moreover have "tcp_account le off t (gs_bufs s ! w) = Some (b1 ! w)" using A1 tcp by simp
    ultimately show ?thesis using tcp_written [OF i tcp(2) off] by simp
  next
    case udp
    then have "Inr u \<in># items_mset (gs_tcp s) (gs_udp s)" by (simp add: items_mset_def)
    from ok [OF this] udp(2) have i: "udp_item_ok le P u (parts w) (drop off (b_data (gs_bufs s ! w)))"
      by (simp add: item_ok_def index_of_def packet_at_def)
    have "w \<notin> ti_bufsIndex ` set ?ts" using dis [OF _ udp(1)] udp(2) by blast
    then have "b1 ! w = gs_bufs s ! w" using A1 by blast
    moreover have "udp_account le off u (b1 ! w) = Some (bufs' ! w)" using A2 udp by simp
    ultimately show ?thesis using udp_written [OF i udp(2) off] by simp
  next
    case none
    then have "w \<notin># image_mset index_of (items_mset (gs_tcp s) (gs_udp s))"
      by (auto simp: items_mset_def index_of_def)
    then have p: "parts w = [w]" "packet_at (gs_bufs s) off w = P w" using B(10) [OF w] by simp_all
    have "bufs' ! w = gs_bufs s ! w" using A1 A2 none by simp
    then show ?thesis using p by (simp add: written_def packet_at_def)
  qed
qed

end
