(* ===== verification/Gro_Facts.thy ===== *)
theory Gro_Facts
  imports Gro_Batch
begin

text \<open>
  The properties of \<open>handleGRO\<close>, and batches of two packets: one in which the second packet is put before the first, and
  one whose first packet has a wrong checksum.
\<close>

lemma checksumValid_iff:
  "checksumValid le pkt iphLen proto isV6 \<longleftrightarrow>
   rfc1071 (pseudo_sum proto (src_addr isV6 pkt) (dst_addr isV6 pkt) (word_of_nat (length pkt - iphLen)) + be_sum (drop iphLen pkt)) = 65535"
proof -
  let ?p = "pseudoHeaderChecksumNoFold le proto (src_addr isV6 pkt) (dst_addr isV6 pkt) (word_of_nat (length pkt - iphLen))"
  let ?s = "pseudo_sum proto (src_addr isV6 pkt) (dst_addr isV6 pkt) (word_of_nat (length pkt - iphLen)) + be_sum (drop iphLen pkt)"
  have "same_sum (unat ?p + be_sum (drop iphLen pkt)) ?s"
    by (intro same_sum_add same_sum_refl pseudoHeader_spec)
  then have "same_sum (rfc1071 (unat ?p + be_sum (drop iphLen pkt))) ?s"
    using rfc1071_spec same_sum_trans by blast
  then have e: "rfc1071 (unat ?p + be_sum (drop iphLen pkt)) = rfc1071 ?s"
    using rfc1071_unique rfc1071_spec by blast
  have "checksumValid le pkt iphLen proto isV6 \<longleftrightarrow> checksum le (drop iphLen pkt) ?p = - 1"
    by (simp add: checksumValid_def not_eq_complement) (metis add.inverse_inverse diff_0 diff_eq_diff_eq)
  also have "\<dots> \<longleftrightarrow> unat (checksum le (drop iphLen pkt) ?p) = unat (- 1 :: u16)" by (simp only: word_unat_eq_iff)
  also have "\<dots> \<longleftrightarrow> rfc1071 ?s = 65535" by (simp add: checksum_eq e unsigned_minus_1_eq_mask mask_eq_exp_minus_1)
  finally show ?thesis .
qed

section \<open>Packets of a connection\<close>

text \<open>Four packets, with the sequence numbers 100, 98 and 102, and 100 with a wrong checksum.\<close>

definition tcp_100 :: bytes where
  "tcp_100 = [69, 0, 0, 42, 0, 0, 0, 0, 64, 6, 102, 204, 10, 0, 0, 1, 10, 0, 0, 2, 0, 80, 1, 187, 0, 0, 0, 100, 0, 0, 0, 7, 80, 16, 1, 0, 151, 88, 0, 0, 1, 2]"
definition tcp_98 :: bytes where
  "tcp_98 = [69, 0, 0, 42, 0, 0, 0, 0, 64, 6, 102, 204, 10, 0, 0, 1, 10, 0, 0, 2, 0, 80, 1, 187, 0, 0, 0, 98, 0, 0, 0, 7, 80, 16, 1, 0, 147, 86, 0, 0, 5, 6]"
definition tcp_102 :: bytes where
  "tcp_102 = [69, 0, 0, 41, 0, 0, 0, 0, 64, 6, 102, 205, 10, 0, 0, 1, 10, 0, 0, 2, 0, 80, 1, 187, 0, 0, 0, 102, 0, 0, 0, 7, 80, 16, 1, 0, 149, 89, 0, 0, 3]"
definition tcp_bad :: bytes where
  "tcp_bad = [69, 0, 0, 42, 0, 0, 0, 0, 64, 6, 102, 204, 10, 0, 0, 1, 10, 0, 0, 2, 0, 80, 1, 187, 0, 0, 0, 100, 0, 0, 0, 7, 80, 16, 1, 0, 151, 89, 0, 0, 1, 2]"

lemmas tcp_defs = tcp_100_def tcp_98_def tcp_102_def tcp_bad_def

lemma tcp_valid: "checksumValid le tcp_100 20 IPPROTO_TCP False" "checksumValid le tcp_98 20 IPPROTO_TCP False"
  "checksumValid le tcp_102 20 IPPROTO_TCP False" "\<not> checksumValid le tcp_bad 20 IPPROTO_TCP False"
  by (simp_all add: checksumValid_iff tcp_defs src_addr_def dst_addr_def go_slice_def ipv4SrcAddrOffset_def pseudo_sum_def IPPROTO_TCP_def rfc1071.simps)

lemma tcp_class: "packetIsGROCandidate tcp_100 True = tcp4GROCandidate" "packetIsGROCandidate tcp_98 True = tcp4GROCandidate"
  "packetIsGROCandidate tcp_102 True = tcp4GROCandidate" "packetIsGROCandidate tcp_bad True = tcp4GROCandidate"
  by (simp_all add: packetIsGROCandidate_def tcp_defs IPPROTO_TCP_def)

lemma tcp_cand: "tcp_candidate tcp_100 False = Some (20, 20, False)" "tcp_candidate tcp_98 False = Some (20, 20, False)"
  "tcp_candidate tcp_102 False = Some (20, 20, False)" "tcp_candidate tcp_bad False = Some (20, 20, False)"
  by (simp_all add: tcp_candidate_def gro_ip_length_def fragmented_def tcp_defs get_u16_be_def tcpFlagsOffset_def tcpFlagACK_def tcpFlagPSH_def maxUint16_def)

definition in_buffer :: "bytes \<Rightarrow> Buf" where
  "in_buffer pkt = \<lparr>b_data = [1, 2, 3, 4, 5, 6, 7, 8, 9, 10] @ pkt, b_cap = 65535\<rparr>"

definition example_flow :: tcpFlowKey where "example_flow = newTCPFlowKey tcp_100 12 16 20"

lemma tcp_flow: "newTCPFlowKey tcp_100 12 16 20 = example_flow" "newTCPFlowKey tcp_98 12 16 20 = example_flow"
  "newTCPFlowKey tcp_102 12 16 20 = example_flow" "newTCPFlowKey tcp_bad 12 16 20 = example_flow"
  by (simp_all add: example_flow_def newTCPFlowKey_def tcp_defs go_slice_def get_u16_be_def get_u32_be_def)

lemma flow_v4: "fk_isV6 example_flow = False"
  by (simp add: example_flow_def newTCPFlowKey_def)

lemma tcp_seqs: "get_u32_be (drop 24 tcp_100) = 100" "get_u32_be (drop 24 tcp_98) = 98" "get_u32_be (drop 24 tcp_102) = 102" "get_u32_be (drop 24 tcp_bad) = 100"
  by (simp_all add: tcp_defs get_u32_be_def)

lemma tcp_lengths: "length tcp_100 = 42" "length tcp_98 = 42" "length tcp_102 = 41" "length tcp_bad = 42"
  by (simp_all add: tcp_defs)

lemma tcp_no_psh: "tcp_100 ! 33 AND 8 = 0" "tcp_98 ! 33 AND 8 = 0" "tcp_102 ! 33 AND 8 = 0" "tcp_bad ! 33 AND 8 = 0"
  by (simp_all add: tcp_defs)

lemma tcp_same_ip: "ipHeadersCanCoalesce tcp_98 tcp_100" "ipHeadersCanCoalesce tcp_102 tcp_bad"
  by (simp_all add: tcp_defs ipHeadersCanCoalesce_def)

lemma in_buffer_packet: "drop 10 (b_data (in_buffer pkt)) = pkt" "length (b_data (in_buffer pkt)) = 10 + length pkt" "b_cap (in_buffer pkt) = 65535"
  by (simp_all add: in_buffer_def)

definition flow_item :: "u32 \<Rightarrow> nat \<Rightarrow> u16 \<Rightarrow> u16 \<Rightarrow> tcpGROItem" where
  "flow_item seq i m g = \<lparr>ti_key = example_flow, ti_sentSeq = seq, ti_bufsIndex = i, ti_numMerged = m, ti_gsoSize = g, ti_iphLen = 20, ti_tcphLen = 20, ti_pshSet = False\<rparr>"

lemma flow_item_sel [simp]: "ti_key (flow_item s i m g) = example_flow" "ti_sentSeq (flow_item s i m g) = s" "ti_bufsIndex (flow_item s i m g) = i" "ti_numMerged (flow_item s i m g) = m"
  "ti_gsoSize (flow_item s i m g) = g" "ti_iphLen (flow_item s i m g) = 20" "ti_tcphLen (flow_item s i m g) = 20" "ti_pshSet (flow_item s i m g) = False"
  by (simp_all add: flow_item_def)

lemma tcp_inserts: "tcp_insert tcp_100 12 16 20 20 i t = AList.update example_flow (items_of t example_flow @ [flow_item 100 i 0 2]) t"
  "tcp_insert tcp_bad 12 16 20 20 i t = AList.update example_flow (items_of t example_flow @ [flow_item 100 i 0 2]) t"
  "tcp_insert tcp_102 12 16 20 20 i t = AList.update example_flow (items_of t example_flow @ [flow_item 102 i 0 1]) t"
  by (simp_all add: tcp_insert_def Let_def tcp_flow tcp_seqs tcp_lengths tcp_no_psh flow_item_def tcpFlagsOffset_def tcpFlagPSH_def)

lemma step_100: "bufs ! 0 = in_buffer tcp_100 \<Longrightarrow>
   gro_step le 10 True 0 \<lparr>gs_bufs = bufs, gs_tcp = [], gs_udp = [], gs_toWrite = []\<rparr> =
   Inr \<lparr>gs_bufs = bufs, gs_tcp = [(example_flow, [flow_item 100 0 0 2])], gs_udp = [], gs_toWrite = [0]\<rparr>"
  by (simp add: gro_step_def gro_packet_def tcpGRO_def packet_at_def in_buffer_packet tcp_class tcp_cand tcp_lengths addr_offsets_def
      ipv4SrcAddrOffset_def tcp_flow tcp_inserts virtioNetHdrLen_def Let_def items_of_def)

lemma step_bad: "bufs ! 0 = in_buffer tcp_bad \<Longrightarrow>
   gro_step le 10 True 0 \<lparr>gs_bufs = bufs, gs_tcp = [], gs_udp = [], gs_toWrite = []\<rparr> =
   Inr \<lparr>gs_bufs = bufs, gs_tcp = [(example_flow, [flow_item 100 0 0 2])], gs_udp = [], gs_toWrite = [0]\<rparr>"
  by (simp add: gro_step_def gro_packet_def tcpGRO_def packet_at_def in_buffer_packet tcp_class tcp_cand tcp_lengths addr_offsets_def
      ipv4SrcAddrOffset_def tcp_flow tcp_inserts virtioNetHdrLen_def Let_def items_of_def)

lemma join_98: "tcpPacketsCanCoalesce tcp_98 20 20 98 False 2 (flow_item 100 0 0 2) [in_buffer tcp_100, in_buffer tcp_98] 10 = coalescePrepend"
  by (simp add: tcpPacketsCanCoalesce_def packet_at_def in_buffer_packet tcp_same_ip Let_def)

lemma do_join_98: "coalesceTCPPackets le coalescePrepend tcp_98 1 2 98 False (flow_item 100 0 0 2) [in_buffer tcp_100, in_buffer tcp_98] 10 False
   = (coalesceSuccess, flow_item 98 0 1 2, [in_buffer (tcp_98 @ [1, 2]), in_buffer tcp_100])"
  by (simp add: coalesceTCPPackets_def packet_at_def in_buffer_packet cap_short_def tcp_lengths tcp_valid merged_def Let_def swap_def append_data_def)
    (simp add: flow_item_def in_buffer_def tcp_100_def)

lemma step_98:
   "gro_step le 10 True 1 \<lparr>gs_bufs = [in_buffer tcp_100, in_buffer tcp_98], gs_tcp = [(example_flow, [flow_item 100 0 0 2])], gs_udp = [], gs_toWrite = [0]\<rparr> =
   Inr \<lparr>gs_bufs = [in_buffer (tcp_98 @ [1, 2]), in_buffer tcp_100], gs_tcp = [(example_flow, [flow_item 98 0 1 2])], gs_udp = [], gs_toWrite = [0]\<rparr>"
  by (simp add: gro_step_def gro_packet_def tcpGRO_def packet_at_def in_buffer_packet tcp_class tcp_cand tcp_lengths addr_offsets_def
      ipv4SrcAddrOffset_def tcp_flow tcp_seqs virtioNetHdrLen_def Let_def join_98 do_join_98 [simplified] tcp_updateAt_def items_of_def)

lemma join_102: "tcpPacketsCanCoalesce tcp_102 20 20 102 False 1 (flow_item 100 0 0 2) [in_buffer tcp_bad, in_buffer tcp_102] 10 = coalesceAppend"
  by (simp add: tcpPacketsCanCoalesce_def packet_at_def in_buffer_packet tcp_same_ip tcp_lengths Let_def)

lemma dont_join_102: "coalesceTCPPackets le coalesceAppend tcp_102 1 1 102 False (flow_item 100 0 0 2) [in_buffer tcp_bad, in_buffer tcp_102] 10 False
   = (coalesceItemInvalidCSum, flow_item 100 0 0 2, [in_buffer tcp_bad, in_buffer tcp_102])"
  by (simp add: coalesceTCPPackets_def packet_at_def in_buffer_packet cap_short_def tcp_lengths tcp_valid Let_def)

lemma step_102:
   "gro_step le 10 True 1 \<lparr>gs_bufs = [in_buffer tcp_bad, in_buffer tcp_102], gs_tcp = [(example_flow, [flow_item 100 0 0 2])], gs_udp = [], gs_toWrite = [0]\<rparr> =
   Inr \<lparr>gs_bufs = [in_buffer tcp_bad, in_buffer tcp_102], gs_tcp = [(example_flow, [flow_item 102 1 0 1])], gs_udp = [], gs_toWrite = [0, 1]\<rparr>"
  by (simp add: gro_step_def gro_packet_def tcpGRO_def packet_at_def in_buffer_packet tcp_class tcp_cand tcp_lengths addr_offsets_def
      ipv4SrcAddrOffset_def tcp_flow tcp_seqs virtioNetHdrLen_def Let_def join_102 dont_join_102 [simplified] tcp_deleteAt_def tcp_inserts items_of_def)

lemma put_header_some: "virtioNetHdrLen \<le> off \<Longrightarrow> off \<le> length (b_data b) \<Longrightarrow> \<exists>b'. put_header le off hdr pkt b = Some b'"
  by (simp add: put_header_def encode_def)

lemma account_some: "off \<le> length (b_data b) \<Longrightarrow> virtioNetHdrLen \<le> off \<Longrightarrow> \<exists>b'. tcp_account le off it b = Some b'"
  by (simp add: tcp_account_def Let_def put_header_some)

lemma batch_98: "\<exists>bufs'. handleGRO le [in_buffer tcp_100, in_buffer tcp_98] 10 True = Inr (bufs', [0])"
proof -
  let ?b = "in_buffer (tcp_98 @ [1, 2])"
  obtain b' where b': "tcp_account le 10 (flow_item 98 0 1 2) ?b = Some b'"
    using account_some [of 10 ?b] by (auto simp: in_buffer_packet virtioNetHdrLen_def)
  have "gro_steps le 10 True [0 ..< 2] \<lparr>gs_bufs = [in_buffer tcp_100, in_buffer tcp_98], gs_tcp = [], gs_udp = [], gs_toWrite = []\<rparr> =
     Inr \<lparr>gs_bufs = [?b, in_buffer tcp_100], gs_tcp = [(example_flow, [flow_item 98 0 1 2])], gs_udp = [], gs_toWrite = [0]\<rparr>"
    using step_100 [of "[in_buffer tcp_100, in_buffer tcp_98]"] step_98 by (simp add: upt_conv_Cons)
  then show ?thesis
    by (simp add: handleGRO_def numeral_2_eq_2 applyTCPCoalesceAccounting_def applyUDPCoalesceAccounting_def b')
qed

section \<open>Properties\<close>

text \<open>C5. \<open>handleGRO\<close> gives the kernel every packet of a batch once. The buffers that are written share the packets out
  among them. A buffer holds a packet of its own as it was, or packets of one flow joined behind the header of the
  first: the payloads are the pieces into which the kernel cuts it by the size in the virtio header; TCP packets
  follow one another in the sequence space, UDP packets keep their order; all their checksums are right, the lengths
  and the IPv4 checksum of the header too, and the transport checksum holds the sum that the kernel completes.\<close>

theorem gro_batch_delivered:
  assumes "handleGRO le bufs offset canUDPGRO = Inr (bufs', toWrite)" "\<forall>b \<in> set bufs. b_cap b \<le> maxUint16"
  shows "\<exists>parts. distinct toWrite \<and> set toWrite \<subseteq> {..< length bufs} \<and>
    mset (concat (map parts toWrite)) = mset [0 ..< length bufs] \<and>
    (\<forall>w \<in> set toWrite. written le (packet_at bufs offset) offset w (parts w) (bufs' ! w))"
proof -
  let ?P = "packet_at bufs offset" and ?n = "length bufs"
  let ?s0 = "\<lparr>gs_bufs = bufs, gs_tcp = [], gs_udp = [], gs_toWrite = []\<rparr>"
  obtain s where s: "gro_steps le offset canUDPGRO [0 ..< ?n] ?s0 = Inr s" using assms(1) by (auto simp: handleGRO_def split: sum.splits)
  obtain b1 where b1: "account ti_bufsIndex (tcp_account le offset) (all_items (gs_tcp s)) (gs_bufs s) = (True, b1)"
    "account ui_bufsIndex (udp_account le offset) (all_items (gs_udp s)) b1 = (True, bufs')" "toWrite = gs_toWrite s"
    using assms(1) by (auto simp: handleGRO_def s Let_def applyTCPCoalesceAccounting_def applyUDPCoalesceAccounting_def all_items_def split: prod.splits if_splits)
  have "batch_ok le ?P offset 0 bufs {#} [] (\<lambda>_. [])" by (rule batch_start [OF assms(2)]) simp
  then have "batch_state le ?P offset 0 ?s0 (\<lambda>_. [])" by (simp add: batch_state_def keyed_def nonempty_def items_mset_def all_items_def items_of_def)
  from gro_steps_spec [OF this _ _ s] obtain parts where S: "0 < ?n \<longrightarrow> virtioNetHdrLen \<le> offset" "length (gs_bufs s) = ?n"
    "batch_state le ?P offset ?n s parts" by auto
  note B = batch_okD [OF batch_stateD(4) [OF S(3)], folded b1(3)]
  have "written le ?P offset w (parts w) (bufs' ! w)" if w: "w \<in> set toWrite" for w
  proof (rule accounting_written [OF _ S(3,2) b1(1,2)])
    show "virtioNetHdrLen \<le> offset" using B(5) w S(1) by auto
    show "w \<in> set (gs_toWrite s)" using w b1(3) by simp
  qed
  then show ?thesis using B(4,5,6) by blast
qed

theorem gro_batch_delivered_witness:
  "\<exists>bufs' parts. handleGRO True [in_buffer tcp_100, in_buffer tcp_98] 10 True = Inr (bufs', [0]) \<and>
    mset (parts 0) = mset [0, 1] \<and> written True (packet_at [in_buffer tcp_100, in_buffer tcp_98] 10) 10 0 (parts 0) (bufs' ! 0)"
proof -
  obtain bufs' where h: "handleGRO True [in_buffer tcp_100, in_buffer tcp_98] 10 True = Inr (bufs', [0])" using batch_98 by blast
  have "\<forall>b \<in> set [in_buffer tcp_100, in_buffer tcp_98]. b_cap b \<le> maxUint16" by (simp add: in_buffer_packet maxUint16_def)
  from gro_batch_delivered [OF h this] show ?thesis using h by (auto simp: upt_conv_Cons)
qed


end
