(* ===== verification/Native_Tun.thy ===== *)
theory Native_Tun
  imports Gro
begin

text \<open>
  \<open>tun/tun_linux.go\<close>: \<open>Read\<close> and \<open>Write\<close> of the Linux TUN device. The file is a parameter: \<open>fread f n\<close> reads at
  most \<open>n\<close> bytes, \<open>fwrite f b\<close> writes a packet and returns the number of bytes written, and \<open>badfd\<close> says
  which errors are \<open>EBADFD\<close>. What the device keeps besides are its two flags and the errors that its listeners
  have reported; the tables of flows are empty between two calls of \<open>Write\<close>. System calls that create the
  device or ask it for its name and MTU, and the netlink listener, are not modelled.
\<close>

datatype 'e tun_failure = Os_ErrClosed | Tun_Failure tun_error | Reported 'e | File_Errors "'e list"

record ('f, 'e) NativeTun =
  nt_file :: 'f
  nt_errors :: "'e list"
  nt_vnetHdr :: bool
  nt_udpGSO :: bool

text \<open>The packets of a batch are written one by one. An error other than \<open>EBADFD\<close> does not end the batch.\<close>

fun write_loop ::
  "('f \<Rightarrow> bytes \<Rightarrow> (nat + 'e) \<times> 'f) \<Rightarrow> ('e \<Rightarrow> bool) \<Rightarrow> Buf list \<Rightarrow> nat \<Rightarrow> nat list \<Rightarrow> nat \<Rightarrow> 'e list \<Rightarrow> 'f
    \<Rightarrow> (nat \<times> 'e tun_failure option) \<times> 'f" where
  "write_loop fwrite badfd bufs offset [] written errs f = ((written, if errs = [] then None else Some (File_Errors errs)), f)"
| "write_loop fwrite badfd bufs offset (bufsI # toWrite) written errs f =
     (case fwrite f (packet_at bufs offset bufsI) of
        (Inl n, f) \<Rightarrow> write_loop fwrite badfd bufs offset toWrite (written + n) errs f
      | (Inr err, f) \<Rightarrow>
          if badfd err then ((written, Some Os_ErrClosed), f)
          else write_loop fwrite badfd bufs offset toWrite written (errs @ [err]) f)"

definition NativeTun_Write ::
  "bool \<Rightarrow> ('f \<Rightarrow> bytes \<Rightarrow> (nat + 'e) \<times> 'f) \<Rightarrow> ('e \<Rightarrow> bool) \<Rightarrow> Buf list \<Rightarrow> nat \<Rightarrow> ('f, 'e) NativeTun
    \<Rightarrow> (nat \<times> 'e tun_failure option) \<times> ('f, 'e) NativeTun" where
  "NativeTun_Write le fwrite badfd bufs offset tun =
     (let write = (\<lambda>bufs offset toWrite.
            let (result, f) = write_loop fwrite badfd bufs offset toWrite 0 [] (nt_file tun)
            in (result, tun\<lparr>nt_file := f\<rparr>))
      in if nt_vnetHdr tun then
           (case handleGRO le bufs offset (nt_udpGSO tun) of
              Inl err \<Rightarrow> ((0, Some (Tun_Failure err)), tun)
            | Inr (bufs, toWrite) \<Rightarrow> write bufs (offset - virtioNetHdrLen) toWrite)
         else write bufs offset [0 ..< length bufs])"

text \<open>The buffers and sizes afterwards, the number of packets and the error; \<open>None\<close> if the read panics. With a
  virtio header, the packet is read into a buffer of the device of \<open>bufLen\<close> bytes.\<close>

definition NativeTun_Read ::
  "bool \<Rightarrow> nat \<Rightarrow> ('f \<Rightarrow> nat \<Rightarrow> (bytes + 'e) \<times> 'f) \<Rightarrow> ('e \<Rightarrow> bool) \<Rightarrow> bytes list \<Rightarrow> nat list \<Rightarrow> nat \<Rightarrow> ('f, 'e) NativeTun
    \<Rightarrow> (bytes list \<times> nat list \<times> int \<times> 'e tun_failure option) option \<times> ('f, 'e) NativeTun" where
  "NativeTun_Read le bufLen fread badfd bufs sizes offset tun =
     (case nt_errors tun of
        err # errs \<Rightarrow> (Some (bufs, sizes, 0, Some (Reported err)), tun\<lparr>nt_errors := errs\<rparr>)
      | [] \<Rightarrow>
          if bufs = [] \<or> length (bufs ! 0) < offset then (None, tun)
          else
            let (r, f) = fread (nt_file tun) (if nt_vnetHdr tun then bufLen else length (bufs ! 0) - offset); tun = tun\<lparr>nt_file := f\<rparr> in
            case r of
              Inr err \<Rightarrow> (Some (bufs, sizes, 0, Some (if badfd err then Os_ErrClosed else File_Errors [err])), tun)
            | Inl bs \<Rightarrow>
                if nt_vnetHdr tun then
                  (map_option (\<lambda>(bufs, sizes, n, err). (bufs, sizes, n, map_option Tun_Failure err)) (handleVirtioRead le bs bufs sizes offset), tun)
                else if sizes = [] then (None, tun)
                else (Some (bufs[0 := copy_at offset bs (bufs ! 0)], sizes[0 := length bs], 1, None), tun))"

end
