(* ===== verification/Tun_Reader.thy ===== *)
theory Tun_Reader
  imports Device_Life Nonces
begin

text \<open>
  \<open>RoutineReadFromTUN\<close> of \<open>device/send.go\<close>: the packets of one read of the TUN device are given to the peers
  their destinations are routed to, staged and sent. What the read returns, its packets and its error, are
  arguments. A goroutine that closes the device runs at once. The buffers are not modelled.
\<close>

section \<open>One read\<close>

datatype tun_read_error = Too_Many_Segments | Tun_Closed | Tun_Read_Failed

definition IPv4offsetDst :: nat where "IPv4offsetDst = 16"
definition IPv6offsetDst :: nat where "IPv6offsetDst = 24"

text \<open>The peer a packet is for. \<open>None\<close> is a panic of the lookup.\<close>

definition outbound_peer :: "AllowedIPs \<Rightarrow> bytes \<Rightarrow> pid option option" where
  "outbound_peer ips packet =
     (let version = drop_bit 4 (packet ! 0) in
      if version = 4 then
        if length packet < 20 then Some None
        else Lookup ips (go_slice IPv4offsetDst (IPv4offsetDst + 4) packet)
      else if version = 6 then
        if length packet < 40 then Some None
        else Lookup ips (go_slice IPv6offsetDst (IPv6offsetDst + 16) packet)
      else Some None)"

type_synonym outbound_by_peer = "(pid \<times> QueueOutboundElement list) list"

definition collect_outbound :: "pid \<Rightarrow> QueueOutboundElement \<Rightarrow> outbound_by_peer \<Rightarrow> outbound_by_peer" where
  "collect_outbound p e m = AList.update p ((case map_of m p of None \<Rightarrow> [] | Some es \<Rightarrow> es) @ [e]) m"

fun route_packets :: "AllowedIPs \<Rightarrow> bytes list \<Rightarrow> outbound_by_peer \<Rightarrow> outbound_by_peer option" where
  "route_packets ips [] m = Some m"
| "route_packets ips (packet # ps) m =
     (if packet = [] then route_packets ips ps m
      else do {
        peer \<leftarrow> outbound_peer ips packet;
        route_packets ips ps (case peer of None \<Rightarrow> m | Some p \<Rightarrow> collect_outbound p (new_elem packet) m)
      })"

definition send_routed :: "crypto \<Rightarrow> Net \<Rightarrow> pid \<times> QueueOutboundElement list \<Rightarrow> Device \<Rightarrow> Device option" where
  "send_routed C N = (\<lambda>(p, es) d. if isRunning (peers d p) then SendStagedPackets C N p (StagePackets p es d) else Some d)"

text \<open>One turn of the loop, and whether there is another. The map of peers is walked through in some \<open>order\<close>,
  a permutation of its entries.\<close>

definition RoutineReadFromTUN ::
  "crypto \<Rightarrow> Net \<Rightarrow> (outbound_by_peer \<Rightarrow> outbound_by_peer) \<Rightarrow> bytes list \<Rightarrow> tun_read_error option \<Rightarrow> Device
    \<Rightarrow> (bool \<times> Device) option" where
  "RoutineReadFromTUN C N order packets readErr d =
     do {
       elemsByPeer \<leftarrow> route_packets (allowedips d) packets [];
       d \<leftarrow> each (send_routed C N) (order elemsByPeer) d;
       case readErr of
         None \<Rightarrow> Some (True, d)
       | Some Too_Many_Segments \<Rightarrow> Some (True, d)
       | Some _ \<Rightarrow> if \<not> isClosed d then do { d \<leftarrow> Device_Close C N d; Some (False, d) } else Some (False, d)
     }"

section \<open>Where the packets go\<close>

text \<open>The packets that wait at a peer, staged or with a nonce, and those of a read that are for it.\<close>

definition pending :: "pid \<Rightarrow> Device \<Rightarrow> bytes list" where
  "pending p d = map oe_packet (concat (q_outbound (peers d p) @ q_staged (peers d p)))"

text \<open>The destination of a packet: bytes 16 to 19 of a header of IPv4, bytes 24 to 39 of one of IPv6.\<close>

definition destination :: "bytes \<Rightarrow> bytes option" where
  "destination packet =
     (case packet of
        [] \<Rightarrow> None
      | b # _ \<Rightarrow>
          if unat b div 16 = 4 \<and> 20 \<le> length packet then Some (take 4 (drop 16 packet))
          else if unat b div 16 = 6 \<and> 40 \<le> length packet then Some (take 16 (drop 24 packet))
          else None)"

definition routed :: "AllowedIPs \<Rightarrow> bytes list \<Rightarrow> pid \<Rightarrow> bytes list" where
  "routed ips packets p =
     filter (\<lambda>packet. case destination packet of None \<Rightarrow> False | Some a \<Rightarrow> Lookup ips a = Some (Some p)) packets"

lemma version_div: "drop_bit 4 (b :: byte) = n \<longleftrightarrow> unat b div 16 = unat n"
proof -
  have "unat (drop_bit 4 b) = unat b div 16" by (simp add: unat_drop_bit_eq) (simp add: drop_bit_eq_div)
  then show ?thesis by (metis word_unat_eq_iff)
qed

lemma outbound_peer_destination:
  "packet \<noteq> [] \<Longrightarrow> outbound_peer ips packet = (case destination packet of None \<Rightarrow> Some None | Some a \<Rightarrow> Lookup ips a)"
  by (cases packet)
    (auto simp: outbound_peer_def destination_def version_div IPv4offsetDst_def IPv6offsetDst_def go_slice_def Let_def drop_take)

lemma routed_simps [simp]:
  "routed ips [] p = []"
  "routed ips ([] # ps) p = routed ips ps p"
  "packet \<noteq> [] \<Longrightarrow> routed ips (packet # ps) p =
     (if outbound_peer ips packet = Some (Some p) then packet # routed ips ps p else routed ips ps p)"
  by (simp_all add: routed_def outbound_peer_destination destination_def [of "[]"] split: option.split)

definition elems_for :: "outbound_by_peer \<Rightarrow> pid \<Rightarrow> QueueOutboundElement list" where
  "elems_for m p = (case map_of m p of None \<Rightarrow> [] | Some es \<Rightarrow> es)"

lemma elems_for_collect: "elems_for (collect_outbound q e m) p = (if p = q then elems_for m p @ [e] else elems_for m p)"
  by (simp add: elems_for_def collect_outbound_def AList.update_conv')

lemma route_packets_spec:
  "route_packets ips ps m = Some m' \<Longrightarrow> distinct (map fst m) \<Longrightarrow>
    distinct (map fst m') \<and> elems_for m' p = elems_for m p @ map new_elem (routed ips ps p)"
proof (induction ips ps m arbitrary: m' rule: route_packets.induct)
  case (1 ips m)
  then show ?case by simp
next
  case (2 ips packet ps m)
  show ?case
  proof (cases "packet = []")
    case True
    then show ?thesis using 2 by simp
  next
    case False
    then obtain peer where peer: "outbound_peer ips packet = Some peer"
      "route_packets ips ps (case peer of None \<Rightarrow> m | Some p \<Rightarrow> collect_outbound p (new_elem packet) m) = Some m'"
      using "2.prems"(1) by (auto simp: bind_eq_Some_conv)
    have "distinct (map fst (case peer of None \<Rightarrow> m | Some p \<Rightarrow> collect_outbound p (new_elem packet) m))"
      using "2.prems"(2) by (simp add: collect_outbound_def AList.distinct_update split: option.split)
    from "2.IH"(2) [OF False peer this] show ?thesis
      using False peer(1) by (cases peer) (auto simp: elems_for_collect)
  qed
qed

lemma send_routed_spec:
  assumes s: "send_routed C N (q, es) d = Some d'" and ok: "counters_ok d"
  shows "counters_ok d'" "isRunning (peers d' p) = isRunning (peers d p)"
    "p \<noteq> q \<Longrightarrow> q_staged (peers d' p) = q_staged (peers d p) \<and> q_outbound (peers d' p) = q_outbound (peers d p)"
    "length (q_staged (peers d q)) < QueueStagedSize \<Longrightarrow>
      mset (pending q d') = mset (pending q d) + (if isRunning (peers d q) then mset (map oe_packet es) else {#})"
proof -
  let ?d = "StagePackets q es d"
  have "counters_ok d' \<and> isRunning (peers d' p) = isRunning (peers d p) \<and>
    (p \<noteq> q \<longrightarrow> q_staged (peers d' p) = q_staged (peers d p) \<and> q_outbound (peers d' p) = q_outbound (peers d p)) \<and>
    (length (q_staged (peers d q)) < QueueStagedSize \<longrightarrow>
      mset (pending q d') = mset (pending q d) + (if isRunning (peers d q) then mset (map oe_packet es) else {#}))"
  proof (cases "isRunning (peers d q)")
    case False
    then show ?thesis using s ok by (simp add: send_routed_def)
  next
    case True
    then have s1: "SendStagedPackets C N q ?d = Some d'" using s by (simp add: send_routed_def)
    have st: "q_staged (peers ?d r) = (if r = q then stage_loop es (q_staged (peers d q)) else q_staged (peers d r))"
      "q_outbound (peers ?d r) = q_outbound (peers d r)" "isRunning (peers ?d r) = isRunning (peers d r)"
      "kp_current (peers ?d r) = kp_current (peers d r)" "keypairs ?d = keypairs d" for r
      by (simp_all add: StagePackets_def upd_peer_def)
    have ok1: "counters_ok ?d"
      using out_step_spec [OF out_step.stage [of C N d q es] ok] by (simp add: advances_def)
    then have ok2: "counters_ok d'" using SendStagedPackets_queued [OF s1 ok1] by (simp add: advances_def)
    have staged: "mset (pending q ?d) = mset (pending q d) + mset (map oe_packet es)" if "length (q_staged (peers d q)) < QueueStagedSize"
      by (simp add: pending_def st stage_loop_room [OF that])
    from s1 show ?thesis
    proof (cases rule: SendStagedPackets_cases)
      case idle
      note T = trafficD [OF idle]
      have "pending q d' = pending q ?d" by (simp add: pending_def T)
      then show ?thesis using staged True ok2 by (simp add: T st)
    next
      case (sent k rest out n ex)
      note T = trafficD [OF sent(6)]
      have b: "sendNonce (keypairs ?d k) \<le> RejectAfterMessages" "length (q_staged (peers ?d q)) \<le> QueueStagedSize"
        using ok1 unfolding counters_ok_def by blast+
      obtain staged where S: "map oe_packet (concat out @ staged) = map oe_packet (concat (q_staged (peers ?d q)))" "mset (concat rest) = mset staged"
        using send_loop_spec [OF b sent(5)] by blast
      have "mset (map oe_packet (concat out)) + mset (map oe_packet (concat rest)) = mset (map oe_packet (concat (q_staged (peers ?d q))))"
        using arg_cong [OF S(1), of mset] arg_cong [OF S(2), of "image_mset oe_packet"] by simp
      moreover have T': "isRunning (peers d' r) = isRunning (peers d r)" "q_outbound (peers d' q) = q_outbound (peers d q) @ out"
        "q_staged (peers d' q) = rest" "r \<noteq> q \<Longrightarrow> q_staged (peers d' r) = q_staged (peers d r) \<and> q_outbound (peers d' r) = q_outbound (peers d r)" for r
        using True by (cases "r = q"; simp add: T upd_peer_def upd_keypair_def st)+
      ultimately have "mset (pending q d') = mset (pending q ?d)" by (simp add: pending_def st)
      then show ?thesis using staged True ok2 T' by simp
    qed
  qed
  then show "counters_ok d'" "isRunning (peers d' p) = isRunning (peers d p)"
    "p \<noteq> q \<Longrightarrow> q_staged (peers d' p) = q_staged (peers d p) \<and> q_outbound (peers d' p) = q_outbound (peers d p)"
    "length (q_staged (peers d q)) < QueueStagedSize \<Longrightarrow>
      mset (pending q d') = mset (pending q d) + (if isRunning (peers d q) then mset (map oe_packet es) else {#})"
    by blast+
qed

lemma each_send_frame:
  "each (send_routed C N) m d = Some d' \<Longrightarrow> counters_ok d \<Longrightarrow> p \<notin> fst ` set m \<Longrightarrow> pending p d' = pending p d"
proof (induction m arbitrary: d)
  case (Cons x m)
  obtain q es where x: "x = (q, es)" by (cases x)
  obtain d1 where d1: "send_routed C N (q, es) d = Some d1" "each (send_routed C N) m d1 = Some d'"
    using Cons.prems(1) by (auto simp: x split: bind_splits)
  note S = send_routed_spec [OF d1(1) Cons.prems(2)]
  have "pending p d1 = pending p d" using S(3) [of p] Cons.prems(3) by (simp add: x pending_def)
  with Cons.IH [OF d1(2) S(1)] Cons.prems(3) show ?case by simp
qed simp

lemma each_send_routed:
  "each (send_routed C N) m d = Some d' \<Longrightarrow> counters_ok d \<Longrightarrow> distinct (map fst m) \<Longrightarrow> length (q_staged (peers d p)) < QueueStagedSize \<Longrightarrow>
    mset (pending p d') = mset (pending p d) + (if isRunning (peers d p) then mset (map oe_packet (elems_for m p)) else {#})"
proof (induction m arbitrary: d)
  case Nil
  then show ?case by (simp add: elems_for_def)
next
  case (Cons x m)
  obtain q es where x: "x = (q, es)" by (cases x)
  obtain d1 where d1: "send_routed C N (q, es) d = Some d1" "each (send_routed C N) m d1 = Some d'"
    using Cons.prems(1) by (auto simp: x split: bind_splits)
  note S = send_routed_spec [OF d1(1) Cons.prems(2)]
  have dm: "distinct (map fst m)" using Cons.prems(3) by simp
  show ?case
  proof (cases "p = q")
    case False
    with S(3) [OF False] have "length (q_staged (peers d1 p)) < QueueStagedSize" "pending p d1 = pending p d" "elems_for (x # m) p = elems_for m p"
      using Cons.prems(4) by (simp_all add: pending_def elems_for_def x)
    with Cons.IH [OF d1(2) S(1) dm] S(2) [of p] show ?thesis by simp
  next
    case True
    have "elems_for (x # m) p = es" by (simp add: elems_for_def x True)
    moreover have "pending p d' = pending p d1"
      using each_send_frame [OF d1(2) S(1)] Cons.prems(3) True by (auto simp: x)
    ultimately show ?thesis using S(4) Cons.prems(4) True by simp
  qed
qed


lemma order_elems_for:
  assumes "mset m' = mset m" "distinct (map fst m)"
  shows "distinct (map fst m')" "elems_for m' p = elems_for m p"
proof -
  have d: "mset (map fst m') = mset (map fst m)" using assms(1) by simp
  show d': "distinct (map fst m')" using mset_eq_imp_distinct_iff [OF d] assms(2) by simp
  have "set m' = set m" using assms(1) by (rule mset_eq_setD)
  then have "map_of m' p = map_of m p" using map_of_inject_set [OF d' assms(2)] by simp
  then show "elems_for m' p = elems_for m p" by (simp add: elems_for_def)
qed

text \<open>C4. Packets from the TUN device go where the allowed IPs say. One turn of the reader adds to what waits at a
  running peer just the packets of the read, each once, whose destination is routed to the peer, and nothing to
  a peer that is not running; whatever is sent meanwhile, nothing that waits is lost, as long as the staged
  queue has room for one more container. A read that reports too many segments does not end the loop.\<close>

theorem outbound_routed:
  assumes r: "RoutineReadFromTUN C N order packets readErr d = Some (True, d')" and o: "\<And>m. mset (order m) = mset m"
    and ok: "counters_ok d" and room: "length (q_staged (peers d p)) < QueueStagedSize"
  shows "mset (pending p d') = mset (pending p d) + (if isRunning (peers d p) then mset (routed (allowedips d) packets p) else {#})"
proof -
  obtain m where m: "route_packets (allowedips d) packets [] = Some m" "each (send_routed C N) (order m) d = Some d'"
    using r by (auto simp: RoutineReadFromTUN_def split: bind_splits option.splits tun_read_error.splits if_splits)
  have R: "distinct (map fst m)" "elems_for m p = map new_elem (routed (allowedips d) packets p)"
    using route_packets_spec [OF m(1)] by (simp_all add: elems_for_def)
  note O = order_elems_for [OF o R(1)]
  have "map oe_packet (elems_for (order m) p) = routed (allowedips d) packets p"
    unfolding O(2) R(2) by (simp add: comp_def new_elem_def)
  with each_send_routed [OF m(2) ok O(1) room] show ?thesis by simp
qed


text \<open>A device that is down routes a packet to a running peer; a packet that is cut short goes nowhere.\<close>

definition reading :: Device where
  "reading = zero_Device\<lparr>peers := (\<lambda>_. new_Peer\<lparr>isRunning := True\<rparr>), allowedips := empty_table\<lparr>IPv4 := Node (Some 7) 0 [0, 0, 0, 0] Null Null\<rparr>\<rparr>"

definition read_packet :: bytes where
  "read_packet = 0x45 # replicate 15 0 @ [10, 0, 0, 1]"

lemma reading_routes: "outbound_peer (allowedips reading) read_packet = Some (Some 7)" "outbound_peer (allowedips reading) [0x45, 0] = Some None"
  by (simp_all add: outbound_peer_def read_packet_def reading_def Lookup_def IPv4offsetDst_def common_bits_def Let_def)

theorem outbound_routed_witness:
  "\<exists>d'. RoutineReadFromTUN toy_crypto some_net rev [read_packet, [], [0x45, 0]] (Some Too_Many_Segments) reading = Some (True, d') \<and>
     mset (pending 7 d') = {#read_packet#}"
proof -
  let ?ps = "[read_packet, [], [0x45, 0]]"
  have r: "read_packet \<noteq> []" by (simp add: read_packet_def)
  have "route_packets (allowedips reading) ?ps [] = Some [(7, [new_elem read_packet])]"
    using reading_routes r by (simp add: collect_outbound_def)
  then have "\<exists>d'. RoutineReadFromTUN toy_crypto some_net rev ?ps (Some Too_Many_Segments) reading = Some (True, d')"
    by (simp add: RoutineReadFromTUN_def send_routed_def SendStagedPackets_def StagePackets_def upd_peer_def reading_def zero_Device_def isUp_def)
  then obtain d' where d': "RoutineReadFromTUN toy_crypto some_net rev ?ps (Some Too_Many_Segments) reading = Some (True, d')" by blast
  have "counters_ok reading" "length (q_staged (peers reading 7)) < QueueStagedSize" "isRunning (peers reading 7)" "pending 7 reading = []"
    by (simp_all add: counters_ok_def pending_def reading_def zero_Device_def new_Keypair_def held_def new_Peer_def QueueStagedSize_def)
  moreover from outbound_routed [OF d' _ this(1,2)] have "mset (pending 7 d') = mset (routed (allowedips reading) ?ps 7)" using calculation by simp
  ultimately show ?thesis using d' reading_routes r by simp
qed

end
