(* ===== verification/Bind_Std.thy ===== *)
theory Bind_Std
  imports Device_State Gso
begin

text \<open>
  The UDP sockets of a device on Linux, \<open>conn/bind_std.go\<close>, with \<open>conn/sticky_linux.go\<close> and
  \<open>conn/gso_linux.go\<close>. A message is the slice it sends or receives into, its control data and its address;
  datagrams to the same address are joined into one message that the kernel cuts again, and messages that the
  kernel has joined are cut. The sockets and the system calls on them are parameters (\<open>Sockets\<close>), as is the
  parser of control messages of \<open>golang.org/x/sys/unix\<close>; \<open>'w\<close> is the state of the system. The pools of
  messages and addresses are not modelled; what matters of an address from the pool is an argument. \<open>None\<close> as a result is a panic or a loop that does not end.
\<close>

section \<open>Messages\<close>

type_synonym UDPAddr = "bytes \<times> u16"

record Message =
  mg_buffer :: Buf
  mg_OOB :: Buf
  mg_N :: nat
  mg_NN :: nat
  mg_Addr :: "UDPAddr option"

definition IdealBatchSize :: nat where "IdealBatchSize = 128"
definition maxIPv4PayloadLen :: nat where "maxIPv4PayloadLen = 2 ^ 16 - 1 - 20 - 8"
definition maxIPv6PayloadLen :: nat where "maxIPv6PayloadLen = 2 ^ 16 - 1 - 8"
definition udpSegmentMaxDatagrams :: nat where "udpSegmentMaxDatagrams = 64"

text \<open>\<open>DstIP().Is6()\<close>: an address is 4 or 16 bytes.\<close>

definition is6 :: "Endpoint \<Rightarrow> bool" where
  "is6 ep \<longleftrightarrow> length (ep_addr ep) = 16"

text \<open>One control message, as the parser gives it: the memory of its header, its level, its type, its data. The
  values are those of Linux on 64-bit machines.\<close>

record Cmsg =
  cm_header :: bytes
  cm_Level :: int
  cm_Type :: int
  cm_data :: bytes

definition SizeofCmsghdr :: nat where "SizeofCmsghdr = 16"
definition SizeofInet4Pktinfo :: nat where "SizeofInet4Pktinfo = 12"
definition SizeofInet6Pktinfo :: nat where "SizeofInet6Pktinfo = 20"
definition CmsgSpace :: "nat \<Rightarrow> nat" where "CmsgSpace n = SizeofCmsghdr + (n + 7) div 8 * 8"
definition CmsgLen :: "nat \<Rightarrow> nat" where "CmsgLen n = SizeofCmsghdr + n"

type_synonym cmsg_parser = "bytes \<Rightarrow> (Cmsg \<times> bytes) option"

text \<open>The source a packet is sent from, and the one a received packet was sent to, for an endpoint that has
  none yet.\<close>

definition setSrcControl :: "Endpoint \<Rightarrow> Buf \<Rightarrow> Buf" where
  "setSrcControl ep control = (if b_cap control < length (ep_src ep) then control else control\<lparr>b_data := ep_src ep\<rparr>)"

definition pktinfo_src :: "nat \<Rightarrow> Cmsg \<Rightarrow> bytes" where
  "pktinfo_src n m = copy_at (CmsgLen 0) (cm_data m) (copy_at 0 (cm_header m) (replicate (CmsgSpace n) 0))"

partial_function (option) getSrcFromControl :: "cmsg_parser \<Rightarrow> bytes \<Rightarrow> bytes option" where
  [code]: "getSrcFromControl parse rem =
     (if length rem \<le> SizeofCmsghdr then Some []
      else case parse rem of
        None \<Rightarrow> Some []
      | Some (m, rem) \<Rightarrow>
          if cm_Level m = 0 \<and> cm_Type m = 8 then Some (pktinfo_src SizeofInet4Pktinfo m)
          else if cm_Level m = 41 \<and> cm_Type m = 50 then Some (pktinfo_src SizeofInet6Pktinfo m)
          else getSrcFromControl parse rem)"

text \<open>The size of the datagrams in a message that the kernel has joined, 0 if it is not in the control data; an
  error of the parser is \<open>Inl ()\<close>.\<close>

partial_function (option) getGSOSize :: "bool \<Rightarrow> cmsg_parser \<Rightarrow> bytes \<Rightarrow> (unit + nat) option" where
  [code]: "getGSOSize le parse rem =
     (if length rem \<le> SizeofCmsghdr then Some (Inr 0)
      else case parse rem of
        None \<Rightarrow> Some (Inl ())
      | Some (m, rem) \<Rightarrow>
          if cm_Level m = 17 \<and> cm_Type m = 104 \<and> 2 \<le> length (cm_data m) then Some (Inr (unat (native_get16 le (cm_data m))))
          else getGSOSize le parse rem)"

section \<open>Joining datagrams\<close>

text \<open>The state of the loop of \<open>coalesceMessages\<close>; the number of messages begun is \<open>base + 1\<close>. Two buffers share
  no memory. \<open>setGSO\<close> writes the size into the control data, as an argument of the code does.\<close>

record coalescing =
  co_msgs :: "Message list"
  co_begun :: nat
  co_gsoSize :: nat
  co_dgramCnt :: nat
  co_endBatch :: bool

definition upd_msg :: "nat \<Rightarrow> (Message \<Rightarrow> Message) \<Rightarrow> Message list \<Rightarrow> Message list" where
  "upd_msg i f msgs = msgs[i := f (msgs ! i)]"

definition set_gso_of :: "(Buf \<Rightarrow> u16 \<Rightarrow> Buf) \<Rightarrow> coalescing \<Rightarrow> coalescing" where
  "set_gso_of setGSO s =
     s\<lparr>co_msgs := upd_msg (co_begun s - 1) (\<lambda>m. m\<lparr>mg_OOB := setGSO (mg_OOB m) (word_of_nat (co_gsoSize s))\<rparr>) (co_msgs s)\<rparr>"

definition can_join :: "nat \<Rightarrow> Buf \<Rightarrow> coalescing \<Rightarrow> bool" where
  "can_join maxPayloadLen buf s =
     (let msgLen = length (b_data buf); base = mg_buffer (co_msgs s ! (co_begun s - 1)); baseLenBefore = length (b_data base) in
      msgLen + baseLenBefore \<le> maxPayloadLen \<and> msgLen \<le> co_gsoSize s \<and> msgLen \<le> b_cap base - baseLenBefore
        \<and> co_dgramCnt s < udpSegmentMaxDatagrams \<and> \<not> co_endBatch s)"

definition join_datagram :: "(Buf \<Rightarrow> u16 \<Rightarrow> Buf) \<Rightarrow> bool \<Rightarrow> Buf \<Rightarrow> coalescing \<Rightarrow> coalescing" where
  "join_datagram setGSO isLast buf s =
     (let add = (\<lambda>m. m\<lparr>mg_buffer := (mg_buffer m)\<lparr>b_data := b_data (mg_buffer m) @ b_data buf\<rparr>\<rparr>);
          s = s\<lparr>co_msgs := upd_msg (co_begun s - 1) add (co_msgs s)\<rparr>;
          s = (if isLast then set_gso_of setGSO s else s)
      in s\<lparr>co_dgramCnt := co_dgramCnt s + 1,
           co_endBatch := (if length (b_data buf) < co_gsoSize s then True else co_endBatch s)\<rparr>)"

definition begin_message :: "(Buf \<Rightarrow> u16 \<Rightarrow> Buf) \<Rightarrow> UDPAddr \<Rightarrow> Endpoint \<Rightarrow> Buf \<Rightarrow> coalescing \<Rightarrow> coalescing option" where
  "begin_message setGSO addr ep buf s =
     (let s = (if 1 < co_dgramCnt s then set_gso_of setGSO s else s) in
      if length (co_msgs s) \<le> co_begun s then None
      else
        let start = (\<lambda>m. m\<lparr>mg_OOB := setSrcControl ep (mg_OOB m), mg_buffer := buf, mg_Addr := Some addr\<rparr>)
        in Some \<lparr>co_msgs = upd_msg (co_begun s) start (co_msgs s), co_begun = co_begun s + 1,
                 co_gsoSize = length (b_data buf), co_dgramCnt = 1, co_endBatch = False\<rparr>)"

fun coalesce_loop ::
  "(Buf \<Rightarrow> u16 \<Rightarrow> Buf) \<Rightarrow> UDPAddr \<Rightarrow> Endpoint \<Rightarrow> nat \<Rightarrow> nat \<Rightarrow> Buf list \<Rightarrow> coalescing \<Rightarrow> coalescing option" where
  "coalesce_loop setGSO addr ep maxPayloadLen i [] s = Some s"
| "coalesce_loop setGSO addr ep maxPayloadLen i (buf # bufs) s =
     (if 0 < i \<and> can_join maxPayloadLen buf s then
        coalesce_loop setGSO addr ep maxPayloadLen (Suc i) bufs (join_datagram setGSO (bufs = []) buf s)
      else do { s \<leftarrow> begin_message setGSO addr ep buf s; coalesce_loop setGSO addr ep maxPayloadLen (Suc i) bufs s })"

text \<open>The messages afterwards, and how many of them are to be sent.\<close>

definition coalesceMessages ::
  "UDPAddr \<Rightarrow> Endpoint \<Rightarrow> Buf list \<Rightarrow> Message list \<Rightarrow> (Buf \<Rightarrow> u16 \<Rightarrow> Buf) \<Rightarrow> (Message list \<times> nat) option" where
  "coalesceMessages addr ep bufs msgs setGSO =
     do {
       s \<leftarrow> coalesce_loop setGSO addr ep (if is6 ep then maxIPv6PayloadLen else maxIPv4PayloadLen) 0 bufs
              \<lparr>co_msgs = msgs, co_begun = 0, co_gsoSize = 0, co_dgramCnt = 0, co_endBatch = False\<rparr>;
       Some (co_msgs s, co_begun s)
     }"

section \<open>Cutting messages\<close>

datatype receive_error = Read_Error nat | Control_Error | Split_Overflow

text \<open>The inner loop of \<open>splitCoalescedMessages\<close>: the pieces of message \<open>i\<close> from \<open>at\<close> on, as many as are left.
  The first component is False after an overflow.\<close>

fun split_pieces :: "nat \<Rightarrow> nat \<Rightarrow> nat \<Rightarrow> nat \<Rightarrow> nat \<Rightarrow> nat \<Rightarrow> nat \<Rightarrow> Message list \<Rightarrow> (bool \<times> nat \<times> Message list) option" where
  "split_pieces i gsoSize total_len 0 start till n msgs = Some (True, n, msgs)"
| "split_pieces i gsoSize total_len (Suc left) start till n msgs =
     (if i < n then Some (False, n, msgs)
      else
        let source = msgs ! i; target = msgs ! n; into = b_data (mg_buffer target) in
        if till < start \<or> length (b_data (mg_buffer source)) < till then None
        else
          let piece = go_slice start till (b_data (mg_buffer source)); 
              msgs = msgs[n := target\<lparr>mg_buffer := (mg_buffer target)\<lparr>b_data := copy_at 0 piece into\<rparr>,
                            mg_N := min (length into) (length piece), mg_Addr := mg_Addr source\<rparr>]
          in split_pieces i gsoSize total_len left till (min (till + gsoSize) total_len) (Suc n) msgs)"

text \<open>The outer loop, over the numbers of the messages that were read. \<open>getGSO\<close> reads the size from the control
  data, as an argument of the code does.\<close>

fun split_loop ::
  "(bytes \<Rightarrow> (unit + nat) option) \<Rightarrow> nat list \<Rightarrow> nat \<Rightarrow> Message list \<Rightarrow> (receive_error option \<times> nat \<times> Message list) option" where
  "split_loop getGSO [] n msgs = Some (None, n, msgs)"
| "split_loop getGSO (i # is) n msgs =
     (let msg = msgs ! i in
      if mg_N msg = 0 then Some (None, n, msgs)
      else do {
        gso \<leftarrow> getGSO (take (mg_NN msg) (b_data (mg_OOB msg)));
        case gso of
          Inl _ \<Rightarrow> Some (Some Control_Error, n, msgs)
        | Inr gsoSize \<Rightarrow> do {
            let numToSplit = (if 0 < gsoSize then (mg_N msg + gsoSize - 1) div gsoSize else 1);
            let till = (if 0 < gsoSize then gsoSize else mg_N msg);
            (ok, n, msgs) \<leftarrow> split_pieces i gsoSize (mg_N msg) numToSplit 0 till n msgs;
            if \<not> ok then Some (Some Split_Overflow, n, msgs)
            else split_loop getGSO is n (if int i \<noteq> int n - 1 then upd_msg i (\<lambda>m. m\<lparr>mg_N := 0\<rparr>) msgs else msgs)
          }
      })"

definition splitCoalescedMessages ::
  "Message list \<Rightarrow> nat \<Rightarrow> (bytes \<Rightarrow> (unit + nat) option) \<Rightarrow> (receive_error option \<times> nat \<times> Message list) option" where
  "splitCoalescedMessages msgs firstMsgAt getGSO = split_loop getGSO [firstMsgAt ..< length msgs] 0 msgs"

section \<open>Receiving\<close>

text \<open>A datagram as the kernel delivers it, and its message. The messages of the pool have no control data but
  room for some; \<open>bufs\<close> are whole buffers.\<close>

record Datagram =
  dg_data :: bytes
  dg_control :: bytes
  dg_Addr :: UDPAddr

definition stickyControlSize :: nat where "stickyControlSize = CmsgSpace SizeofInet6Pktinfo"
definition gsoControlSize :: nat where "gsoControlSize = CmsgSpace 2"

definition pool_message :: Message where
  "pool_message = \<lparr>mg_buffer = \<lparr>b_data = [], b_cap = 0\<rparr>,
     mg_OOB = \<lparr>b_data = replicate (stickyControlSize + gsoControlSize) 0, b_cap = stickyControlSize + gsoControlSize\<rparr>,
     mg_N = 0, mg_NN = 0, mg_Addr = None\<rparr>"

definition getMessages :: "bytes list \<Rightarrow> Message list" where
  "getMessages bufs = map (\<lambda>i. if i < length bufs then pool_message\<lparr>mg_buffer := \<lparr>b_data = bufs ! i, b_cap = length (bufs ! i)\<rparr>\<rparr>
     else pool_message) [0 ..< IdealBatchSize]"

text \<open>\<open>ReadBatch\<close> from message \<open>readAt\<close> on: what does not fit a buffer is cut off.\<close>

definition read_into :: "Datagram \<Rightarrow> Message \<Rightarrow> Message" where
  "read_into dg m =
     m\<lparr>mg_buffer := (mg_buffer m)\<lparr>b_data := copy_at 0 (dg_data dg) (b_data (mg_buffer m))\<rparr>,
       mg_N := min (length (b_data (mg_buffer m))) (length (dg_data dg)),
       mg_OOB := (mg_OOB m)\<lparr>b_data := copy_at 0 (dg_control dg) (b_data (mg_OOB m))\<rparr>,
       mg_NN := min (b_cap (mg_OOB m)) (length (dg_control dg)), mg_Addr := Some (dg_Addr dg)\<rparr>"

definition place_batch :: "nat \<Rightarrow> Datagram list \<Rightarrow> Message list \<Rightarrow> Message list" where
  "place_batch readAt batch msgs = take readAt msgs @ map2 read_into batch (take (length batch) (drop readAt msgs))
     @ drop (readAt + length batch) msgs"

definition endpoint_of :: "cmsg_parser \<Rightarrow> Message \<Rightarrow> Endpoint option" where
  "endpoint_of parse m =
     do { (addr, port) \<leftarrow> mg_Addr m; src \<leftarrow> getSrcFromControl parse (take (mg_NN m) (b_data (mg_OOB m)));
          Some \<lparr>ep_addr = addr, ep_port = port, ep_src = src\<rparr> }"

text \<open>What a read returns: the buffers, the sizes and the endpoints of the datagrams; an empty one has no
  endpoint. The batch read is \<open>batch\<close>, no more than there was room for.\<close>

definition receiveIP ::
  "bool \<Rightarrow> cmsg_parser \<Rightarrow> bool \<Rightarrow> bytes list \<Rightarrow> nat + Datagram list \<Rightarrow> (receive_error + (bytes \<times> nat \<times> Endpoint option) list) option" where
  "receiveIP le parse rxOffload bufs batch =
     (case batch of
        Inl err \<Rightarrow> Some (Inl (Read_Error err))
      | Inr batch \<Rightarrow> do {
          let msgs = getMessages bufs;
          let readAt = (if rxOffload then IdealBatchSize - IdealBatchSize div udpSegmentMaxDatagrams else 0);
          let msgs = place_batch readAt batch msgs;
          (err, numMsgs, msgs) \<leftarrow> (if rxOffload then splitCoalescedMessages msgs readAt (getGSOSize le parse)
                                    else Some (None, length batch, msgs));
          case err of
            Some err \<Rightarrow> Some (Inl err)
          | None \<Rightarrow>
              if length bufs < numMsgs then None
              else map_option Inr (those (map (\<lambda>m. if mg_N m = 0 then Some (b_data (mg_buffer m), 0, None)
                else map_option (\<lambda>ep. (b_data (mg_buffer m), mg_N m, Some ep)) (endpoint_of parse m)) (take numMsgs msgs)))
        })"

section \<open>The sockets\<close>

datatype net_error = EAFNOSUPPORT | EADDRINUSE | EIO | EINVAL | ErrBindAlreadyOpen | Other_Error nat
  | ErrUDPGSODisabled "net_error option"

text \<open>The system calls on sockets: to listen on a port, giving the socket and its port; whether a socket offloads
  sending and receiving; to close it; to mark it; to send messages, giving how many were sent.\<close>

record ('c, 'w) Sockets =
  so_listen :: "bool \<Rightarrow> nat \<Rightarrow> 'w \<Rightarrow> (net_error + 'c \<times> nat) \<times> 'w"
  so_offload :: "'c \<Rightarrow> 'w \<Rightarrow> (bool \<times> bool) \<times> 'w"
  so_close :: "'c \<Rightarrow> 'w \<Rightarrow> net_error option \<times> 'w"
  so_mark :: "'c \<Rightarrow> u32 \<Rightarrow> 'w \<Rightarrow> net_error option \<times> 'w"
  so_WriteBatch :: "'c \<Rightarrow> Message list \<Rightarrow> 'w \<Rightarrow> (nat \<times> net_error option) \<times> 'w"

record 'c StdNetBind =
  sb_ipv4 :: "'c option"
  sb_ipv6 :: "'c option"
  ipv4TxOffload :: bool
  ipv4RxOffload :: bool
  ipv6TxOffload :: bool
  ipv6RxOffload :: bool
  blackhole4 :: bool
  blackhole6 :: bool

text \<open>A socket of one family, or none where the family is not supported, with the port (0 after an error).\<close>

definition listenNet :: "('c, 'w) Sockets \<Rightarrow> bool \<Rightarrow> nat \<Rightarrow> 'w \<Rightarrow> ('c option \<times> nat \<times> net_error option) \<times> 'w" where
  "listenNet S v6 port w =
     (case so_listen S v6 port w of
        (Inl err, w) \<Rightarrow> ((None, 0, Some err), w)
      | (Inr (c, port), w) \<Rightarrow> ((Some c, port, None), w))"

text \<open>\<open>v4conn.Close()\<close>, a panic on a nil pointer.\<close>

definition close_conn :: "('c, 'w) Sockets \<Rightarrow> 'c option \<Rightarrow> 'w \<Rightarrow> 'w option" where
  "close_conn S c w = map_option (\<lambda>c. snd (so_close S c w)) c"

text \<open>The two sockets on one port, with \<open>left\<close> tries to come: both, and the port, or an error.\<close>

fun open_both ::
  "('c, 'w) Sockets \<Rightarrow> u16 \<Rightarrow> nat \<Rightarrow> 'w \<Rightarrow> ((net_error + 'c option \<times> 'c option \<times> nat) \<times> 'w) option" where
  "open_both S uport left w =
     (let ((v4conn, port, err), w) = listenNet S False (unat uport) w in
      if err \<noteq> None \<and> err \<noteq> Some EAFNOSUPPORT then Some (Inl (the err), w)
      else
        let ((v6conn, port, err), w) = listenNet S True port w in
        if uport = 0 \<and> err = Some EADDRINUSE \<and> 0 < left then
          do { w \<leftarrow> close_conn S v4conn w; open_both S uport (left - 1) w }
        else if err \<noteq> None \<and> err \<noteq> Some EAFNOSUPPORT then
          do { w \<leftarrow> close_conn S v4conn w; Some (Inl (the err), w) }
        else Some (Inr (v4conn, v6conn, port), w))"

definition add_conn :: "('c, 'w) Sockets \<Rightarrow> bool \<Rightarrow> 'c option \<Rightarrow> 'c StdNetBind \<times> 'w \<Rightarrow> 'c StdNetBind \<times> 'w" where
  "add_conn S v6 c = (\<lambda>(s, w). case c of
     None \<Rightarrow> (s, w)
   | Some conn \<Rightarrow>
       let ((tx, rx), w) = so_offload S conn w
       in (if v6 then s\<lparr>ipv6TxOffload := tx, ipv6RxOffload := rx, sb_ipv6 := c\<rparr>
           else s\<lparr>ipv4TxOffload := tx, ipv4RxOffload := rx, sb_ipv4 := c\<rparr>, w))"

definition maxTries :: nat where "maxTries = 100"

text \<open>The families that can receive, and the port.\<close>

definition StdNetBind_Open ::
  "('c, 'w) Sockets \<Rightarrow> u16 \<Rightarrow> 'c StdNetBind \<Rightarrow> 'w \<Rightarrow> ((net_error + bool list \<times> u16) \<times> 'c StdNetBind \<times> 'w) option" where
  "StdNetBind_Open S uport s w =
     (if sb_ipv4 s \<noteq> None \<or> sb_ipv6 s \<noteq> None then Some (Inl ErrBindAlreadyOpen, s, w)
      else do {
        (r, w) \<leftarrow> open_both S uport maxTries w;
        case r of
          Inl err \<Rightarrow> Some (Inl err, s, w)
        | Inr (v4conn, v6conn, port) \<Rightarrow>
            let (s, w) = add_conn S True v6conn (add_conn S False v4conn (s, w));
                fns = (if v4conn \<noteq> None then [False] else []) @ (if v6conn \<noteq> None then [True] else [])
            in if fns = [] then Some (Inl EAFNOSUPPORT, s, w) else Some (Inr (fns, word_of_nat port), s, w)
      })"

definition StdNetBind_Close :: "('c, 'w) Sockets \<Rightarrow> 'c StdNetBind \<Rightarrow> 'w \<Rightarrow> net_error option \<times> 'c StdNetBind \<times> 'w" where
  "StdNetBind_Close S s w =
     (let close = (\<lambda>c w. case c of None \<Rightarrow> (None, w) | Some c \<Rightarrow> so_close S c w);
          (err1, w) = close (sb_ipv4 s) w; (err2, w) = close (sb_ipv6 s) w
      in (if err1 \<noteq> None then err1 else err2,
          \<lparr>sb_ipv4 = None, sb_ipv6 = None, ipv4TxOffload = False, ipv4RxOffload = False, ipv6TxOffload = False,
            ipv6RxOffload = False, blackhole4 = False, blackhole6 = False\<rparr>, w))"

definition StdNetBind_SetMark :: "('c, 'w) Sockets \<Rightarrow> u32 \<Rightarrow> 'c StdNetBind \<Rightarrow> 'w \<Rightarrow> net_error option \<times> 'w" where
  "StdNetBind_SetMark S mark s w =
     (let mark_conn = (\<lambda>c w. case c of None \<Rightarrow> (None, w) | Some c \<Rightarrow> so_mark S c mark w);
          (err, w) = mark_conn (sb_ipv4 s) w
      in if err \<noteq> None then (err, w) else mark_conn (sb_ipv6 s) w)"

section \<open>Sending\<close>

text \<open>A batch may take several calls; a call that sends nothing is repeated.\<close>

partial_function (option) send_msgs ::
  "('c, 'w) Sockets \<Rightarrow> 'c \<Rightarrow> Message list \<Rightarrow> 'w \<Rightarrow> (net_error option \<times> 'w) option" where
  [code]: "send_msgs S c msgs w =
     (let ((n, err), w) = so_WriteBatch S c msgs w in
      if err \<noteq> None \<or> n = length msgs then Some (err, w)
      else if length msgs < n then None
      else send_msgs S c (drop n msgs) w)"

definition errShouldDisableUDPGSO :: "net_error \<Rightarrow> bool" where
  "errShouldDisableUDPGSO err \<longleftrightarrow> err = EIO \<or> err = EINVAL"

text \<open>An address of the pool: 16 bytes of memory, of which the slice \<open>ua.IP\<close> holds the first ones. The bytes of the
  destination are copied to the slice before it gets its length.\<close>

type_synonym pool_addr = "bytes \<times> nat"

definition fill_addr :: "Endpoint \<Rightarrow> pool_addr \<Rightarrow> pool_addr" where
  "fill_addr ep = (\<lambda>(mem, n). (copy_into (take n mem) (ep_addr ep) @ drop n mem, if is6 ep then 16 else 4))"

definition addr_to_send :: "Endpoint \<Rightarrow> pool_addr \<Rightarrow> UDPAddr" where
  "addr_to_send ep ua = (take (snd ua) (fst ua), ep_port ep)"

text \<open>The messages of the pool as they are to be sent: their control data is empty.\<close>

definition send_messages :: "Message list" where
  "send_messages = replicate IdealBatchSize (pool_message\<lparr>mg_OOB := \<lparr>b_data = [], b_cap = stickyControlSize + gsoControlSize\<rparr>\<rparr>)"

definition single_messages :: "UDPAddr \<Rightarrow> Endpoint \<Rightarrow> Buf list \<Rightarrow> Message list \<Rightarrow> Message list" where
  "single_messages addr ep bufs msgs =
     map2 (\<lambda>buf m. m\<lparr>mg_Addr := Some addr, mg_buffer := buf, mg_OOB := setSrcControl ep (mg_OOB m)\<rparr>) bufs msgs"

text \<open>A failure that joining datagrams may be to blame for turns that off, and the batch is sent once more. The
  buffers that were joined into have grown, but the slices to be sent again are those of the caller. \<open>ua\<close> is an
  address of the pool, which goes back to it as the last component of the result says.\<close>

definition StdNetBind_Send ::
  "('c, 'w) Sockets \<Rightarrow> (Buf \<Rightarrow> u16 \<Rightarrow> Buf) \<Rightarrow> Buf list \<Rightarrow> Endpoint \<Rightarrow> 'c StdNetBind \<Rightarrow> 'w \<Rightarrow> pool_addr
    \<Rightarrow> (net_error option \<times> 'c StdNetBind \<times> 'w \<times> pool_addr) option" where
  "StdNetBind_Send S setGSO bufs ep s w ua =
     (let v6 = is6 ep; blackhole = (if v6 then blackhole6 s else blackhole4 s); conn = (if v6 then sb_ipv6 s else sb_ipv4 s);
          offload = (if v6 then ipv6TxOffload s else ipv4TxOffload s)
      in if blackhole then Some (None, s, w, ua)
         else case conn of
           None \<Rightarrow> Some (Some EAFNOSUPPORT, s, w, ua)
         | Some c \<Rightarrow>
             let ua = fill_addr ep ua; addr = addr_to_send ep ua;
                 plain = (\<lambda>msgs w. if length msgs < length bufs then None else send_msgs S c (single_messages addr ep bufs msgs) w)
             in if offload then do {
                  (msgs, n) \<leftarrow> coalesceMessages addr ep bufs send_messages setGSO;
                  (err, w) \<leftarrow> send_msgs S c (take n msgs) w;
                  if err \<noteq> None \<and> errShouldDisableUDPGSO (the err) then do {
                    let s = (if v6 then s\<lparr>ipv6TxOffload := False\<rparr> else s\<lparr>ipv4TxOffload := False\<rparr>);
                    (err, w) \<leftarrow> plain msgs w;
                    Some (Some (ErrUDPGSODisabled err), s, w, ua)
                  } else Some (err, s, w, ua)
                } else do { (err, w) \<leftarrow> plain send_messages w; Some (err, s, w, ua) })"

end
