(* ===== verification/Bind_Facts.thy ===== *)
theory Bind_Facts
  imports Bind_Std Pieces
begin

text \<open>
  What the UDP sockets do with a batch: joining datagrams and cutting messages are inverse to what the kernel
  does with the size in the control data; the local address of a cut message is lost; the ports that are
  reported.
\<close>

section \<open>Joining\<close>

definition datagrams :: "(Buf \<Rightarrow> nat) \<Rightarrow> Message \<Rightarrow> bytes list" where
  "datagrams gso m =
     (let g = gso (mg_OOB m); bs = b_data (mg_buffer m) in if g = 0 then [bs] else pieces g bs)"

text \<open>The current message holds the datagrams \<open>gs\<close>; \<open>sofar\<close> are those of all messages. When \<open>closed\<close>, the size
  has been set.\<close>

definition group_ok :: "nat \<Rightarrow> bytes list \<Rightarrow> coalescing \<Rightarrow> bool" where
  "group_ok maxP gs s \<longleftrightarrow> gs \<noteq> [] \<and> co_dgramCnt s = length gs \<and> length gs \<le> udpSegmentMaxDatagrams \<and>
     (\<forall>b \<in> set (butlast gs). length b = co_gsoSize s) \<and> last gs \<noteq> [] \<and> length (last gs) \<le> co_gsoSize s \<and>
     (\<not> co_endBatch s \<longrightarrow> length (last gs) = co_gsoSize s) \<and> (1 < length gs \<longrightarrow> length (concat gs) \<le> maxP)"

definition joining ::
  "(Buf \<Rightarrow> u16 \<Rightarrow> Buf) \<Rightarrow> (Buf \<Rightarrow> nat) \<Rightarrow> UDPAddr \<Rightarrow> Endpoint \<Rightarrow> nat \<Rightarrow> Message list \<Rightarrow> bool \<Rightarrow> bytes list \<Rightarrow> coalescing \<Rightarrow> bool" where
  "joining setGSO gso addr ep maxP msgs closed sofar s \<longleftrightarrow>
     (\<exists>gs. group_ok maxP gs s \<and> 0 < co_begun s \<and> co_begun s \<le> length msgs \<and> length (co_msgs s) = length msgs \<and>
        (let b = co_begun s - 1; m = co_msgs s ! b; oob = setSrcControl ep (mg_OOB (msgs ! b)) in
         concat (map (datagrams gso) (take b (co_msgs s))) @ gs = sofar \<and> b_data (mg_buffer m) = concat gs \<and>
         mg_OOB m = (if closed \<and> 1 < length gs then setGSO oob (word_of_nat (co_gsoSize s)) else oob)) \<and>
        (\<forall>k < co_begun s. mg_Addr (co_msgs s ! k) = Some addr) \<and> (\<forall>k \<ge> co_begun s. k < length msgs \<longrightarrow> co_msgs s ! k = msgs ! k))"

text \<open>What the size in the control data is read as.\<close>

definition gso_laws :: "(Buf \<Rightarrow> u16 \<Rightarrow> Buf) \<Rightarrow> (Buf \<Rightarrow> nat) \<Rightarrow> Endpoint \<Rightarrow> Message list \<Rightarrow> bool" where
  "gso_laws setGSO gso ep msgs \<longleftrightarrow> (\<forall>m \<in> set msgs. gso (setSrcControl ep (mg_OOB m)) = 0 \<and>
     (\<forall>w. gso (setGSO (setSrcControl ep (mg_OOB m)) w) = unat w))"

lemma closed_datagrams:
  assumes "group_ok maxP gs s" "gso_laws setGSO gso ep msgs" "m0 \<in> set msgs" "maxP < 65536"
    "b_data (mg_buffer m) = concat gs"
    "mg_OOB m = (if 1 < length gs then setGSO (setSrcControl ep (mg_OOB m0)) (word_of_nat (co_gsoSize s)) else setSrcControl ep (mg_OOB m0))"
  shows "datagrams gso m = gs"
proof (cases "1 < length gs")
  case False
  then obtain b where "gs = [b]" using assms(1) by (cases gs) (auto simp: group_ok_def)
  then show ?thesis using assms(2,3,5,6) by (auto simp: datagrams_def gso_laws_def)
next
  case True
  note G = assms(1) [unfolded group_ok_def]
  obtain b gs' where gs: "gs = b # gs'" "gs' \<noteq> []" using True by (cases gs) auto
  then have "length b = co_gsoSize s" using G by simp
  moreover have "length b \<le> length (concat gs)" using gs by simp
  moreover have "length (concat gs) \<le> maxP" using G True by blast
  ultimately have "co_gsoSize s < 65536" using assms(4) by linarith
  then have "gso (mg_OOB m) = co_gsoSize s" using assms(2,3,6) True by (auto simp: gso_laws_def unat_of_nat)
  moreover have "0 < co_gsoSize s" using G by (cases "last gs") auto
  moreover have "pieces (co_gsoSize s) (concat gs) = gs" using G by (intro pieces_concat) auto
  ultimately show ?thesis using assms(5) by (simp add: datagrams_def)
qed

lemma joining_append:
  assumes j: "joining setGSO gso addr ep maxP msgs False sofar s" and c: "can_join maxP buf s" and ne: "b_data buf \<noteq> []"
  shows "joining setGSO gso addr ep maxP msgs isLast (sofar @ [b_data buf]) (join_datagram setGSO isLast buf s)"
proof -
  obtain gs where gs: "group_ok maxP gs s" "0 < co_begun s" "co_begun s \<le> length msgs" "length (co_msgs s) = length msgs"
    "concat (map (datagrams gso) (take (co_begun s - 1) (co_msgs s))) @ gs = sofar" "b_data (mg_buffer (co_msgs s ! (co_begun s - 1))) = concat gs"
    "mg_OOB (co_msgs s ! (co_begun s - 1)) = setSrcControl ep (mg_OOB (msgs ! (co_begun s - 1)))"
    "\<forall>k < co_begun s. mg_Addr (co_msgs s ! k) = Some addr" "\<forall>k \<ge> co_begun s. k < length msgs \<longrightarrow> co_msgs s ! k = msgs ! k"
    using j by (auto simp: joining_def Let_def)
  note G = gs(1) [unfolded group_ok_def]
  note C = c [unfolded can_join_def Let_def gs(6)]
  let ?b = "co_begun s - 1" and ?s = "join_datagram setGSO isLast buf s" and ?gs = "gs @ [b_data buf]"
  have b: "?b < length (co_msgs s)" using gs(2,3,4) by simp
  have f: "co_begun ?s = co_begun s" "co_gsoSize ?s = co_gsoSize s" "co_dgramCnt ?s = Suc (length gs)"
    "co_endBatch ?s \<longleftrightarrow> length (b_data buf) < co_gsoSize s \<or> co_endBatch s" "length (co_msgs ?s) = length (co_msgs s)"
    using G by (simp_all add: join_datagram_def set_gso_of_def Let_def upd_msg_def)
  have m: "co_msgs ?s ! k = (if k = ?b then (co_msgs s ! ?b)\<lparr>mg_buffer := (mg_buffer (co_msgs s ! ?b))\<lparr>b_data := concat ?gs\<rparr>,
      mg_OOB := (if isLast then setGSO (setSrcControl ep (mg_OOB (msgs ! ?b))) (word_of_nat (co_gsoSize s)) else setSrcControl ep (mg_OOB (msgs ! ?b)))\<rparr>
    else co_msgs s ! k)" for k
    using b gs(6,7) by (auto simp: join_datagram_def set_gso_of_def Let_def upd_msg_def)
  have all: "\<forall>b \<in> set gs. length b = co_gsoSize s"
  proof -
    have "set gs = insert (last gs) (set (butlast gs))" using G append_butlast_last_id [of gs] by (metis list.set(2) rotate1.simps(2) set_rotate1)
    then show ?thesis using G C by simp
  qed
  have len: "Suc (length gs) \<le> udpSegmentMaxDatagrams" using G C by simp
  have "group_ok maxP ?gs ?s"
    unfolding group_ok_def f using C ne all len by (simp add: butlast_append)
  moreover have "take ?b (co_msgs ?s) = take ?b (co_msgs s)" by (intro nth_equalityI) (simp_all add: f m)
  ultimately show ?thesis
    unfolding joining_def Let_def f m using gs G by (intro exI [of _ ?gs]) auto
qed


lemma joining_begin:
  assumes j: "joining setGSO gso addr ep maxP msgs False sofar s \<or> sofar = [] \<and> co_begun s = 0 \<and> co_dgramCnt s = 0 \<and> co_msgs s = msgs"
    and laws: "gso_laws setGSO gso ep msgs" "maxP < 65536" and b: "begin_message setGSO addr ep buf s = Some s'" and ne: "b_data buf \<noteq> []"
  shows "joining setGSO gso addr ep maxP msgs closed (sofar @ [b_data buf]) s'"
proof -
  define t where "t = (if 1 < co_dgramCnt s then set_gso_of setGSO s else s)"
  have len: "length (co_msgs t) = length (co_msgs s)" by (simp add: t_def set_gso_of_def upd_msg_def)
  have beg: "co_begun t = co_begun s" by (simp add: t_def set_gso_of_def)
  have s': "s' = \<lparr>co_msgs = upd_msg (co_begun s) (\<lambda>m. m\<lparr>mg_OOB := setSrcControl ep (mg_OOB m), mg_buffer := buf, mg_Addr := Some addr\<rparr>) (co_msgs t),
      co_begun = co_begun s + 1, co_gsoSize = length (b_data buf), co_dgramCnt = 1, co_endBatch = False\<rparr>" "co_begun s < length (co_msgs s)"
    using b len beg unfolding begin_message_def Let_def t_def [symmetric] by (simp_all split: if_splits)
  have lm: "length (co_msgs s) = length msgs" using j by (auto simp: joining_def)
  have new: "co_msgs t ! k = msgs ! k" if "co_begun s \<le> k" "k < length msgs" for k
    using j that by (auto simp: t_def joining_def set_gso_of_def upd_msg_def nth_list_update Let_def)
  have addr: "mg_Addr (co_msgs t ! k) = Some addr" if "k < co_begun s" for k
    using j that by (auto simp: t_def joining_def set_gso_of_def upd_msg_def nth_list_update Let_def)
  have prev: "concat (map (datagrams gso) (take (co_begun s) (co_msgs t))) = sofar"
  proof (cases "co_begun s = 0")
    case True
    then show ?thesis using j by (auto simp: joining_def)
  next
    case False
    then obtain gs where gs: "group_ok maxP gs s" "0 < co_begun s" "co_begun s \<le> length msgs"
      "concat (map (datagrams gso) (take (co_begun s - 1) (co_msgs s))) @ gs = sofar" "b_data (mg_buffer (co_msgs s ! (co_begun s - 1))) = concat gs"
      "mg_OOB (co_msgs s ! (co_begun s - 1)) = setSrcControl ep (mg_OOB (msgs ! (co_begun s - 1)))"
      using j by (auto simp: joining_def Let_def)
    let ?b = "co_begun s - 1"
    have bl: "?b < length (co_msgs t)" "?b < length msgs" using gs(2,3) lm len by simp_all
    have tk: "take (co_begun s) (co_msgs t) = take ?b (co_msgs t) @ [co_msgs t ! ?b]"
      using take_Suc_conv_app_nth [OF bl(1)] gs(2) by simp
    have u: "take ?b (co_msgs t) = take ?b (co_msgs s)" by (simp add: t_def set_gso_of_def upd_msg_def)
    have c: "co_dgramCnt s = length gs" using gs(1) by (simp add: group_ok_def)
    have "datagrams gso (co_msgs t ! ?b) = gs"
    proof (rule closed_datagrams [OF gs(1) laws(1) nth_mem [OF bl(2)] laws(2)])
      show "b_data (mg_buffer (co_msgs t ! ?b)) = concat gs" using bl len gs(5) by (simp add: t_def set_gso_of_def upd_msg_def)
      show "mg_OOB (co_msgs t ! ?b) = (if 1 < length gs then setGSO (setSrcControl ep (mg_OOB (msgs ! ?b))) (word_of_nat (co_gsoSize s))
          else setSrcControl ep (mg_OOB (msgs ! ?b)))"
        using bl len gs(6) by (simp add: t_def set_gso_of_def upd_msg_def c)
    qed
    then show ?thesis using gs(4) unfolding tk u by simp
  qed
  have take: "take (co_begun s) (co_msgs s') = take (co_begun s) (co_msgs t)" by (simp add: s'(1) upd_msg_def)
  have n: "co_msgs s' ! k = (if k = co_begun s then (msgs ! k)\<lparr>mg_OOB := setSrcControl ep (mg_OOB (msgs ! k)), mg_buffer := buf, mg_Addr := Some addr\<rparr>
      else co_msgs t ! k)" if "k < length msgs" for k
    using that new s'(2) lm len by (simp add: s'(1) upd_msg_def)
  have g: "group_ok maxP [b_data buf] s'" using ne by (simp add: group_ok_def s'(1) udpSegmentMaxDatagrams_def)
  have beg': "co_begun s' = Suc (co_begun s)" "length (co_msgs s') = length msgs" using lm len by (simp_all add: s'(1) upd_msg_def)
  have lt: "co_begun s < length msgs" using s'(2) lm by simp
  show ?thesis
    unfolding joining_def Let_def beg' diff_Suc_1 take prev
    using g lt n addr new by (intro exI [of _ "[b_data buf]"]) (auto simp: less_Suc_eq)
qed

lemma coalesce_loop_joining:
  "coalesce_loop setGSO addr ep maxP i bufs s = Some s' \<Longrightarrow> joining setGSO gso addr ep maxP msgs (bufs = []) sofar s \<Longrightarrow> 0 < i \<Longrightarrow>
    gso_laws setGSO gso ep msgs \<Longrightarrow> maxP < 65536 \<Longrightarrow> \<forall>b \<in> set bufs. b_data b \<noteq> [] \<Longrightarrow>
    joining setGSO gso addr ep maxP msgs True (sofar @ map b_data bufs) s'"
proof (induction bufs arbitrary: i sofar s)
  case Nil
  then show ?case by simp
next
  case (Cons buf bufs)
  show ?case
  proof (cases "can_join maxP buf s")
    case True
    have "joining setGSO gso addr ep maxP msgs (bufs = []) (sofar @ [b_data buf]) (join_datagram setGSO (bufs = []) buf s)"
      using Cons.prems True by (intro joining_append) auto
    then show ?thesis using Cons.IH [of "Suc i" _ "sofar @ [b_data buf]"] Cons.prems True by auto
  next
    case False
    then obtain s1 where s1: "begin_message setGSO addr ep buf s = Some s1" "coalesce_loop setGSO addr ep maxP (Suc i) bufs s1 = Some s'"
      using Cons.prems(1) by (auto simp: bind_eq_Some_conv)
    have "joining setGSO gso addr ep maxP msgs (bufs = []) (sofar @ [b_data buf]) s1"
      using Cons.prems by (intro joining_begin [OF _ _ _ s1(1)]) auto
    from Cons.IH [OF s1(2) this] show ?thesis using Cons.prems by simp
  qed
qed

text \<open>C27. Joining datagrams loses nothing. Cut where the control data says, the messages that \<open>coalesceMessages\<close>
  makes are the datagrams of the caller in their order, none of them empty; all go to the endpoint, and the
  messages at hand suffice. What is assumed of the control data is that the size written to it is the one read.\<close>

theorem coalesced_datagrams:
  assumes c: "coalesceMessages addr ep bufs msgs setGSO = Some (msgs', n)" and laws: "gso_laws setGSO gso ep msgs"
    and ne: "\<forall>b \<in> set bufs. b_data b \<noteq> []"
  shows "concat (map (datagrams gso) (take n msgs')) = map b_data bufs \<and> n \<le> length msgs \<and> (\<forall>m \<in> set (take n msgs'). mg_Addr m = Some addr)"
proof (cases bufs)
  case Nil
  then show ?thesis using c by (auto simp: coalesceMessages_def)
next
  case (Cons buf rest)
  let ?max = "if is6 ep then maxIPv6PayloadLen else maxIPv4PayloadLen"
  let ?s0 = "\<lparr>co_msgs = msgs, co_begun = 0, co_gsoSize = 0, co_dgramCnt = 0, co_endBatch = False\<rparr>"
  have max: "?max < 65536" by (simp add: maxIPv6PayloadLen_def maxIPv4PayloadLen_def)
  obtain s1 s2 where s: "begin_message setGSO addr ep buf ?s0 = Some s1" "coalesce_loop setGSO addr ep ?max 1 rest s1 = Some s2"
    "msgs' = co_msgs s2" "n = co_begun s2"
    using c Cons by (auto simp: coalesceMessages_def bind_eq_Some_conv)
  have "joining setGSO gso addr ep ?max msgs (rest = []) ([] @ [b_data buf]) s1"
    using ne Cons by (intro joining_begin [OF _ laws max s(1)]) auto
  from coalesce_loop_joining [OF s(2) this _ laws max] have "joining setGSO gso addr ep ?max msgs True (map b_data bufs) s2"
    using ne Cons by simp
  then obtain gs where gs: "group_ok ?max gs s2" "0 < n" "n \<le> length msgs" "length msgs' = length msgs"
    "concat (map (datagrams gso) (take (n - 1) msgs')) @ gs = map b_data bufs" "b_data (mg_buffer (msgs' ! (n - 1))) = concat gs"
    "mg_OOB (msgs' ! (n - 1)) = (if 1 < length gs then setGSO (setSrcControl ep (mg_OOB (msgs ! (n - 1)))) (word_of_nat (co_gsoSize s2))
      else setSrcControl ep (mg_OOB (msgs ! (n - 1))))"
    "\<forall>k < n. mg_Addr (msgs' ! k) = Some addr"
    unfolding joining_def s(3,4) Let_def by auto
  have n: "n - 1 < length msgs'" "n - 1 < length msgs" using gs(2,3,4) by simp_all
  have "datagrams gso (msgs' ! (n - 1)) = gs" by (rule closed_datagrams [OF gs(1) laws nth_mem [OF n(2)] max gs(6,7)])
  moreover have "take n msgs' = take (n - 1) msgs' @ [msgs' ! (n - 1)]" using take_Suc_conv_app_nth [OF n(1)] gs(2) by simp
  ultimately have "concat (map (datagrams gso) (take n msgs')) = map b_data bufs" using gs(5) by simp
  moreover have "\<forall>m \<in> set (take n msgs'). mg_Addr m = Some addr" using gs(8) by (auto simp: in_set_conv_nth)
  ultimately show ?thesis using gs(3) by blast
qed

section \<open>Cutting\<close>

text \<open>The datagrams of a message that was read, of which \<open>g\<close> bytes make one if \<open>g\<close> is not 0.\<close>

definition read_pieces :: "nat \<Rightarrow> Message \<Rightarrow> bytes list" where
  "read_pieces g m = (let bs = take (mg_N m) (b_data (mg_buffer m)) in if g = 0 then [bs] else pieces g bs)"

definition received :: "Message \<Rightarrow> bytes \<times> UDPAddr option" where
  "received m = (take (mg_N m) (b_data (mg_buffer m)), mg_Addr m)"

lemma copy_at_0: "length bs \<le> length d \<Longrightarrow> copy_at 0 bs d = bs @ drop (length bs) d"
  by (simp add: copy_at_def copy_into_def)

lemma pieces_drop:
  assumes "0 < g" "start < length bs"
  shows "pieces g (drop start bs) = go_slice start (min (start + g) (length bs)) bs # pieces g (drop (min (start + g) (length bs)) bs)"
proof -
  have "take g (drop start bs) = go_slice start (min (start + g) (length bs)) bs"
    using assms by (auto simp: go_slice_def min_def take_drop add.commute)
  moreover have "drop g (drop start bs) = drop (min (start + g) (length bs)) bs"
    by (auto simp: min_def add.commute)
  ultimately show ?thesis using assms by (subst pieces_step) auto
qed

text \<open>The messages \<open>n\<close>, \<open>n + 1\<close>, .. get the pieces; no other changes.\<close>

definition filled :: "nat \<Rightarrow> (bytes \<times> UDPAddr option) list \<Rightarrow> Message list \<Rightarrow> Message list \<Rightarrow> bool" where
  "filled n ds msgs msgs' \<longleftrightarrow> length msgs' = length msgs \<and> n + length ds \<le> length msgs \<and>
     map received (take (length ds) (drop n msgs')) = ds \<and>
     (\<forall>k < length msgs. k < n \<or> n + length ds \<le> k \<longrightarrow> msgs' ! k = msgs ! k) \<and>
     (\<forall>k < length msgs. length (b_data (mg_buffer (msgs' ! k))) = length (b_data (mg_buffer (msgs ! k))))"

lemma filled_Nil: "n \<le> length msgs \<Longrightarrow> filled n [] msgs msgs"
  by (simp add: filled_def)

lemma filled_Cons:
  assumes "filled (Suc n) ds (msgs[n := m]) msgs'" "n < length msgs" "received m = d"
    "length (b_data (mg_buffer m)) = length (b_data (mg_buffer (msgs ! n)))"
  shows "filled n (d # ds) msgs msgs'"
proof -
  have l: "length msgs' = length msgs" "n < length msgs'" "msgs' ! n = m" using assms(1,2) by (simp_all add: filled_def)
  then have "drop n msgs' = m # drop (Suc n) msgs'" using Cons_nth_drop_Suc [of n msgs'] by simp
  with assms l show ?thesis by (auto simp: filled_def nth_list_update)
qed

lemma split_pieces_spec:
  assumes "i < length msgs" "mg_N (msgs ! i) = N" "bs = take N (b_data (mg_buffer (msgs ! i)))" "0 < N" "N \<le> length (b_data (mg_buffer (msgs ! i)))"
    "\<forall>m \<in> set msgs. length (b_data (mg_buffer m)) = L" "0 < g" "left = length (pieces g (drop start bs))" "n + left \<le> i + 1"
    "till = min (start + g) N" "start \<le> N" "left = 0 \<Longrightarrow> start = N"
  shows "\<exists>msgs'. split_pieces i g N left start till n msgs = Some (True, n + left, msgs') \<and>
    filled n (map (\<lambda>b. (b, mg_Addr (msgs ! i))) (pieces g (drop start bs))) msgs msgs'"
  using assms
proof (induction left arbitrary: start till n msgs)
  case 0
  then have "pieces g (drop start bs) = []" by simp
  moreover have "n \<le> length msgs" using 0 by simp
  ultimately show ?case using filled_Nil by simp
next
  case (Suc left)
  let ?src = "msgs ! i" and ?data = "b_data (mg_buffer (msgs ! i))"
  have lb: "length bs = N" using Suc.prems(3,5) by simp
  have st: "start < N" using Suc.prems(8,11) lb by (cases "start = N") auto
  have till: "till = min (start + g) (length bs)" using Suc.prems(10) lb by simp
  have p: "pieces g (drop start bs) = go_slice start till bs # pieces g (drop till bs)"
    unfolding till using pieces_drop [OF Suc.prems(7)] st lb by simp
  have n: "n \<le> i" "n < length msgs" using Suc.prems(1,9) by simp_all
  have t: "start < till" "till \<le> N" using st Suc.prems(7,10) by auto
  have piece: "go_slice start till ?data = go_slice start till bs" using t Suc.prems(3) by (simp add: go_slice_def drop_take min_def)
  have lp: "length (go_slice start till bs) = till - start" using t lb by (simp add: go_slice_def)
  have L: "length (b_data (mg_buffer (msgs ! n))) = L" "length ?data = L" using Suc.prems(1,6) n(2) by simp_all
  have le: "till - start \<le> L" using t Suc.prems(5) L(2) by simp
  define m where "m = (msgs ! n)\<lparr>mg_buffer := (mg_buffer (msgs ! n))\<lparr>b_data := copy_at 0 (go_slice start till bs) (b_data (mg_buffer (msgs ! n)))\<rparr>,
    mg_N := min (length (b_data (mg_buffer (msgs ! n)))) (length (go_slice start till bs)), mg_Addr := mg_Addr ?src\<rparr>"
  let ?msgs = "msgs[n := m]"
  have ml: "length (b_data (mg_buffer m)) = L" using L le lp by (simp add: m_def copy_at_0)
  have mr: "received m = (go_slice start till bs, mg_Addr ?src)" using L le lp by (simp add: m_def received_def copy_at_0)
  have sp: "split_pieces i g N (Suc left) start till n msgs = split_pieces i g N left till (min (till + g) N) (Suc n) ?msgs"
    using n t Suc.prems(5) piece by (simp add: m_def Let_def)
  have left: "left = length (pieces g (drop till bs))" using Suc.prems(8) p by simp
  show ?case
  proof (cases "left = 0")
    case True
    then have "pieces g (drop till bs) = []" using left by simp
    moreover have "filled n [(go_slice start till bs, mg_Addr ?src)] msgs ?msgs"
      using filled_Cons [OF filled_Nil n(2) mr] n ml L by simp
    ultimately show ?thesis using True p sp by simp
  next
    case False
    then have ni: "n < i" using Suc.prems(9) by simp
    then have src: "?msgs ! i = ?src" by simp
    have L2: "\<forall>m \<in> set ?msgs. length (b_data (mg_buffer m)) = L" using Suc.prems(6) ml by (auto dest!: subsetD [OF set_update_subset_insert])
    have nl: "Suc n + left \<le> i + 1" "i < length ?msgs" using Suc.prems(1,9) by simp_all
    have srcs: "mg_N (?msgs ! i) = N" "bs = take N (b_data (mg_buffer (?msgs ! i)))" "N \<le> length (b_data (mg_buffer (?msgs ! i)))"
      unfolding src by (rule Suc.prems)+
    note ih = Suc.IH [OF nl(2) srcs(1,2) Suc.prems(4) srcs(3) L2 Suc.prems(7) left nl(1) refl t(2) notE [OF False]]
    obtain msgs' where r: "split_pieces i g N left till (min (till + g) N) (Suc n) ?msgs = Some (True, Suc n + left, msgs')"
      "filled (Suc n) (map (\<lambda>b. (b, mg_Addr ?src)) (pieces g (drop till bs))) ?msgs msgs'" using ih unfolding src by blast
    have "filled n ((go_slice start till bs, mg_Addr ?src) # map (\<lambda>b. (b, mg_Addr ?src)) (pieces g (drop till bs))) msgs msgs'"
      using r(2) n(2) mr ml L by (intro filled_Cons) auto
    then show ?thesis using r(1) sp p by simp
  qed
qed

text \<open>A message as it is read: what it holds lies in its buffer, and the size of its datagrams is known.\<close>

definition readable :: "(bytes \<Rightarrow> (unit + nat) option) \<Rightarrow> (Message \<Rightarrow> nat) \<Rightarrow> Message \<Rightarrow> bool" where
  "readable getGSO gso m \<longleftrightarrow> 0 < mg_N m \<and> mg_N m \<le> length (b_data (mg_buffer m)) \<and> gso m \<le> mg_N m \<and>
     getGSO (take (mg_NN m) (b_data (mg_OOB m))) = Some (Inr (gso m))"

definition delivered :: "(Message \<Rightarrow> nat) \<Rightarrow> Message \<Rightarrow> (bytes \<times> UDPAddr option) list" where
  "delivered gso m = map (\<lambda>b. (b, mg_Addr m)) (read_pieces (gso m) m)"

lemma length_pieces: "length (pieces g bs) = (length bs + g - 1) div g"
  by (simp add: pieces_def)

lemma split_message:
  assumes r: "readable getGSO gso (msgs ! i)" and L: "\<forall>m \<in> set msgs. length (b_data (mg_buffer m)) = L" and i: "i < length msgs"
    and room: "n + length (delivered gso (msgs ! i)) \<le> i + 1"
  shows "\<exists>msgs'. split_pieces i (gso (msgs ! i)) (mg_N (msgs ! i)) (if 0 < gso (msgs ! i) then (mg_N (msgs ! i) + gso (msgs ! i) - 1) div gso (msgs ! i) else 1)
      0 (if 0 < gso (msgs ! i) then gso (msgs ! i) else mg_N (msgs ! i)) n msgs = Some (True, n + length (delivered gso (msgs ! i)), msgs') \<and>
    filled n (delivered gso (msgs ! i)) msgs msgs'"
proof (cases "gso (msgs ! i) = 0")
  case False
  let ?m = "msgs ! i" let ?bs = "take (mg_N ?m) (b_data (mg_buffer ?m))"
  note R = r [unfolded readable_def]
  have len: "length ?bs = mg_N ?m" using R by simp
  have d: "delivered gso ?m = map (\<lambda>b. (b, mg_Addr ?m)) (pieces (gso ?m) (drop 0 ?bs))" using False by (simp add: delivered_def read_pieces_def)
  have num: "(mg_N ?m + gso ?m - 1) div gso ?m = length (pieces (gso ?m) (drop 0 ?bs))" by (simp only: length_pieces drop_0 len)
  have pos: "0 < length (pieces (gso ?m) (drop 0 ?bs))" using False R len by (subst drop_0, subst pieces_step) auto
  have "\<exists>msgs'. split_pieces i (gso ?m) (mg_N ?m) ((mg_N ?m + gso ?m - 1) div gso ?m) 0 (gso ?m) n msgs
      = Some (True, n + (mg_N ?m + gso ?m - 1) div gso ?m, msgs') \<and>
    filled n (map (\<lambda>b. (b, mg_Addr ?m)) (pieces (gso ?m) (drop 0 ?bs))) msgs msgs'"
    by (rule split_pieces_spec [OF i refl refl _ _ L])
      (use R False num pos room d in auto)
  then show ?thesis using False d num by simp
next
  case True
  let ?m = "msgs ! i" let ?bs = "take (mg_N ?m) (b_data (mg_buffer ?m))"
  note R = r [unfolded readable_def]
  have d: "delivered gso ?m = [(?bs, mg_Addr ?m)]" using True by (simp add: delivered_def read_pieces_def)
  have one: "pieces (mg_N ?m) ?bs = [?bs]" using R by (subst pieces_step) auto
  have "\<exists>msgs'. split_pieces i (mg_N ?m) (mg_N ?m) 1 0 (mg_N ?m) n msgs = Some (True, n + 1, msgs') \<and>
    filled n (map (\<lambda>b. (b, mg_Addr ?m)) (pieces (mg_N ?m) (drop 0 ?bs))) msgs msgs'"
    by (rule split_pieces_spec [OF i refl refl _ _ L])
      (use R room d one in auto)
  moreover have "split_pieces i 0 (mg_N ?m) 1 0 (mg_N ?m) n msgs = split_pieces i (mg_N ?m) (mg_N ?m) 1 0 (mg_N ?m) n msgs" by (simp add: Let_def)
  ultimately show ?thesis using True d one by simp
qed


text \<open>All messages: what is delivered so far is in the first \<open>n\<close>, and those to come are as they were read.\<close>

lemma split_loop_spec:
  assumes "\<forall>i \<in> {f ..< f + r}. readable getGSO gso (orig ! i)" "f + r \<le> length orig" "f + r = length orig \<or> mg_N (orig ! (f + r)) = 0"
    "\<forall>k < r. length (concat (map (\<lambda>i. delivered gso (orig ! i)) [f ..< Suc (f + k)])) \<le> f + k + 1"
    "length msgs = length orig" "\<forall>m \<in> set msgs. length (b_data (mg_buffer m)) = L" "j \<le> r"
    "n = length (concat (map (\<lambda>i. delivered gso (orig ! i)) [f ..< f + j]))"
    "map received (take n msgs) = concat (map (\<lambda>i. delivered gso (orig ! i)) [f ..< f + j])" "n \<le> length msgs"
    "\<forall>i < length orig. f + j \<le> i \<longrightarrow> msgs ! i = orig ! i"
  shows "\<exists>msgs'. split_loop getGSO [f + j ..< length orig] n msgs = Some (None, length (concat (map (\<lambda>i. delivered gso (orig ! i)) [f ..< f + r])), msgs') \<and>
    map received (take (length (concat (map (\<lambda>i. delivered gso (orig ! i)) [f ..< f + r]))) msgs') = concat (map (\<lambda>i. delivered gso (orig ! i)) [f ..< f + r])"
  using assms(5-)
proof (induction "r - j" arbitrary: j n msgs)
  case 0
  then have "j = r" by simp
  moreover have "split_loop getGSO [f + r ..< length orig] n msgs = Some (None, n, msgs)"
  proof (cases "f + r = length orig")
    case False
    then have "f + r < length orig" "mg_N (orig ! (f + r)) = 0" using assms(2,3) by simp_all
    then show ?thesis using 0 \<open>j = r\<close> by (simp add: upt_conv_Cons)
  qed simp
  ultimately show ?case using 0 by simp
next
  case (Suc d)
  let ?i = "f + j" let ?m = "orig ! ?i" let ?ds = "delivered gso ?m" let ?done = "concat (map (\<lambda>i. delivered gso (orig ! i)) [f ..< ?i])"
  have j: "j < r" "?i < length orig" using Suc.hyps(2) assms(2) by simp_all
  have mi: "msgs ! ?i = ?m" using Suc.prems(7) j by simp
  have rd: "readable getGSO gso (msgs ! ?i)" using assms(1) j by (simp add: mi)
  have "length (concat (map (\<lambda>i. delivered gso (orig ! i)) [f ..< Suc ?i])) \<le> ?i + 1" using assms(4) j by blast
  then have room: "n + length (delivered gso (msgs ! ?i)) \<le> ?i + 1" using Suc.prems(4) by (simp add: mi)
  have il: "?i < length msgs" using j Suc.prems(1) by simp
  from split_message [OF rd Suc.prems(2) il room]
  obtain msgs1 where s: "split_pieces ?i (gso ?m) (mg_N ?m) (if 0 < gso ?m then (mg_N ?m + gso ?m - 1) div gso ?m else 1) 0 (if 0 < gso ?m then gso ?m else mg_N ?m) n msgs
      = Some (True, n + length ?ds, msgs1)" and fl: "filled n ?ds msgs msgs1"
    unfolding mi by blast
  define msgs2 where "msgs2 = (if int ?i \<noteq> int (n + length ?ds) - 1 then upd_msg ?i (\<lambda>m. m\<lparr>mg_N := 0\<rparr>) msgs1 else msgs1)"
  have R: "0 < mg_N ?m" "getGSO (take (mg_NN ?m) (b_data (mg_OOB ?m))) = Some (Inr (gso ?m))" using rd by (simp_all add: readable_def mi)
  have step: "split_loop getGSO [?i ..< length orig] n msgs = split_loop getGSO [f + Suc j ..< length orig] (n + length ?ds) msgs2"
    using j R s by (simp add: upt_conv_Cons mi Let_def msgs2_def)
  have F: "length msgs1 = length msgs" "n + length ?ds \<le> length msgs" "map received (take (length ?ds) (drop n msgs1)) = ?ds"
    "\<And>k. k < length msgs \<Longrightarrow> k < n \<or> n + length ?ds \<le> k \<Longrightarrow> msgs1 ! k = msgs ! k"
    "\<And>k. k < length msgs \<Longrightarrow> length (b_data (mg_buffer (msgs1 ! k))) = length (b_data (mg_buffer (msgs ! k)))"
    using fl unfolding filled_def by blast+
  have l2: "length msgs2 = length orig" using F(1) Suc.prems(1) by (simp add: msgs2_def upd_msg_def)
  have L2: "\<forall>m \<in> set msgs2. length (b_data (mg_buffer m)) = L"
    using F(1,5) Suc.prems(2) il
    by (cases "int ?i \<noteq> int (n + length ?ds) - 1") (auto simp: all_set_conv_all_nth msgs2_def upd_msg_def nth_list_update)
  have le: "n + length ?ds \<le> ?i + 1" using room by (simp add: mi)
  have nth2: "msgs2 ! k = msgs1 ! k" if "k < n + length ?ds" for k
    using that le by (auto simp: msgs2_def upd_msg_def nth_list_update)
  have t2: "take (n + length ?ds) msgs2 = take (n + length ?ds) msgs1"
    using l2 F(1) Suc.prems(1) nth2 by (intro nth_equalityI) auto
  have t1: "take n msgs1 = take n msgs" using F(1,4) Suc.prems(5) by (intro nth_equalityI) auto
  have "map received (take (n + length ?ds) msgs2) = ?done @ ?ds"
    unfolding t2 by (simp only: take_add map_append F(3) t1 Suc.prems(5))
  then have rec: "map received (take (n + length ?ds) msgs2) = concat (map (\<lambda>i. delivered gso (orig ! i)) [f ..< f + Suc j])" by simp
  have keep: "\<forall>i < length orig. f + Suc j \<le> i \<longrightarrow> msgs2 ! i = orig ! i"
  proof (intro allI impI)
    fix i assume i: "i < length orig" "f + Suc j \<le> i"
    then have "msgs2 ! i = msgs1 ! i" by (simp add: msgs2_def upd_msg_def nth_list_update)
    also have "\<dots> = msgs ! i" using F(4) [of i] i le Suc.prems(1) by simp
    finally show "msgs2 ! i = orig ! i" using Suc.prems(7) i by simp
  qed
  have "d = r - Suc j" "Suc j \<le> r" using Suc.hyps(2) j by simp_all
  from Suc.hyps(1) [OF this(1) l2 L2 this(2) _ rec _ keep] show ?case
    unfolding step using Suc.prems(4) F(2) l2 Suc.prems(1) by simp
qed

text \<open>C28. Cutting messages that the kernel has joined delivers their datagrams, in order and each with the address
  of its message, when no datagram would overtake the message it is cut from; a size larger than the message
  does not occur.\<close>

theorem split_messages_delivered:
  assumes "\<forall>i \<in> {f ..< f + r}. readable getGSO gso (msgs ! i)" "f + r \<le> length msgs" "f + r = length msgs \<or> mg_N (msgs ! (f + r)) = 0"
    "\<forall>k < r. length (concat (map (\<lambda>i. delivered gso (msgs ! i)) [f ..< Suc (f + k)])) \<le> f + k + 1"
    "\<forall>m \<in> set msgs. length (b_data (mg_buffer m)) = L"
  shows "\<exists>n msgs'. splitCoalescedMessages msgs f getGSO = Some (None, n, msgs') \<and>
    map received (take n msgs') = concat (map (\<lambda>i. delivered gso (msgs ! i)) [f ..< f + r])"
  using split_loop_spec [OF assms(1-4) refl assms(5), of 0 0] by (auto simp: splitCoalescedMessages_def)

section \<open>Sources and ports\<close>

text \<open>Cutting moves bytes, lengths and addresses, but never the lengths of control data.\<close>

lemma map_update_same: "f m = f (xs ! n) \<Longrightarrow> map f (xs[n := m]) = map f xs"
  by (cases "n < length xs") (metis list_update_id map_update, simp add: list_update_beyond)

lemma split_pieces_NN:
  "split_pieces i g t left start till n msgs = Some (ok, n', msgs') \<Longrightarrow> map mg_NN msgs' = map mg_NN msgs"
proof (induction left arbitrary: start till n msgs)
  case (Suc left)
  then show ?case by (auto simp: Let_def map_update_same split: if_splits)
qed simp

lemma split_loop_NN:
  "split_loop getGSO is n msgs = Some (err, n', msgs') \<Longrightarrow> map mg_NN msgs' = map mg_NN msgs"
proof (induction "is" arbitrary: n msgs)
  case (Cons i "is")
  let ?m = "msgs ! i"
  show ?case
  proof (cases "mg_N ?m = 0")
    case False
    obtain gso where gso: "getGSO (take (mg_NN ?m) (b_data (mg_OOB ?m))) = Some gso"
      using Cons.prems False by (auto simp: Let_def bind_eq_Some_conv)
    show ?thesis
    proof (cases gso)
      case (Inl e)
      then show ?thesis using Cons.prems False gso by (simp add: Let_def)
    next
      case (Inr g)
      obtain ok n1 msgs1 where s: "split_pieces i g (mg_N ?m) (if 0 < g then (mg_N ?m + g - 1) div g else 1) 0 (if 0 < g then g else mg_N ?m) n msgs
          = Some (ok, n1, msgs1)"
        using Cons.prems False gso Inr by (auto simp: Let_def bind_eq_Some_conv)
      let ?msgs2 = "if int i \<noteq> int n1 - 1 then upd_msg i (\<lambda>m. m\<lparr>mg_N := 0\<rparr>) msgs1 else msgs1"
      have "map mg_NN ?msgs2 = map mg_NN msgs" using split_pieces_NN [OF s] by (simp add: upd_msg_def map_update_same)
      moreover have "if ok then split_loop getGSO is n1 ?msgs2 = Some (err, n', msgs') else msgs' = msgs1"
        using Cons.prems False gso Inr s by (auto simp: Let_def split: if_split_asm)
      ultimately show ?thesis using Cons.IH split_pieces_NN [OF s] by (metis (mono_tags))
    qed
  qed (use Cons.prems in simp)
qed simp

text \<open>C30. With receive offload the source of a datagram is lost: the messages that are handed on carry no control
  data, so no endpoint learns the local address its packets arrive at, whatever the kernel reports, unless a
  read fills the messages it was read into itself.\<close>

theorem rx_offload_loses_sources:
  assumes r: "receiveIP le parse True bufs (Inr batch) = Some (Inr rs)" and n: "length rs \<le> IdealBatchSize - IdealBatchSize div udpSegmentMaxDatagrams"
    and e: "(d, sz, Some ep) \<in> set rs"
  shows "ep_src ep = []"
proof -
  let ?msgs = "place_batch 126 batch (getMessages bufs)"
  obtain num msgs where s: "splitCoalescedMessages ?msgs 126 (getGSOSize le parse) = Some (None, num, msgs)"
    and rs: "those (map (\<lambda>m. if mg_N m = 0 then Some (b_data (mg_buffer m), 0, None)
      else map_option (\<lambda>ep. (b_data (mg_buffer m), mg_N m, Some ep)) (endpoint_of parse m)) (take num msgs)) = Some rs"
    using r by (auto simp: receiveIP_def Let_def bind_eq_Some_conv IdealBatchSize_def udpSegmentMaxDatagrams_def split: option.splits if_splits)
  have l: "length ?msgs \<ge> 126" by (simp add: place_batch_def getMessages_def IdealBatchSize_def)
  have nn: "map mg_NN msgs = map mg_NN ?msgs" using split_loop_NN s by (auto simp: splitCoalescedMessages_def)
  have zero: "mg_NN (?msgs ! k) = 0" if "k < 126" for k
    using that by (simp add: place_batch_def nth_append getMessages_def IdealBatchSize_def pool_message_def)
  let ?f = "\<lambda>m. if mg_N m = 0 then Some (b_data (mg_buffer m), 0, None)
      else map_option (\<lambda>ep. (b_data (mg_buffer m), mg_N m, Some ep)) (endpoint_of parse m)"
  have all: "list_all2 (\<lambda>m x. ?f m = Some x) ms xs" if "those (map ?f ms) = Some xs" for ms xs
    using that by (induction ms arbitrary: xs) (auto split: option.splits if_splits)
  note A = all [OF rs]
  obtain k where k: "k < length rs" "rs ! k = (d, sz, Some ep)" using e by (auto simp: in_set_conv_nth)
  have lk: "k < length (take num msgs)" using list_all2_lengthD [OF A] k(1) by simp
  have k126: "k < 126" using k(1) n by (simp add: IdealBatchSize_def udpSegmentMaxDatagrams_def)
  have "mg_NN (msgs ! k) = map mg_NN msgs ! k" using lk by simp
  also have "\<dots> = mg_NN (?msgs ! k)" unfolding nn using k126 l by simp
  finally have z: "mg_NN (msgs ! k) = 0" using zero k126 by simp
  have "?f (msgs ! k) = Some (d, sz, Some ep)" using list_all2_nthD [OF A lk] lk k(2) by (simp split: if_split_asm)
  then have "endpoint_of parse (msgs ! k) = Some ep" by (auto split: if_splits)
  then show ?thesis using z by (auto simp: endpoint_of_def bind_eq_Some_conv getSrcFromControl.simps)
qed

text \<open>On a system without IPv6 the port that is reported is 0.\<close>

lemma Open_reports_no_port:
  assumes "so_listen S False (unat u) w = (Inr (c, port), w1)" "so_listen S True port w1 = (Inl EAFNOSUPPORT, w2)" "sb_ipv4 s = None" "sb_ipv6 s = None"
  shows "\<exists>s' w'. StdNetBind_Open S u s w = Some (Inr ([False], 0), s', w') \<and> sb_ipv4 s' = Some c"
proof -
  have "open_both S u maxTries w = Some (Inr (Some c, None, 0), w2)"
    using assms(1,2) by (subst open_both.simps) (simp add: listenNet_def Let_def)
  then show ?thesis using assms(3,4) by (simp add: StdNetBind_Open_def add_conn_def split: prod.split)
qed

text \<open>On a system without IPv4 the socket is not opened on the port that was asked for, but on any.\<close>

lemma Open_ignores_port:
  assumes "so_listen S False (unat u) w = (Inl EAFNOSUPPORT, w1)" "so_listen S True 0 w1 = (Inr (c, port), w2)" "sb_ipv4 s = None" "sb_ipv6 s = None"
  shows "\<exists>s' w'. StdNetBind_Open S u s w = Some (Inr ([True], word_of_nat port), s', w') \<and> sb_ipv6 s' = Some c"
proof -
  have "open_both S u maxTries w = Some (Inr (None, Some c, port), w2)"
    using assms(1,2) by (subst open_both.simps) (simp add: listenNet_def Let_def)
  then show ?thesis using assms(3,4) by (simp add: StdNetBind_Open_def add_conn_def split: prod.split)
qed

text \<open>A bind that has been closed sends nothing.\<close>

lemma Close_closes:
  "StdNetBind_Close S s w = (err, s', w') \<Longrightarrow> sb_ipv4 s' = None \<and> sb_ipv6 s' = None \<and>
    StdNetBind_Send S setGSO bufs ep s' w' ua = Some (Some EAFNOSUPPORT, s', w', ua)"
  by (auto simp: StdNetBind_Close_def StdNetBind_Send_def Let_def split: prod.splits)

section \<open>Concrete inputs\<close>

definition some_ep :: Endpoint where
  "some_ep = \<lparr>ep_addr = [192, 0, 2, 1], ep_port = 51820, ep_src = []\<rparr>"

text \<open>A size that is written as the whole control data.\<close>

definition put_gso :: "Buf \<Rightarrow> u16 \<Rightarrow> Buf" where "put_gso b w = b\<lparr>b_data := put_u16_be w\<rparr>"
definition get_gso :: "Buf \<Rightarrow> nat" where "get_gso b = (if b_data b = [] then 0 else unat (get_u16_be (b_data b)))"

definition some_bufs :: "Buf list" where
  "some_bufs = map (\<lambda>bs. \<lparr>b_data = bs, b_cap = 100\<rparr>) [[1, 2], [3, 4], [5], [6, 7]]"

lemma some_joined:
  "coalesceMessages (([192, 0, 2, 1], 51820)) some_ep some_bufs [pool_message, pool_message, pool_message] put_gso =
    Some (let m = \<lambda>bs oob. pool_message\<lparr>mg_buffer := \<lparr>b_data = bs, b_cap = 100\<rparr>, mg_OOB := (mg_OOB pool_message)\<lparr>b_data := oob\<rparr>,
                   mg_Addr := Some (([192, 0, 2, 1], 51820))\<rparr>
          in [m [1, 2, 3, 4, 5] (put_u16_be 2), m [6, 7] [], pool_message], 2)"
  by (simp add: coalesceMessages_def some_bufs_def some_ep_def is6_def begin_message_def upd_msg_def can_join_def join_datagram_def
      set_gso_of_def maxIPv4PayloadLen_def udpSegmentMaxDatagrams_def setSrcControl_def put_gso_def Let_def)

theorem coalesced_datagrams_witness:
  "\<exists>msgs. coalesceMessages (([192, 0, 2, 1], 51820)) some_ep some_bufs [pool_message, pool_message, pool_message] put_gso = Some (msgs, 2) \<and>
    concat (map (datagrams get_gso) (take 2 msgs)) = [[1, 2], [3, 4], [5], [6, 7]]"
proof -
  have "gso_laws put_gso get_gso some_ep [pool_message, pool_message, pool_message]"
    using get_put_u16_be [of _ "[]"]
    by (simp add: gso_laws_def put_gso_def get_gso_def setSrcControl_def some_ep_def) (simp add: put_u16_be_def flip: length_0_conv)
  moreover have "\<forall>b \<in> set some_bufs. b_data b \<noteq> []" by (simp add: some_bufs_def)
  ultimately show ?thesis using coalesced_datagrams [OF some_joined] some_joined by (simp add: some_bufs_def)
qed

definition read_msg :: "bytes \<Rightarrow> nat \<Rightarrow> Message" where
  "read_msg bs n = pool_message\<lparr>mg_buffer := \<lparr>b_data = bs, b_cap = 5\<rparr>, mg_N := n, mg_Addr := (if n = 0 then None else Some ([10, 0, 0, 1], 7))\<rparr>"

definition read_msgs :: "Message list" where
  "read_msgs = replicate 3 (read_msg (replicate 5 0) 0) @ [read_msg [1, 2, 3, 4, 5] 5]"

theorem split_messages_delivered_witness:
  "\<exists>n msgs. splitCoalescedMessages read_msgs 3 (\<lambda>_. Some (Inr 2)) = Some (None, n, msgs) \<and>
    map received (take n msgs) = map (\<lambda>bs. (bs, Some ([10, 0, 0, 1], 7))) [[1, 2], [3, 4], [5]]"
proof -
  have m: "read_msgs ! 3 = read_msg [1, 2, 3, 4, 5] 5" "length read_msgs = 4" by (simp_all add: read_msgs_def nth_append)
  have d: "delivered (\<lambda>_. 2) (read_msg [1, 2, 3, 4, 5] 5) = map (\<lambda>bs. (bs, Some ([10, 0, 0, 1], 7))) [[1, 2], [3, 4], [5]]"
    by (simp add: delivered_def read_pieces_def pieces_step read_msg_def)
  have "\<exists>n msgs'. splitCoalescedMessages read_msgs 3 (\<lambda>_. Some (Inr 2)) = Some (None, n, msgs') \<and>
    map received (take n msgs') = concat (map (\<lambda>i. delivered (\<lambda>_. 2) (read_msgs ! i)) [3 ..< 3 + 1])"
  proof (rule split_messages_delivered)
    show "\<forall>i \<in> {3 ..< 3 + 1}. readable (\<lambda>_. Some (Inr 2)) (\<lambda>_. 2) (read_msgs ! i)"
      using m by (auto simp: readable_def read_msg_def le_less_Suc_eq numeral_eq_Suc dest: le_antisym)
    show "\<forall>m \<in> set read_msgs. length (b_data (mg_buffer m)) = 5" by (simp add: read_msgs_def read_msg_def)
  qed (simp_all add: m d)
  then show ?thesis by (simp add: m d)
qed

definition joined_datagram :: Datagram where
  "joined_datagram = \<lparr>dg_data = [1, 2, 3], dg_control = replicate 28 1, dg_Addr = ([10, 0, 0, 1], 7)\<rparr>"

definition some_parser :: cmsg_parser where
  "some_parser bs = Some (\<lparr>cm_header = replicate 16 0, cm_Level = 0, cm_Type = 8, cm_data = replicate 12 1\<rparr>, [])"

lemma joined_read:
  "receiveIP True some_parser True (replicate 128 [0, 0, 0, 0]) (Inr [joined_datagram])
    = Some (Inr [([1, 2, 3, 0], 3, Some \<lparr>ep_addr = [10, 0, 0, 1], ep_port = 7, ep_src = []\<rparr>)])"
  "receiveIP True some_parser False (replicate 128 [0, 0, 0, 0]) (Inr [joined_datagram])
    = Some (Inr [([1, 2, 3, 0], 3, Some \<lparr>ep_addr = [10, 0, 0, 1], ep_port = 7, ep_src = replicate 16 0 @ replicate 12 1 @ replicate 4 0\<rparr>)])"
  by code_simp+

theorem rx_offload_loses_sources_witness:
  "\<exists>d ep. receiveIP True some_parser True (replicate 128 [0, 0, 0, 0]) (Inr [joined_datagram]) = Some (Inr [(d, 3, Some ep)]) \<and> ep_src ep = [] \<and>
    (\<exists>ep. receiveIP True some_parser False (replicate 128 [0, 0, 0, 0]) (Inr [joined_datagram]) = Some (Inr [(d, 3, Some ep)]) \<and> ep_src ep \<noteq> [])"
  using rx_offload_loses_sources [OF joined_read(1)] joined_read by (simp add: IdealBatchSize_def udpSegmentMaxDatagrams_def)

section \<open>Addresses from the pool\<close>

lemma set_gso_of_keeps: "co_begun (set_gso_of setGSO s) = co_begun s" "map mg_Addr (co_msgs (set_gso_of setGSO s)) = map mg_Addr (co_msgs s)"
  by (simp_all add: set_gso_of_def upd_msg_def map_update_same)

lemma coalesce_loop_addr:
  "coalesce_loop setGSO addr ep maxP i bufs s = Some s' \<Longrightarrow> co_begun s \<le> length (map mg_Addr (co_msgs s)) \<Longrightarrow>
    \<forall>k < co_begun s. map mg_Addr (co_msgs s) ! k = Some addr \<Longrightarrow>
    co_begun s' \<le> length (map mg_Addr (co_msgs s')) \<and> (\<forall>k < co_begun s'. map mg_Addr (co_msgs s') ! k = Some addr)"
proof (induction bufs arbitrary: i s)
  case (Cons buf bufs)
  show ?case
  proof (cases "0 < i \<and> can_join maxP buf s")
    case True
    let ?s = "join_datagram setGSO (bufs = []) buf s"
    have "co_begun ?s = co_begun s" "map mg_Addr (co_msgs ?s) = map mg_Addr (co_msgs s)"
      by (simp_all add: join_datagram_def Let_def set_gso_of_keeps upd_msg_def map_update_same)
    with Cons True show ?thesis by (simp del: length_map)
  next
    case False
    then obtain s1 where s1: "begin_message setGSO addr ep buf s = Some s1" "coalesce_loop setGSO addr ep maxP (Suc i) bufs s1 = Some s'"
      using Cons.prems(1) by (auto simp: bind_eq_Some_conv)
    define t where "t = (if 1 < co_dgramCnt s then set_gso_of setGSO s else s)"
    have t: "co_begun t = co_begun s" "map mg_Addr (co_msgs t) = map mg_Addr (co_msgs s)"
      by (simp_all add: t_def set_gso_of_keeps)
    have "map mg_Addr (co_msgs s1) = (map mg_Addr (co_msgs s))[co_begun s := Some addr]" "co_begun s1 = Suc (co_begun s)"
      "co_begun s < length (map mg_Addr (co_msgs s))"
      using s1(1) unfolding begin_message_def Let_def t_def [symmetric] t(2) [symmetric] t(1) [symmetric]
      by (auto simp: upd_msg_def map_update split: if_split_asm)
    then have "co_begun s1 \<le> length (map mg_Addr (co_msgs s1)) \<and> (\<forall>k < co_begun s1. map mg_Addr (co_msgs s1) ! k = Some addr)"
      using Cons.prems(3) by (auto simp: less_Suc_eq nth_list_update simp del: length_map nth_map)
    then show ?thesis using Cons.IH [OF s1(2)] by blast
  qed
qed simp

lemma coalesceMessages_addr:
  assumes "coalesceMessages addr ep bufs msgs setGSO = Some (msgs', n)"
  shows "\<forall>m \<in> set (take n msgs'). mg_Addr m = Some addr"
proof -
  obtain s where s: "coalesce_loop setGSO addr ep (if is6 ep then maxIPv6PayloadLen else maxIPv4PayloadLen) 0 bufs
      \<lparr>co_msgs = msgs, co_begun = 0, co_gsoSize = 0, co_dgramCnt = 0, co_endBatch = False\<rparr> = Some s" "msgs' = co_msgs s" "n = co_begun s"
    using assms by (auto simp: coalesceMessages_def bind_eq_Some_conv)
  show ?thesis using coalesce_loop_addr [OF s(1)] s(2,3) by (auto simp: in_set_conv_nth)
qed

text \<open>A socket that takes every batch whole and records where its messages go.\<close>

definition records :: "('c, UDPAddr option list) Sockets \<Rightarrow> 'c \<Rightarrow> bool" where
  "records S c \<longleftrightarrow> (\<forall>msgs w. so_WriteBatch S c msgs w = ((length msgs, None), w @ map mg_Addr msgs))"

lemma send_msgs_records: "records S c \<Longrightarrow> send_msgs S c msgs w = Some (None, w @ map mg_Addr msgs)"
  by (subst send_msgs.simps) (simp add: records_def)

lemma Send_records:
  assumes "StdNetBind_Send S setGSO bufs ep s w ua = Some (err, s', w', ua')" "(if is6 ep then sb_ipv6 s else sb_ipv4 s) = Some c"
    "\<not> (if is6 ep then blackhole6 s else blackhole4 s)" "records S c"
  shows "ua' = fill_addr ep ua" "s' = s" "\<exists>as. w' = w @ as \<and> (\<forall>a \<in> set as. a = Some (addr_to_send ep ua'))"
proof -
  let ?ua = "fill_addr ep ua"
  have single: "\<forall>m \<in> set (single_messages (addr_to_send ep ?ua) ep bufs send_messages). mg_Addr m = Some (addr_to_send ep ?ua)"
    by (auto simp: single_messages_def set_zip)
  have "ua' = ?ua \<and> s' = s \<and> (\<exists>as. w' = w @ as \<and> (\<forall>a \<in> set as. a = Some (addr_to_send ep ?ua)))"
  proof (cases "if is6 ep then ipv6TxOffload s else ipv4TxOffload s")
    case True
    obtain msgs n where c: "coalesceMessages (addr_to_send ep ?ua) ep bufs send_messages setGSO = Some (msgs, n)"
      using assms(1,2,3) True by (cases "is6 ep") (simp_all add: StdNetBind_Send_def Let_def bind_eq_Some_conv, blast+)
    then show ?thesis using assms(1,2,3) True coalesceMessages_addr [OF c]
      by (cases "is6 ep") (simp_all add: StdNetBind_Send_def Let_def send_msgs_records [OF assms(4)], auto)
  next
    case False
    then show ?thesis using assms(1,2,3) single
      by (cases "is6 ep") (simp_all add: StdNetBind_Send_def Let_def send_msgs_records [OF assms(4)] split: if_split_asm, auto)
  qed
  then show "ua' = fill_addr ep ua" "s' = s" "\<exists>as. w' = w @ as \<and> (\<forall>a \<in> set as. a = Some (addr_to_send ep ua'))" by blast+
qed

text \<open>C29. An address from the pool that was last used for IPv4 is too short for the next: an IPv6 datagram sent with
  it goes to the first 4 bytes of its destination, followed by what the memory of the pool held before. The
  code copies the destination before it restores the length of the slice.\<close>

theorem pooled_address_mixes:
  assumes "sb_ipv4 s = Some c4" "sb_ipv6 s = Some c6" "\<not> blackhole4 s" "\<not> blackhole6 s" "records S c4" "records S c6"
    and ep: "length (ep_addr ep4) = 4" "length (ep_addr ep6) = 16" and mem: "length mem = 16" "4 \<le> n"
    and send: "StdNetBind_Send S setGSO bufs4 ep4 s w (mem, n) = Some (err4, s4, w4, ua4)"
      "StdNetBind_Send S setGSO bufs6 ep6 s4 w4 ua4 = Some (err6, s6, w6, ua6)"
  shows "\<exists>as. w6 = w4 @ as \<and> (\<forall>a \<in> set as. a = Some (take 4 (ep_addr ep6) @ drop 4 mem, ep_port ep6))"
proof -
  have v6: "\<not> is6 ep4" "is6 ep6" using ep by (simp_all add: is6_def)
  have 4: "ua4 = fill_addr ep4 (mem, n)" "s4 = s"
    using Send_records(1,2) [OF send(1), of c4] assms(1,3,5) v6 by simp_all
  have "fill_addr ep4 (mem, n) = (ep_addr ep4 @ drop 4 mem, 4)"
  proof -
    have "drop 4 (take n mem) @ drop n mem = drop 4 (take n mem @ drop n mem)" using mem by (subst drop_append) simp
    then show ?thesis using ep(1) mem v6(1) by (simp add: fill_addr_def copy_into_def)
  qed
  then have "fill_addr ep6 ua4 = (take 4 (ep_addr ep6) @ drop 4 mem, 16)"
    using ep mem v6(2) by (simp add: 4 fill_addr_def copy_into_def)
  then have "addr_to_send ep6 (fill_addr ep6 ua4) = (take 4 (ep_addr ep6) @ drop 4 mem, ep_port ep6)"
    using ep mem by (simp add: addr_to_send_def)
  then show ?thesis using Send_records(1,3) [OF send(2), of c6] assms(2,4,6) v6 4(2) by simp
qed

definition recorder :: "(bool, UDPAddr option list) Sockets" where
  "recorder = \<lparr>so_listen = (\<lambda>v6 port w. (Inr (v6, port), w)), so_offload = (\<lambda>c w. ((False, False), w)), so_close = (\<lambda>c w. (None, w)),
     so_mark = (\<lambda>c m w. (None, w)), so_WriteBatch = (\<lambda>c msgs w. ((length msgs, None), w @ map mg_Addr msgs))\<rparr>"

definition open_bind :: "bool StdNetBind" where
  "open_bind = \<lparr>sb_ipv4 = Some False, sb_ipv6 = Some True, ipv4TxOffload = False, ipv4RxOffload = False, ipv6TxOffload = False,
     ipv6RxOffload = False, blackhole4 = False, blackhole6 = False\<rparr>"

definition some_ep6 :: Endpoint where
  "some_ep6 = \<lparr>ep_addr = [0xfd, 0] @ replicate 13 0 @ [1], ep_port = 51820, ep_src = []\<rparr>"

text \<open>A datagram to \<open>fd00::1\<close> goes to \<open>fd00::\<close>.\<close>

theorem pooled_address_mixes_witness:
  "\<exists>err4 s4 w4 ua4 err6 s6 w6 ua6 as. StdNetBind_Send recorder put_gso [\<lparr>b_data = [1], b_cap = 9\<rparr>] some_ep open_bind [] (replicate 16 0, 16) = Some (err4, s4, w4, ua4) \<and>
     StdNetBind_Send recorder put_gso [\<lparr>b_data = [2], b_cap = 9\<rparr>] some_ep6 s4 w4 ua4 = Some (err6, s6, w4 @ as, ua6) \<and>
     set as = {Some ([0xfd, 0] @ replicate 14 0, 51820)}"
proof -
  let ?b = "\<lambda>x. [\<lparr>b_data = [x], b_cap = 9\<rparr>]"
  have r: "records recorder c" for c by (simp add: records_def recorder_def)
  have sd: "\<exists>w' ua'. StdNetBind_Send recorder put_gso (?b x) ep open_bind w ua = Some (None, open_bind, w', ua') \<and> length w' = Suc (length w)" for x ep w ua
    by (cases "is6 ep") (simp_all add: StdNetBind_Send_def open_bind_def send_msgs_records [OF r] send_messages_def IdealBatchSize_def single_messages_def Let_def)
  obtain w4 ua4 where s4: "StdNetBind_Send recorder put_gso (?b 1) some_ep open_bind [] (replicate 16 0, 16) = Some (None, open_bind, w4, ua4)"
    using sd by blast
  obtain w6 ua6 where s6: "StdNetBind_Send recorder put_gso (?b 2) some_ep6 open_bind w4 ua4 = Some (None, open_bind, w6, ua6)" "length w6 = Suc (length w4)"
    using sd by blast
  from pooled_address_mixes [OF _ _ _ _ r r _ _ _ _ s4 s6(1)] obtain as where
    as: "w6 = w4 @ as" "\<forall>a \<in> set as. a = Some (take 4 (ep_addr some_ep6) @ drop 4 (replicate 16 0), ep_port some_ep6)"
    by (auto simp: open_bind_def some_ep_def some_ep6_def)
  have "as \<noteq> []" using as(1) s6(2) by auto
  moreover have "take 4 (ep_addr some_ep6) @ drop 4 (replicate 16 0) = [0xfd, 0] @ replicate 14 0" "ep_port some_ep6 = 51820"
    by (simp_all add: some_ep6_def numeral_eq_Suc)
  ultimately have "set as = {Some ([0xfd, 0] @ replicate 14 0, 51820)}" using as(2) by (cases as) auto
  then show ?thesis using s4 s6 as(1) by blast
qed

end
