(* ===== verification/Uapi_Facts.thy ===== *)
theory Uapi_Facts
  imports Uapi Send_Facts
begin

text \<open>
  The configuration protocol as a pair of a printer and a parser: the settings that a get operation prints are the
  settings a set operation makes of the text; and what a refused header leaves behind.
\<close>

section \<open>Lines\<close>

definition plain_line :: "string \<Rightarrow> bool" where
  "plain_line l \<longleftrightarrow> newline \<notin> set l \<and> length l < MaxScanTokenSize \<and> (l = [] \<or> last l \<noteq> char_of (13 :: nat))"

definition text_of :: "string list \<Rightarrow> string" where
  "text_of ls = concat (map (\<lambda>l. l @ [newline]) ls)"

lemma text_of_simps [simp]: "text_of [] = []" "text_of (l # ls) = l @ newline # text_of ls" "text_of (ls @ ls') = text_of ls @ text_of ls'"
  by (simp_all add: text_of_def)

lemma scan_text: "\<forall>l \<in> set ls. plain_line l \<Longrightarrow> scan_lines (text_of ls) = (ls, False)"
proof (induction ls)
  case Nil
  then show ?case by (simp add: scan_lines_def MaxScanTokenSize_def)
next
  case (Cons l ls)
  then have "scan_pieces (Split (text_of ls) newline) = (ls, False)" by (simp add: scan_lines_def)
  then show ?case using Cons.prems by (auto simp: scan_lines_def Split_append plain_line_def dropCR_def)
qed

definition setting :: "string \<Rightarrow> string \<Rightarrow> string" where "setting key value = key @ CHR ''='' # value"

lemma line_of_text: "line_of key value = text_of [setting key value]"
  by (simp add: line_of_def setting_def)

definition unless :: "bool \<Rightarrow> string \<Rightarrow> string list" where "unless b l = (if b then [] else [l])"

lemma line_unless_text: "line_unless b key value = text_of (unless b (setting key value))"
  by (simp add: line_unless_def unless_def line_of_text)

lemma set_unless: "l \<in> set (unless b x) \<Longrightarrow> l = x" by (simp add: unless_def split: if_splits)

lemma Cut_setting: "CHR ''='' \<notin> set key \<Longrightarrow> Cut (setting key value) (CHR ''='') = Some (key, value)"
  unfolding setting_def by (rule Cut_append)

lemma setting_nonempty: "setting key value \<noteq> []" by (simp add: setting_def)

lemma set_line:
  assumes "CHR ''='' \<notin> set key" "key \<noteq> ''public_key''" "handleDeviceLine C N key value d = Some (None, d')"
  shows "set_lines C N t (setting key value # ls) True sp d = set_lines C N t ls True sp d'"
  using assms by (simp add: Cut_setting setting_nonempty)

lemma set_line_fails:
  assumes "CHR ''='' \<notin> set key" "key \<noteq> ''public_key''" "handleDeviceLine C N key value d = Some (Some e, d')"
  shows "set_lines C N t (setting key value # ls) True sp d = Some (Some e, d')"
  using assms by (simp add: Cut_setting setting_nonempty)

lemma set_unless_line:
  assumes "CHR ''='' \<notin> set key" "key \<noteq> ''public_key''" "if b then d' = d else handleDeviceLine C N key value d = Some (None, d')"
  shows "set_lines C N t (unless b (setting key value) @ ls) True sp d = set_lines C N t ls True sp d'"
  using assms set_line [OF assms(1,2)] by (simp add: unless_def split: if_splits)

section \<open>The settings\<close>

text \<open>What a get operation prints of a device without key, port and mark.\<close>

definition chain_item :: "nat \<Rightarrow> obfChain option \<Rightarrow> string list" where
  "chain_item i c = (case c of None \<Rightarrow> [] | Some chain \<Rightarrow> [setting (''i'' @ show_nat (i + 1)) (chainSpec chain)])"

definition chain_lines :: "obfChain option list \<Rightarrow> string list" where
  "chain_lines cs = concat (map (\<lambda>(i, c). chain_item i c) (enumerate 0 cs))"

definition setting_lines :: "Device \<Rightarrow> string list" where
  "setting_lines d =
     unless (junk_count d = 0) (setting ''jc'' (Itoa (junk_count d))) @ unless (junk_min d = 0) (setting ''jmin'' (Itoa (junk_min d))) @
     unless (junk_max d = 0) (setting ''jmax'' (Itoa (junk_max d))) @ unless (paddings_init d = 0) (setting ''s1'' (Itoa (paddings_init d))) @
     unless (paddings_response d = 0) (setting ''s2'' (Itoa (paddings_response d))) @
     unless (paddings_cookie d = 0) (setting ''s3'' (Itoa (paddings_cookie d))) @
     unless (paddings_transport d = 0) (setting ''s4'' (Itoa (paddings_transport d))) @
     setting ''h1'' (GenSpec (headers_init d)) # setting ''h2'' (GenSpec (headers_response d)) #
     setting ''h3'' (GenSpec (headers_cookie d)) # setting ''h4'' (GenSpec (headers_transport d)) # chain_lines (ipackets d)"

lemma text_concat: "text_of (concat lss) = concat (map text_of lss)"
  by (induction lss) simp_all

lemma get_settings:
  assumes "isZero (privateKey d)" "net_port d = 0" "net_fwmark d = 0" "keyMap d = []"
  shows "IpcGet N d = text_of (setting_lines d)"
proof -
  have e: "concat (map (\<lambda>(i, c). case c of None \<Rightarrow> [] | Some chain \<Rightarrow> line_of (''i'' @ show_nat (i + 1)) (chainSpec chain)) (enumerate 0 (ipackets d)))
    = text_of (chain_lines (ipackets d))"
    unfolding chain_lines_def text_concat map_map comp_def
    by (intro arg_cong [of _ _ concat] map_cong refl) (auto simp: line_of_text chain_item_def split: option.splits)
  then show ?thesis
    unfolding IpcGet_def get_device_def e using assms
    by (simp add: setting_lines_def line_unless_text line_of_text) (simp add: unless_def)
qed

text \<open>Settings that a set operation can have made.\<close>

definition int_ok :: "int \<Rightarrow> bool" where "int_ok i \<longleftrightarrow> 0 \<le> i \<and> i < 2 ^ 63"

definition chain_ok :: "obfChain option \<Rightarrow> bool" where
  "chain_ok c = (case c of None \<Rightarrow> True | Some c \<Rightarrow> newObfChain (chainSpec c) = Inr c \<and> plain_line (setting ''i0'' (chainSpec c)))"

definition settings_ok :: "Device \<Rightarrow> bool" where
  "settings_ok d \<longleftrightarrow> (\<forall>i \<in> {junk_count d, junk_min d, junk_max d, paddings_init d, paddings_response d, paddings_cookie d, paddings_transport d}. int_ok i) \<and>
     (\<forall>h \<in> {headers_init d, headers_response d, headers_cookie d, headers_transport d}. mh_start h \<le> mh_end h) \<and>
     \<not> any_overlap [headers_init d, headers_response d, headers_cookie d, headers_transport d] \<and>
     length (ipackets d) = 5 \<and> (\<forall>c \<in> set (ipackets d). chain_ok c)"

definition copy_settings :: "Device \<Rightarrow> Device \<Rightarrow> Device" where
  "copy_settings d d0 =
     d0\<lparr>junk_count := junk_count d, junk_min := junk_min d, junk_max := junk_max d, paddings_init := paddings_init d,
        paddings_response := paddings_response d, paddings_cookie := paddings_cookie d, paddings_transport := paddings_transport d,
        headers_init := headers_init d, headers_response := headers_response d, headers_cookie := headers_cookie d,
        headers_transport := headers_transport d, ipackets := ipackets d\<rparr>"

definition no_settings :: "Device \<Rightarrow> bool" where
  "no_settings d \<longleftrightarrow> (\<forall>i \<in> {junk_count d, junk_min d, junk_max d, paddings_init d, paddings_response d, paddings_cookie d, paddings_transport d}. i = 0) \<and>
     ipackets d = replicate 5 None"

lemma with_int_Itoa: "int_ok i \<Longrightarrow> ok i \<Longrightarrow> with_int (Itoa i) ok f d = Some (None, f i d)"
  using Atoi_Itoa [of i] by (simp add: with_int_def int_ok_def ipc_ok_def)

lemma with_header_GenSpec: "mh_start h \<le> mh_end h \<Longrightarrow> with_header (GenSpec h) f d = Some (None, f h d)"
  by (simp add: with_header_def newMagicHeader_GenSpec ipc_ok_def)

lemma chain_digits: "show_nat (Suc (Suc 0)) = ''2''" "show_nat (Suc 0) = ''1''" "show_nat 2 = ''2''" "show_nat 3 = ''3''" "show_nat 4 = ''4''" "show_nat 5 = ''5''"
  by code_simp+

lemma device_lines:
  "handleDeviceLine C N ''i1'' v d = with_chain v 0 d" "handleDeviceLine C N ''i2'' v d = with_chain v 1 d"
  "handleDeviceLine C N ''i3'' v d = with_chain v 2 d" "handleDeviceLine C N ''i4'' v d = with_chain v 3 d"
  "handleDeviceLine C N ''i5'' v d = with_chain v 4 d"
  "handleDeviceLine C N ''h1'' v d = with_header v set_headers_init d" "handleDeviceLine C N ''h2'' v d = with_header v set_headers_response d"
  "handleDeviceLine C N ''h3'' v d = with_header v set_headers_cookie d" "handleDeviceLine C N ''h4'' v d = with_header v set_headers_transport d"
  "handleDeviceLine C N ''jc'' v d = with_int v (\<lambda>i. \<not> i \<le> 0) (\<lambda>i d. d\<lparr>junk_count := i\<rparr>) d"
  "handleDeviceLine C N ''jmin'' v d = with_int v (\<lambda>i. \<not> i \<le> 0) (\<lambda>i d. d\<lparr>junk_min := i\<rparr>) d"
  "handleDeviceLine C N ''jmax'' v d = with_int v (\<lambda>i. \<not> i \<le> 0) (\<lambda>i d. d\<lparr>junk_max := i\<rparr>) d"
  "handleDeviceLine C N ''s1'' v d = with_int v (\<lambda>i. \<not> i < 0) (\<lambda>i d. d\<lparr>paddings_init := i\<rparr>) d"
  "handleDeviceLine C N ''s2'' v d = with_int v (\<lambda>i. \<not> i < 0) (\<lambda>i d. d\<lparr>paddings_response := i\<rparr>) d"
  "handleDeviceLine C N ''s3'' v d = with_int v (\<lambda>i. \<not> i < 0) (\<lambda>i d. d\<lparr>paddings_cookie := i\<rparr>) d"
  "handleDeviceLine C N ''s4'' v d = with_int v (\<lambda>i. \<not> i < 0) (\<lambda>i d. d\<lparr>paddings_transport := i\<rparr>) d"
  by (simp_all add: handleDeviceLine_def)

lemma chain_line:
  assumes "newObfChain spec = Inr c" "i < 5"
  shows "handleDeviceLine C N (''i'' @ show_nat (i + 1)) spec d = Some (None, d\<lparr>ipackets := (ipackets d)[i := Some c]\<rparr>)"
proof -
  have w: "with_chain spec j d = Some (None, d\<lparr>ipackets := (ipackets d)[j := Some c]\<rparr>)" for j using assms(1) by (simp add: with_chain_def ipc_ok_def)
  have "i = 0 \<or> i = 1 \<or> i = 2 \<or> i = 3 \<or> i = 4" using assms(2) by auto
  then show ?thesis by (elim disjE) (simp_all add: chain_digits device_lines w)
qed

lemma set_chain_line:
  assumes "chain_ok c" "i < 5" "length (ipackets d) = 5" "ipackets d ! i = None"
  shows "set_lines C N t (chain_item i c @ ls) True sp d =
    set_lines C N t ls True sp (d\<lparr>ipackets := (ipackets d)[i := c]\<rparr>)"
proof (cases c)
  case None
  then have "(ipackets d)[i := c] = ipackets d" using assms(4) by (metis list_update_id)
  then show ?thesis by (simp add: None chain_item_def)
next
  case (Some chain)
  have n: "CHR ''='' \<notin> set (''i'' @ show_nat (i + 1))" "''i'' @ show_nat (i + 1) \<noteq> ''public_key''"
    using not_digit_not_in_show [of "CHR ''=''"] by auto
  have "newObfChain (chainSpec chain) = Inr chain" using assms(1) by (simp add: chain_ok_def Some)
  from set_line [OF n chain_line [OF this assms(2)]] show ?thesis by (simp add: Some chain_item_def)
qed

lemma set_chain_lines:
  assumes "length cs = 5" "\<forall>c \<in> set cs. chain_ok c" "ipackets d = replicate 5 None"
  shows "set_lines C N t (chain_lines cs) True sp d = set_lines C N t [] True sp (d\<lparr>ipackets := cs\<rparr>)"
proof -
  obtain c1 c2 c3 c4 c5 where cs: "cs = [c1, c2, c3, c4, c5]"
    using assms(1) by (auto simp: length_Suc_conv numeral_eq_Suc)
  have l: "chain_lines cs = chain_item 0 c1 @ chain_item (Suc 0) c2 @ chain_item (Suc (Suc 0)) c3 @ chain_item (Suc (Suc (Suc 0))) c4 @ chain_item (Suc (Suc (Suc (Suc 0)))) c5 @ []"
    by (simp add: chain_lines_def cs enumerate_eq_zip upt_conv_Cons)
  have i: "ipackets d = [None, None, None, None, None]" using assms(3) by (simp add: numeral_eq_Suc)
  have ok: "chain_ok c1" "chain_ok c2" "chain_ok c3" "chain_ok c4" "chain_ok c5" using assms(2) by (simp_all add: cs)
  show ?thesis
    unfolding l by (simp add: set_chain_line set_chain_line [where ls = "[]", unfolded append_Nil2] ok i cs del: set_lines.simps)
qed

text \<open>Applying the lines of a get operation.\<close>

lemma set_int_line:
  assumes "\<And>v. handleDeviceLine C N k v e = with_int v ok f e" "int_ok i" "i \<noteq> 0 \<Longrightarrow> ok i" "e' = f i e" "f 0 e = e"
    "CHR ''='' \<notin> set k" "k \<noteq> ''public_key''"
  shows "set_lines C N t (unless (i = 0) (setting k (Itoa i)) @ ls) True sp e = set_lines C N t ls True sp e'"
  by (rule set_unless_line [OF assms(6,7)]) (use assms(1-5) with_int_Itoa [OF assms(2)] in auto)

lemma set_header_line:
  assumes "\<And>v. handleDeviceLine C N k v e = with_header v f e" "mh_start h \<le> mh_end h" "CHR ''='' \<notin> set k" "k \<noteq> ''public_key''"
  shows "set_lines C N t (setting k (GenSpec h) # ls) True sp e = set_lines C N t ls True sp (f h e)"
  by (rule set_line [OF assms(3,4)]) (simp add: assms(1) with_header_GenSpec [OF assms(2)])

lemma int_ok_pos: "int_ok i \<Longrightarrow> i \<noteq> 0 \<Longrightarrow> \<not> i \<le> 0" "int_ok i \<Longrightarrow> i \<noteq> 0 \<Longrightarrow> \<not> i < 0"
  by (simp_all add: int_ok_def)

lemma settings_okD:
  assumes "settings_ok d"
  shows "int_ok (junk_count d)" "int_ok (junk_min d)" "int_ok (junk_max d)" "int_ok (paddings_init d)" "int_ok (paddings_response d)"
    "int_ok (paddings_cookie d)" "int_ok (paddings_transport d)" "mh_start (headers_init d) \<le> mh_end (headers_init d)"
    "mh_start (headers_response d) \<le> mh_end (headers_response d)" "mh_start (headers_cookie d) \<le> mh_end (headers_cookie d)"
    "mh_start (headers_transport d) \<le> mh_end (headers_transport d)"
    "\<not> any_overlap [headers_init d, headers_response d, headers_cookie d, headers_transport d]"
    "length (ipackets d) = 5" "\<forall>c \<in> set (ipackets d). chain_ok c"
  using assms by (simp_all only: settings_ok_def) blast+

lemma set_settings:
  assumes d: "settings_ok d" and d0: "no_settings d0"
  shows "set_lines C N False (setting_lines d) True sp d0 = set_lines C N False [] True sp (copy_settings d d0)"
proof -
  note S = settings_okD [OF d]
  note Z = d0 [unfolded no_settings_def, simplified]
  note pos = int_ok_pos [OF S(1)] int_ok_pos [OF S(2)] int_ok_pos [OF S(3)] int_ok_pos [OF S(4)] int_ok_pos [OF S(5)] int_ok_pos [OF S(6)] int_ok_pos [OF S(7)]
  define e1 where "e1 = d0\<lparr>junk_count := junk_count d\<rparr>"
  define e2 where "e2 = e1\<lparr>junk_min := junk_min d\<rparr>"
  define e3 where "e3 = e2\<lparr>junk_max := junk_max d\<rparr>"
  define e4 where "e4 = e3\<lparr>paddings_init := paddings_init d\<rparr>"
  define e5 where "e5 = e4\<lparr>paddings_response := paddings_response d\<rparr>"
  define e6 where "e6 = e5\<lparr>paddings_cookie := paddings_cookie d\<rparr>"
  define e7 where "e7 = e6\<lparr>paddings_transport := paddings_transport d\<rparr>"
  note e = e1_def e2_def e3_def e4_def e5_def e6_def e7_def
  let ?run = "\<lambda>ls e. set_lines C N False ls True sp e"
  have z: "d0\<lparr>junk_count := 0\<rparr> = d0" "e1\<lparr>junk_min := 0\<rparr> = e1" "e2\<lparr>junk_max := 0\<rparr> = e2" "e3\<lparr>paddings_init := 0\<rparr> = e3"
    "e4\<lparr>paddings_response := 0\<rparr> = e4" "e5\<lparr>paddings_cookie := 0\<rparr> = e5" "e6\<lparr>paddings_transport := 0\<rparr> = e6"
    using Z by (simp_all add: e)
  have 1: "?run (unless (junk_count d = 0) (setting ''jc'' (Itoa (junk_count d))) @ ls) d0 = ?run ls e1" for ls
    by (rule set_int_line [OF device_lines(10) S(1) pos(1) e1_def z(1)]) simp_all
  have 2: "?run (unless (junk_min d = 0) (setting ''jmin'' (Itoa (junk_min d))) @ ls) e1 = ?run ls e2" for ls
    by (rule set_int_line [OF device_lines(11) S(2) pos(3) e2_def z(2)]) simp_all
  have 3: "?run (unless (junk_max d = 0) (setting ''jmax'' (Itoa (junk_max d))) @ ls) e2 = ?run ls e3" for ls
    by (rule set_int_line [OF device_lines(12) S(3) pos(5) e3_def z(3)]) simp_all
  have 4: "?run (unless (paddings_init d = 0) (setting ''s1'' (Itoa (paddings_init d))) @ ls) e3 = ?run ls e4" for ls
    by (rule set_int_line [OF device_lines(13) S(4) pos(8) e4_def z(4)]) simp_all
  have 5: "?run (unless (paddings_response d = 0) (setting ''s2'' (Itoa (paddings_response d))) @ ls) e4 = ?run ls e5" for ls
    by (rule set_int_line [OF device_lines(14) S(5) pos(10) e5_def z(5)]) simp_all
  have 6: "?run (unless (paddings_cookie d = 0) (setting ''s3'' (Itoa (paddings_cookie d))) @ ls) e5 = ?run ls e6" for ls
    by (rule set_int_line [OF device_lines(15) S(6) pos(12) e6_def z(6)]) simp_all
  have 7: "?run (unless (paddings_transport d = 0) (setting ''s4'' (Itoa (paddings_transport d))) @ ls) e6 = ?run ls e7" for ls
    by (rule set_int_line [OF device_lines(16) S(7) pos(14) e7_def z(7)]) simp_all
  define h1 where "h1 = set_headers_init (headers_init d) e7"
  define h2 where "h2 = set_headers_response (headers_response d) h1"
  define h3 where "h3 = set_headers_cookie (headers_cookie d) h2"
  define h4 where "h4 = set_headers_transport (headers_transport d) h3"
  have h: "?run (setting ''h1'' (GenSpec (headers_init d)) # ls) e7 = ?run ls h1" "?run (setting ''h2'' (GenSpec (headers_response d)) # ls) h1 = ?run ls h2"
    "?run (setting ''h3'' (GenSpec (headers_cookie d)) # ls) h2 = ?run ls h3" "?run (setting ''h4'' (GenSpec (headers_transport d)) # ls) h3 = ?run ls h4" for ls
    unfolding h1_def h2_def h3_def h4_def
    by (rule set_header_line [OF device_lines(6) S(8)] set_header_line [OF device_lines(7) S(9)] set_header_line [OF device_lines(8) S(10)]
        set_header_line [OF device_lines(9) S(11)]; simp)+
  note set_headers = set_headers_init_def set_headers_response_def set_headers_cookie_def set_headers_transport_def
  have i: "ipackets h4 = replicate 5 None" using Z by (simp add: h1_def h2_def h3_def h4_def set_headers e)
  have c: "h4\<lparr>ipackets := ipackets d\<rparr> = copy_settings d d0" by (simp add: h1_def h2_def h3_def h4_def set_headers e copy_settings_def)
  show ?thesis
    unfolding setting_lines_def append_assoc 1 2 3 4 5 6 7 h set_chain_lines [OF S(13,14) i] c ..
qed

section \<open>The lines are plain\<close>

lemma newline_code: "newline = CHR 0x0A" "char_of (10 :: nat) = CHR 0x0A" "char_of (13 :: nat) = CHR 0x0D"
  by (code_simp)+

lemma length_show_nat: "n < 10 ^ k \<Longrightarrow> 0 < k \<Longrightarrow> length (show_nat n) \<le> k"
proof (induction k arbitrary: n)
  case (Suc k)
  show ?case
  proof (cases "n < 10")
    case True
    then show ?thesis by (subst show_nat.simps) simp
  next
    case False
    then have "0 < k" using Suc.prems(1) by (cases k) auto
    moreover have "n div 10 < 10 ^ k" using Suc.prems(1) by (simp add: less_mult_imp_div_less mult.commute)
    ultimately have "length (show_nat (n div 10)) \<le> k" using Suc.IH by blast
    then show ?thesis using False by (subst show_nat.simps) simp
  qed
qed simp

definition number_text :: "string \<Rightarrow> bool" where
  "number_text v \<longleftrightarrow> v \<noteq> [] \<and> length v < 100 \<and> (\<forall>c \<in> set v. (of_char c :: nat) \<in> insert 45 {48..57})"

lemma number_Itoa: "int_ok i \<Longrightarrow> number_text (Itoa i)"
proof -
  assume i: "int_ok i"
  then have "nat i < 2 ^ 63" by (simp add: int_ok_def nat_less_iff)
  also have "(2 :: nat) ^ 63 < 10 ^ 20" by simp
  finally have "length (show_nat (nat i)) \<le> 20" by (intro length_show_nat) simp_all
  then show ?thesis using i set_show_nat by (fastforce simp: number_text_def Itoa_def int_ok_def)
qed

lemma number_GenSpec: "number_text (GenSpec h)"
proof -
  have l: "length (show_nat (unat w)) \<le> 20" for w :: u32
  proof (rule length_show_nat)
    have "unat w < 2 ^ 32" using unat_u32_less [of w] by simp
    also have "(2 :: nat) ^ 32 < 10 ^ 20" by simp
    finally show "unat w < 10 ^ 20" .
  qed simp
  show ?thesis using l [of "mh_start h"] l [of "mh_end h"] set_show_nat by (fastforce simp: number_text_def GenSpec_def)
qed

lemma plain_number:
  assumes "number_text v" "newline \<notin> set k" "length k < 100"
  shows "plain_line (setting k v)"
proof -
  have "last v \<in> set v" using assms(1) by (simp add: number_text_def)
  then have "(of_char (last v) :: nat) \<in> insert 45 {48..57}" using assms(1) by (simp add: number_text_def)
  then have "last v \<noteq> char_of (13 :: nat)" by auto
  then have "last v \<noteq> CHR 0x0D" by (simp add: newline_code)
  moreover have "newline \<notin> set v" using assms(1) by (auto simp: number_text_def newline_def)
  ultimately show ?thesis using assms by (simp add: plain_line_def setting_def number_text_def newline_code MaxScanTokenSize_def)
qed

lemma plain_chain:
  assumes "plain_line (setting ''i0'' v)" "i < 5"
  shows "plain_line (setting (''i'' @ show_nat (i + 1)) v)"
proof -
  have "i = 0 \<or> i = 1 \<or> i = 2 \<or> i = 3 \<or> i = 4" using assms(2) by auto
  then obtain c where c: "show_nat (i + 1) = [c]" "c \<noteq> newline"
    by (elim disjE) (auto simp: chain_digits newline_code)
  then show ?thesis using assms(1) by (auto simp: plain_line_def setting_def newline_def)
qed

lemma plain_settings:
  assumes "settings_ok d"
  shows "\<forall>l \<in> set (setting_lines d). plain_line l"
proof -
  note S = settings_okD [OF assms]
  have c: "\<forall>l \<in> set (chain_lines (ipackets d)). plain_line l"
  proof
    fix l assume "l \<in> set (chain_lines (ipackets d))"
    then obtain i where i: "i < 5" "l \<in> set (chain_item i (ipackets d ! i))"
      using S(13) by (auto simp: chain_lines_def in_set_enumerate_eq)
    then show "plain_line l"
      using S(13,14) plain_chain [OF _ i(1)] by (force simp: chain_item_def chain_ok_def split: option.splits)
  qed
  show ?thesis
    unfolding setting_lines_def using c S(1-7)
    by (auto dest!: set_unless intro!: plain_number number_GenSpec number_Itoa simp: newline_code)
qed

lemma finish_settings:
  assumes "settings_ok d"
  shows "set_lines C N False [] b new_ipcSetPeer (copy_settings d d0) = Some (None, copy_settings d d0)"
  using settings_okD(12) [OF assms]
  by (simp add: finish_set_def mergeWithDevice_def new_ipcSetDevice_def or_else_def copy_settings_def handlePostConfig_def new_ipcSetPeer_def ipc_ok_def)

section \<open>Properties\<close>

text \<open>C24. What a get operation prints of a device without key, port, mark and peers is, given to a set operation of a device
  that has no settings yet, a text that makes its settings those of the first: the junk, the paddings, the headers
  and the signature packets.\<close>

theorem ipc_settings_roundtrip:
  assumes "settings_ok d" "isZero (privateKey d)" "net_port d = 0" "net_fwmark d = 0" "keyMap d = []" and "no_settings d0"
  shows "IpcSet C N (IpcGet N d) d0 = Some (None, copy_settings d d0)"
  unfolding IpcSet_def get_settings [OF assms(2-5)] scan_text [OF plain_settings [OF assms(1)]]
  by (simp add: set_settings [OF assms(1,6)] finish_settings [OF assms(1)] del: set_lines.simps)

definition example_chain :: obfChain where
  "example_chain = \<lparr>chainSpec = ''<r 5>'', obfs = [RandObf 5]\<rparr>"

definition example_device :: Device where
  "example_device = zero_Device\<lparr>junk_count := 4, junk_min := 40, junk_max := 70, paddings_init := 15,
     headers_init := \<lparr>mh_start = 100, mh_end = 200\<rparr>, ipackets := [Some example_chain, None, None, None, None]\<rparr>"

lemma example_parses: "newObfChain ''<r 5>'' = Inr example_chain"
  by (simp add: example_chain_def newObfChain_def parse_loop.simps go_slice_def parse_tag_def Fields_def is_space_def obfBuilders_def newRandObf_def Atoi_def digit_of_def)

lemma example_settings_ok: "settings_ok example_device"
proof -
  have p: "plain_line (setting ''i0'' ''<r 5>'')" by (simp add: plain_line_def setting_def newline_code MaxScanTokenSize_def)
  show ?thesis
    using p by (simp add: settings_ok_def example_device_def zero_Device_def int_ok_def header_for_def overlaps_def chain_ok_def example_parses)
       (simp add: example_chain_def example_parses [unfolded example_chain_def])
qed

lemma zero_no_settings: "no_settings zero_Device"
  by (simp add: no_settings_def zero_Device_def numeral_eq_Suc)

theorem ipc_settings_roundtrip_witness:
  "IpcSet toy_crypto some_net (IpcGet some_net example_device) zero_Device = Some (None, copy_settings example_device zero_Device)"
proof (rule ipc_settings_roundtrip)
  show "settings_ok example_device" by (rule example_settings_ok)
  show "no_settings zero_Device" by (rule zero_no_settings)
qed (simp_all add: example_device_def zero_Device_def isZero_iff zero32_def)



end
