(* ===== verification/Netstack.thy ===== *)
theory Netstack
  imports Netip "HOL-Library.Monad_Syntax"
begin

text \<open>
  \<open>tun/netstack/tun.go\<close>: the resolver and the dialer of the user space network, and the packets that go in and out of
  it. The stack itself is gVisor and the format of DNS messages is \<open>dnsmessage\<close>, neither of them in the
  repository: their operations are the fields of the records \<open>dnsmessage\<close> and \<open>netConn\<close>, and a function gives the
  outcome of each attempt to connect. Time is the number of nanoseconds since the zero time.
\<close>

section \<open>Names\<close>

fun domain_loop :: "string \<Rightarrow> char \<Rightarrow> bool \<Rightarrow> nat \<Rightarrow> (char \<times> bool \<times> nat) option" where
  "domain_loop [] prev nonNumeric partlen = Some (prev, nonNumeric, partlen)"
| "domain_loop (c # s) prev nonNumeric partlen =
     (let n = of_char c :: nat in
      if 97 \<le> n \<and> n \<le> 122 \<or> 65 \<le> n \<and> n \<le> 90 \<or> c = CHR ''_'' then domain_loop s c True (partlen + 1)
      else if 48 \<le> n \<and> n \<le> 57 then domain_loop s c nonNumeric (partlen + 1)
      else if c = CHR ''-'' then
        if prev = CHR ''.'' then None else domain_loop s c True (partlen + 1)
      else if c = CHR ''.'' then
        if prev = CHR ''.'' \<or> prev = CHR ''-'' then None
        else if 63 < partlen \<or> partlen = 0 then None
        else domain_loop s c nonNumeric 0
      else None)"

definition isDomainName :: "string \<Rightarrow> bool" where
  "isDomainName s =
     (let l = length s in
      if l = 0 \<or> 254 < l \<or> l = 254 \<and> s ! (l - 1) \<noteq> CHR ''.'' then False
      else case domain_loop s (CHR ''.'') False 0 of
             None \<Rightarrow> False
           | Some (prev, nonNumeric, partlen) \<Rightarrow> if prev = CHR ''-'' \<or> 63 < partlen then False else nonNumeric)"

definition lower_ascii :: "byte \<Rightarrow> byte" where
  "lower_ascii a = (if 65 \<le> a \<and> a \<le> 90 then a + 0x20 else a)"

fun equal_names :: "bytes \<Rightarrow> bytes \<Rightarrow> bool" where
  "equal_names (a # x) (b # y) = (if lower_ascii a \<noteq> lower_ascii b then False else equal_names x y)"
| "equal_names _ _ = True"

definition equalASCIIName :: "bytes \<Rightarrow> bytes \<Rightarrow> bool" where
  "equalASCIIName x y = (if length x \<noteq> length y then False else equal_names x y)"

section \<open>Messages\<close>

record dnsHeader =
  dh_ID :: u16
  dh_Response :: bool
  dh_Truncated :: bool
  dh_Authoritative :: bool
  dh_RecursionAvailable :: bool
  dh_RCode :: u16

record dnsQuestion =
  dq_Name :: bytes
  dq_Type :: u16
  dq_Class :: u16

definition TypeA :: u16 where "TypeA = 1"
definition TypeAAAA :: u16 where "TypeAAAA = 28"
definition ClassINET :: u16 where "ClassINET = 1"
definition RCodeSuccess :: u16 where "RCodeSuccess = 0"
definition RCodeServerFailure :: u16 where "RCodeServerFailure = 2"
definition RCodeNameError :: u16 where "RCodeNameError = 3"

datatype section_error = ErrSectionDone | ErrParse

text \<open>The package \<open>dnsmessage\<close>. A parser is changed by its operations; the type \<open>'p\<close> stands for its state. The
  builder's message does not include the two bytes the code reserves in front of it.\<close>

record 'p dnsmessage =
  dm_request :: "u16 \<Rightarrow> dnsQuestion \<Rightarrow> bytes option"
  dm_zero :: 'p
  dm_Start :: "bytes \<Rightarrow> ('p \<times> dnsHeader) option"
  dm_Question :: "'p \<Rightarrow> (dnsQuestion \<times> 'p) option"
  dm_SkipQuestion :: "'p \<Rightarrow> section_error option \<times> 'p"
  dm_AnswerHeader :: "'p \<Rightarrow> (section_error + u16) \<times> 'p"
  dm_SkipAnswer :: "'p \<Rightarrow> section_error option \<times> 'p"
  dm_AResource :: "'p \<Rightarrow> bytes option \<times> 'p"
  dm_AAAAResource :: "'p \<Rightarrow> bytes option \<times> 'p"
  dm_NewName :: "string \<Rightarrow> bytes option"

datatype net_error = Ctx_Canceled | Ctx_DeadlineExceeded | Net_Error (is_op: bool) (has_timeout: bool)

datatype lookup_error = errNoSuchHost | errLameReferral | errCannotUnmarshalDNSMessage | errCannotMarshalDNSMessage
  | errServerMisbehaving | errInvalidDNSResponse | errNoAnswerFromDNSServer | errServerTemporarilyMisbehaving
  | errCanceled | errTimeout | errNumericPort | errNoSuitableAddress | errMissingAddress | Conn_Error net_error

text \<open>A connection: whether setting the deadline and writing fail, what is read after a request has been written, as
  packets and as a stream, and the error that reading ends with.\<close>

record netConn =
  cn_deadline :: "net_error option"
  cn_write :: "net_error option"
  cn_packets :: "bytes \<Rightarrow> bytes list"
  cn_stream :: "bytes \<Rightarrow> bytes"
  cn_err :: net_error

text \<open>The outcome of the attempt number \<open>n\<close> to connect, over UDP or TCP, to a server.\<close>

type_synonym dialer = "nat \<Rightarrow> bool \<Rightarrow> bytes \<Rightarrow> net_error + netConn"

definition randU16 :: "rng \<Rightarrow> u16 \<times> rng" where
  "randU16 r = (let (b, r) = rand_read 2 r in (word_of_nat (le_nat b), r))"

text \<open>The same message for UDP and, with its length in front, for TCP.\<close>

definition newRequest :: "'p dnsmessage \<Rightarrow> dnsQuestion \<Rightarrow> rng \<Rightarrow> (u16 \<times> bytes \<times> bytes) option \<times> rng" where
  "newRequest D q r =
     (let (ident, r) = randU16 r in
      case dm_request D ident q of
        None \<Rightarrow> (None, r)
      | Some msg \<Rightarrow> (let l = length msg in (Some (ident, msg, word_of_nat (l div 256) # word_of_nat l # msg), r)))"

definition checkResponse :: "u16 \<Rightarrow> dnsQuestion \<Rightarrow> dnsHeader \<Rightarrow> dnsQuestion \<Rightarrow> bool" where
  "checkResponse reqID reqQues respHdr respQues =
     (if \<not> dh_Response respHdr then False
      else if reqID \<noteq> dh_ID respHdr then False
      else if dq_Type reqQues \<noteq> dq_Type respQues \<or> dq_Class reqQues \<noteq> dq_Class respQues
        \<or> \<not> equalASCIIName (dq_Name reqQues) (dq_Name respQues) then False
      else True)"

type_synonym 'p response = "lookup_error + 'p \<times> dnsHeader"

fun packet_loop :: "'p dnsmessage \<Rightarrow> u16 \<Rightarrow> dnsQuestion \<Rightarrow> net_error \<Rightarrow> bytes list \<Rightarrow> 'p response" where
  "packet_loop D ident query e [] = Inl (Conn_Error e)"
| "packet_loop D ident query e (b # bs) =
     (case dm_Start D (take 512 b) of
        None \<Rightarrow> packet_loop D ident query e bs
      | Some (p, h) \<Rightarrow>
          (case dm_Question D p of
             None \<Rightarrow> packet_loop D ident query e bs
           | Some (q, p) \<Rightarrow> if \<not> checkResponse ident query h q then packet_loop D ident query e bs else Inr (p, h)))"

definition dnsPacketRoundTrip :: "'p dnsmessage \<Rightarrow> netConn \<Rightarrow> u16 \<Rightarrow> dnsQuestion \<Rightarrow> bytes \<Rightarrow> 'p response" where
  "dnsPacketRoundTrip D c ident query b =
     (case cn_write c of
        Some e \<Rightarrow> Inl (Conn_Error e)
      | None \<Rightarrow> packet_loop D ident query (cn_err c) (cn_packets c b))"

definition dnsStreamRoundTrip :: "'p dnsmessage \<Rightarrow> netConn \<Rightarrow> u16 \<Rightarrow> dnsQuestion \<Rightarrow> bytes \<Rightarrow> 'p response" where
  "dnsStreamRoundTrip D c ident query b =
     (case cn_write c of
        Some e \<Rightarrow> Inl (Conn_Error e)
      | None \<Rightarrow>
          let s = cn_stream c b in
          if length s < 2 then Inl (Conn_Error (cn_err c))
          else
            let l = unat (s ! 0) * 256 + unat (s ! 1) in
            if length s < 2 + l then Inl (Conn_Error (cn_err c))
            else case dm_Start D (go_slice 2 (2 + l) s) of
              None \<Rightarrow> Inl errCannotUnmarshalDNSMessage
            | Some (p, h) \<Rightarrow>
                (case dm_Question D p of
                   None \<Rightarrow> Inl errCannotUnmarshalDNSMessage
                 | Some (q, p) \<Rightarrow> if \<not> checkResponse ident query h q then Inl errInvalidDNSResponse else Inr (p, h)))"

definition ctx_error :: "lookup_error \<Rightarrow> lookup_error" where
  "ctx_error e = (if e = Conn_Error Ctx_Canceled then errCanceled else if e = Conn_Error Ctx_DeadlineExceeded then errTimeout else e)"

text \<open>One of the two attempts, first over UDP: \<open>None\<close> when the answer is truncated and the next one is made.\<close>

definition exchange_once ::
  "'p dnsmessage \<Rightarrow> net_error + netConn \<Rightarrow> bool \<Rightarrow> u16 \<Rightarrow> dnsQuestion \<Rightarrow> bytes \<Rightarrow> bytes \<Rightarrow> 'p response option" where
  "exchange_once D dialed useUDP ident q udpReq tcpReq =
     (case dialed of
        Inl e \<Rightarrow> Some (Inl (Conn_Error e))
      | Inr c \<Rightarrow>
          (case cn_deadline c of
             Some e \<Rightarrow> Some (Inl (Conn_Error e))
           | None \<Rightarrow>
               (case (if useUDP then dnsPacketRoundTrip D c ident q udpReq else dnsStreamRoundTrip D c ident q tcpReq) of
                  Inl e \<Rightarrow> Some (Inl (ctx_error e))
                | Inr (p, h) \<Rightarrow>
                    let (err, p) = dm_SkipQuestion D p in
                    if err \<noteq> Some ErrSectionDone then Some (Inl errInvalidDNSResponse)
                    else if dh_Truncated h then None
                    else Some (Inr (p, h)))))"

definition exchange ::
  "'p dnsmessage \<Rightarrow> dialer \<Rightarrow> bytes \<Rightarrow> dnsQuestion \<Rightarrow> nat \<times> rng \<Rightarrow> 'p response \<times> nat \<times> rng" where
  "exchange D dial server q st =
     (let (n, r) = st; q = q\<lparr>dq_Class := ClassINET\<rparr>; (req, r) = newRequest D q r in
      case req of
        None \<Rightarrow> (Inl errCannotMarshalDNSMessage, n, r)
      | Some (ident, udpReq, tcpReq) \<Rightarrow>
          (case exchange_once D (dial n True server) True ident q udpReq tcpReq of
             Some res \<Rightarrow> (res, Suc n, r)
           | None \<Rightarrow>
               (case exchange_once D (dial (Suc n) False server) False ident q udpReq tcpReq of
                  Some res \<Rightarrow> (res, Suc (Suc n), r)
                | None \<Rightarrow> (Inl errNoAnswerFromDNSServer, Suc (Suc n), r))))"

definition checkHeader :: "'p dnsmessage \<Rightarrow> 'p \<Rightarrow> dnsHeader \<Rightarrow> lookup_error option \<times> 'p" where
  "checkHeader D p h =
     (if dh_RCode h = RCodeNameError then (Some errNoSuchHost, p)
      else
        let (res, p) = dm_AnswerHeader D p in
        if res = Inl ErrParse then (Some errCannotUnmarshalDNSMessage, p)
        else if dh_RCode h = RCodeSuccess \<and> \<not> dh_Authoritative h \<and> \<not> dh_RecursionAvailable h \<and> res = Inl ErrSectionDone then
          (Some errLameReferral, p)
        else if dh_RCode h \<noteq> RCodeSuccess \<and> dh_RCode h \<noteq> RCodeNameError then
          (Some (if dh_RCode h = RCodeServerFailure then errServerTemporarilyMisbehaving else errServerMisbehaving), p)
        else (None, p))"

text \<open>The loop ends when the parser does; \<open>None\<close> if it never does.\<close>

partial_function (option) skipToAnswer :: "'p dnsmessage \<Rightarrow> u16 \<Rightarrow> 'p \<Rightarrow> (lookup_error option \<times> 'p) option" where
  [code]: "skipToAnswer D qtype p =
     (case dm_AnswerHeader D p of
        (Inl ErrSectionDone, p) \<Rightarrow> Some (Some errNoSuchHost, p)
      | (Inl ErrParse, p) \<Rightarrow> Some (Some errCannotUnmarshalDNSMessage, p)
      | (Inr type, p) \<Rightarrow>
          if type = qtype then Some (None, p)
          else case dm_SkipAnswer D p of
            (Some _, p) \<Rightarrow> Some (Some errCannotUnmarshalDNSMessage, p)
          | (None, p) \<Rightarrow> skipToAnswer D qtype p)"

section \<open>One name\<close>

record dnsError =
  de_Err :: lookup_error
  de_Name :: string
  de_Server :: string
  de_IsTimeout :: bool
  de_IsTemporary :: bool
  de_IsNotFound :: bool

definition new_dnsError :: "lookup_error \<Rightarrow> string \<Rightarrow> string \<Rightarrow> dnsError" where
  "new_dnsError e name server =
     \<lparr>de_Err = e, de_Name = name, de_Server = server, de_IsTimeout = False, de_IsTemporary = False, de_IsNotFound = False\<rparr>"

datatype lookup_failure = Plain_Error lookup_error | DNS_Error dnsError

definition exchange_error :: "lookup_error \<Rightarrow> string \<Rightarrow> string \<Rightarrow> dnsError" where
  "exchange_error e name server =
     (let timeout = (case e of Conn_Error Ctx_DeadlineExceeded \<Rightarrow> True | Conn_Error (Net_Error op t) \<Rightarrow> t | _ \<Rightarrow> False);
          op = (case e of Conn_Error (Net_Error op t) \<Rightarrow> op | _ \<Rightarrow> False)
      in (new_dnsError e name server)\<lparr>de_IsTimeout := timeout, de_IsTemporary := op\<rparr>)"

type_synonym 'p lane = "'p \<times> string \<times> lookup_failure option"

fun try_servers ::
  "'p dnsmessage \<Rightarrow> dialer \<Rightarrow> string \<Rightarrow> dnsQuestion \<Rightarrow> u16 \<Rightarrow> bytes list \<Rightarrow> dnsError option \<Rightarrow> nat \<times> rng
    \<Rightarrow> ('p lane \<times> nat \<times> rng) option" where
  "try_servers D dial name q qtype [] lastErr st = Some ((dm_zero D, [], map_option DNS_Error lastErr), st)"
| "try_servers D dial name q qtype (server # servers) lastErr st =
     (let server_name = addr_String server; (res, st) = exchange D dial server q st in
      case res of
        Inl e \<Rightarrow> try_servers D dial name q qtype servers (Some (exchange_error e name server_name)) st
      | Inr (p, h) \<Rightarrow>
          (case checkHeader D p h of
             (Some e, p) \<Rightarrow>
               let err = (new_dnsError e name server_name)\<lparr>de_IsTemporary := (e = errServerTemporarilyMisbehaving), de_IsNotFound := (e = errNoSuchHost)\<rparr>
               in if e = errNoSuchHost then Some ((p, server_name, Some (DNS_Error err)), st)
                  else try_servers D dial name q qtype servers (Some err) st
           | (None, p) \<Rightarrow>
               (case skipToAnswer D qtype p of
                  None \<Rightarrow> None
                | Some (None, p) \<Rightarrow> Some ((p, server_name, None), st)
                | Some (Some e, p) \<Rightarrow>
                    let err = (new_dnsError e name server_name)\<lparr>de_IsNotFound := (e = errNoSuchHost)\<rparr>
                    in if e = errNoSuchHost then Some ((p, server_name, Some (DNS_Error err)), st)
                       else try_servers D dial name q qtype servers (Some err) st)))"

text \<open>Every server is asked in two rounds.\<close>

definition tryOneName ::
  "'p dnsmessage \<Rightarrow> dialer \<Rightarrow> bytes list \<Rightarrow> string \<Rightarrow> u16 \<Rightarrow> nat \<times> rng \<Rightarrow> ('p lane \<times> nat \<times> rng) option" where
  "tryOneName D dial dnsServers name qtype st =
     (case dm_NewName D name of
        None \<Rightarrow> Some ((dm_zero D, [], Some (Plain_Error errCannotMarshalDNSMessage)), st)
      | Some n \<Rightarrow>
          let q = \<lparr>dq_Name = n, dq_Type = qtype, dq_Class = ClassINET\<rparr>
          in try_servers D dial name q qtype (dnsServers @ dnsServers) None st)"

section \<open>A host\<close>

record netTun =
  nt_dnsServers :: "bytes list"
  nt_hasV4 :: bool
  nt_hasV6 :: bool
  nt_mtu :: int

text \<open>The addresses in the answers of a lane, IPv4 and IPv6, and the last error.\<close>

partial_function (option) collect_answers ::
  "'p dnsmessage \<Rightarrow> string \<Rightarrow> string \<Rightarrow> 'p \<Rightarrow> bytes list \<Rightarrow> bytes list \<Rightarrow> lookup_failure option
    \<Rightarrow> (bytes list \<times> bytes list \<times> lookup_failure option) option" where
  [code]: "collect_answers D host server p addrsV4 addrsV6 lastErr =
     (let bad = Some (DNS_Error (new_dnsError errCannotMarshalDNSMessage host server)) in
      case dm_AnswerHeader D p of
        (Inl ErrSectionDone, p) \<Rightarrow> Some (addrsV4, addrsV6, lastErr)
      | (Inl ErrParse, p) \<Rightarrow> Some (addrsV4, addrsV6, bad)
      | (Inr type, p) \<Rightarrow>
          if type = TypeA then
            (case dm_AResource D p of
               (None, p) \<Rightarrow> Some (addrsV4, addrsV6, bad)
             | (Some a, p) \<Rightarrow> collect_answers D host server p (addrsV4 @ [a]) addrsV6 lastErr)
          else if type = TypeAAAA then
            (case dm_AAAAResource D p of
               (None, p) \<Rightarrow> Some (addrsV4, addrsV6, bad)
             | (Some a, p) \<Rightarrow> collect_answers D host server p addrsV4 (addrsV6 @ [a]) lastErr)
          else
            (case dm_SkipAnswer D p of
               (Some _, p) \<Rightarrow> Some (addrsV4, addrsV6, bad)
             | (None, p) \<Rightarrow> collect_answers D host server p addrsV4 addrsV6 lastErr))"

fun collect_lanes ::
  "'p dnsmessage \<Rightarrow> string \<Rightarrow> 'p lane list \<Rightarrow> bytes list \<Rightarrow> bytes list \<Rightarrow> lookup_failure option
    \<Rightarrow> (bytes list \<times> bytes list \<times> lookup_failure option) option" where
  "collect_lanes D host [] addrsV4 addrsV6 lastErr = Some (addrsV4, addrsV6, lastErr)"
| "collect_lanes D host ((p, server, err) # lanes) addrsV4 addrsV6 lastErr =
     (case err of
        Some e \<Rightarrow> collect_lanes D host lanes addrsV4 addrsV6 (if lastErr = None then Some e else lastErr)
      | None \<Rightarrow>
          (case collect_answers D host server p addrsV4 addrsV6 lastErr of
             None \<Rightarrow> None
           | Some (addrsV4, addrsV6, lastErr) \<Rightarrow> collect_lanes D host lanes addrsV4 addrsV6 lastErr))"

text \<open>The zone of an address is not part of what is parsed.\<close>

definition without_zone :: "string \<Rightarrow> string" where
  "without_zone host =
     (if CHR '':'' \<in> set host then (case LastCut host (CHR ''%'') of None \<Rightarrow> host | Some (a, _) \<Rightarrow> a) else host)"

text \<open>Both lanes run at the same time, each with connections and random numbers of its own; \<open>v6_first\<close> says in which
  order they end.\<close>

definition run_lane ::
  "'p dnsmessage \<Rightarrow> dialer \<Rightarrow> bytes list \<Rightarrow> string \<Rightarrow> u16 \<Rightarrow> rng \<Rightarrow> 'p lane option" where
  "run_lane D dial servers host qtype r = map_option fst (tryOneName D dial servers (host @ ''.'') qtype (0, r))"

definition LookupContextHost ::
  "'p dnsmessage \<Rightarrow> dialer \<Rightarrow> dialer \<Rightarrow> rng \<Rightarrow> rng \<Rightarrow> bool \<Rightarrow> netTun \<Rightarrow> string \<Rightarrow> (lookup_failure + string list) option" where
  "LookupContextHost D dial4 dial6 r4 r6 v6_first tnet host =
     (let notFound = Some (Inl (DNS_Error ((new_dnsError errNoSuchHost host [])\<lparr>de_IsNotFound := True\<rparr>))) in
      if host = [] \<or> \<not> nt_hasV6 tnet \<and> \<not> nt_hasV4 tnet then notFound
      else case ParseAddr (without_zone host) of
        Some (ip, zoned) \<Rightarrow> Some (Inr [addr_String ip @ (if zoned then dropWhile (\<lambda>c. c \<noteq> CHR ''%'') (without_zone host) else [])])
      | None \<Rightarrow>
          if \<not> isDomainName host then notFound
          else do {
            lanes4 \<leftarrow> (if nt_hasV4 tnet then map_option (\<lambda>l. [l]) (run_lane D dial4 (nt_dnsServers tnet) host TypeA r4) else Some []);
            lanes6 \<leftarrow> (if nt_hasV6 tnet then map_option (\<lambda>l. [l]) (run_lane D dial6 (nt_dnsServers tnet) host TypeAAAA r6) else Some []);
            (addrsV4, addrsV6, lastErr) \<leftarrow>
              collect_lanes D host (if v6_first then lanes6 @ lanes4 else lanes4 @ lanes6) [] [] None;
            let addrs = (if nt_hasV6 tnet then addrsV6 @ addrsV4 else addrsV4 @ addrsV6);
            (case lastErr of
               Some e \<Rightarrow> if addrs = [] then Some (Inl e) else Some (Inr (map addr_String addrs))
             | None \<Rightarrow> Some (Inr (map addr_String addrs)))
          })"

section \<open>Dialling\<close>

text \<open>An address is 4 or 16 bytes; none is the zero value, which is not valid.\<close>

record fullAddress =
  fa_NIC :: nat
  fa_Addr :: bytes
  fa_Port :: u16

definition convertToFullAddr :: "bytes \<times> u16 \<Rightarrow> fullAddress \<times> bool" where
  "convertToFullAddr endpoint = (\<lparr>fa_NIC = 1, fa_Addr = fst endpoint, fa_Port = snd endpoint\<rparr>, length (fst endpoint) = 4)"

text \<open>The addresses that a UDP socket is bound and connected to, and whether it is one of IPv4: the last that was set.\<close>

definition DialUDPAddrPort :: "bytes \<times> u16 \<Rightarrow> bytes \<times> u16 \<Rightarrow> fullAddress option \<times> fullAddress option \<times> bool option" where
  "DialUDPAddrPort laddr raddr =
     (let is_set = (\<lambda>a. fst a \<noteq> [] \<or> 0 < snd a);
          conv = (\<lambda>a. if is_set a then Some (fst (convertToFullAddr a)) else None);
          pn = (if is_set raddr then Some (snd (convertToFullAddr raddr))
                else if is_set laddr then Some (snd (convertToFullAddr laddr)) else None)
      in (conv laddr, conv raddr, pn))"

text \<open>\<open>net.SplitHostPort\<close>.\<close>

definition SplitHostPort :: "string \<Rightarrow> (string \<times> string) option" where
  "SplitHostPort hostport =
     (case LastCut hostport (CHR '':'') of
        None \<Rightarrow> None
      | Some (before, port) \<Rightarrow>
          if hd hostport = CHR ''['' then
            (case IndexByte hostport (CHR '']'') of
               None \<Rightarrow> None
             | Some e \<Rightarrow>
                 if e + 1 \<noteq> length before then None
                 else if CHR ''['' \<in> set (drop 1 hostport) \<or> CHR '']'' \<in> set (drop (e + 1) hostport) then None
                 else Some (go_slice 1 e hostport, port))
          else if CHR '':'' \<in> set before \<or> CHR ''['' \<in> set hostport \<or> CHR '']'' \<in> set hostport then None
          else Some (before, port))"

text \<open>\<open>^(tcp|udp|ping)(4|6)?$\<close>.\<close>

definition protoSplitter :: "string \<Rightarrow> (string \<times> string) option" where
  "protoSplitter network =
     find (\<lambda>(proto, family). network = proto @ family) [(p, f). p \<leftarrow> [''tcp'', ''udp'', ''ping''], f \<leftarrow> [[], ''4'', ''6'']]"

definition saneMinimum :: int where "saneMinimum = 2000000000"

definition partialDeadline :: "int \<Rightarrow> int \<Rightarrow> int \<Rightarrow> lookup_error + int" where
  "partialDeadline now deadline addrsRemaining =
     (if deadline = 0 then Inr deadline
      else
        let timeRemaining = deadline - now in
        if timeRemaining \<le> 0 then Inl errTimeout
        else
          let timeout = go_div timeRemaining addrsRemaining;
              timeout = (if timeout < saneMinimum then
                           (if timeRemaining < saneMinimum then timeRemaining else saneMinimum) else timeout)
          in Inr (now + timeout))"

datatype dial_error = Unknown_Network string | Bad_HostPort | Dial_Lookup lookup_failure | Dial_Error lookup_error

text \<open>The context of a call: its error and the time before the attempt number \<open>i\<close>, and its deadline; and the outcome of the
  attempts, given the deadline they run under.\<close>

record 'c dialing =
  dc_err :: "nat \<Rightarrow> net_error option"
  dc_now :: "nat \<Rightarrow> int"
  dc_deadline :: "int option"
  dc_dial :: "nat \<Rightarrow> string \<Rightarrow> bytes \<times> u16 \<Rightarrow> int option \<Rightarrow> net_error + 'c"

fun dial_loop :: "'c dialing \<Rightarrow> string \<Rightarrow> nat \<Rightarrow> (bytes \<times> u16) list \<Rightarrow> dial_error option \<Rightarrow> dial_error + 'c" where
  "dial_loop E proto i [] firstErr = Inl (case firstErr of None \<Rightarrow> Dial_Error errMissingAddress | Some e \<Rightarrow> e)"
| "dial_loop E proto i (addr # addrs) firstErr =
     (let or_first = (\<lambda>e. case firstErr of None \<Rightarrow> e | Some e' \<Rightarrow> e');
          attempt = (\<lambda>deadline. case dc_dial E i proto addr deadline of
             Inr c \<Rightarrow> Inr c
           | Inl e \<Rightarrow> dial_loop E proto (Suc i) addrs (Some (or_first (Dial_Error (Conn_Error e)))))
      in case dc_err E i of
           Some e \<Rightarrow> Inl (Dial_Error (ctx_error (Conn_Error e)))
         | None \<Rightarrow>
             (case dc_deadline E of
                None \<Rightarrow> attempt None
              | Some deadline \<Rightarrow>
                  (case partialDeadline (dc_now E i) deadline (int (length addrs) + 1) of
                     Inl e \<Rightarrow> Inl (or_first (Dial_Error e))
                   | Inr partial \<Rightarrow> attempt (Some (if partial < deadline then partial else deadline)))))"

text \<open>The addresses a name stands for that are of the family.\<close>

definition suitable :: "bool \<Rightarrow> bool \<Rightarrow> u16 \<Rightarrow> string list \<Rightarrow> (bytes \<times> u16) list" where
  "suitable acceptV4 acceptV6 port allAddr =
     concat (map (\<lambda>a. case ParseAddr a of
                        None \<Rightarrow> []
                      | Some (ip, zoned) \<Rightarrow>
                          if length ip = 4 \<and> acceptV4 \<or> length ip = 16 \<and> acceptV6 then [(ip, port)] else []) allAddr)"

definition split_address :: "string \<Rightarrow> string \<Rightarrow> dial_error + string \<times> u16" where
  "split_address proto address =
     (if proto = ''ping'' then Inr (address, 0)
      else case SplitHostPort address of
        None \<Rightarrow> Inl Bad_HostPort
      | Some (host, sport) \<Rightarrow>
          (case Atoi sport of
             None \<Rightarrow> Inl (Dial_Error errNumericPort)
           | Some port \<Rightarrow> if port < 0 \<or> 65535 < port then Inl (Dial_Error errNumericPort) else Inr (host, word_of_int port)))"

definition DialContext ::
  "'c dialing \<Rightarrow> (string \<Rightarrow> (lookup_failure + string list) option) \<Rightarrow> string \<Rightarrow> string \<Rightarrow> (dial_error + 'c) option" where
  "DialContext E lookup network address =
     (case protoSplitter network of
        None \<Rightarrow> Some (Inl (Unknown_Network network))
      | Some (proto, family) \<Rightarrow>
          let acceptV4 = (family \<noteq> ''6''); acceptV6 = (family \<noteq> ''4'') in
          case split_address proto address of
            Inl e \<Rightarrow> Some (Inl e)
          | Inr (host, port) \<Rightarrow> do {
              found \<leftarrow> lookup host;
              (case found of
                 Inl e \<Rightarrow> Some (Inl (Dial_Lookup e))
               | Inr allAddr \<Rightarrow>
                   let addrs = suitable acceptV4 acceptV6 port allAddr in
                   if addrs = [] \<and> allAddr \<noteq> [] then Some (Inl (Dial_Error errNoSuitableAddress))
                   else Some (dial_loop E proto 0 addrs None))
            })"

section \<open>Echo sockets\<close>

text \<open>The operations of an endpoint of the stack: whether they fail.\<close>

record pingStack =
  ps_new :: "bool \<Rightarrow> bool"
  ps_bind :: "fullAddress \<Rightarrow> bool"
  ps_connect :: "fullAddress \<Rightarrow> bool"
  ps_write :: "bytes \<Rightarrow> fullAddress \<Rightarrow> int \<times> bool"

record pingConn =
  pc_laddr :: bytes
  pc_raddr :: bytes

datatype ping_error = Ping_Invalid_Address | Ping_Endpoint | Ping_Bind | Ping_Connect | Ping_Mismatch | Ping_Write

definition DialPingAddr :: "pingStack \<Rightarrow> bytes \<Rightarrow> bytes \<Rightarrow> ping_error + pingConn" where
  "DialPingAddr S laddr raddr =
     (if laddr = [] \<and> raddr = [] then Inl Ping_Invalid_Address
      else
        let v6 = (length laddr = 16 \<or> length raddr = 16);
            bound = (laddr \<noteq> []);
            laddr = (if bound then laddr else replicate (if v6 then 16 else 4) 0)
        in if ps_new S v6 then Inl Ping_Endpoint
           else if bound \<and> ps_bind S (fst (convertToFullAddr (laddr, 0))) then Inl Ping_Bind
           else if raddr \<noteq> [] \<and> ps_connect S (fst (convertToFullAddr (raddr, 0))) then Inl Ping_Connect
           else Inr \<lparr>pc_laddr = laddr, pc_raddr = raddr\<rparr>)"

definition PingConn_WriteTo :: "pingStack \<Rightarrow> pingConn \<Rightarrow> bytes \<Rightarrow> bytes \<Rightarrow> int \<times> ping_error option" where
  "PingConn_WriteTo S pc p na =
     (if \<not> (length na = 4 \<and> length (pc_laddr pc) = 4 \<or> length na = 16 \<and> length (pc_laddr pc) = 16) then (0, Some Ping_Mismatch)
      else let (n, err) = ps_write S p (fst (convertToFullAddr (na, 0))) in (n, if err then Some Ping_Write else None))"

definition PingConn_Write :: "pingStack \<Rightarrow> pingConn \<Rightarrow> bytes \<Rightarrow> int \<times> ping_error option" where
  "PingConn_Write S pc p = PingConn_WriteTo S pc p (pc_raddr pc)"

section \<open>Packets\<close>

text \<open>The packets that are injected into the stack, with their version, and whether one of another version has ended the
  call; \<open>None\<close> is a slice beyond a buffer.\<close>

fun inject_loop :: "bytes list \<Rightarrow> nat \<Rightarrow> ((nat \<times> bytes) list \<times> bool) option" where
  "inject_loop [] offset = Some ([], False)"
| "inject_loop (b # bs) offset =
     (if length b < offset then None
      else
        let packet = drop offset b in
        if packet = [] then inject_loop bs offset
        else
          let version = unat (drop_bit 4 (packet ! 0)) in
          if version = 4 \<or> version = 6 then map_option (\<lambda>(inj, err). ((version, packet) # inj, err)) (inject_loop bs offset)
          else Some ([], True))"

definition netTun_Write :: "bytes list \<Rightarrow> nat \<Rightarrow> ((nat \<times> bytes) list \<times> nat \<times> bool) option" where
  "netTun_Write bufs offset = map_option (\<lambda>(inj, err). (inj, if err then 0 else length bufs, err)) (inject_loop bufs offset)"

end
