(* ===== verification/Netstack_Facts.thy ===== *)
theory Netstack_Facts
  imports Netstack
begin

text \<open>
  The user space network: which names are looked up, that looking up ends and what is believed of the answers, and which
  attempts the dialer makes.
\<close>

section \<open>Domain names\<close>

definition domain_char :: "char \<Rightarrow> bool" where
  "domain_char c =
     (let n = of_char c :: nat in
      97 \<le> n \<and> n \<le> 122 \<or> 65 \<le> n \<and> n \<le> 90 \<or> c = CHR ''_'' \<or> 48 \<le> n \<and> n \<le> 57 \<or> c = CHR ''-'')"

definition non_digit :: "char \<Rightarrow> bool" where
  "non_digit c = (domain_char c \<and> \<not> (48 \<le> (of_char c :: nat) \<and> (of_char c :: nat) \<le> 57))"

definition label_ok :: "string \<Rightarrow> bool" where
  "label_ok l = (l \<noteq> [] \<and> length l \<le> 63 \<and> list_all domain_char l \<and> hd l \<noteq> CHR ''-'' \<and> last l \<noteq> CHR ''-'')"

definition labels_ok :: "string list \<Rightarrow> bool" where
  "labels_ok ls = (list_all label_ok (butlast ls) \<and> (last ls = [] \<or> label_ok (last ls)))"

definition accepted :: "(char \<times> bool \<times> nat) option \<Rightarrow> bool" where
  "accepted r = (case r of None \<Rightarrow> False | Some (prev, nn, l) \<Rightarrow> prev \<noteq> CHR ''-'' \<and> l \<le> 63 \<and> nn)"

lemma Split_first: "c \<notin> set l \<Longrightarrow> \<exists>r rs. Split (l @ t) c = (l @ r) # rs"
proof (induction l)
  case Nil
  have "Split t c \<noteq> []" by (cases t) (auto split: list.splits)
  then show ?case by (cases "Split t c") auto
next
  case (Cons a l)
  then show ?case by auto
qed

lemma not_labels_ok:
  assumes "CHR ''.'' \<notin> set l" "l \<noteq> []" "\<not> list_all domain_char l \<or> hd l = CHR ''-''"
  shows "\<not> labels_ok (Split (l @ t) (CHR ''.''))"
proof -
  obtain r rs where s: "Split (l @ t) (CHR ''.'') = (l @ r) # rs" using Split_first assms(1) by blast
  have "\<not> label_ok (l @ r)" using assms by (auto simp: label_ok_def)
  then show ?thesis using assms(2) unfolding s labels_ok_def by (cases rs) auto
qed

lemma of_char_dot: "(of_char (CHR ''.'') :: nat) = 46" "(of_char (CHR ''-'') :: nat) = 45" "(of_char (CHR ''_'') :: nat) = 95"
  by code_simp+

lemma domain_loop_accepts:
  assumes "CHR ''.'' \<notin> set cur" "list_all domain_char cur" "cur \<noteq> [] \<Longrightarrow> hd cur \<noteq> CHR ''-''"
  shows "accepted (domain_loop s (if cur = [] then CHR ''.'' else last cur) nn (length cur)) \<longleftrightarrow>
    labels_ok (Split (cur @ s) (CHR ''.'')) \<and> (nn \<or> (\<exists>c\<in>set s. non_digit c))"
  using assms
proof (induction s arbitrary: cur nn)
  case Nil
  then show ?case
    by (auto simp: accepted_def Split_no_sep labels_ok_def label_ok_def)
next
  case (Cons c s)
  have step: "accepted (domain_loop s c nn' (length cur + 1)) \<longleftrightarrow>
      labels_ok (Split (cur @ c # s) (CHR ''.'')) \<and> (nn' \<or> (\<exists>c\<in>set s. non_digit c))"
    if "domain_char c" "c \<noteq> CHR ''.''" "cur = [] \<Longrightarrow> c \<noteq> CHR ''-''" for nn'
    using Cons.IH [of "cur @ [c]" nn'] Cons.prems that by (cases cur) auto
  let ?n = "of_char c :: nat"
  consider (letter) "97 \<le> ?n \<and> ?n \<le> 122 \<or> 65 \<le> ?n \<and> ?n \<le> 90 \<or> c = CHR ''_''"
    | (digit) "48 \<le> ?n \<and> ?n \<le> 57"
    | (dash) "c = CHR ''-''" | (dot) "c = CHR ''.''"
    | (bad) "\<not> (97 \<le> ?n \<and> ?n \<le> 122 \<or> 65 \<le> ?n \<and> ?n \<le> 90 \<or> c = CHR ''_'')" "\<not> (48 \<le> ?n \<and> ?n \<le> 57)"
       "c \<noteq> CHR ''-''" "c \<noteq> CHR ''.''" by blast
  then show ?case
  proof cases
    case letter
    then have "domain_char c" "c \<noteq> CHR ''.''" "c \<noteq> CHR ''-''" "non_digit c"
      by (auto simp: domain_char_def non_digit_def Let_def of_char_dot)
    then show ?thesis using step [of True] letter by (simp add: Let_def)
  next
    case digit
    then have "domain_char c" "c \<noteq> CHR ''.''" "c \<noteq> CHR ''-''" "\<not> non_digit c" "c \<noteq> CHR ''_''"
      by (auto simp: domain_char_def non_digit_def Let_def of_char_dot)
    then show ?thesis using step [of nn] digit by (simp add: Let_def)
  next
    case dash
    have d: "domain_char c" "non_digit c" "c \<noteq> CHR ''.''" using dash by (auto simp: domain_char_def non_digit_def of_char_dot)
    have dl: "domain_loop (c # s) p nn l = (if p = CHR ''.'' then None else domain_loop s c True (l + 1))" for p l
      using dash by (simp add: of_char_dot)
    show ?thesis
    proof (cases "cur = []")
      case True
      have "\<not> labels_ok (Split ([c] @ s) (CHR ''.''))" using dash by (intro not_labels_ok) auto
      then show ?thesis unfolding dl using True by (simp add: accepted_def)
    next
      case False
      then have "last cur \<noteq> CHR ''.''" using Cons.prems by (metis last_in_set)
      then show ?thesis unfolding dl using False step [of True] d by simp
    qed
  next
    case dot
    have dl: "domain_loop (c # s) p nn l = (if p = CHR ''.'' \<or> p = CHR ''-'' then None
        else if 63 < l \<or> l = 0 then None else domain_loop s c nn 0)" for p l
      using dot by (simp add: of_char_dot)
    have nd: "\<not> non_digit c" using dot by (simp add: non_digit_def domain_char_def of_char_dot)
    have "Split (cur @ c # s) (CHR ''.'') = cur # Split s (CHR ''.'')"
      using Cons.prems dot by (simp add: Split_append)
    moreover have "Split s (CHR ''.'') \<noteq> []" using Split_first [of "CHR ''.''" "[]" s] by auto
    ultimately have sp: "labels_ok (Split (cur @ c # s) (CHR ''.'')) \<longleftrightarrow> label_ok cur \<and> labels_ok (Split s (CHR ''.''))"
      by (simp add: labels_ok_def)
    show ?thesis
    proof (cases "label_ok cur")
      case True
      then have "cur \<noteq> []" "last cur \<noteq> CHR ''-''" "length cur \<le> 63" by (auto simp: label_ok_def)
      moreover from this have "last cur \<noteq> CHR ''.''" using Cons.prems by (metis last_in_set)
      ultimately show ?thesis unfolding dl sp using Cons.IH [of "[]" nn] True dot nd by simp
    next
      case False
      then have "cur = [] \<or> last cur = CHR ''-'' \<or> 63 < length cur" using Cons.prems by (auto simp: label_ok_def)
      then have "accepted (domain_loop (c # s) (if cur = [] then CHR ''.'' else last cur) nn (length cur)) = False"
        unfolding dl by (auto simp: accepted_def)
      then show ?thesis unfolding sp using False by simp
    qed
  next
    case bad
    then have "\<not> domain_char c" by (auto simp: domain_char_def Let_def)
    then have "\<not> labels_ok (Split ((cur @ [c]) @ s) (CHR ''.''))" using Cons.prems bad by (intro not_labels_ok) auto
    moreover have "domain_loop (c # s) p nn l = None" for p l using bad by (auto simp: Let_def)
    ultimately show ?thesis by (simp add: accepted_def)
  qed
qed

text \<open>C34. What the resolver takes for a domain name is what splits at its dots into labels of at most 63 letters, digits,
  underscores and hyphens that neither begin nor end with a hyphen, of which the last may be empty, has at most 253
  characters before a last dot, and is not all digits.\<close>

theorem isDomainName_labels:
  "isDomainName s \<longleftrightarrow>
     s \<noteq> [] \<and> length s \<le> (if last s = CHR ''.'' then 254 else 253) \<and> labels_ok (Split s (CHR ''.'')) \<and> (\<exists>c\<in>set s. non_digit c)"
proof -
  have "accepted (domain_loop s (CHR ''.'') False 0) \<longleftrightarrow> labels_ok (Split s (CHR ''.'')) \<and> (\<exists>c\<in>set s. non_digit c)"
    using domain_loop_accepts [of "[]" s False] by simp
  moreover have "isDomainName s \<longleftrightarrow> s \<noteq> [] \<and> length s \<le> (if last s = CHR ''.'' then 254 else 253) \<and>
      accepted (domain_loop s (CHR ''.'') False 0)"
    by (cases "s = []"; cases "length s = 254") (auto simp: isDomainName_def accepted_def Let_def last_conv_nth split: option.splits)
  ultimately show ?thesis by simp
qed

section \<open>Resolution ends\<close>

text \<open>What the resolver relies on of a parser: looking at an answer does not take it back, and skipping or reading one
  brings it forward.\<close>

definition parser_advances :: "'p dnsmessage \<Rightarrow> ('p \<Rightarrow> nat) \<Rightarrow> bool" where
  "parser_advances D m =
     ((\<forall>p. m (snd (dm_AnswerHeader D p)) \<le> m p) \<and>
      (\<forall>p p'. dm_SkipAnswer D p = (None, p') \<longrightarrow> m p' < m p) \<and>
      (\<forall>p p' a. dm_AResource D p = (Some a, p') \<longrightarrow> m p' < m p) \<and>
      (\<forall>p p' a. dm_AAAAResource D p = (Some a, p') \<longrightarrow> m p' < m p))"

lemma parser_advancesD:
  assumes "parser_advances D m"
  shows "dm_AnswerHeader D p = (r, p') \<Longrightarrow> m p' \<le> m p"
    and "dm_SkipAnswer D p = (None, p') \<Longrightarrow> m p' < m p"
    and "dm_AResource D p = (Some a, p') \<Longrightarrow> m p' < m p"
    and "dm_AAAAResource D p = (Some a, p') \<Longrightarrow> m p' < m p"
  using assms unfolding parser_advances_def by (metis snd_conv)+

definition ends :: "'a option \<Rightarrow> bool" where
  "ends r = (r \<noteq> None)"

definition ends_by :: "nat \<Rightarrow> ('a \<times> nat \<times> rng) option \<Rightarrow> bool" where
  "ends_by k r = (\<exists>a n s. r = Some (a, n, s) \<and> n \<le> k)"

lemma ends_simps [simp]: "ends (Some x)" "\<not> ends None" "ends_by k (Some (a, n, s)) = (n \<le> k)"
  by (auto simp: ends_def ends_by_def)

lemma ends_case [simp]:
  "ends r \<Longrightarrow> ends (case r of None \<Rightarrow> None | Some x \<Rightarrow> f x) = ends (f (the r))"
  "ends r \<Longrightarrow> ends (r \<bind> f) = ends (f (the r))"
  "ends r \<Longrightarrow> ends_by k (case r of None \<Rightarrow> None | Some x \<Rightarrow> g x) = ends_by k (g (the r))"
  by (cases r; simp)+

lemma skipToAnswer_ends:
  assumes "parser_advances D m"
  shows "ends (skipToAnswer D qtype p)"
proof (induction "m p" arbitrary: p rule: less_induct)
  case less
  obtain r p1 where h: "dm_AnswerHeader D p = (r, p1)" by fastforce
  obtain e p2 where s: "dm_SkipAnswer D p1 = (e, p2)" by fastforce
  have "ends (skipToAnswer D qtype p2)" if "e = None"
    using less parser_advancesD(1) [OF assms h] parser_advancesD(2) [OF assms] s that by fastforce
  then show ?case
    by (subst skipToAnswer.simps) (auto simp: h s split: sum.splits section_error.splits option.splits)
qed

lemma collect_answers_ends:
  assumes "parser_advances D m"
  shows "ends (collect_answers D host server p a4 a6 e)"
proof (induction "m p" arbitrary: p a4 a6 e rule: less_induct)
  case less
  obtain r p1 where h: "dm_AnswerHeader D p = (r, p1)" by fastforce
  note adv = parser_advancesD(1) [OF assms h]
  have "ends (collect_answers D host server p2 a4 a6 e)" if "dm_SkipAnswer D p1 = (None, p2)" for p2 a4 a6 e
    using less parser_advancesD(2) [OF assms that] adv by simp
  moreover have "ends (collect_answers D host server p2 a4 a6 e)" if "dm_AResource D p1 = (Some a, p2)" for p2 a a4 a6 e
    using less parser_advancesD(3) [OF assms that] adv by simp
  moreover have "ends (collect_answers D host server p2 a4 a6 e)" if "dm_AAAAResource D p1 = (Some a, p2)" for p2 a a4 a6 e
    using less parser_advancesD(4) [OF assms that] adv by simp
  ultimately show ?case
    by (subst collect_answers.simps) (simp add: h Let_def split: sum.split section_error.split option.split prod.split)
qed

lemma collect_lanes_ends:
  assumes "parser_advances D m"
  shows "ends (collect_lanes D host lanes a4 a6 e)"
proof (induction lanes arbitrary: a4 a6 e)
  case (Cons l lanes)
  obtain p server err where l: "l = (p, server, err)" by (cases l)
  show ?case
    using Cons by (simp add: l collect_answers_ends [OF assms] split: option.split prod.split)
qed simp

lemma exchange_connections: "\<exists>res n' r'. exchange D dial server q (n, r) = (res, n', r') \<and> n' \<le> n + 2"
  by (auto simp: exchange_def Let_def split: prod.splits option.splits)

lemma try_servers_ends:
  assumes "parser_advances D m"
  shows "ends_by (n + 2 * length servers) (try_servers D dial name q qtype servers err (n, r))"
proof (induction servers arbitrary: err n r)
  case (Cons s servers)
  obtain res n1 r1 where x: "exchange D dial s q (n, r) = (res, n1, r1)" "n1 \<le> n + 2" using exchange_connections by blast
  have rest: "ends_by (n + 2 * length (s # servers)) (try_servers D dial name q qtype servers e (n1, r1))" for e
    using Cons [of n1 e r1] x(2) by (auto simp: ends_by_def)
  show ?case
    using x(2) by (simp add: x(1) rest [simplified] skipToAnswer_ends [OF assms] Let_def split: sum.split prod.split option.split)
qed simp

lemma tryOneName_ends:
  assumes "parser_advances D m"
  shows "ends_by (n + 4 * length servers) (tryOneName D dial servers name qtype (n, r))"
proof (cases "dm_NewName D name")
  case (Some a)
  then show ?thesis
    using try_servers_ends [OF assms, of n "servers @ servers" dial name "\<lparr>dq_Name = a, dq_Type = qtype, dq_Class = ClassINET\<rparr>" qtype None r]
    by (simp add: tryOneName_def Let_def)
qed (simp add: tryOneName_def)

lemma run_lane_ends:
  assumes "parser_advances D m"
  shows "\<exists>l. run_lane D dial servers host qtype r = Some l"
  using tryOneName_ends [OF assms, of 0 servers dial "host @ ''.''" qtype r] by (auto simp: run_lane_def ends_by_def)

lemma LookupContextHost_ends:
  assumes "parser_advances D m"
  shows "ends (LookupContextHost D dial4 dial6 r4 r6 v6_first tnet host)"
proof -
  note lanes = run_lane_ends [OF assms]
  obtain l4 where 4: "run_lane D dial4 (nt_dnsServers tnet) host TypeA r4 = Some l4" using lanes by blast
  obtain l6 where 6: "run_lane D dial6 (nt_dnsServers tnet) host TypeAAAA r6 = Some l6" using lanes by blast
  show ?thesis
    by (simp add: LookupContextHost_def Let_def 4 6 collect_lanes_ends [OF assms] split: option.split prod.split)
qed


section \<open>Answers\<close>

lemma equal_names_iff: "length x = length y \<Longrightarrow> equal_names x y \<longleftrightarrow> map lower_ascii x = map lower_ascii y"
  by (induction x y rule: list_induct2) auto

lemma equalASCIIName_iff: "equalASCIIName x y \<longleftrightarrow> map lower_ascii x = map lower_ascii y"
  by (auto simp: equalASCIIName_def equal_names_iff dest: map_eq_imp_length_eq)

definition answers_question :: "u16 \<Rightarrow> dnsQuestion \<Rightarrow> dnsHeader \<Rightarrow> dnsQuestion \<Rightarrow> bool" where
  "answers_question ident q h q' =
     (dh_Response h \<and> dh_ID h = ident \<and> dq_Type q' = dq_Type q \<and> dq_Class q' = dq_Class q \<and>
      map lower_ascii (dq_Name q') = map lower_ascii (dq_Name q))"

lemma checkResponse_iff: "checkResponse ident q h q' \<longleftrightarrow> answers_question ident q h q'"
  by (auto simp: checkResponse_def answers_question_def equalASCIIName_iff)

text \<open>A message that is read from a connection after a request: a packet of at most 512 bytes, or the first message of the
  stream, which has its length in front.\<close>

definition received :: "netConn \<Rightarrow> bool \<Rightarrow> bytes \<Rightarrow> bytes \<Rightarrow> bool" where
  "received c useUDP req b =
     (if useUDP then b \<in> take 512 ` set (cn_packets c req)
      else \<exists>hi lo rest. cn_stream c req = hi # lo # b @ rest \<and> length b = unat hi * 256 + unat lo)"

definition parsed_answer :: "'p dnsmessage \<Rightarrow> u16 \<Rightarrow> dnsQuestion \<Rightarrow> bytes \<Rightarrow> 'p \<Rightarrow> dnsHeader \<Rightarrow> bool" where
  "parsed_answer D ident q b p h =
     (\<exists>p0 q'. dm_Start D b = Some (p0, h) \<and> dm_Question D p0 = Some (q', p) \<and> answers_question ident q h q')"

lemma packet_loop_Inr:
  "packet_loop D ident q e bs = Inr (p, h) \<Longrightarrow> \<exists>b\<in>set bs. parsed_answer D ident q (take 512 b) p h"
  by (induction bs)
    (auto simp: parsed_answer_def checkResponse_iff split: option.splits if_splits prod.splits)

lemma dnsPacketRoundTrip_Inr:
  "dnsPacketRoundTrip D c ident q req = Inr (p, h) \<Longrightarrow> \<exists>b. received c True req b \<and> parsed_answer D ident q b p h"
  by (auto simp: dnsPacketRoundTrip_def received_def split: option.splits dest!: packet_loop_Inr)

lemma stream_message:
  assumes "\<not> length s < 2" "\<not> length s < 2 + l" "l = unat (s ! 0) * 256 + unat (s ! 1)"
  shows "\<exists>hi lo rest. s = hi # lo # go_slice 2 (2 + l) s @ rest \<and> length (go_slice 2 (2 + l) s) = unat hi * 256 + unat lo"
proof -
  obtain hi lo t where s: "s = hi # lo # t" using assms(1) by (cases s; cases "tl s") auto
  have "t = go_slice 2 (2 + l) s @ drop l t" "length (go_slice 2 (2 + l) s) = l"
    using assms(2) by (auto simp: s go_slice_def)
  then show ?thesis using assms(3) s by (metis nth_Cons_0 nth_Cons_Suc One_nat_def)
qed

lemma dnsStreamRoundTrip_Inr:
  assumes "dnsStreamRoundTrip D c ident q req = Inr (p, h)"
  shows "\<exists>b. received c False req b \<and> parsed_answer D ident q b p h"
proof -
  let ?s = "cn_stream c req"
  define l where "l = unat (?s ! 0) * 256 + unat (?s ! 1)"
  have "parsed_answer D ident q (go_slice 2 (2 + l) ?s) p h" "\<not> length ?s < 2" "\<not> length ?s < 2 + l"
    using assms
    by (auto simp: dnsStreamRoundTrip_def parsed_answer_def checkResponse_iff Let_def l_def
        split: option.splits if_splits prod.splits)
  then show ?thesis using stream_message [OF _ _ l_def] unfolding received_def if_False by blast
qed

lemma exchange_once_Inr:
  assumes "exchange_once D dialed useUDP ident q u t = Some (Inr (p, h))"
  obtains c b p0 where "dialed = Inr c" "received c useUDP (if useUDP then u else t) b" "parsed_answer D ident q b p0 h"
    "dm_SkipQuestion D p0 = (Some ErrSectionDone, p)" "\<not> dh_Truncated h"
proof -
  obtain c p0 where d: "dialed = Inr c"
    and r: "(if useUDP then dnsPacketRoundTrip D c ident q u else dnsStreamRoundTrip D c ident q t) = Inr (p0, h)"
    and rest: "dm_SkipQuestion D p0 = (Some ErrSectionDone, p)" "\<not> dh_Truncated h"
    using assms by (auto simp: exchange_once_def Let_def split: sum.splits option.splits prod.splits if_splits)
  obtain b where "received c useUDP (if useUDP then u else t) b" "parsed_answer D ident q b p0 h"
    using r dnsPacketRoundTrip_Inr [of D c ident q u] dnsStreamRoundTrip_Inr [of D c ident q t] by (cases useUDP) fastforce+
  then show ?thesis using that d rest by blast
qed

text \<open>The parser \<open>p\<close> has read the header and the question of a whole answer that the server gave, in the attempt
  \<open>i\<close> to connect, to a request for \<open>q\<close>.\<close>

definition answered ::
  "'p dnsmessage \<Rightarrow> dialer \<Rightarrow> dnsQuestion \<Rightarrow> bytes \<Rightarrow> nat \<Rightarrow> 'p \<Rightarrow> dnsHeader \<Rightarrow> bool" where
  "answered D dial q server i p h =
     (\<exists>useUDP c ident msg b p0.
        dial i useUDP server = Inr c \<and> dm_request D ident q = Some msg \<and>
        received c useUDP (if useUDP then msg else word_of_nat (length msg div 256) # word_of_nat (length msg) # msg) b \<and>
        parsed_answer D ident q b p0 h \<and> dm_SkipQuestion D p0 = (Some ErrSectionDone, p) \<and> \<not> dh_Truncated h)"

lemma exchange_answered:
  assumes "exchange D dial server q (n, r) = (Inr (p, h), n', r')" "dq_Class q = ClassINET"
  shows "\<exists>i<n'. answered D dial q server i p h"
proof -
  have q: "q\<lparr>dq_Class := ClassINET\<rparr> = q" using assms(2) by simp
  obtain ident msg r1 where req: "dm_request D ident q = Some msg"
    "newRequest D q r = (Some (ident, msg, word_of_nat (length msg div 256) # word_of_nat (length msg) # msg), r1)"
    using assms(1) unfolding exchange_def by (auto simp: q newRequest_def Let_def split: prod.splits option.splits)
  define t :: bytes where "t = word_of_nat (length msg div 256) # word_of_nat (length msg) # msg"
  have "\<exists>i<n'. \<exists>useUDP. exchange_once D (dial i useUDP server) useUDP ident q msg t = Some (Inr (p, h))"
    using assms(1) unfolding exchange_def by (auto simp: q req(2) t_def [symmetric] Let_def split: option.splits)
  then obtain i useUDP where i: "i < n'" and x: "exchange_once D (dial i useUDP server) useUDP ident q msg t = Some (Inr (p, h))"
    by blast
  from x obtain c b p0 where "dial i useUDP server = Inr c" "received c useUDP (if useUDP then msg else t) b"
    "parsed_answer D ident q b p0 h" "dm_SkipQuestion D p0 = (Some ErrSectionDone, p)" "\<not> dh_Truncated h"
    by (rule exchange_once_Inr)
  then have "answered D dial q server i p h" using req(1) unfolding answered_def t_def by (intro exI conjI)
  then show ?thesis using i by blast
qed

lemma checkHeader_None: "checkHeader D p h = (None, p') \<Longrightarrow> dh_RCode h = RCodeSuccess"
  by (auto simp: checkHeader_def Let_def split: if_splits prod.splits)

lemma skipToAnswer_found:
  assumes "skipToAnswer D qtype p = Some (None, p')"
  shows "\<exists>p0. dm_AnswerHeader D p0 = (Inr qtype, p')"
proof -
  have "fst (None :: lookup_error option, p') = None \<longrightarrow> (\<exists>p0. dm_AnswerHeader D p0 = (Inr qtype, snd (None :: lookup_error option, p')))"
    by (rule skipToAnswer.raw_induct
        [of "\<lambda>D qtype p r. fst r = None \<longrightarrow> (\<exists>p0. dm_AnswerHeader D p0 = (Inr qtype, snd r))", OF _ assms])
      (auto split: prod.splits sum.splits section_error.splits option.splits if_splits; metis fst_conv snd_conv)
  then show ?thesis by simp
qed

lemma try_servers_answered:
  assumes "dq_Class q = ClassINET" "servers \<noteq> [] \<or> err \<noteq> None"
    and "try_servers D dial name q qtype servers err (n, r) = Some ((p, sname, None), n', r')"
  shows "\<exists>s\<in>set servers. \<exists>i<n'. \<exists>p0 h p1. sname = addr_String s \<and> answered D dial q s i p0 h \<and> dh_RCode h = RCodeSuccess \<and>
    skipToAnswer D qtype p1 = Some (None, p) \<and> checkHeader D p0 h = (None, p1)"
  using assms(2,3)
proof (induction servers arbitrary: err n r)
  case (Cons s servers)
  obtain res n1 r1 where x: "exchange D dial s q (n, r) = (res, n1, r1)" by (metis prod_cases3)
  note step = Cons.prems(2) [simplified, unfolded Let_def x, simplified]
  have more: ?case if "try_servers D dial name q qtype servers (Some e) (n1, r1) = Some ((p, sname, None), n', r')" for e
    using Cons.IH [OF _ that] by auto
  show ?case
  proof (cases res)
    case (Inl e)
    then show ?thesis using step more by simp
  next
    case (Inr ph)
    obtain p0 h where ph: "ph = (p0, h)" by (cases ph)
    obtain e p1 where c: "checkHeader D p0 h = (e, p1)" by fastforce
    have a: "\<exists>i<n1. answered D dial q s i p0 h" using exchange_answered [OF x [unfolded Inr ph] assms(1)] .
    show ?thesis
    proof (cases e)
      case None
      then obtain e2 p2 where k: "skipToAnswer D qtype p1 = Some (e2, p2)"
        using step c by (auto simp: Inr ph split: option.splits)
      show ?thesis
      proof (cases e2)
        case None
        then have "p2 = p" "n1 = n'" "sname = addr_String s" using step c k \<open>e = None\<close> by (simp_all add: Inr ph)
        then show ?thesis using a c k None \<open>e = None\<close> checkHeader_None [of D p0 h p1] by auto
      next
        case (Some e3)
        then show ?thesis using step more c k \<open>e = None\<close> by (auto simp: Inr ph split: if_splits)
      qed
    next
      case (Some e')
      then show ?thesis using step more c by (auto simp: Inr ph split: if_splits)
    qed
  qed
qed simp

text \<open>C31. When a name is resolved, the parser that is read is that of a message received, in one of the attempts
  made, from a server of the network in return for a request: it is a response with the number and the question of the
  request (the case of letters apart), complete, without an error, and has come to an answer of the type asked for.\<close>

theorem resolved_from_answer:
  assumes "servers \<noteq> []" "tryOneName D dial servers name qtype (n, r) = Some ((p, sname, None), n', r')"
  shows "\<exists>s\<in>set servers. \<exists>i<n'. \<exists>nm p0 h p1 p2.
    sname = addr_String s \<and> dm_NewName D name = Some nm \<and>
    answered D dial \<lparr>dq_Name = nm, dq_Type = qtype, dq_Class = ClassINET\<rparr> s i p0 h \<and> dh_RCode h = RCodeSuccess \<and>
    checkHeader D p0 h = (None, p1) \<and> skipToAnswer D qtype p1 = Some (None, p) \<and> dm_AnswerHeader D p2 = (Inr qtype, p)"
proof -
  obtain nm where nm: "dm_NewName D name = Some nm"
    using assms(2) by (auto simp: tryOneName_def split: option.splits)
  let ?q = "\<lparr>dq_Name = nm, dq_Type = qtype, dq_Class = ClassINET\<rparr>"
  have "try_servers D dial name ?q qtype (servers @ servers) None (n, r) = Some ((p, sname, None), n', r')"
    using assms(2) by (simp add: tryOneName_def nm)
  from try_servers_answered [OF _ _ this] assms(1)
  obtain s i p0 h p1 where "s \<in> set servers" "i < n'" "sname = addr_String s" "answered D dial ?q s i p0 h"
    "dh_RCode h = RCodeSuccess" and f: "skipToAnswer D qtype p1 = Some (None, p)" and "checkHeader D p0 h = (None, p1)"
    by auto
  moreover obtain p2 where "dm_AnswerHeader D p2 = (Inr qtype, p)" using skipToAnswer_found [OF f] by blast
  ultimately show ?thesis using f nm by blast
qed

text \<open>A message format of one answer: a message is the number of the request, and a parser the number of answers left.\<close>

definition one_answer :: "nat dnsmessage" where
  "one_answer =
     \<lparr>dm_request = (\<lambda>ident q. Some [word_of_nat (unat ident div 256), word_of_nat (unat ident)]), dm_zero = 0,
      dm_Start = (\<lambda>b. if length b = 2 then Some (1, \<lparr>dh_ID = word_of_nat (unat (b ! 0) * 256 + unat (b ! 1)), dh_Response = True,
        dh_Truncated = False, dh_Authoritative = False, dh_RecursionAvailable = True, dh_RCode = RCodeSuccess\<rparr>) else None),
      dm_Question = (\<lambda>p. Some (\<lparr>dq_Name = [0x61], dq_Type = TypeA, dq_Class = ClassINET\<rparr>, p)),
      dm_SkipQuestion = (\<lambda>p. (Some ErrSectionDone, p)),
      dm_AnswerHeader = (\<lambda>p. (if p = 0 then Inl ErrSectionDone else Inr TypeA, p)),
      dm_SkipAnswer = (\<lambda>p. (if p = 0 then Some ErrSectionDone else None, p - 1)),
      dm_AResource = (\<lambda>p. (if p = 0 then None else Some [192, 0, 2, 1], p - 1)),
      dm_AAAAResource = (\<lambda>p. (None, p)), dm_NewName = (\<lambda>s. Some [0x41])\<rparr>"

definition echo_conn :: netConn where
  "echo_conn = \<lparr>cn_deadline = None, cn_write = None, cn_packets = (\<lambda>b. [[1], b]), cn_stream = (\<lambda>b. b), cn_err = Ctx_Canceled\<rparr>"

definition echo_dial :: dialer where
  "echo_dial n useUDP server = (if n = 0 then Inl Ctx_Canceled else Inr echo_conn)"

lemma one_answer_advances: "parser_advances one_answer (\<lambda>p. p)"
  by (auto simp: parser_advances_def one_answer_def split: if_splits)

lemma echo_resolves:
  "\<exists>r. tryOneName one_answer echo_dial [[10,0,0,1]] ''a.'' TypeA (0, \<lambda>n. 5) = Some ((1, ''10.0.0.1'', None), 2, r)"
proof -
  have "(case tryOneName one_answer echo_dial [[10,0,0,1]] ''a.'' TypeA (0, \<lambda>n. 5) of
      None \<Rightarrow> False | Some (l, n, r) \<Rightarrow> l = (1, ''10.0.0.1'', None) \<and> n = 2)"
    by code_simp
  then show ?thesis by (auto split: option.splits)
qed

theorem resolved_from_answer_witness:
  "\<exists>i<2. \<exists>nm p0 h p1 p2.
    dm_NewName one_answer ''a.'' = Some nm \<and>
    answered one_answer echo_dial \<lparr>dq_Name = nm, dq_Type = TypeA, dq_Class = ClassINET\<rparr> [10,0,0,1] i p0 h \<and>
    dh_RCode h = RCodeSuccess \<and> checkHeader one_answer p0 h = (None, p1) \<and>
    skipToAnswer one_answer TypeA p1 = Some (None, 1) \<and> dm_AnswerHeader one_answer p2 = (Inr TypeA, 1)"
proof -
  obtain r where "tryOneName one_answer echo_dial [[10,0,0,1]] ''a.'' TypeA (0, \<lambda>n. 5) = Some ((1, ''10.0.0.1'', None), 2, r)"
    using echo_resolves by blast
  from resolved_from_answer [OF _ this] show ?thesis by (simp del: One_nat_def) blast
qed


section \<open>Dialling\<close>

lemma go_div_pos: "0 < a \<Longrightarrow> 0 < b \<Longrightarrow> go_div a b = a div b"
  by (simp add: go_div_def)

lemma partialDeadline_bounds:
  assumes "partialDeadline now deadline k = Inr d" "deadline \<noteq> 0" "1 \<le> k"
  shows "now < d" "d \<le> deadline" "min (deadline - now) saneMinimum \<le> d - now" "(deadline - now) div k \<le> d - now"
proof -
  let ?r = "deadline - now"
  have r: "0 < ?r" using assms(1,2) by (auto simp: partialDeadline_def Let_def split: if_splits)
  have d: "d = now + (if ?r div k < saneMinimum then (if ?r < saneMinimum then ?r else saneMinimum) else ?r div k)"
    using assms r by (auto simp: partialDeadline_def Let_def go_div_pos split: if_splits)
  have "?r div k \<le> ?r div 1" using r assms(3) by (intro zdiv_mono2) auto
  then have "?r div k \<le> ?r" by simp
  then show "now < d" "d \<le> deadline" "min ?r saneMinimum \<le> d - now" "?r div k \<le> d - now"
    using r unfolding d by (auto simp: saneMinimum_def)
qed

text \<open>An attempt that a call may make: to an address of the family, under the deadline of the call or a part of it, not
  shorter than two seconds while so much time is left.\<close>

definition dial_family :: "string \<Rightarrow> bytes \<Rightarrow> bool" where
  "dial_family network a = (length a = 4 \<and> last network \<noteq> CHR ''6'' \<or> length a = 16 \<and> last network \<noteq> CHR ''4'')"

definition dial_in_time :: "int option \<Rightarrow> int \<Rightarrow> int option \<Rightarrow> bool" where
  "dial_in_time deadline now d =
     (case deadline of
        None \<Rightarrow> d = None
      | Some dl \<Rightarrow> (\<exists>d'. d = Some d' \<and> now < d' \<and> d' \<le> dl \<and> min (dl - now) saneMinimum \<le> d' - now))"

lemma dial_loop_cong:
  assumes "dc_deadline E \<noteq> Some 0" "\<forall>a\<in>set addrs. P a"
    and "\<And>i a d. P a \<Longrightarrow> dial_in_time (dc_deadline E) (dc_now E i) d \<Longrightarrow> dc_dial E i proto a d = f i proto a d"
  shows "dial_loop (E\<lparr>dc_dial := f\<rparr>) proto i addrs e = dial_loop E proto i addrs e"
  using assms(2)
proof (induction addrs arbitrary: i e)
  case (Cons a addrs)
  have IH: "dial_loop (E\<lparr>dc_dial := f\<rparr>) proto j addrs e = dial_loop E proto j addrs e" for j e using Cons by simp
  have P: "P a" using Cons.prems by simp
  show ?case
  proof (cases "dc_deadline E")
    case None
    then have "dc_dial E i proto a None = f i proto a None" using assms(3) [OF P] by (simp add: dial_in_time_def)
    then show ?thesis by (simp add: IH None Let_def split: option.split sum.split)
  next
    case (Some dl)
    have "dc_dial E i proto a (Some (if d < dl then d else dl)) = f i proto a (Some (if d < dl then d else dl))"
      if "partialDeadline (dc_now E i) dl (int (length addrs) + 1) = Inr d" for d
      using partialDeadline_bounds [OF that] assms(1) Some
      by (intro assms(3) P) (auto simp: dial_in_time_def)
    then show ?thesis by (simp add: IH Some Let_def split: option.split sum.split)
  qed
qed simp

lemma suitable_length: "a \<in> set (suitable v4 v6 port all) \<Longrightarrow> length (fst a) = 4 \<and> v4 \<or> length (fst a) = 16 \<and> v6"
  by (auto simp: suitable_def split: option.splits if_splits)

lemma protoSplitter_family:
  "protoSplitter network = Some (proto, family) \<Longrightarrow>
    (family = ''6'' \<longleftrightarrow> last network = CHR ''6'') \<and> (family = ''4'' \<longleftrightarrow> last network = CHR ''4'')"
  by (auto simp: protoSplitter_def split: if_splits)

text \<open>C33. A call of the dialer depends only on the outcome of attempts that it may make: to addresses of the family
  that the network names, with a deadline that has not passed, not after that of the call and at least two seconds away
  while so much time is left.\<close>

theorem dials_only_permitted:
  assumes "dc_deadline E \<noteq> Some 0"
    and "\<And>i proto a port d. dial_family network a \<Longrightarrow> dial_in_time (dc_deadline E) (dc_now E i) d \<Longrightarrow>
      dc_dial E i proto (a, port) d = f i proto (a, port) d"
  shows "DialContext (E\<lparr>dc_dial := f\<rparr>) lookup network address = DialContext E lookup network address"
proof (cases "protoSplitter network")
  case (Some pf)
  obtain proto family where pf: "pf = (proto, family)" by (cases pf)
  note fam = protoSplitter_family [OF Some [unfolded pf]]
  have "dial_loop (E\<lparr>dc_dial := f\<rparr>) proto i (suitable (family \<noteq> ''6'') (family \<noteq> ''4'') port all) e =
      dial_loop E proto i (suitable (family \<noteq> ''6'') (family \<noteq> ''4'') port all) e" for i port all e
    using assms fam
    by (intro dial_loop_cong [where P = "\<lambda>a. dial_family network (fst a)"])
      (auto simp: dial_family_def dest!: suitable_length)
  then show ?thesis
    by (auto simp: DialContext_def Some pf Let_def split: sum.split intro!: Option.bind_cong)
qed (simp add: DialContext_def)

definition one_dial :: "nat dialing" where
  "one_dial = \<lparr>dc_err = (\<lambda>i. None), dc_now = (\<lambda>i. 1000 * int i), dc_deadline = Some 9000000000,
     dc_dial = (\<lambda>i proto a d. if length (fst a) = 4 then Inr i else Inl Ctx_Canceled)\<rparr>"

theorem dials_only_permitted_witness:
  "DialContext (one_dial\<lparr>dc_dial := \<lambda>i proto a d. Inr i\<rparr>) (\<lambda>h. Some (Inr [''2001:db8::1'', ''192.0.2.1''])) ''ping4'' ''example.org'' = Some (Inr 0) \<and>
   DialContext one_dial (\<lambda>h. Some (Inr [''2001:db8::1'', ''192.0.2.1''])) ''ping4'' ''example.org'' = Some (Inr 0)"
proof -
  have "DialContext (one_dial\<lparr>dc_dial := \<lambda>i proto a d. Inr i\<rparr>) (\<lambda>h. Some (Inr [''2001:db8::1'', ''192.0.2.1''])) ''ping4'' ''example.org'' =
      DialContext one_dial (\<lambda>h. Some (Inr [''2001:db8::1'', ''192.0.2.1''])) ''ping4'' ''example.org''"
    by (rule dials_only_permitted) (auto simp: one_dial_def dial_family_def)
  moreover have "DialContext one_dial (\<lambda>h. Some (Inr [''2001:db8::1'', ''192.0.2.1''])) ''ping4'' ''example.org'' = Some (Inr 0)"
    by code_simp
  ultimately show ?thesis by simp
qed

end
