(* ===== verification/Route_Listener.thy ===== *)
theory Route_Listener
  imports Device_Life
begin

text \<open>
  \<open>device/sticky_linux.go\<close>: the listener for changes of routes, which makes the device forget the source address of an
  endpoint when the kernel would now send its packets over another interface. What the netlink socket delivers and
  whether a write to it succeeds are parameters; the goroutine that asks for the routes of all peers is one step. The byte
  order is little endian.
\<close>

section \<open>Sources\<close>

text \<open>\<open>conn/sticky_linux.go\<close>: the control message of an endpoint holds the address and the interface a packet arrived at.\<close>

definition cmsg_space_4 :: nat where "cmsg_space_4 = 32"
definition cmsg_space_6 :: nat where "cmsg_space_6 = 40"
definition cmsg_len_0 :: nat where "cmsg_len_0 = 16"

definition SrcIP :: "Endpoint \<Rightarrow> bytes" where
  "SrcIP e =
     (if length (ep_src e) = cmsg_space_4 then go_slice (cmsg_len_0 + 4) (cmsg_len_0 + 8) (ep_src e)
      else if length (ep_src e) = cmsg_space_6 then go_slice cmsg_len_0 (cmsg_len_0 + 16) (ep_src e)
      else [])"

definition SrcIfidx :: "Endpoint \<Rightarrow> u32" where
  "SrcIfidx e =
     (if length (ep_src e) = cmsg_space_4 then get_u32_le (drop cmsg_len_0 (ep_src e))
      else if length (ep_src e) = cmsg_space_6 then get_u32_le (drop (cmsg_len_0 + 16) (ep_src e))
      else 0)"

text \<open>\<open>netip.Addr.As4\<close>: \<open>None\<close> is its panic.\<close>

definition As4 :: "bytes \<Rightarrow> bytes option" where
  "As4 a =
     (if length a = 4 then Some a
      else if length a = 16 \<and> take 12 a = replicate 10 0 @ [0xff, 0xff] then Some (drop 12 a)
      else None)"

section \<open>Netlink messages\<close>

definition SizeofNlMsghdr :: nat where "SizeofNlMsghdr = 16"
definition SizeofRtMsg :: nat where "SizeofRtMsg = 12"
definition SizeofRtAttr :: nat where "SizeofRtAttr = 4"
definition RTM_NEWROUTE :: nat where "RTM_NEWROUTE = 24"
definition RTM_DELROUTE :: nat where "RTM_DELROUTE = 25"
definition RTM_GETROUTE :: nat where "RTM_GETROUTE = 26"
definition NLM_F_REQUEST :: nat where "NLM_F_REQUEST = 1"
definition RTA_DST :: nat where "RTA_DST = 1"
definition RTA_SRC :: nat where "RTA_SRC = 2"
definition RTA_OIF :: nat where "RTA_OIF = 4"
definition RTA_MARK :: nat where "RTA_MARK = 16"
definition AF_INET :: nat where "AF_INET = 2"

record NlMsghdr =
  nl_Len :: nat
  nl_Type :: nat
  nl_Seq :: nat

definition get_NlMsghdr :: "bytes \<Rightarrow> NlMsghdr" where
  "get_NlMsghdr b = \<lparr>nl_Len = le_nat (go_slice 0 4 b), nl_Type = le_nat (go_slice 4 6 b), nl_Seq = le_nat (go_slice 8 12 b)\<rparr>"

record RtAttr =
  rta_Len :: nat
  rta_Type :: nat

definition get_RtAttr :: "bytes \<Rightarrow> RtAttr" where
  "get_RtAttr b = \<lparr>rta_Len = le_nat (go_slice 0 2 b), rta_Type = le_nat (go_slice 2 4 b)\<rparr>"

definition put_RtAttr :: "nat \<Rightarrow> bytes" where
  "put_RtAttr type = nat_le 2 8 @ nat_le 2 type"

text \<open>The question for the route from a source to a destination, 52 bytes.\<close>

definition route_request :: "nat \<Rightarrow> bytes \<Rightarrow> bytes \<Rightarrow> u32 \<Rightarrow> bytes" where
  "route_request i dst src mark =
     nat_le 4 52 @ nat_le 2 RTM_GETROUTE @ nat_le 2 NLM_F_REQUEST @ nat_le 4 i @ nat_le 4 0
     @ [word_of_nat AF_INET, 32, 32] @ replicate 9 0
     @ put_RtAttr RTA_DST @ dst @ put_RtAttr RTA_SRC @ src @ put_RtAttr RTA_MARK @ put_u32_le mark"

section \<open>The listener\<close>

text \<open>The peers that were asked for, by sequence number, and the questions written so far. The comparison of the pointer
  to a peer's endpoint with itself always succeeds.\<close>

record listener =
  reqPeer :: "(nat \<rightharpoonup> pid) option"
  nl_written :: "bytes list"

text \<open>The attributes of an answer; the loop ends at an attribute that is too short, or at the first index of the interface
  whose peer is not known or has not changed.\<close>

function attr_loop :: "listener \<Rightarrow> nat \<Rightarrow> bytes \<Rightarrow> Device \<Rightarrow> Device option" where
  "attr_loop st seq attr d =
     (if length attr < SizeofRtAttr then Some d
      else
        let hdr = get_RtAttr attr in
        if rta_Len hdr < SizeofRtAttr \<or> length attr < rta_Len hdr then Some d
        else if rta_Type hdr = RTA_OIF \<and> rta_Len hdr = SizeofRtAttr + 4 then
          let ifidx = get_u32_le (drop SizeofRtAttr attr) in
          case reqPeer st of
            None \<Rightarrow> Some d
          | Some m \<Rightarrow>
              (case m seq of
                 None \<Rightarrow> Some d
               | Some p \<Rightarrow>
                   (case ep_val (peers d p) of
                      None \<Rightarrow> None
                    | Some ep \<Rightarrow>
                        if SrcIfidx ep = ifidx then Some d
                        else attr_loop st seq (drop (rta_Len hdr) attr) (upd_peer p (\<lambda>P. P\<lparr>clearSrcOnTx := True\<rparr>) d)))
        else attr_loop st seq (drop (rta_Len hdr) attr) d)"
  by pat_completeness auto
termination by (relation "measure (\<lambda>(st, seq, attr, d). length attr)") (auto simp: SizeofRtAttr_def)

declare attr_loop.simps [simp del]

text \<open>The question for every peer, in the order the map of peers is walked through: it ends at the first one over IPv6 or
  without a source, and when a write fails.\<close>

fun request_loop :: "(nat \<Rightarrow> bool) \<Rightarrow> Device \<Rightarrow> nat \<Rightarrow> pid list \<Rightarrow> listener \<Rightarrow> listener option" where
  "request_loop write_ok d i [] st = Some st"
| "request_loop write_ok d i (p # ps) st =
     (case ep_val (peers d p) of
        None \<Rightarrow> request_loop write_ok d i ps st
      | Some ep \<Rightarrow>
          if length (ep_addr ep) = 16 \<or> SrcIfidx ep = 0 then Some st
          else
            (case (As4 (ep_addr ep), As4 (SrcIP ep)) of
               (Some dst, Some src) \<Rightarrow>
                 let st = st\<lparr>reqPeer := map_option (\<lambda>m. m(i \<mapsto> p)) (reqPeer st)\<rparr> in
                 if write_ok (length (nl_written st)) then
                   request_loop write_ok d (i + 1) ps
                     (st\<lparr>nl_written := nl_written st @ [route_request i dst src (net_fwmark d)]\<rparr>)
                 else Some st
             | _ \<Rightarrow> None))"

definition request_routes :: "(nat \<Rightarrow> bool) \<Rightarrow> (pid list \<Rightarrow> pid list) \<Rightarrow> Device \<Rightarrow> listener \<Rightarrow> listener option" where
  "request_routes write_ok order d st =
     request_loop write_ok d 1 (order (map snd (keyMap d))) (st\<lparr>reqPeer := Some Map.empty\<rparr>)"

definition handle_route :: "(nat \<Rightarrow> bool) \<Rightarrow> (pid list \<Rightarrow> pid list) \<Rightarrow> bytes \<Rightarrow> listener \<times> Device \<Rightarrow> (listener \<times> Device) option" where
  "handle_route write_ok order remain = (\<lambda>(st, d).
     let hdr = get_NlMsghdr remain in
     if nl_Type hdr = RTM_NEWROUTE \<or> nl_Type hdr = RTM_DELROUTE then
       if nl_Seq hdr \<le> MaxPeers \<and> 0 < nl_Seq hdr then
         if SizeofNlMsghdr + SizeofRtMsg < nl_Len hdr then
           map_option (Pair st) (attr_loop st (nl_Seq hdr) (drop (SizeofNlMsghdr + SizeofRtMsg) remain) d)
         else Some (st, d)
       else map_option (\<lambda>st. (st, d)) (request_routes write_ok order d st)
     else Some (st, d))"

text \<open>The messages of one read. It never ends at a message of length 0, and panics where a handler does: both are
  \<open>None\<close>.\<close>

partial_function (option) route_messages ::
  "(nat \<Rightarrow> bool) \<Rightarrow> (pid list \<Rightarrow> pid list) \<Rightarrow> bytes \<Rightarrow> listener \<times> Device \<Rightarrow> (listener \<times> Device) option" where
  [code]: "route_messages write_ok order remain s =
     (if length remain < SizeofNlMsghdr then Some s
      else
        let hdr = get_NlMsghdr remain in
        if length remain < nl_Len hdr then Some s
        else do {
          s \<leftarrow> handle_route write_ok order remain s;
          route_messages write_ok order (drop (nl_Len hdr) remain) s
        })"

text \<open>The listener over the reads that succeed before it is cancelled.\<close>

definition routineRouteListener ::
  "(nat \<Rightarrow> bool) \<Rightarrow> (pid list \<Rightarrow> pid list) \<Rightarrow> bytes list \<Rightarrow> Device \<Rightarrow> (listener \<times> Device) option" where
  "routineRouteListener write_ok order msgs d =
     each (\<lambda>msg s. route_messages write_ok order msg s) msgs (\<lparr>reqPeer = None, nl_written = []\<rparr>, d)"

end
