(* ===== verification/Route_Facts.thy ===== *)
theory Route_Facts
  imports Route_Listener
begin

text \<open>
  The listener for routes: what it changes of a device, and the messages that keep it in its loop.
\<close>

section \<open>What the listener changes\<close>

text \<open>The peers of a device that can be asked for, and the device with the flags of some peers set.\<close>

definition asked :: "Device \<Rightarrow> pid set" where
  "asked d = {p \<in> snd ` set (keyMap d). \<exists>ep. ep_val (peers d p) = Some ep \<and> length (ep_addr ep) = 4 \<and> SrcIfidx ep \<noteq> 0}"

definition with_flags :: "pid set \<Rightarrow> Device \<Rightarrow> Device" where
  "with_flags S d = d\<lparr>peers := \<lambda>p. if p \<in> S then (peers d p)\<lparr>clearSrcOnTx := True\<rparr> else peers d p\<rparr>"

lemma with_flags_simps [simp]:
  "keyMap (with_flags S d) = keyMap d" "ep_val (peers (with_flags S d) p) = ep_val (peers d p)"
  "net_fwmark (with_flags S d) = net_fwmark d" "asked (with_flags S d) = asked d"
  "with_flags {} d = d" "with_flags S (with_flags T d) = with_flags (S \<union> T) d"
  by (auto simp: with_flags_def asked_def fun_eq_iff)

lemma flag_peer: "upd_peer p (\<lambda>P. P\<lparr>clearSrcOnTx := True\<rparr>) d = with_flags {p} d"
  by (auto simp: upd_peer_def with_flags_def fun_eq_iff)

definition asked_only :: "Device \<Rightarrow> listener \<Rightarrow> bool" where
  "asked_only d st = (case reqPeer st of None \<Rightarrow> True | Some m \<Rightarrow> ran m \<subseteq> asked d)"

lemma asked_only_flags [simp]: "asked_only (with_flags S d) st = asked_only d st"
  by (simp add: asked_only_def split: option.split)

lemma attr_loop_flags:
  "attr_loop st seq attr d = Some d' \<Longrightarrow> asked_only d st \<Longrightarrow> \<exists>S \<subseteq> asked d. d' = with_flags S d"
proof (induction "length attr" arbitrary: attr d rule: less_induct)
  case less
  let ?rest = "drop (rta_Len (get_RtAttr attr)) attr"
  have none: "\<exists>S \<subseteq> asked d. d = with_flags S d" by (rule exI [of _ "{}"]) simp
  show ?case
  proof (cases "length attr < SizeofRtAttr \<or> rta_Len (get_RtAttr attr) < SizeofRtAttr \<or> length attr < rta_Len (get_RtAttr attr)")
    case True
    then show ?thesis using less.prems(1) none by (subst (asm) attr_loop.simps) (auto simp: Let_def split: if_splits)
  next
    case False
    then have shorter: "length ?rest < length attr" by (auto simp: SizeofRtAttr_def)
    have "d' = d \<or> attr_loop st seq ?rest d = Some d'
      \<or> (\<exists>m p. reqPeer st = Some m \<and> m seq = Some p \<and> attr_loop st seq ?rest (with_flags {p} d) = Some d')"
      using less.prems(1) [unfolded attr_loop.simps [of st seq attr d] Let_def flag_peer] False
      by (simp split: if_splits option.splits)
    then consider "d' = d" | "attr_loop st seq ?rest d = Some d'"
      | m p where "reqPeer st = Some m" "m seq = Some p" "attr_loop st seq ?rest (with_flags {p} d) = Some d'"
      by blast
    then show ?thesis
    proof cases
      case 3
      then have p: "p \<in> asked d" using less.prems(2) by (auto simp: asked_only_def ran_def)
      obtain S where "S \<subseteq> asked d" "d' = with_flags S (with_flags {p} d)"
        using less.hyps [OF shorter 3(3)] less.prems(2) by auto
      then show ?thesis using p by (intro exI [of _ "insert p S"]) simp
    qed (use none less.hyps [OF shorter] less.prems(2) in auto)
  qed
qed

lemma As4_length: "As4 a = Some b \<Longrightarrow> length a = 4 \<or> length a = 16"
  by (auto simp: As4_def split: if_splits)

lemma request_loop_asked:
  "request_loop w d i ps st = Some st' \<Longrightarrow> set ps \<subseteq> snd ` set (keyMap d) \<Longrightarrow> asked_only d st \<Longrightarrow> asked_only d st'"
proof (induction ps arbitrary: i st)
  case (Cons p ps)
  show ?case
  proof (cases "ep_val (peers d p)")
    case None
    then show ?thesis using Cons by auto
  next
    case (Some ep)
    show ?thesis
    proof (cases "length (ep_addr ep) = 16 \<or> SrcIfidx ep = 0")
      case True
      then show ?thesis using Cons.prems Some by simp
    next
      case False
      then obtain dst src where a: "As4 (ep_addr ep) = Some dst" "As4 (SrcIP ep) = Some src"
        using Cons.prems(1) Some by (auto split: option.splits)
      let ?st = "st\<lparr>reqPeer := map_option (\<lambda>m. m(i \<mapsto> p)) (reqPeer st)\<rparr>"
      have "p \<in> asked d" using Cons.prems(2) Some False As4_length [OF a(1)] by (auto simp: asked_def)
      then have "asked_only d ?st"
        using Cons.prems(3) by (auto simp: asked_only_def ran_def split: option.splits)
      then have "asked_only d (?st\<lparr>nl_written := x\<rparr>)" for x by (simp add: asked_only_def)
      then show ?thesis using Cons.prems Cons.IH False Some a \<open>asked_only d ?st\<close>
        by (auto simp: Let_def split: if_splits)
    qed
  qed
qed simp

lemma handle_route_flags:
  assumes "handle_route w order remain (st, d) = Some (st', d')" "asked_only d st" "\<And>xs. set (order xs) = set xs"
  shows "asked_only d st' \<and> (\<exists>S \<subseteq> asked d. d' = with_flags S d)"
proof -
  have n: "\<exists>S \<subseteq> asked d. d = with_flags S d" by (rule exI [of _ "{}"]) simp
  have r: "asked_only d st'" if "request_routes w order d st = Some st'"
    using request_loop_asked [OF that [unfolded request_routes_def]] assms(3) by (auto simp: asked_only_def)
  show ?thesis using assms(1,2) n r attr_loop_flags
    by (auto simp: handle_route_def Let_def split: if_splits)
qed

definition flagged :: "listener \<times> Device \<Rightarrow> listener \<times> Device \<Rightarrow> bool" where
  "flagged s s' \<longleftrightarrow>
     (asked_only (snd s) (fst s) \<longrightarrow> asked_only (snd s') (fst s') \<and> (\<exists>S \<subseteq> asked (snd s). snd s' = with_flags S (snd s)))"

lemma flagged_refl: "flagged s s"
  unfolding flagged_def by (intro impI conjI exI [of _ "{}"]) simp_all

lemma flagged_trans:
  assumes "flagged s t" "flagged t u"
  shows "flagged s u"
  unfolding flagged_def
proof
  assume "asked_only (snd s) (fst s)"
  then obtain S where S: "asked_only (snd t) (fst t)" "S \<subseteq> asked (snd s)" "snd t = with_flags S (snd s)"
    using assms(1) by (auto simp: flagged_def)
  then obtain T where T: "asked_only (snd u) (fst u)" "T \<subseteq> asked (snd t)" "snd u = with_flags T (snd t)"
    using assms(2) by (auto simp: flagged_def)
  then show "asked_only (snd u) (fst u) \<and> (\<exists>S \<subseteq> asked (snd s). snd u = with_flags S (snd s))"
    using S by (intro conjI exI [of _ "T \<union> S"]) auto
qed

lemma handle_route_flagged:
  assumes "handle_route w order remain s = Some s'" "\<And>xs. set (order xs) = set xs"
  shows "flagged s s'"
proof -
  obtain st d st' d' where s: "s = (st, d)" "s' = (st', d')" by (cases s; cases s')
  show ?thesis
    unfolding flagged_def s using handle_route_flags [OF assms(1) [unfolded s] _ assms(2)] by auto
qed

lemma route_messages_flagged:
  assumes "route_messages w order remain s = Some s'" "\<And>xs. set (order xs) = set xs"
  shows "flagged s s'"
proof -
  have "(\<forall>xs. set (order xs) = set xs) \<longrightarrow> flagged s s'"
  proof (rule route_messages.raw_induct [of "\<lambda>w order remain s s'. (\<forall>xs. set (order xs) = set xs) \<longrightarrow> flagged s s'", OF _ assms(1)], intro impI)
    fix f w and order :: "pid list \<Rightarrow> pid list" and remain s y
    assume IH: "\<And>w order remain s y. f w order remain s = Some y \<Longrightarrow> (\<forall>xs. set (order xs) = set xs) \<longrightarrow> flagged s y"
      and o: "\<forall>xs. set (order xs) = set xs"
      and e: "(if length remain < SizeofNlMsghdr then Some s
        else let hdr = get_NlMsghdr remain in
          if length remain < nl_Len hdr then Some s
          else do { s \<leftarrow> handle_route w order remain s; f w order (drop (nl_Len hdr) remain) s }) = Some y"
    consider "y = s" | t r where "handle_route w order remain s = Some t" "f w order r t = Some y"
      using e by (auto simp: Let_def bind_eq_Some_conv split: if_splits)
    then show "flagged s y"
    proof cases
      case 2
      have "flagged s t" using handle_route_flagged [OF 2(1)] o by blast
      moreover have "flagged t y" using IH [OF 2(2)] o by blast
      ultimately show ?thesis by (rule flagged_trans)
    qed (simp add: flagged_refl)
  qed
  then show ?thesis using assms(2) by blast
qed

lemma each_flagged:
  "each (\<lambda>msg s. route_messages w order msg s) msgs s = Some s' \<Longrightarrow> (\<And>xs. set (order xs) = set xs) \<Longrightarrow> flagged s s'"
proof (induction msgs arbitrary: s)
  case (Cons m msgs)
  then obtain t where t: "route_messages w order m s = Some t" "each (\<lambda>msg s. route_messages w order msg s) msgs t = Some s'"
    by (auto simp: bind_eq_Some_conv)
  show ?case
    using flagged_trans [OF route_messages_flagged [OF t(1)]] Cons.IH [OF t(2)] Cons.prems(2) by blast
qed (simp add: flagged_refl)

text \<open>C35. Whatever the kernel sends, the listener for routes changes nothing of a device but the marks that make peers
  forget their source address, and sets them only for peers of the device that are reached over IPv4 and have one.\<close>

theorem route_listener_sets_flags:
  assumes "routineRouteListener w order msgs d = Some (st, d')" "\<And>xs. set (order xs) = set xs"
  shows "\<exists>S \<subseteq> asked d. d' = with_flags S d"
proof -
  have "flagged (\<lparr>reqPeer = None, nl_written = []\<rparr>, d) (st, d')"
    using each_flagged [OF assms(1) [unfolded routineRouteListener_def]] assms(2) by blast
  then show ?thesis by (simp add: flagged_def asked_only_def)
qed

text \<open>A peer over IPv4 whose packets arrived at the interface 3; the kernel announces a change and then that packets to it
  leave over the interface 7.\<close>

definition arrived_at_3 :: Endpoint where
  "arrived_at_3 = \<lparr>ep_addr = [192, 0, 2, 1], ep_port = 51820, ep_src = replicate 16 0 @ [3, 0, 0, 0] @ [10, 0, 0, 1] @ replicate 8 0\<rparr>"

definition routed_peer :: Device where
  "routed_peer = zero_Device\<lparr>keyMap := [([], 7)], peers := (\<lambda>_. new_Peer\<lparr>ep_val := Some arrived_at_3\<rparr>)\<rparr>"

definition route_changed :: bytes where
  "route_changed = [16, 0, 0, 0, 24, 0, 0, 0] @ replicate 8 0"

definition route_answer :: bytes where
  "route_answer = [36, 0, 0, 0, 24, 0, 0, 0, 1, 0, 0, 0] @ replicate 4 0 @ replicate 12 0 @ [8, 0, 4, 0, 7, 0, 0, 0]"

lemma arrived: "SrcIfidx arrived_at_3 = 3" "SrcIP arrived_at_3 = [10, 0, 0, 1]" "ep_addr arrived_at_3 = [192, 0, 2, 1]"
  by code_simp+

lemma route_headers:
  "get_NlMsghdr route_changed = \<lparr>nl_Len = 16, nl_Type = 24, nl_Seq = 0\<rparr>" "length route_changed = 16"
  "get_NlMsghdr route_answer = \<lparr>nl_Len = 36, nl_Type = 24, nl_Seq = 1\<rparr>" "length route_answer = 36"
  "drop 28 route_answer = [8, 0, 4, 0, 7, 0, 0, 0]"
  "get_RtAttr [8, 0, 4, 0, 7, 0, 0, 0] = \<lparr>rta_Len = 8, rta_Type = 4\<rparr>" "get_u32_le [7, 0, 0, 0] = 7"
  by code_simp+

lemmas route_consts = SizeofNlMsghdr_def SizeofRtMsg_def SizeofRtAttr_def RTM_NEWROUTE_def RTM_DELROUTE_def RTA_OIF_def MaxPeers_def

lemma route_messages_one:
  assumes "SizeofNlMsghdr \<le> length remain" "nl_Len (get_NlMsghdr remain) = length remain"
  shows "route_messages w order remain s = handle_route w order remain s"
proof -
  have "route_messages w order [] t = Some t" for t by (subst route_messages.simps) (simp add: route_consts)
  then have e: "route_messages w order [] = Some" by (rule ext)
  show ?thesis using assms by (subst route_messages.simps) (simp add: Let_def e)
qed

lemma listener_run:
  "case routineRouteListener (\<lambda>_. True) id [route_changed, route_answer] routed_peer of
     None \<Rightarrow> False
   | Some (st, d') \<Rightarrow> clearSrcOnTx (peers d' 7) \<and> length (nl_written st) = 1"
proof -
  have p: "ep_val (peers routed_peer p) = Some arrived_at_3" "keyMap routed_peer = [([], 7)]" for p
    by (simp_all add: routed_peer_def)
  have a: "As4 [192, 0, 2, 1] = Some [192, 0, 2, 1]" "As4 [10, 0, 0, 1] = Some [10, 0, 0, 1]" by (simp_all add: As4_def)
  let ?st = "\<lparr>reqPeer = Some [1 \<mapsto> 7], nl_written = [route_request 1 [192, 0, 2, 1] [10, 0, 0, 1] (net_fwmark routed_peer)]\<rparr>"
  have 1: "handle_route (\<lambda>_. True) id route_changed (\<lparr>reqPeer = None, nl_written = []\<rparr>, routed_peer) = Some (?st, routed_peer)"
    by (simp add: handle_route_def route_headers route_consts request_routes_def p arrived a Let_def)
  have "attr_loop ?st 1 [8, 0, 4, 0, 7, 0, 0, 0] routed_peer = Some (with_flags {7} routed_peer)"
    by (subst attr_loop.simps) (simp add: route_headers route_consts p arrived attr_loop.simps [of _ _ "[]"] flag_peer)
  then have 2: "handle_route (\<lambda>_. True) id route_answer (?st, routed_peer) = Some (?st, with_flags {7} routed_peer)"
    by (simp add: handle_route_def route_headers route_consts)
  have "routineRouteListener (\<lambda>_. True) id [route_changed, route_answer] routed_peer = Some (?st, with_flags {7} routed_peer)"
    using 1 2 by (simp add: routineRouteListener_def route_messages_one route_headers route_consts)
  then show ?thesis by (simp add: with_flags_def)
qed

theorem route_listener_sets_flags_witness:
  "\<exists>st d'. routineRouteListener (\<lambda>_. True) id [route_changed, route_answer] routed_peer = Some (st, d') \<and>
     length (nl_written st) = 1 \<and> clearSrcOnTx (peers d' 7) \<and> (\<exists>S \<subseteq> asked routed_peer. d' = with_flags S routed_peer)"
proof -
  obtain st d' where r: "routineRouteListener (\<lambda>_. True) id [route_changed, route_answer] routed_peer = Some (st, d')"
    "clearSrcOnTx (peers d' 7)" "length (nl_written st) = 1"
    using listener_run by (auto split: option.splits)
  have "\<exists>S \<subseteq> asked routed_peer. d' = with_flags S routed_peer" using route_listener_sets_flags [OF r(1)] by simp
  then show ?thesis using r by blast
qed

section \<open>Messages without a length\<close>

lemma route_messages_length:
  assumes "route_messages w order remain s = Some s'"
  shows "nl_Len (get_NlMsghdr remain) \<noteq> 0 \<or> length remain < SizeofNlMsghdr"
proof (rule route_messages.raw_induct
    [of "\<lambda>w order remain s s'. nl_Len (get_NlMsghdr remain) \<noteq> 0 \<or> length remain < SizeofNlMsghdr", OF _ assms])
  fix f w order remain s y
  assume IH: "\<And>w order remain s y. f w order remain s = Some y \<Longrightarrow> nl_Len (get_NlMsghdr remain) \<noteq> 0 \<or> length remain < SizeofNlMsghdr"
    and e: "(if length remain < SizeofNlMsghdr then Some s
      else let hdr = get_NlMsghdr remain in
        if length remain < nl_Len hdr then Some s
        else do { s \<leftarrow> handle_route w order remain s; f w order (drop (nl_Len hdr) remain) s }) = Some y"
  show "nl_Len (get_NlMsghdr remain) \<noteq> 0 \<or> length remain < SizeofNlMsghdr"
  proof (rule ccontr)
    assume "\<not> ?thesis"
    moreover from this e obtain t where "f w order remain t = Some y" by (auto simp: Let_def bind_eq_Some_conv)
    ultimately show False using IH by blast
  qed
qed

text \<open>A message whose header gives the length 0 keeps the listener in its loop.\<close>

theorem empty_message_stops_listener:
  "SizeofNlMsghdr \<le> length remain \<Longrightarrow> nl_Len (get_NlMsghdr remain) = 0 \<Longrightarrow> route_messages w order remain s = None"
  using route_messages_length [of w order remain s] by (cases "route_messages w order remain s") auto

end
