(* ===== verification/Win_Ring.thy ===== *)
theory Win_Ring
  imports Prelude "HOL-Library.Monad_Syntax"
begin

text \<open>
  \<open>conn/bind_windows.go\<close>: the bind of Windows over registered I/O, with a ring of packets for each direction and
  family. The system is a parameter: the outcome of its \<open>n\<close>-th call. What the bind acquires and releases is recorded, and
  so are the requests it posts.
\<close>

section \<open>Endpoints\<close>

definition win_AF_INET :: u16 where "win_AF_INET = 2"
definition win_AF_INET6 :: u16 where "win_AF_INET6 = 23"

record WinRingEndpoint =
  we_family :: u16
  we_data :: bytes

definition win_DstIP :: "WinRingEndpoint \<Rightarrow> bytes" where
  "win_DstIP e =
     (if we_family e = win_AF_INET then go_slice 2 6 (we_data e)
      else if we_family e = win_AF_INET6 then go_slice 6 22 (we_data e)
      else [])"

definition win_DstToBytes :: "WinRingEndpoint \<Rightarrow> bytes" where
  "win_DstToBytes e =
     (if we_family e = win_AF_INET then go_slice 2 6 (we_data e) @ [we_data e ! 1, we_data e ! 0]
      else if we_family e = win_AF_INET6 then go_slice 6 22 (we_data e) @ [we_data e ! 1, we_data e ! 0]
      else [])"

section \<open>The ring\<close>

definition packetsPerRing :: nat where "packetsPerRing = 1024"
definition bytesPerPacket :: nat where "bytesPerPacket = 2048 - 32"
definition receiveSpins :: nat where "receiveSpins = 15"

text \<open>The handles of a ring are 0 when it has none.\<close>

record ringBuffer =
  rb_packets :: nat
  rb_id :: nat
  rb_iocp :: nat
  rb_cq :: nat
  rb_head :: u32
  rb_tail :: u32
  rb_isFull :: bool

definition zero_ring :: ringBuffer where
  "zero_ring = \<lparr>rb_packets = 0, rb_id = 0, rb_iocp = 0, rb_cq = 0, rb_head = 0, rb_tail = 0, rb_isFull = False\<rparr>"

text \<open>The slot of the packet; \<open>None\<close> is the panic on a full ring.\<close>

definition Push :: "ringBuffer \<Rightarrow> (nat \<times> ringBuffer) option" where
  "Push rb =
     (if rb_isFull rb then None
      else
        let slot = unat (rb_tail rb) mod packetsPerRing;
            rb = rb\<lparr>rb_tail := rb_tail rb + 1\<rparr>;
            rb = (if unat (rb_tail rb) mod packetsPerRing = unat (rb_head rb) mod packetsPerRing
                  then rb\<lparr>rb_isFull := True\<rparr> else rb)
        in Some (slot, rb))"

definition Return :: "nat \<Rightarrow> ringBuffer \<Rightarrow> ringBuffer" where
  "Return count rb =
     (if unat (rb_head rb) mod packetsPerRing = unat (rb_tail rb) mod packetsPerRing \<and> \<not> rb_isFull rb then rb
      else rb\<lparr>rb_head := rb_head rb + word_of_nat count, rb_isFull := False\<rparr>)"

section \<open>The system\<close>

datatype win_error = Sys_Error nat | Net_Closed | No_Progress | Short_Buffer | Already_Open

text \<open>A completion: its status, the bytes transferred and the slot that was posted.\<close>

record rio_result =
  rr_status :: nat
  rr_bytes :: nat
  rr_slot :: nat

text \<open>The \<open>n\<close>-th call gives a handle or none, fails or not, completes requests, and finds the bind open or not; memory may
  be written to by the system at any time.\<close>

record win_env =
  en_handle :: "nat \<Rightarrow> nat option"
  en_fails :: "nat \<Rightarrow> nat option"
  en_dequeue :: "nat \<Rightarrow> rio_result list"
  en_open :: "nat \<Rightarrow> bool"
  en_port :: "nat \<Rightarrow> u16"
  en_packet :: "nat \<Rightarrow> nat \<Rightarrow> WinRingEndpoint \<times> bytes"

record win_world =
  ww_calls :: nat
  ww_got :: "nat list"
  ww_freed :: "nat list"
  ww_posted :: "(nat \<times> WinRingEndpoint \<times> bytes) list"

definition acquire :: "win_env \<Rightarrow> win_world \<Rightarrow> nat option \<times> win_world" where
  "acquire E w =
     (case en_handle E (ww_calls w) of
        None \<Rightarrow> (None, w\<lparr>ww_calls := ww_calls w + 1\<rparr>)
      | Some h \<Rightarrow> (Some h, w\<lparr>ww_calls := ww_calls w + 1, ww_got := ww_got w @ [h]\<rparr>))"

definition sys_call :: "win_env \<Rightarrow> win_world \<Rightarrow> win_error option \<times> win_world" where
  "sys_call E w = (map_option Sys_Error (en_fails E (ww_calls w)), w\<lparr>ww_calls := ww_calls w + 1\<rparr>)"

definition release :: "nat \<Rightarrow> win_world \<Rightarrow> win_world" where
  "release h w = (if h \<noteq> 0 then w\<lparr>ww_freed := ww_freed w @ [h]\<rparr> else w)"

section \<open>Opening and closing\<close>

definition ring_CloseAndZero :: "ringBuffer \<Rightarrow> win_world \<Rightarrow> ringBuffer \<times> win_world" where
  "ring_CloseAndZero rb w =
     (zero_ring, release (rb_packets rb) (release (rb_id rb) (release (rb_iocp rb) (release (rb_cq rb) w))))"

record afWinRingBind =
  af_sock :: nat
  af_rx :: ringBuffer
  af_tx :: ringBuffer
  af_blackhole :: bool

definition zero_af :: afWinRingBind where
  "zero_af = \<lparr>af_sock = 0, af_rx = zero_ring, af_tx = zero_ring, af_blackhole = False\<rparr>"

definition af_CloseAndZero :: "afWinRingBind \<Rightarrow> win_world \<Rightarrow> afWinRingBind \<times> win_world" where
  "af_CloseAndZero b w =
     (let (rx, w) = ring_CloseAndZero (af_rx b) w; (tx, w) = ring_CloseAndZero (af_tx b) w
      in (b\<lparr>af_rx := rx, af_tx := tx, af_sock := 0, af_blackhole := False\<rparr>, release (af_sock b) w))"

text \<open>The state of the bind: 0 closed, 1 open, 2 closing.\<close>

record WinRingBind =
  wb_v4 :: afWinRingBind
  wb_v6 :: afWinRingBind
  wb_isOpen :: nat

definition zero_WinRingBind :: WinRingBind where
  "zero_WinRingBind = \<lparr>wb_v4 = zero_af, wb_v6 = zero_af, wb_isOpen = 0\<rparr>"

definition closeAndZero :: "WinRingBind \<Rightarrow> win_world \<Rightarrow> WinRingBind \<times> win_world" where
  "closeAndZero b w =
     (let (v4, w) = af_CloseAndZero (wb_v4 b) w; (v6, w) = af_CloseAndZero (wb_v6 b) w
      in (\<lparr>wb_v4 = v4, wb_v6 = v6, wb_isOpen = 0\<rparr>, w))"

definition ring_Open :: "win_env \<Rightarrow> ringBuffer \<Rightarrow> win_world \<Rightarrow> bool \<times> ringBuffer \<times> win_world" where
  "ring_Open E rb w =
     (case acquire E w of
        (None, w) \<Rightarrow> (False, rb\<lparr>rb_packets := 0\<rparr>, w)
      | (Some packets, w) \<Rightarrow>
          (let rb = rb\<lparr>rb_packets := packets\<rparr> in
           case acquire E w of
             (None, w) \<Rightarrow> (False, rb\<lparr>rb_id := 0\<rparr>, w)
           | (Some i, w) \<Rightarrow>
               (let rb = rb\<lparr>rb_id := i\<rparr> in
                case acquire E w of
                  (None, w) \<Rightarrow> (False, rb\<lparr>rb_iocp := 0\<rparr>, w)
                | (Some iocp, w) \<Rightarrow>
                    (let rb = rb\<lparr>rb_iocp := iocp\<rparr> in
                     case acquire E w of
                       (None, w) \<Rightarrow> (False, rb\<lparr>rb_cq := 0\<rparr>, w)
                     | (Some cq, w) \<Rightarrow> (True, rb\<lparr>rb_cq := cq\<rparr>, w)))))"

text \<open>The port that the socket is bound to.\<close>

definition af_Open :: "win_env \<Rightarrow> afWinRingBind \<Rightarrow> win_world \<Rightarrow> u16 option \<times> afWinRingBind \<times> win_world" where
  "af_Open E b w =
     (case acquire E w of
        (None, w) \<Rightarrow> (None, b\<lparr>af_sock := 0\<rparr>, w)
      | (Some sock, w) \<Rightarrow>
          (let b = b\<lparr>af_sock := sock\<rparr>; (ok, rx, w) = ring_Open E (af_rx b) w; b = b\<lparr>af_rx := rx\<rparr> in
           if \<not> ok then (None, b, w)
           else
             let (ok, tx, w) = ring_Open E (af_tx b) w; b = b\<lparr>af_tx := tx\<rparr> in
             if \<not> ok then (None, b, w)
             else
               let (err, w) = sys_call E w in
               if err \<noteq> None then (None, b, w)
               else
                 let (err, w) = sys_call E w in
                 if err \<noteq> None then (None, b, w)
                 else
                   let n = ww_calls w; (err, w) = sys_call E w in
                   if err \<noteq> None then (None, b, w) else (Some (en_port E n), b, w)))"

text \<open>Posting the next slot; \<open>None\<close> is the panic of a full ring.\<close>

definition InsertReceiveRequest :: "win_env \<Rightarrow> afWinRingBind \<Rightarrow> win_world \<Rightarrow> (win_error option \<times> afWinRingBind \<times> win_world) option" where
  "InsertReceiveRequest E b w =
     do { (slot, rx) \<leftarrow> Push (af_rx b);
          let (err, w) = sys_call E w;
          Some (err, b\<lparr>af_rx := rx\<rparr>, w) }"

fun insert_requests :: "win_env \<Rightarrow> nat \<Rightarrow> WinRingBind \<Rightarrow> win_world \<Rightarrow> (win_error option \<times> WinRingBind \<times> win_world) option" where
  "insert_requests E 0 b w = Some (None, b, w)"
| "insert_requests E (Suc k) b w =
     do { (err, v4, w) \<leftarrow> InsertReceiveRequest E (wb_v4 b) w;
          let b = b\<lparr>wb_v4 := v4\<rparr>;
          if err \<noteq> None then Some (err, b, w)
          else do {
            (err, v6, w) \<leftarrow> InsertReceiveRequest E (wb_v6 b) w;
            let b = b\<lparr>wb_v6 := v6\<rparr>;
            if err \<noteq> None then Some (err, b, w) else insert_requests E k b w
          } }"

text \<open>Opening: the port, or the error after which everything is closed, also when the bind was open before.\<close>

definition Win_Open :: "win_env \<Rightarrow> WinRingBind \<Rightarrow> win_world \<Rightarrow> ((win_error + u16) \<times> WinRingBind \<times> win_world) option" where
  "Win_Open E b w =
     (let failed = (\<lambda>e b w. Some (Inl e, closeAndZero b w)) in
      if wb_isOpen b \<noteq> 0 then failed Already_Open b w
      else
        let (port4, v4, w) = af_Open E (wb_v4 b) w; b = b\<lparr>wb_v4 := v4\<rparr> in
        case port4 of
          None \<Rightarrow> failed (Sys_Error 0) b w
        | Some _ \<Rightarrow>
            (let (port6, v6, w) = af_Open E (wb_v6 b) w; b = b\<lparr>wb_v6 := v6\<rparr> in
             case port6 of
               None \<Rightarrow> failed (Sys_Error 0) b w
             | Some port \<Rightarrow>
                 do { (err, b, w) \<leftarrow> insert_requests E packetsPerRing b w;
                      case err of Some e \<Rightarrow> failed e b w | None \<Rightarrow> Some (Inr port, b\<lparr>wb_isOpen := 1\<rparr>, w) }))"

definition Win_Close :: "WinRingBind \<Rightarrow> win_world \<Rightarrow> WinRingBind \<times> win_world" where
  "Win_Close b w = (if wb_isOpen b \<noteq> 1 then (b, w) else closeAndZero (b\<lparr>wb_isOpen := 2\<rparr>) w)"

section \<open>Receiving\<close>

definition WSAEMSGSIZE :: nat where "WSAEMSGSIZE = 10040"

definition load_open :: "win_env \<Rightarrow> win_world \<Rightarrow> bool \<times> win_world" where
  "load_open E w = (en_open E (ww_calls w), w\<lparr>ww_calls := ww_calls w + 1\<rparr>)"

text \<open>\<open>winrio.DequeueCompletion\<close> into room for \<open>k\<close> results.\<close>

definition dequeue :: "win_env \<Rightarrow> nat \<Rightarrow> win_world \<Rightarrow> rio_result list \<times> win_world" where
  "dequeue E k w = (take k (en_dequeue E (ww_calls w)), w\<lparr>ww_calls := ww_calls w + 1\<rparr>)"

fun win_spin :: "win_env \<Rightarrow> nat \<Rightarrow> bool \<Rightarrow> win_world \<Rightarrow> (win_error + rio_result option) \<times> win_world" where
  "win_spin E 0 first w = (Inr None, w)"
| "win_spin E (Suc k) first w =
     (let (opened, w) = (if first then (True, w) else load_open E w) in
      if \<not> opened then (Inl Net_Closed, w)
      else case dequeue E 1 w of
             ([], w) \<Rightarrow> win_spin E k False w
           | (r # _, w) \<Rightarrow> (Inr (Some r), w))"

text \<open>Waiting for a completion port, and what completes then.\<close>

definition wait_completion :: "win_env \<Rightarrow> nat \<Rightarrow> win_world \<Rightarrow> (win_error + rio_result list) \<times> win_world" where
  "wait_completion E k w =
     (case sys_call E w of
        (Some e, w) \<Rightarrow> (Inl e, w)
      | (None, w) \<Rightarrow>
          (case sys_call E w of
             (Some e, w) \<Rightarrow> (Inl e, w)
           | (None, w) \<Rightarrow>
               (case load_open E w of
                  (False, w) \<Rightarrow> (Inl Net_Closed, w)
                | (True, w) \<Rightarrow>
                    (case dequeue E k w of ([], w) \<Rightarrow> (Inl No_Progress, w) | (r # rs, w) \<Rightarrow> (Inr (r # rs), w)))))"

definition await_packet :: "win_env \<Rightarrow> win_world \<Rightarrow> (win_error + rio_result) \<times> win_world" where
  "await_packet E w =
     (case win_spin E receiveSpins True w of
        (Inl e, w) \<Rightarrow> (Inl e, w)
      | (Inr (Some r), w) \<Rightarrow> (Inr r, w)
      | (Inr None, w) \<Rightarrow>
          (case wait_completion E 1 w of (Inl e, w) \<Rightarrow> (Inl e, w) | (Inr rs, w) \<Rightarrow> (Inr (hd rs), w)))"

text \<open>One turn up to the retry after a packet that was too long. The slot of the completed request is posted again before
  the packet is copied out of it, so that the copy is of what the memory holds by then.\<close>

datatype received_packet = Win_Retry | Win_Error win_error | Win_Packet bytes WinRingEndpoint

definition receive_turn ::
  "win_env \<Rightarrow> nat \<Rightarrow> afWinRingBind \<Rightarrow> win_world \<Rightarrow> (received_packet \<times> afWinRingBind \<times> win_world) option" where
  "receive_turn E len_buf b w =
     (case await_packet E w of
        (Inl e, w) \<Rightarrow> Some (Win_Error e, b, w)
      | (Inr r, w) \<Rightarrow>
          do { (err, b, w) \<leftarrow> InsertReceiveRequest E (b\<lparr>af_rx := Return 1 (af_rx b)\<rparr>) w;
               case err of
                 Some e \<Rightarrow> Some (Win_Error e, b, w)
               | None \<Rightarrow>
                   if rr_status r = WSAEMSGSIZE then
                     (let (opened, w) = load_open E w in Some (if opened then Win_Retry else Win_Error Net_Closed, b, w))
                   else if rr_status r \<noteq> 0 then Some (Win_Error (Sys_Error (rr_status r)), b, w)
                   else
                     let (ep, data) = en_packet E (ww_calls w) (rr_slot r)
                     in Some (Win_Packet (take len_buf (take (rr_bytes r) data)) ep, b, w) })"

partial_function (option) receive_turns ::
  "win_env \<Rightarrow> nat \<Rightarrow> afWinRingBind \<Rightarrow> win_world \<Rightarrow> (received_packet \<times> afWinRingBind \<times> win_world) option" where
  [code]: "receive_turns E len_buf b w =
     do { (res, b, w) \<leftarrow> receive_turn E len_buf b w;
          if res = Win_Retry then receive_turns E len_buf b w else Some (res, b, w) }"

definition af_Receive ::
  "win_env \<Rightarrow> nat \<Rightarrow> afWinRingBind \<Rightarrow> win_world \<Rightarrow> (received_packet \<times> afWinRingBind \<times> win_world) option" where
  "af_Receive E len_buf b w =
     (let (opened, w) = load_open E w
      in if \<not> opened then Some (Win_Error Net_Closed, b, w) else receive_turns E len_buf b w)"

section \<open>Sending\<close>

definition af_Send ::
  "win_env \<Rightarrow> bytes \<Rightarrow> WinRingEndpoint \<Rightarrow> afWinRingBind \<Rightarrow> win_world \<Rightarrow> (win_error option \<times> afWinRingBind \<times> win_world) option" where
  "af_Send E buf nend b w =
     (let (opened, w) = load_open E w in
      if \<not> opened then Some (Some Net_Closed, b, w)
      else if bytesPerPacket < length buf then Some (Some Short_Buffer, b, w)
      else
        let (results, w) = dequeue E packetsPerRing w;
            (results, w) = (if results = [] \<and> rb_isFull (af_tx b) then wait_completion E packetsPerRing w else (Inr results, w))
        in case results of
             Inl e \<Rightarrow> Some (Some e, b, w)
           | Inr results \<Rightarrow>
               let tx = (if 0 < length results then Return (length results) (af_tx b) else af_tx b) in
               do { (slot, tx) \<leftarrow> Push tx;
                    let (err, w) = sys_call E (w\<lparr>ww_posted := ww_posted w @ [(slot, nend, buf)]\<rparr>);
                    Some (err, b\<lparr>af_tx := tx\<rparr>, w) })"

fun Win_Send :: "win_env \<Rightarrow> bytes list \<Rightarrow> WinRingEndpoint \<Rightarrow> WinRingBind \<Rightarrow> win_world \<Rightarrow> (win_error option \<times> WinRingBind \<times> win_world) option" where
  "Win_Send E [] nend b w = Some (None, b, w)"
| "Win_Send E (buf # bufs) nend b w =
     (if we_family nend = win_AF_INET then
        if af_blackhole (wb_v4 b) then Win_Send E bufs nend b w
        else do { (err, v4, w) \<leftarrow> af_Send E buf nend (wb_v4 b) w;
                  let b = b\<lparr>wb_v4 := v4\<rparr>;
                  if err \<noteq> None then Some (err, b, w) else Win_Send E bufs nend b w }
      else if we_family nend = win_AF_INET6 then
        if af_blackhole (wb_v6 b) then Win_Send E bufs nend b w
        else do { (err, v6, w) \<leftarrow> af_Send E buf nend (wb_v6 b) w;
                  let b = b\<lparr>wb_v6 := v6\<rparr>;
                  if err \<noteq> None then Some (err, b, w) else Win_Send E bufs nend b w }
      else Win_Send E bufs nend b w)"

end
