(* ===== verification/Win_Facts.thy ===== *)
theory Win_Facts
  imports Win_Ring "HOL-Library.Multiset"
begin

text \<open>
  The bind of Windows: its ring as a bounded queue, what opening it acquires and releases, and that no ring is overrun.
\<close>

section \<open>The ring as a queue\<close>

definition outstanding :: "ringBuffer \<Rightarrow> nat" where
  "outstanding rb = unat (rb_tail rb - rb_head rb)"

definition ring_ok :: "ringBuffer \<Rightarrow> bool" where
  "ring_ok rb \<longleftrightarrow> outstanding rb \<le> packetsPerRing \<and> (rb_isFull rb \<longleftrightarrow> outstanding rb = packetsPerRing)"

text \<open>The slots that are posted, in the order they were.\<close>

definition slots :: "ringBuffer \<Rightarrow> nat list" where
  "slots rb = map (\<lambda>i. (unat (rb_head rb) + i) mod packetsPerRing) [0..<outstanding rb]"

lemma length_slots [simp]: "length (slots rb) = outstanding rb"
  by (simp add: slots_def)

lemma unat_plus_mod: "unat (w + word_of_nat k :: u32) mod 1024 = (unat w + k) mod 1024"
proof -
  have "unat (w + word_of_nat k) = (unat w + k) mod 2 ^ 32"
    by (simp add: unat_word_ariths unat_of_nat mod_add_right_eq)
  moreover have "(unat w + k) mod 2 ^ 32 mod 1024 = (unat w + k) mod 1024" by (rule mod_mod_cancel) simp
  ultimately show ?thesis by simp
qed

lemma mod_add_cancel: "(a + i) mod n = (a + j) mod n \<longleftrightarrow> i mod n = (j :: nat) mod n"
proof (cases "j \<le> i")
  case False
  then have "(a + j) mod n = (a + i) mod n \<longleftrightarrow> j mod n = i mod n" by (simp add: mod_eq_dvd_iff_nat)
  then show ?thesis by (simp only: eq_commute)
qed (simp add: mod_eq_dvd_iff_nat)

lemma mod_0_small: "k mod 1024 = 0 \<Longrightarrow> k \<le> 1024 \<Longrightarrow> k = 0 \<or> k = (1024 :: nat)"
  by (cases "k < 1024") auto

lemma tail_eq: "rb_tail rb = rb_head rb + word_of_nat (outstanding rb)"
  by (simp add: outstanding_def)

lemma tail_slot: "unat (rb_tail rb) mod packetsPerRing = (unat (rb_head rb) + outstanding rb) mod packetsPerRing"
  unfolding packetsPerRing_def by (subst tail_eq) (rule unat_plus_mod)

lemma same_slot:
  "ring_ok rb \<Longrightarrow> unat (rb_head rb) mod packetsPerRing = unat (rb_tail rb) mod packetsPerRing \<longleftrightarrow>
     outstanding rb = 0 \<or> outstanding rb = packetsPerRing"
proof -
  assume "ring_ok rb"
  then have "outstanding rb \<le> 1024" by (simp add: ring_ok_def packetsPerRing_def)
  moreover have "(unat (rb_head rb) mod 1024 = (unat (rb_head rb) + outstanding rb) mod 1024) = (outstanding rb mod 1024 = 0)"
    using mod_add_cancel [of "unat (rb_head rb)" 0 1024 "outstanding rb"] by (simp only: add_0_right mod_0 eq_commute)
  moreover have "unat (rb_tail rb) mod 1024 = (unat (rb_head rb) + outstanding rb) mod 1024"
    using tail_slot [of rb] by (simp only: packetsPerRing_def)
  ultimately show ?thesis
    unfolding packetsPerRing_def using mod_0_small [of "outstanding rb"] by (metis mod_0 mod_self)
qed

lemma mod_add_inj: "(a + i) mod 1024 = (a + j) mod 1024 \<Longrightarrow> i < 1024 \<Longrightarrow> j < 1024 \<Longrightarrow> i = (j :: nat)"
  by (simp add: mod_add_cancel)

lemma distinct_slots: "ring_ok rb \<Longrightarrow> distinct (slots rb)"
  unfolding slots_def distinct_map
  by (auto simp: ring_ok_def packetsPerRing_def intro!: inj_onI dest!: mod_add_inj)

lemma Push_spec:
  assumes "ring_ok rb" "outstanding rb < packetsPerRing"
  shows "\<exists>rb'. Push rb = Some (unat (rb_tail rb) mod packetsPerRing, rb') \<and> ring_ok rb' \<and> outstanding rb' = outstanding rb + 1 \<and>
    slots rb' = slots rb @ [unat (rb_tail rb) mod packetsPerRing]"
proof -
  let ?rb = "rb\<lparr>rb_tail := rb_tail rb + 1\<rparr>"
  have k: "outstanding rb < 1024" and nf: "\<not> rb_isFull rb" using assms by (auto simp: ring_ok_def packetsPerRing_def)
  have t: "rb_tail rb + 1 - rb_head rb = word_of_nat (outstanding rb + 1)"
    by (simp add: outstanding_def)
  have o: "outstanding ?rb = outstanding rb + 1"
  proof -
    have "outstanding ?rb = unat (word_of_nat (outstanding rb + 1) :: u32)" unfolding t [symmetric] by (simp add: outstanding_def)
    also have "\<dots> = outstanding rb + 1" using k by (simp only: unat_of_nat) simp
    finally show ?thesis .
  qed
  have h: "rb_head ?rb = rb_head rb" by simp
  have "unat (rb_tail ?rb) mod 1024 = (unat (rb_head rb) + (outstanding rb + 1)) mod 1024"
    using tail_slot [of ?rb] by (simp only: packetsPerRing_def h o)
  moreover have "((unat (rb_head rb) + (outstanding rb + 1)) mod 1024 = unat (rb_head rb) mod 1024) = ((outstanding rb + 1) mod 1024 = 0)"
    using mod_add_cancel [of "unat (rb_head rb)" "outstanding rb + 1" 1024 0] by (simp only: add_0_right mod_0)
  moreover have "((outstanding rb + 1) mod 1024 = 0) = (outstanding rb + 1 = 1024)"
    using mod_0_small [of "outstanding rb + 1"] k by (metis Suc_eq_plus1 Suc_leI mod_self nat.distinct(2))
  ultimately have "unat (rb_tail ?rb) mod 1024 = unat (rb_head ?rb) mod 1024 \<longleftrightarrow> outstanding ?rb = 1024"
    unfolding o h by (simp only:)
  then have p: "Push rb = Some (unat (rb_tail rb) mod packetsPerRing,
      if outstanding ?rb = packetsPerRing then ?rb\<lparr>rb_isFull := True\<rparr> else ?rb)"
    using nf by (simp add: Push_def Let_def packetsPerRing_def)
  have s: "slots ?rb = slots rb @ [unat (rb_tail rb) mod packetsPerRing]"
    unfolding slots_def o tail_slot by simp
  have "outstanding (?rb\<lparr>rb_isFull := True\<rparr>) = outstanding ?rb" "slots (?rb\<lparr>rb_isFull := True\<rparr>) = slots ?rb"
    by (simp_all add: outstanding_def slots_def)
  then show ?thesis unfolding p using k o nf s by (simp add: ring_ok_def packetsPerRing_def)
qed

lemma Return_spec:
  assumes "ring_ok rb" "0 < c" "c \<le> outstanding rb"
  shows "ring_ok (Return c rb)" "slots (Return c rb) = drop c (slots rb)" "outstanding (Return c rb) = outstanding rb - c"
proof -
  let ?rb = "rb\<lparr>rb_head := rb_head rb + word_of_nat c, rb_isFull := False\<rparr>"
  have k: "outstanding rb \<le> 1024" using assms(1) by (simp add: ring_ok_def packetsPerRing_def)
  have r: "Return c rb = ?rb"
    using same_slot [OF assms(1)] assms by (auto simp: Return_def ring_ok_def)
  have "rb_tail rb - (rb_head rb + word_of_nat c) = word_of_nat (outstanding rb - c)"
    using assms(3) by (simp add: outstanding_def of_nat_diff)
  then have o: "outstanding ?rb = outstanding rb - c"
    unfolding outstanding_def [of ?rb] using k by (simp add: unat_of_nat)
  then show "outstanding (Return c rb) = outstanding rb - c" "ring_ok (Return c rb)"
    unfolding r using k assms(2,3) by (auto simp: ring_ok_def packetsPerRing_def)
  have "(unat (rb_head rb + word_of_nat c) + i) mod 1024 = (unat (rb_head rb) + (c + i)) mod 1024" for i
    using mod_add_cong [OF unat_plus_mod [of "rb_head rb" c] refl [of "i mod 1024"]] by (simp only: add.assoc)
  then show "slots (Return c rb) = drop c (slots rb)"
    unfolding r slots_def o drop_map packetsPerRing_def
    by (auto intro!: nth_equalityI)
qed

text \<open>C36. The ring, with its counters of 32 bits that wrap around, is a queue of at most 1024 slots, none of them
  twice: \<open>Push\<close> appends a slot, and fails exactly when there are 1024; \<open>Return\<close> takes slots off the front.\<close>

theorem ring_is_bounded_queue:
  assumes "ring_ok rb"
  shows "distinct (slots rb) \<and>
    (case Push rb of
       None \<Rightarrow> length (slots rb) = packetsPerRing
     | Some (slot, rb') \<Rightarrow> ring_ok rb' \<and> slots rb' = slots rb @ [slot] \<and> length (slots rb') \<le> packetsPerRing) \<and>
    (\<forall>c. 0 < c \<and> c \<le> length (slots rb) \<longrightarrow> ring_ok (Return c rb) \<and> slots (Return c rb) = drop c (slots rb))"
proof (cases "outstanding rb = packetsPerRing")
  case True
  then have "Push rb = None" using assms by (simp add: ring_ok_def Push_def)
  then show ?thesis using True distinct_slots [OF assms] Return_spec [OF assms] by simp
next
  case False
  then have "outstanding rb < packetsPerRing" using assms by (simp add: ring_ok_def)
  from Push_spec [OF assms this] obtain rb' where "Push rb = Some (unat (rb_tail rb) mod packetsPerRing, rb')" "ring_ok rb'"
    "slots rb' = slots rb @ [unat (rb_tail rb) mod packetsPerRing]" by blast
  then show ?thesis using distinct_slots [OF assms] Return_spec [OF assms] by (simp add: ring_ok_def)
qed

definition wrapped_ring :: ringBuffer where
  "wrapped_ring = zero_ring\<lparr>rb_head := 0xFFFFFFFF, rb_tail := 1\<rparr>"

theorem ring_is_bounded_queue_witness:
  "slots wrapped_ring = [1023, 0] \<and> slots (Return 1 wrapped_ring) = [0] \<and>
   (\<exists>rb'. Push wrapped_ring = Some (1, rb') \<and> slots rb' = [1023, 0, 1])"
proof -
  have o: "outstanding wrapped_ring = 2" by (simp add: outstanding_def wrapped_ring_def)
  then have ok: "ring_ok wrapped_ring" by (simp add: ring_ok_def packetsPerRing_def wrapped_ring_def zero_ring_def)
  have s: "slots wrapped_ring = [1023, 0]" unfolding slots_def o by (simp add: packetsPerRing_def upt_rec wrapped_ring_def)
  obtain rb' where p: "Push wrapped_ring = Some (1, rb')" by (simp add: Push_def wrapped_ring_def zero_ring_def packetsPerRing_def)
  have r: "slots (Return 1 wrapped_ring) = drop 1 (slots wrapped_ring)" "slots rb' = slots wrapped_ring @ [1]"
    using ring_is_bounded_queue [OF ok] o p by (simp_all del: One_nat_def)
  then show ?thesis using s p by simp
qed

section \<open>Handles\<close>

definition ring_handles :: "ringBuffer \<Rightarrow> nat list" where
  "ring_handles rb = filter (\<lambda>h. h \<noteq> 0) [rb_packets rb, rb_id rb, rb_iocp rb, rb_cq rb]"

definition af_handles :: "afWinRingBind \<Rightarrow> nat list" where
  "af_handles b = ring_handles (af_rx b) @ ring_handles (af_tx b) @ filter (\<lambda>h. h \<noteq> 0) [af_sock b]"

text \<open>What was acquired and neither released nor is held.\<close>

definition balanced :: "win_world \<Rightarrow> nat list \<Rightarrow> bool" where
  "balanced w held \<longleftrightarrow> mset (ww_got w) = mset (ww_freed w) + mset held"

lemma release_freed [simp]:
  "ww_got (release h w) = ww_got w" "mset (ww_freed (release h w)) = mset (ww_freed w) + mset (filter (\<lambda>h. h \<noteq> 0) [h])"
  by (simp_all add: release_def)

lemma ring_CloseAndZero_balanced:
  "balanced w (ring_handles rb @ held) \<Longrightarrow> ring_CloseAndZero rb w = (rb', w') \<Longrightarrow> rb' = zero_ring \<and> balanced w' held"
  by (auto simp: ring_CloseAndZero_def balanced_def ring_handles_def simp del: filter.simps)

lemma af_CloseAndZero_balanced:
  "balanced w (af_handles b @ held) \<Longrightarrow> af_CloseAndZero b w = (b', w') \<Longrightarrow> b' = zero_af \<and> balanced w' held"
proof -
  assume bal: "balanced w (af_handles b @ held)" and c: "af_CloseAndZero b w = (b', w')"
  obtain rx w1 where 1: "ring_CloseAndZero (af_rx b) w = (rx, w1)" by fastforce
  obtain tx w2 where 2: "ring_CloseAndZero (af_tx b) w1 = (tx, w2)" by fastforce
  let ?sock = "filter (\<lambda>h. h \<noteq> 0) [af_sock b]"
  have "rx = zero_ring" and b1: "balanced w1 (ring_handles (af_tx b) @ ?sock @ held)"
    using ring_CloseAndZero_balanced [OF _ 1, of "ring_handles (af_tx b) @ ?sock @ held"] bal
    by (simp_all only: af_handles_def append_assoc)
  moreover have "tx = zero_ring" "balanced w2 (?sock @ held)" using ring_CloseAndZero_balanced [OF b1 2] by simp_all
  ultimately show ?thesis using c 1 2 by (auto simp: af_CloseAndZero_def balanced_def zero_af_def)
qed

definition bind_handles :: "WinRingBind \<Rightarrow> nat list" where
  "bind_handles b = af_handles (wb_v4 b) @ af_handles (wb_v6 b)"

lemma closeAndZero_balanced:
  "balanced w (bind_handles b) \<Longrightarrow> closeAndZero b w = (b', w') \<Longrightarrow> b' = zero_WinRingBind \<and> balanced w' []"
proof -
  assume bal: "balanced w (bind_handles b)" and c: "closeAndZero b w = (b', w')"
  obtain v4 w1 where 1: "af_CloseAndZero (wb_v4 b) w = (v4, w1)" by fastforce
  obtain v6 w2 where 2: "af_CloseAndZero (wb_v6 b) w1 = (v6, w2)" by fastforce
  have "v4 = zero_af" and b1: "balanced w1 (af_handles (wb_v6 b) @ [])"
    using af_CloseAndZero_balanced [OF _ 1, of "af_handles (wb_v6 b) @ []"] bal by (simp_all add: bind_handles_def)
  moreover have "v6 = zero_af" "balanced w2 []" using af_CloseAndZero_balanced [OF b1 2] by simp_all
  ultimately show ?thesis using c 1 2 by (simp add: closeAndZero_def zero_WinRingBind_def)
qed

section \<open>Opening\<close>

definition handles_nonzero :: "win_env \<Rightarrow> bool" where
  "handles_nonzero E \<longleftrightarrow> (\<forall>n. en_handle E n \<noteq> Some 0)"

lemma acquire_cases:
  assumes "handles_nonzero E" "balanced w held"
  shows "(\<exists>w'. acquire E w = (None, w') \<and> balanced w' held) \<or> (\<exists>h w'. acquire E w = (Some h, w') \<and> h \<noteq> 0 \<and> balanced w' (h # held))"
proof (cases "en_handle E (ww_calls w)")
  case (Some a)
  then have "a \<noteq> 0" using assms(1) by (metis handles_nonzero_def)
  then show ?thesis using Some assms(2) by (simp add: acquire_def balanced_def)
qed (use assms(2) in \<open>simp add: acquire_def balanced_def\<close>)

definition fresh_ring :: "ringBuffer \<Rightarrow> bool" where
  "fresh_ring rb \<longleftrightarrow> rb_head rb = 0 \<and> rb_tail rb = 0 \<and> \<not> rb_isFull rb"

lemma balanced_cong: "mset held = mset held' \<Longrightarrow> balanced w held = balanced w held'"
  by (simp add: balanced_def)

lemma ring_Open_balanced:
  assumes h: "handles_nonzero E" and bal: "balanced w held" and o: "ring_Open E zero_ring w = (ok, rb, w')"
  shows "balanced w' (ring_handles rb @ held) \<and> fresh_ring rb"
proof -
  note A = acquire_cases [OF h]
  consider w1 where "acquire E w = (None, w1)" "balanced w1 held"
    | a w1 where "acquire E w = (Some a, w1)" "a \<noteq> 0" "balanced w1 (a # held)" using A [OF bal] by blast
  then show ?thesis
  proof cases
    case 1
    then show ?thesis using o by (auto simp: ring_Open_def ring_handles_def fresh_ring_def zero_ring_def)
  next
    case a: 2
    consider w2 where "acquire E w1 = (None, w2)" "balanced w2 (a # held)"
      | b w2 where "acquire E w1 = (Some b, w2)" "b \<noteq> 0" "balanced w2 (b # a # held)" using A [OF a(3)] by blast
    then show ?thesis
    proof cases
      case 1
      then show ?thesis using o a by (auto simp: ring_Open_def ring_handles_def fresh_ring_def zero_ring_def)
    next
      case b: 2
      consider w3 where "acquire E w2 = (None, w3)" "balanced w3 (b # a # held)"
        | c w3 where "acquire E w2 = (Some c, w3)" "c \<noteq> 0" "balanced w3 (c # b # a # held)" using A [OF b(3)] by blast
      then show ?thesis
      proof cases
        case 1
        then show ?thesis using o a b by (auto simp: ring_Open_def ring_handles_def fresh_ring_def zero_ring_def balanced_def)
      next
        case c: 2
        consider w4 where "acquire E w3 = (None, w4)" "balanced w4 (c # b # a # held)"
          | d w4 where "acquire E w3 = (Some d, w4)" "d \<noteq> 0" "balanced w4 (d # c # b # a # held)" using A [OF c(3)] by blast
        then show ?thesis
          using o a b c by cases (auto simp: ring_Open_def ring_handles_def fresh_ring_def zero_ring_def balanced_def)
      qed
    qed
  qed
qed

lemma sys_call_balanced: "sys_call E w = (err, w') \<Longrightarrow> balanced w' held = balanced w held"
  by (auto simp: sys_call_def balanced_def)

lemma zero_handles [simp]: "ring_handles zero_ring = []" "fresh_ring zero_ring" "af_handles zero_af = []"
  by (simp_all add: ring_handles_def zero_ring_def fresh_ring_def af_handles_def zero_af_def)

lemma af_Open_balanced:
  assumes h: "handles_nonzero E" and bal: "balanced w held" and o: "af_Open E zero_af w = (p, b, w')"
  shows "balanced w' (af_handles b @ held) \<and> fresh_ring (af_rx b) \<and> fresh_ring (af_tx b)"
proof -
  consider w1 where "acquire E w = (None, w1)" "balanced w1 held"
    | s w1 where "acquire E w = (Some s, w1)" "s \<noteq> 0" "balanced w1 (s # held)" using acquire_cases [OF h bal] by blast
  then show ?thesis
  proof cases
    case 1
    then show ?thesis using o by (auto simp: af_Open_def zero_af_def af_handles_def)
  next
    case 2
    obtain ok rx w2 where rx: "ring_Open E zero_ring w1 = (ok, rx, w2)" by (metis prod_cases3)
    note R = ring_Open_balanced [OF h 2(3) rx]
    show ?thesis
    proof (cases ok)
      case False
      then show ?thesis using o 2 rx R by (auto simp: af_Open_def zero_af_def af_handles_def balanced_def Let_def)
    next
      case True
      obtain ok' tx w3 where tx: "ring_Open E zero_ring w2 = (ok', tx, w3)" by (metis prod_cases3)
      note T = ring_Open_balanced [OF h conjunct1 [OF R] tx]
      obtain e1 w4 where 4: "sys_call E w3 = (e1, w4)" by fastforce
      obtain e2 w5 where 5: "sys_call E w4 = (e2, w5)" by fastforce
      obtain e3 w6 where 6: "sys_call E w5 = (e3, w6)" by fastforce
      have w: "b = \<lparr>af_sock = s, af_rx = rx, af_tx = tx, af_blackhole = False\<rparr>" "w' = w3 \<or> w' = w4 \<or> w' = w5 \<or> w' = w6"
        using o 2 rx True tx 4 5 6 by (auto simp: af_Open_def zero_af_def Let_def split: if_splits)
      have "balanced w' held = balanced w3 held" for held
        using w(2) sys_call_balanced [OF 4] sys_call_balanced [OF 5] sys_call_balanced [OF 6] by auto
      then have "balanced w' (ring_handles tx @ ring_handles rx @ s # held)" using T by simp
      then show ?thesis using R T 2(2) w(1) by (simp add: balanced_def af_handles_def)
    qed
  qed
qed

definition ready :: "nat \<Rightarrow> afWinRingBind \<Rightarrow> bool" where
  "ready k b \<longleftrightarrow> ring_ok (af_rx b) \<and> outstanding (af_rx b) = k \<and> ring_ok (af_tx b)"

lemma fresh_ready: "fresh_ring rb \<Longrightarrow> ring_ok rb \<and> outstanding rb = 0"
  by (simp add: fresh_ring_def ring_ok_def outstanding_def packetsPerRing_def)

lemma Push_handles: "Push rb = Some (slot, rb') \<Longrightarrow> ring_handles rb' = ring_handles rb"
  by (auto simp: Push_def Let_def ring_handles_def split: if_splits)

lemma Return_handles: "ring_handles (Return c rb) = ring_handles rb"
  by (simp add: Return_def ring_handles_def)

lemma InsertReceiveRequest_ready:
  assumes "ready k b" "k < packetsPerRing"
  shows "\<exists>err b' w'. InsertReceiveRequest E b w = Some (err, b', w') \<and> ready (k + 1) b' \<and> af_handles b' = af_handles b \<and> af_tx b' = af_tx b \<and>
    (\<forall>held. balanced w' held = balanced w held)"
proof -
  obtain rx where p: "Push (af_rx b) = Some (unat (rb_tail (af_rx b)) mod packetsPerRing, rx)" "ring_ok rx" "outstanding rx = k + 1"
    using Push_spec [of "af_rx b"] assms by (auto simp: ready_def)
  obtain err w' where s: "sys_call E w = (err, w')" by fastforce
  show ?thesis
    using p s Push_handles [OF p(1)] sys_call_balanced [OF s] assms(1)
    by (simp add: InsertReceiveRequest_def ready_def af_handles_def)
qed

lemma insert_requests_ready:
  "ready k (wb_v4 b) \<Longrightarrow> ready k (wb_v6 b) \<Longrightarrow> k + n = packetsPerRing \<Longrightarrow>
    \<exists>err b' w'. insert_requests E n b w = Some (err, b', w') \<and> bind_handles b' = bind_handles b \<and>
      (\<forall>held. balanced w' held = balanced w held) \<and>
      (err = None \<longrightarrow> ready packetsPerRing (wb_v4 b') \<and> ready packetsPerRing (wb_v6 b'))"
proof (induction n arbitrary: k b w)
  case (Suc n)
  have k: "k < packetsPerRing" using Suc.prems(3) by simp
  obtain e4 v4 w4 where 4: "InsertReceiveRequest E (wb_v4 b) w = Some (e4, v4, w4)" "ready (k + 1) v4"
    "af_handles v4 = af_handles (wb_v4 b)" "\<forall>held. balanced w4 held = balanced w held"
    using InsertReceiveRequest_ready [OF Suc.prems(1) k] by blast
  obtain e6 v6 w6 where 6: "InsertReceiveRequest E (wb_v6 b) w4 = Some (e6, v6, w6)" "ready (k + 1) v6"
    "af_handles v6 = af_handles (wb_v6 b)" "\<forall>held. balanced w6 held = balanced w4 held"
    using InsertReceiveRequest_ready [OF Suc.prems(2) k] by blast
  let ?b = "b\<lparr>wb_v4 := v4, wb_v6 := v6\<rparr>"
  have "ready (k + 1) (wb_v4 ?b)" "ready (k + 1) (wb_v6 ?b)" "k + 1 + n = packetsPerRing" using 4(2) 6(2) Suc.prems(3) by simp_all
  from Suc.IH [OF this, of w6] show ?case
    using 4 6 by (cases "e4 = None"; cases "e6 = None") (auto simp: bind_handles_def)
qed simp

definition bind_ok :: "WinRingBind \<Rightarrow> win_world \<Rightarrow> bool" where
  "bind_ok b w \<longleftrightarrow> balanced w (bind_handles b) \<and> (wb_isOpen b = 0 \<longrightarrow> b = zero_WinRingBind) \<and>
     (wb_isOpen b = 1 \<longrightarrow> ready packetsPerRing (wb_v4 b) \<and> ready packetsPerRing (wb_v6 b))"

lemma closed_ok:
  "balanced w (bind_handles b) \<Longrightarrow> closeAndZero b w = (b', w') \<Longrightarrow> bind_ok b' w' \<and> b' = zero_WinRingBind \<and> balanced w' []"
  using closeAndZero_balanced [of w b b' w'] by (auto simp: bind_ok_def zero_WinRingBind_def bind_handles_def)

definition opened_ok :: "((win_error + u16) \<times> WinRingBind \<times> win_world) option \<Rightarrow> bool" where
  "opened_ok r \<longleftrightarrow> (\<exists>res b w. r = Some (res, b, w) \<and> bind_ok b w \<and>
     (case res of Inl e \<Rightarrow> b = zero_WinRingBind \<and> balanced w [] | Inr port \<Rightarrow> wb_isOpen b = 1))"

lemma failed_ok: "balanced w (bind_handles b) \<Longrightarrow> opened_ok (Some (Inl e, closeAndZero b w))"
  using closed_ok [of w b] unfolding opened_ok_def by (cases "closeAndZero b w") auto

lemma Win_Open_ok:
  assumes h: "handles_nonzero E" and ok: "bind_ok b w"
  shows "opened_ok (Win_Open E b w)"
proof (cases "wb_isOpen b = 0")
  case False
  then show ?thesis using failed_ok ok by (simp add: Win_Open_def bind_ok_def)
next
  case True
  then have b: "b = zero_WinRingBind" and bal: "balanced w []"
    using ok by (auto simp: bind_ok_def zero_WinRingBind_def bind_handles_def)
  obtain p4 v4 w4 where 4: "af_Open E zero_af w = (p4, v4, w4)" by (metis prod_cases3)
  note O4 = af_Open_balanced [OF h bal 4]
  show ?thesis
  proof (cases p4)
    case None
    have "balanced w4 (bind_handles (b\<lparr>wb_v4 := v4\<rparr>))" using O4 by (simp add: b bind_handles_def zero_WinRingBind_def)
    then show ?thesis using None 4 True failed_ok by (simp add: Win_Open_def b zero_WinRingBind_def Let_def)
  next
    case (Some port4)
    obtain p6 v6 w6 where 6: "af_Open E zero_af w4 = (p6, v6, w6)" by (metis prod_cases3)
    note O6 = af_Open_balanced [OF h conjunct1 [OF O4] 6]
    let ?b = "\<lparr>wb_v4 = v4, wb_v6 = v6, wb_isOpen = 0\<rparr>"
    have bal6: "balanced w6 (bind_handles ?b)" using O6 by (simp add: bind_handles_def balanced_def)
    have r: "ready 0 (wb_v4 ?b)" "ready 0 (wb_v6 ?b)" using O4 O6 fresh_ready by (auto simp: ready_def)
    show ?thesis
    proof (cases p6)
      case None
      then show ?thesis using 4 6 Some failed_ok [OF bal6] by (simp add: Win_Open_def b zero_WinRingBind_def Let_def)
    next
      case (Some port6)
      obtain err b' w' where i: "insert_requests E packetsPerRing ?b w6 = Some (err, b', w')" "bind_handles b' = bind_handles ?b"
        "\<forall>held. balanced w' held = balanced w6 held" "err = None \<longrightarrow> ready packetsPerRing (wb_v4 b') \<and> ready packetsPerRing (wb_v6 b')"
        using insert_requests_ready [OF r, of packetsPerRing E w6] by auto
      have "balanced w' (bind_handles b')" using i(2,3) bal6 by simp
      moreover have "bind_handles (b'\<lparr>wb_isOpen := 1\<rparr>) = bind_handles b'" by (simp add: bind_handles_def)
      moreover have "Win_Open E b w = (case err of Some e \<Rightarrow> Some (Inl e, closeAndZero b' w') | None \<Rightarrow> Some (Inr port6, b'\<lparr>wb_isOpen := 1\<rparr>, w'))"
        using 4 6 Some \<open>p4 = Some port4\<close> i(1) by (simp add: Win_Open_def b zero_WinRingBind_def Let_def)
      ultimately show ?thesis using failed_ok [of w' b'] i(4) by (cases err) (auto simp: opened_ok_def bind_ok_def)
    qed
  qed
qed


text \<open>A system that gives no memory at its fifteenth call, while the rings of IPv6 are made.\<close>

definition poor_system :: win_env where
  "poor_system = \<lparr>en_handle = (\<lambda>n. if n = 14 then None else Some (n + 1)), en_fails = (\<lambda>n. None), en_dequeue = (\<lambda>n. []),
     en_open = (\<lambda>n. True), en_port = (\<lambda>n. 51820), en_packet = (\<lambda>n slot. (\<lparr>we_family = win_AF_INET, we_data = []\<rparr>, []))\<rparr>"

definition start_world :: win_world where
  "start_world = \<lparr>ww_calls = 0, ww_got = [], ww_freed = [], ww_posted = []\<rparr>"

lemma poor_calls:
  "acquire poor_system w =
     (if ww_calls w = 14 then (None, w\<lparr>ww_calls := 15\<rparr>)
      else (Some (ww_calls w + 1), w\<lparr>ww_calls := ww_calls w + 1, ww_got := ww_got w @ [ww_calls w + 1]\<rparr>))"
  "sys_call poor_system w = (None, w\<lparr>ww_calls := ww_calls w + 1\<rparr>)"
  "en_port poor_system n = 51820"
  by (simp_all add: acquire_def sys_call_def poor_system_def)

lemma poor_IPv4:
  "af_Open poor_system zero_af start_world =
     (Some 51820,
      \<lparr>af_sock = 1, af_rx = zero_ring\<lparr>rb_packets := 2, rb_id := 3, rb_iocp := 4, rb_cq := 5\<rparr>,
       af_tx = zero_ring\<lparr>rb_packets := 6, rb_id := 7, rb_iocp := 8, rb_cq := 9\<rparr>, af_blackhole = False\<rparr>,
      start_world\<lparr>ww_calls := 12, ww_got := [1, 2, 3, 4, 5, 6, 7, 8, 9]\<rparr>)"
  by (simp add: af_Open_def ring_Open_def poor_calls start_world_def zero_af_def)

lemma poor_IPv6:
  "af_Open poor_system zero_af (start_world\<lparr>ww_calls := 12, ww_got := got\<rparr>) =
     (None, zero_af\<lparr>af_sock := 13, af_rx := zero_ring\<lparr>rb_packets := 14, rb_id := 0\<rparr>\<rparr>,
      start_world\<lparr>ww_calls := 15, ww_got := got @ [13, 14]\<rparr>)"
  by (simp add: af_Open_def ring_Open_def poor_calls start_world_def zero_af_def)

lemma ring_closed_got: "ring_CloseAndZero rb w = (rb', w') \<Longrightarrow> ww_got w' = ww_got w"
  by (auto simp: ring_CloseAndZero_def)

lemma af_closed_got: "af_CloseAndZero b w = (b', w') \<Longrightarrow> ww_got w' = ww_got w"
  by (auto simp: af_CloseAndZero_def dest!: ring_closed_got split: prod.splits)

lemma closed_got: "closeAndZero b w = (b', w') \<Longrightarrow> ww_got w' = ww_got w"
  by (auto simp: closeAndZero_def dest!: af_closed_got split: prod.splits)


section \<open>Receiving and sending\<close>

lemma take_turn:
  assumes "ready packetsPerRing b"
  shows "\<exists>res b' w'. receive_turn E n b w = Some (res, b', w') \<and> ready packetsPerRing b' \<and> af_tx b' = af_tx b"
proof (cases "await_packet E w")
  case (Pair a w1)
  show ?thesis
  proof (cases a)
    case (Inl e)
    then show ?thesis using Pair assms by (simp add: receive_turn_def)
  next
    case (Inr r)
    let ?b = "b\<lparr>af_rx := Return 1 (af_rx b)\<rparr>"
    have "ready (packetsPerRing - 1) ?b"
      using assms Return_spec [of "af_rx b" 1] by (simp add: ready_def packetsPerRing_def)
    moreover have "packetsPerRing - 1 < packetsPerRing" "packetsPerRing - 1 + 1 = packetsPerRing" by (simp_all add: packetsPerRing_def)
    ultimately obtain err b' w2 where "InsertReceiveRequest E ?b w1 = Some (err, b', w2)" "ready packetsPerRing b'" "af_tx b' = af_tx b"
      using InsertReceiveRequest_ready [of "packetsPerRing - 1" ?b E w1] by auto
    then show ?thesis using Pair Inr
      by (cases err) (simp_all add: receive_turn_def Let_def split: prod.split)
  qed
qed

lemma send_one:
  assumes "ready k b" "\<And>n. length (en_dequeue E n) \<le> outstanding (af_tx b)"
  shows "\<exists>err b' w'. af_Send E buf ep b w = Some (err, b', w') \<and> ready k b' \<and> af_rx b' = af_rx b"
proof -
  have d: "length (fst (dequeue E packetsPerRing w)) \<le> outstanding (af_tx b)" for w
    using assms(2) [of "ww_calls w"] by (simp add: dequeue_def)
  have wait: "0 < length rs \<and> length rs \<le> outstanding (af_tx b)" if "wait_completion E packetsPerRing w = (Inr rs, w')" for w rs w'
  proof -
    obtain e1 w1 where 1: "sys_call E w = (e1, w1)" by fastforce
    obtain e2 w2 where 2: "sys_call E w1 = (e2, w2)" by fastforce
    obtain opened w3 where 3: "load_open E w2 = (opened, w3)" by fastforce
    obtain l w4 where 4: "dequeue E packetsPerRing w3 = (l, w4)" by fastforce
    have "l \<noteq> []" "rs = l"
      using that 1 2 3 4 by (auto simp: wait_completion_def split: option.splits bool.splits list.splits)
    then show ?thesis using d [of w3] 4 by simp
  qed
  have push: "\<exists>slot tx. Push (if 0 < length rs then Return (length rs) (af_tx b) else af_tx b) = Some (slot, tx) \<and> ring_ok tx"
    if "length rs \<le> outstanding (af_tx b)" "rs = [] \<longrightarrow> \<not> rb_isFull (af_tx b)" for rs :: "rio_result list"
  proof (cases "rs = []")
    case True
    then show ?thesis using Push_spec [of "af_tx b"] assms(1) that by (auto simp: ready_def ring_ok_def)
  next
    case False
    then have c: "0 < length rs" by simp
    have ok: "ring_ok (af_tx b)" using assms(1) by (simp add: ready_def)
    have "outstanding (Return (length rs) (af_tx b)) < packetsPerRing"
      using Return_spec(3) [OF ok c that(1)] ok c that(1) unfolding ring_ok_def by linarith
    from Push_spec [OF Return_spec(1) [OF ok c that(1)] this] show ?thesis using c by auto
  qed
  obtain opened w1 where o: "load_open E w = (opened, w1)" by fastforce
  obtain l w2 where l: "dequeue E packetsPerRing w1 = (l, w2)" by fastforce
  obtain res w3 where res: "(if l = [] \<and> rb_isFull (af_tx b) then wait_completion E packetsPerRing w2 else (Inr l, w2)) = (res, w3)" by fastforce
  show ?thesis
  proof (cases "opened \<and> length buf \<le> bytesPerPacket")
    case False
    then show ?thesis
      unfolding af_Send_def o Let_def prod.case using assms(1) by (cases opened) simp_all
  next
    case True
    show ?thesis
    proof (cases res)
      case (Inl e)
      then show ?thesis using o l res True assms(1) by (auto simp: af_Send_def Let_def)
    next
      case (Inr rs)
      have "length rs \<le> outstanding (af_tx b)" "rs = [] \<longrightarrow> \<not> rb_isFull (af_tx b)"
        using res wait [of w2 rs w3] d [of w1] l unfolding Inr by (auto split: if_splits)
      from push [OF this] obtain slot tx where
        p: "Push (if 0 < length rs then Return (length rs) (af_tx b) else af_tx b) = Some (slot, tx)" "ring_ok tx" by blast
      obtain err w4 where s: "sys_call E (w3\<lparr>ww_posted := ww_posted w3 @ [(slot, ep, buf)]\<rparr>) = (err, w4)" by fastforce
      have "af_Send E buf ep b w = Some (err, b\<lparr>af_tx := tx\<rparr>, w4)"
        unfolding af_Send_def o l Let_def prod.case res Inr sum.case p(1) using True s by simp
      then show ?thesis using p(2) assms(1) by (simp add: ready_def)
    qed
  qed
qed

text \<open>On an open bind neither direction runs into a full ring, as long as no more requests complete than were posted: the
  ring of the receiver is full between its calls, and each takes one packet out before it posts the slot again.\<close>

theorem rings_never_overrun:
  assumes "ready packetsPerRing b" "\<And>n. length (en_dequeue E n) \<le> outstanding (af_tx b)"
  shows "(\<exists>res b' w'. receive_turn E n b w = Some (res, b', w') \<and> ready packetsPerRing b' \<and> af_tx b' = af_tx b) \<and>
    (\<exists>err b' w'. af_Send E buf ep b w = Some (err, b', w') \<and> ready packetsPerRing b' \<and> af_rx b' = af_rx b)"
  using take_turn [OF assms(1)] send_one [OF assms] by blast

end
