(* ===== verification/Outline.thy ===== *)
theory Outline
  imports Uapi Netstack
begin

text \<open>
  \<open>outline/fallback.go\<close> and \<open>outline/dialer.go\<close>: a configuration of the Outline SDK is written as a text of the
  configuration protocol, and a device over the user space network is set up from it. Reading YAML is not part of the
  repository; a configuration is what it has been read into.
\<close>

record PeerConfig =
  pcf_PublicKey :: string
  pcf_PresharedKey :: string
  pcf_Endpoint :: string
  pcf_AllowedIPs :: "string list"
  pcf_PersistentKeepaliveInterval :: u16

record DeviceConfig =
  cf_PrivateKey :: string
  cf_Address :: "string list"
  cf_Dns :: "string list"
  cf_Mtu :: int
  cf_Jc :: int
  cf_Jmin :: int
  cf_Jmax :: int
  cf_S1 :: int
  cf_S2 :: int
  cf_S3 :: int
  cf_S4 :: int
  cf_H1 :: string
  cf_H2 :: string
  cf_H3 :: string
  cf_H4 :: string
  cf_I1 :: string
  cf_I2 :: string
  cf_I3 :: string
  cf_I4 :: string
  cf_I5 :: string
  cf_Peers :: "PeerConfig list"

section \<open>Base 64 with padding\<close>

text \<open>\<open>base64.StdEncoding.DecodeString\<close>: line breaks are skipped, padding is required.\<close>

fun std_quanta :: "bytes \<Rightarrow> bytes option" where
  "std_quanta [] = Some []"
| "std_quanta (w # x # y # z # r) =
     (case (b64_val w, b64_val x) of
        (Some p, Some q) \<Rightarrow>
          if z = 61 then
            if r \<noteq> [] then None
            else if y = 61 then Some [word_of_nat (p * 4 + q div 16)]
            else (case b64_val y of
                    None \<Rightarrow> None
                  | Some s \<Rightarrow> Some [word_of_nat (p * 4 + q div 16), word_of_nat (q mod 16 * 16 + s div 4)])
          else
            (case (b64_val y, b64_val z) of
               (Some s, Some t) \<Rightarrow>
                 map_option ((@) [word_of_nat (p * 4 + q div 16), word_of_nat (q mod 16 * 16 + s div 4), word_of_nat (s mod 4 * 64 + t)])
                   (std_quanta r)
             | _ \<Rightarrow> None)
      | _ \<Rightarrow> None)"
| "std_quanta _ = None"

definition StdEncoding_DecodeString :: "string \<Rightarrow> bytes option" where
  "StdEncoding_DecodeString s = std_quanta (filter (\<lambda>b. b \<noteq> 10 \<and> b \<noteq> 13) (ascii s))"

section \<open>The text\<close>

definition write_field :: "string \<Rightarrow> string \<Rightarrow> string" where
  "write_field key value = newline # key @ ''='' @ value"

definition write_int :: "string \<Rightarrow> int \<Rightarrow> string" where
  "write_int key i = (if i \<noteq> 0 then write_field key (Itoa i) else [])"

definition write_string :: "string \<Rightarrow> string \<Rightarrow> string" where
  "write_string key s = (if s \<noteq> [] then write_field key s else [])"

definition write_peer :: "PeerConfig \<Rightarrow> string option" where
  "write_peer pc =
     do { pk \<leftarrow> StdEncoding_DecodeString (pcf_PublicKey pc);
          psk \<leftarrow> (if pcf_PresharedKey pc \<noteq> [] then map_option (\<lambda>k. write_field ''preshared_key'' (hex_encode k)) (StdEncoding_DecodeString (pcf_PresharedKey pc))
                 else Some []);
          Some (write_field ''public_key'' (hex_encode pk) @ write_field ''endpoint'' (pcf_Endpoint pc)
            @ concat (map (write_field ''allowed_ip'') (pcf_AllowedIPs pc)) @ psk
            @ write_int ''persistent_keepalive_interval'' (int (unat (pcf_PersistentKeepaliveInterval pc)))) }"

fun write_peers :: "PeerConfig list \<Rightarrow> string option" where
  "write_peers [] = Some []"
| "write_peers (p # ps) = do { a \<leftarrow> write_peer p; b \<leftarrow> write_peers ps; Some (a @ b) }"

definition genIpcString :: "DeviceConfig \<Rightarrow> string option" where
  "genIpcString cfg =
     do { privateKey \<leftarrow> StdEncoding_DecodeString (cf_PrivateKey cfg);
          ps \<leftarrow> write_peers (cf_Peers cfg);
          Some (''private_key='' @ hex_encode privateKey
            @ write_int ''jc'' (cf_Jc cfg) @ write_int ''jmin'' (cf_Jmin cfg) @ write_int ''jmax'' (cf_Jmax cfg)
            @ write_int ''s1'' (cf_S1 cfg) @ write_int ''s2'' (cf_S2 cfg) @ write_int ''s3'' (cf_S3 cfg) @ write_int ''s4'' (cf_S4 cfg)
            @ write_string ''h1'' (cf_H1 cfg) @ write_string ''h2'' (cf_H2 cfg) @ write_string ''h3'' (cf_H3 cfg) @ write_string ''h4'' (cf_H4 cfg)
            @ write_string ''i1'' (cf_I1 cfg) @ write_string ''i2'' (cf_I2 cfg) @ write_string ''i3'' (cf_I3 cfg)
            @ write_string ''i4'' (cf_I4 cfg) @ write_string ''i5'' (cf_I5 cfg) @ ps) }"

section \<open>The dialer\<close>

record DialerOptions =
  do_Ipc :: string
  do_Prefixes :: "(bytes \<times> nat) list"
  do_Mtu :: int
  do_Dns :: "bytes list"

fun all_some :: "'a option list \<Rightarrow> 'a list option" where
  "all_some [] = Some []"
| "all_some (x # xs) = do { a \<leftarrow> x; b \<leftarrow> all_some xs; Some (a # b) }"

text \<open>What \<open>FallbackParser\<close> makes of a configuration before it calls \<open>NewStreamDialer\<close>.\<close>

definition FallbackParser :: "DeviceConfig \<Rightarrow> DialerOptions option" where
  "FallbackParser cfg =
     do { ipc \<leftarrow> genIpcString cfg;
          prefixes \<leftarrow> all_some (map ParsePrefix (cf_Address cfg));
          dns \<leftarrow> all_some (map (\<lambda>a. map_option fst (ParseAddr a)) (cf_Dns cfg));
          Some \<lparr>do_Ipc = ipc, do_Prefixes = prefixes, do_Mtu = (if cf_Mtu cfg = 0 then 1408 else cf_Mtu cfg), do_Dns = dns\<rparr> }"

text \<open>\<open>CreateNetTUN\<close>, as far as it keeps what it is given: the stack may refuse, with \<open>stack_ok\<close> false.\<close>

definition CreateNetTUN :: "bool \<Rightarrow> bytes list \<Rightarrow> bytes list \<Rightarrow> int \<Rightarrow> netTun option" where
  "CreateNetTUN stack_ok localAddresses dnsServers mtu =
     (if stack_ok then
        Some \<lparr>nt_dnsServers = dnsServers, nt_hasV4 = (\<exists>a \<in> set localAddresses. length a = 4),
          nt_hasV6 = (\<exists>a \<in> set localAddresses. length a = 16), nt_mtu = mtu\<rparr>
      else None)"

datatype dialer_error = No_Tun | No_Config ipc_error | No_Up

text \<open>\<open>NewStreamDialer\<close>: the network and the device behind it, or the stage that failed. The outer \<open>None\<close> is a panic or an
  operation that does not return.\<close>

definition NewStreamDialer ::
  "crypto \<Rightarrow> Net \<Rightarrow> bool \<Rightarrow> Time \<Rightarrow> rng \<Rightarrow> (nat \<Rightarrow> nat) \<Rightarrow> DialerOptions \<Rightarrow> (dialer_error + netTun \<times> Device) option" where
  "NewStreamDialer C N stack_ok t r c opts =
     (case CreateNetTUN stack_ok (map fst (do_Prefixes opts)) (do_Dns opts) (do_Mtu opts) of
        None \<Rightarrow> Some (Inl No_Tun)
      | Some tnet \<Rightarrow>
          do { (err, d) \<leftarrow> IpcSet C N (do_Ipc opts) (NewDevice (Some (do_Mtu opts)) t r c);
               case err of
                 Some e \<Rightarrow> Some (Inl (No_Config e))
               | None \<Rightarrow>
                   do { (err, d) \<leftarrow> Up C N d;
                        if err \<noteq> None then Some (Inl No_Up) else Some (Inr (tnet, d)) } })"

text \<open>\<open>DialStream\<close>: a dot after the host is dropped. \<open>net.JoinHostPort\<close> puts an IPv6 address into brackets.\<close>

definition JoinHostPort :: "string \<Rightarrow> string \<Rightarrow> string" where
  "JoinHostPort host port =
     (if CHR '':'' \<in> set host \<or> CHR ''%'' \<in> set host then ''['' @ host @ '']:'' @ port else host @ '':'' @ port)"

definition DialStream ::
  "'c dialing \<Rightarrow> (string \<Rightarrow> (lookup_failure + string list) option) \<Rightarrow> string \<Rightarrow> (dial_error + 'c) option" where
  "DialStream E find_host raddr =
     (case SplitHostPort raddr of
        None \<Rightarrow> Some (Inl Bad_HostPort)
      | Some (host, port) \<Rightarrow>
          let raddr = (if host \<noteq> [] \<and> last host = CHR ''.'' then JoinHostPort (butlast host) port else raddr)
          in DialContext E find_host ''tcp'' raddr)"

end
