(* ===== verification/Outline_Facts.thy ===== *)
theory Outline_Facts
  imports Outline Uapi_Facts
begin

text \<open>
  The configuration of the Outline SDK and the configuration protocol: what one writes the other reads.
\<close>

section \<open>Lines without an end\<close>

definition join_lines :: "string \<Rightarrow> string list \<Rightarrow> string" where
  "join_lines l ls = l @ concat (map (\<lambda>l. newline # l) ls)"

lemma scan_join:
  "plain_line l \<Longrightarrow> \<forall>l \<in> set ls. plain_line l \<and> l \<noteq> [] \<Longrightarrow> l \<noteq> [] \<Longrightarrow> scan_lines (join_lines l ls) = (l # ls, False)"
proof (induction ls arbitrary: l)
  case Nil
  then show ?case by (simp add: join_lines_def scan_lines_def Split_no_sep plain_line_def dropCR_def)
next
  case (Cons l' ls)
  have "join_lines l (l' # ls) = l @ newline # join_lines l' ls" by (simp add: join_lines_def)
  moreover have "scan_pieces (Split (join_lines l' ls) newline) = (l' # ls, False)"
    using Cons by (simp add: scan_lines_def)
  moreover have "Split (join_lines l' ls) newline \<noteq> []" by (cases "join_lines l' ls") (auto split: list.splits)
  ultimately show ?case
    using Cons.prems by (auto simp: scan_lines_def Split_append plain_line_def dropCR_def)
qed

section \<open>Settings\<close>

text \<open>The configuration, without peers, that has the settings of a device.\<close>

definition chain_text :: "obfChain option \<Rightarrow> string" where
  "chain_text c = (case c of None \<Rightarrow> [] | Some c \<Rightarrow> chainSpec c)"

definition config_of :: "string \<Rightarrow> Device \<Rightarrow> DeviceConfig" where
  "config_of key d =
     \<lparr>cf_PrivateKey = key, cf_Address = [], cf_Dns = [], cf_Mtu = 0, cf_Jc = junk_count d, cf_Jmin = junk_min d, cf_Jmax = junk_max d,
      cf_S1 = paddings_init d, cf_S2 = paddings_response d, cf_S3 = paddings_cookie d, cf_S4 = paddings_transport d,
      cf_H1 = GenSpec (headers_init d), cf_H2 = GenSpec (headers_response d), cf_H3 = GenSpec (headers_cookie d),
      cf_H4 = GenSpec (headers_transport d), cf_I1 = chain_text (ipackets d ! 0), cf_I2 = chain_text (ipackets d ! 1),
      cf_I3 = chain_text (ipackets d ! 2), cf_I4 = chain_text (ipackets d ! 3), cf_I5 = chain_text (ipackets d ! 4), cf_Peers = []\<rparr>"

definition tails :: "string list \<Rightarrow> string" where
  "tails ls = concat (map (\<lambda>l. newline # l) ls)"

lemma tails_simps: "tails (ls @ ls') = tails ls @ tails ls'" "tails (l # ls) = newline # l @ tails ls" "tails [] = []"
  by (simp_all add: tails_def)

lemma write_field_tail: "write_field k v = tails [setting k v]"
  by (simp add: write_field_def tails_def setting_def)

lemma write_int_tail: "write_int k i = tails (unless (i = 0) (setting k (Itoa i)))"
  by (simp add: write_int_def unless_def write_field_tail tails_def)

lemma GenSpec_nonempty: "GenSpec h \<noteq> []"
  using number_GenSpec [of h] by (auto simp: number_text_def)

lemma write_header_tail: "write_string k (GenSpec h) = tails [setting k (GenSpec h)]"
  by (simp add: write_string_def GenSpec_nonempty write_field_tail)

definition chain_said :: "obfChain option \<Rightarrow> bool" where
  "chain_said c = (case c of None \<Rightarrow> True | Some c \<Rightarrow> chainSpec c \<noteq> [])"

lemma write_chain_tail:
  "chain_said c \<Longrightarrow> ''i'' @ show_nat (i + 1) = k \<Longrightarrow> write_string k (chain_text c) = tails (chain_item i c)"
  by (auto simp: write_string_def chain_text_def chain_said_def chain_item_def write_field_tail tails_def split: option.split)

lemma genIpcString_settings:
  assumes key: "StdEncoding_DecodeString key = Some sk" and d: "length (ipackets d) = 5" "\<forall>c \<in> set (ipackets d). chain_said c"
  shows "genIpcString (config_of key d) = Some (join_lines (setting ''private_key'' (hex_encode sk)) (setting_lines d))"
proof -
  obtain c1 c2 c3 c4 c5 where cs: "ipackets d = [c1, c2, c3, c4, c5]"
    using d(1) by (auto simp: length_Suc_conv numeral_eq_Suc)
  have l: "chain_lines (ipackets d) = chain_item 0 c1 @ chain_item 1 c2 @ chain_item 2 c3 @ chain_item 3 c4 @ chain_item 4 c5"
    by (simp add: chain_lines_def cs enumerate_eq_zip upt_conv_Cons numeral_eq_Suc)
  have said: "chain_said c1" "chain_said c2" "chain_said c3" "chain_said c4" "chain_said c5" using d(2) by (simp_all add: cs)
  have i: "''i'' @ show_nat (0 + 1) = ''i1''" "''i'' @ show_nat (1 + 1) = ''i2''" "''i'' @ show_nat (2 + 1) = ''i3''"
    "''i'' @ show_nat (3 + 1) = ''i4''" "''i'' @ show_nat (4 + 1) = ''i5''"
    by (simp_all add: chain_digits)
  note chains = write_chain_tail [OF said(1) i(1)] write_chain_tail [OF said(2) i(2)] write_chain_tail [OF said(3) i(3)]
    write_chain_tail [OF said(4) i(4)] write_chain_tail [OF said(5) i(5)]
  have p: "''private_key='' @ hex_encode sk = setting ''private_key'' (hex_encode sk)" by (simp add: setting_def)
  have c: "ipackets d ! 0 = c1" "ipackets d ! 1 = c2" "ipackets d ! 2 = c3" "ipackets d ! 3 = c4" "ipackets d ! 4 = c5"
    by (simp_all add: cs)
  show ?thesis
    unfolding genIpcString_def config_of_def DeviceConfig.simps key c write_peers.simps bind.bind_lunit
    unfolding join_lines_def tails_def [symmetric] setting_lines_def l
    by (simp add: p [symmetric] tails_simps write_int_tail write_header_tail chains)
qed

lemma hex_char_plain: "n < 16 \<Longrightarrow> hex_char n \<noteq> newline \<and> hex_char n \<noteq> char_of (13 :: nat)"
  using hex_val_char [of n] by (auto simp: newline_def hex_val_def)

lemma hex_plain: "length sk = 32 \<Longrightarrow> plain_line (setting ''private_key'' (hex_encode sk))"
proof -
  assume l: "length sk = 32"
  let ?v = "hex_encode sk"
  have c: "\<forall>c \<in> set ?v. c \<noteq> newline \<and> c \<noteq> char_of (13 :: nat)"
    by (auto simp: hex_encode_def hex_char_plain)
  have "?v \<noteq> []" using length_hex_encode [of sk] l by (metis list.size(3) mult_is_0 zero_neq_numeral)
  then have "last ?v \<in> set ?v" by simp
  with c have "last ?v \<noteq> char_of (13 :: nat)" by blast
  then have "last (setting ''private_key'' ?v) \<noteq> char_of (13 :: nat)" using \<open>?v \<noteq> []\<close> by (simp add: setting_def)
  moreover have "newline \<notin> set (setting ''private_key'' ?v)" using c by (auto simp: setting_def newline_code)
  ultimately show ?thesis using l by (simp add: plain_line_def MaxScanTokenSize_def setting_def)
qed

lemma set_key_line:
  assumes "length sk = 32" "keyMap d = []"
  shows "\<exists>d'. SetPrivateKey C N (snd (PrivateKey_FromMaybeZeroHex zero32 (hex_encode sk))) d = Some d' \<and>
    (no_settings d \<longrightarrow> no_settings d') \<and>
    set_lines C N t (setting ''private_key'' (hex_encode sk) # ls) True sp d = set_lines C N t ls True sp d'"
proof -
  let ?sk = "snd (PrivateKey_FromMaybeZeroHex zero32 (hex_encode sk))"
  have ok: "fst (PrivateKey_FromMaybeZeroHex zero32 (hex_encode sk))"
    using assms(1) by (simp add: PrivateKey_FromMaybeZeroHex_def loadExactHex_def Let_def zero32_def)
  have "\<exists>d'. SetPrivateKey C N ?sk d = Some d' \<and> (no_settings d \<longrightarrow> no_settings d')"
  proof (cases "?sk = privateKey d")
    case True
    then show ?thesis by (simp add: SetPrivateKey_def)
  next
    case False
    then show ?thesis using assms(2) by (simp add: SetPrivateKey_def Let_def no_settings_def)
  qed
  then obtain d' where d': "SetPrivateKey C N ?sk d = Some d'" "no_settings d \<longrightarrow> no_settings d'" by blast
  have "handleDeviceLine C N ''private_key'' (hex_encode sk) d = Some (None, d')"
    using ok d'(1)
    by (cases "PrivateKey_FromMaybeZeroHex zero32 (hex_encode sk)") (simp add: handleDeviceLine_def set_private_key_def ipc_ok_def)
  from set_line [OF _ _ this] d' show ?thesis by fastforce
qed

text \<open>The text that is written of a configuration without peers sets the private key and gives a device that has no
  settings yet those of the configuration: the junk, the paddings, the headers and the signature packets.\<close>

theorem outline_config_applied:
  assumes "StdEncoding_DecodeString key = Some sk" "length sk = 32" "settings_ok d" "\<forall>c \<in> set (ipackets d). chain_said c"
    and "no_settings d0" "keyMap d0 = []"
  shows "\<exists>text d1. genIpcString (config_of key d) = Some text \<and>
    SetPrivateKey C N (snd (PrivateKey_FromMaybeZeroHex zero32 (hex_encode sk))) d0 = Some d1 \<and>
    IpcSet C N text d0 = Some (None, copy_settings d d1)"
proof -
  note S = settings_okD [OF assms(3)]
  let ?l = "setting ''private_key'' (hex_encode sk)"
  have t: "genIpcString (config_of key d) = Some (join_lines ?l (setting_lines d))"
    by (rule genIpcString_settings [OF assms(1) S(13) assms(4)])
  have ne: "\<forall>l \<in> set (setting_lines d). l \<noteq> []"
    by (auto simp: setting_lines_def setting_nonempty setting_nonempty [symmetric] chain_lines_def chain_item_def dest!: set_unless split: option.splits)
  have scan: "scan_lines (join_lines ?l (setting_lines d)) = (?l # setting_lines d, False)"
    using plain_settings [OF assms(3)] ne by (intro scan_join hex_plain assms(2)) (auto simp: setting_nonempty)
  obtain d1 where d1: "SetPrivateKey C N (snd (PrivateKey_FromMaybeZeroHex zero32 (hex_encode sk))) d0 = Some d1" "no_settings d1"
    "set_lines C N False (?l # setting_lines d) True new_ipcSetPeer d0 = set_lines C N False (setting_lines d) True new_ipcSetPeer d1"
    using set_key_line [OF assms(2,6)] assms(5) by metis
  have "IpcSet C N (join_lines ?l (setting_lines d)) d0 = Some (None, copy_settings d d1)"
    unfolding IpcSet_def scan Let_def prod.case d1(3) set_settings [OF assms(3) d1(2)] by (rule finish_settings [OF assms(3)])
  then show ?thesis using t d1(1) by blast
qed

text \<open>A configuration with the example's settings and the key of 32 bytes 1, in base 64.\<close>

definition example_key :: string where
  "example_key = ''AQEBAQEBAQEBAQEBAQEBAQEBAQEBAQEBAQEBAQEBAQE=''"

lemma example_key_decodes: "StdEncoding_DecodeString example_key = Some (replicate 32 1)"
  by code_simp

theorem outline_config_applied_witness:
  "\<exists>text d1. genIpcString (config_of example_key example_device) = Some text \<and>
    IpcSet toy_crypto some_net text zero_Device = Some (None, copy_settings example_device d1)"
proof -
  have "\<forall>c \<in> set (ipackets example_device). chain_said c"
    by (simp add: example_device_def chain_said_def example_chain_def)
  moreover have "keyMap zero_Device = []" by (simp add: zero_Device_def)
  ultimately show ?thesis
    using outline_config_applied [OF example_key_decodes _ example_settings_ok _ zero_no_settings, of toy_crypto some_net] by auto
qed

end
