(* ===== verification/Spec2Isabelle.thy ===== *)
theory Spec2Isabelle
  imports Receive_Facts Device_Facts Session_Facts Gro_Facts Native_Tun Tun_Reader Bind_Facts Uapi_Facts Netstack_Facts Route_Facts Win_Facts Outline_Facts
begin

text \<open>
  A model of the Go implementation of AmneziaWG in \<open>src/dep_build/amneziawg-tools/src\<close>, WireGuard with obfuscated headers,
  paddings, junk and signature packets, and the properties that make it correct. File names below are relative to that
  directory. The parts and how they interact:

  \<^item> A device (\<open>device/device.go\<close>) has peers, an index table, a cryptokey routing table, a TUN device and a bind of UDP
    sockets. What the TUN reader takes from the TUN device is routed to peers, staged there, encrypted under the current
    key pair with the next nonce, padded, framed and sent by the bind. What the bind receives is classified by its size and
    header into handshake messages, which pass the MACs and the rate limiter before the noise protocol consumes them, and
    transport messages, which are decrypted, passed through the replay window and the source filter, and written to the TUN
    device. Timers retry, keep alive and erase keys. The configuration protocol sets all of it up.

  The goroutines are modelled as operations on one record \<open>Device\<close> (\<open>Device_State\<close>), in any order: a channel is a list in it,
  the lock of a structure makes an operation atomic. Pools, logging and reference counting are left out; a buffer is the byte
  string it holds. Randomness is a stream in the device, time a field that the environment moves. A panic, and an operation
  that does not return, is \<open>None\<close>; errors are values.

  Foundations:
  \<^item> \<open>Prelude\<close>: machine integers as words, byte strings, Go slices and division, base 64. \<open>Go_Text\<close>, \<open>Netip\<close>: what is used of
    \<open>strconv\<close>, \<open>strings\<close>, \<open>encoding/hex\<close>, \<open>net/netip\<close> and \<open>bufio\<close>. \<open>Ip_Bits\<close>, \<open>Pieces\<close>: bits of addresses; cutting byte strings.

  Components without a device:
  \<^item> \<open>Replay\<close> (\<open>replay/replay.go\<close>): the ring of blocks refines a sliding window.
  \<^item> \<open>Tai64n\<close>, \<open>Ratelimiter\<close>: time stamps keep the order of times up to the whitening; token buckets bound the rate of a source,
    and collecting idle ones is invisible.
  \<^item> \<open>Magic_Header\<close>, \<open>Obf\<close>: ranges of headers and chains of obfuscators (\<open>device/magic-header.go\<close>, \<open>device/obf*.go\<close>): parsing,
    printing, drawing; round trips, and the inputs that panic.
  \<^item> \<open>Allowed_IPs\<close> (\<open>device/allowedips.go\<close>): after any history the trie answers as longest prefix match over an abstract table.
  \<^item> \<open>Noise_Crypto\<close>, \<open>Cookie\<close> (\<open>device/noise-helpers.go\<close>, \<open>device/noise-types.go\<close>, \<open>device/cookie.go\<close>): key derivation and both
    MACs over primitives that are a parameter, the record \<open>crypto\<close>. What is assumed of them is \<open>crypto_ok\<close>: lengths, that
    Diffie-Hellman commutes and that opening inverts sealing; \<open>toy_crypto\<close> shows that it can hold.

  The device:
  \<^item> \<open>Device_State\<close>, \<open>Noise_Protocol\<close>, \<open>Sessions\<close>: the state, the four handshake operations, key pairs and the index table
    (\<open>device/noise-protocol.go\<close>, \<open>device/indextable.go\<close>, \<open>device/keypair.go\<close>): both ends agree, initiations are not replayed,
    the table holds exactly what is live.
  \<^item> \<open>Timers\<close>, \<open>Send\<close>, \<open>Tun_Reader\<close>, \<open>Receive\<close>, \<open>Device_Life\<close>, \<open>Uapi\<close> (\<open>device/timers.go\<close>, \<open>device/send.go\<close>, \<open>device/receive.go\<close>,
    \<open>device/device.go\<close>, \<open>device/peer.go\<close>, \<open>device/tun.go\<close>, \<open>device/uapi.go\<close>): the operations.
  \<^item> \<open>Send_Facts\<close>, \<open>Sending\<close>, \<open>Nonces\<close>: no nonce is used twice with a key; bounds on retries and rates. \<open>Receive_Facts\<close>,
    \<open>Source_Filter\<close>, \<open>Session_Facts\<close>: what is framed is classified and decrypted to what was sent; only packets with routed
    sources reach the TUN device, each once; shedding of load; the staged packets leave with a new session.
  \<^item> \<open>Device_Frames\<close>, \<open>Device_Facts\<close>: an abstract life of the device that every operation follows, and its invariant in all
    reachable states. \<open>Uapi_Facts\<close>: what a get operation prints a set operation reads.

  The edges:
  \<^item> \<open>Checksum\<close>, \<open>Gso\<close>, \<open>Gso_Facts\<close>, \<open>Gro\<close>, \<open>Gro_Items\<close>, \<open>Gro_Tables\<close>, \<open>Gro_Batch\<close>, \<open>Gro_Facts\<close>, \<open>Native_Tun\<close> (\<open>tun/checksum.go\<close>,
    \<open>tun/offload_linux.go\<close>, \<open>tun/tun_linux.go\<close>): the unrolled checksum is that of RFC 1071; segments are cut into valid packets; the
    packets of a batch reach the kernel once, alone or joined so that it cuts them into the same payloads.
  \<^item> \<open>Bind_Std\<close>, \<open>Bind_Facts\<close> (\<open>conn/bind_std.go\<close> and the files of Linux beside it): joining and cutting datagrams, opening, sending.
    \<open>Win_Ring\<close>, \<open>Win_Facts\<close> (\<open>conn/bind_windows.go\<close>): the ring as a bounded queue; nothing leaks when opening fails.
    \<open>Route_Listener\<close>, \<open>Route_Facts\<close> (\<open>device/sticky_linux.go\<close>): what the netlink messages can change.
  \<^item> \<open>Netstack\<close>, \<open>Netstack_Facts\<close> (\<open>tun/netstack/tun.go\<close>): names, DNS answers, dialling over a user space network.
    \<open>Outline\<close>, \<open>Outline_Facts\<close> (\<open>outline\<close>): a configuration of the Outline SDK and the text that is written of it.

  Loops that may not end are partial functions with values in \<open>option\<close>; where a theorem says that an operation returns, it says
  that the value is \<open>Some\<close>. There is no fuel, except the retries that the code itself bounds (the ports tried by the bind, the
  spins of the Windows receiver, the ten failing reads of \<open>RoutineReceiveIncoming\<close>). Word widths are those of the code; \<open>int\<close>
  stands for Go's \<open>int\<close> where the code cannot reach its bounds, and reads and parses check them.

  Parameters, as their code is not in the repository: the cryptographic primitives; the system calls of the sockets, the TUN device
  and registered I/O; the parser of control messages; gVisor and \<open>dnsmessage\<close>. The orders in which maps are walked through are
  parameters too.

  Not modelled: the memory of pools and reference counts; the races inside one locked operation; the TUN devices of other systems
  than Linux and most of their set-up, which are system calls; the UAPI listeners and named pipes, which move bytes; \<open>IpcHandle\<close>,
  the loop over a socket around the two operations, whose scanner reads ahead of the operation it parses; cancelling reads; the
  command line programs; and the Python and QML client, which is in other languages.
\<close>

end
